(* ===== verification/Gw_Prelude.thy ===== *)
theory Gw_Prelude
  imports Complex_Main "HOL-Library.AList"
begin

text \<open>
  Shared vocabulary of the development.

  \<^item> Python strings are \<^typ>\<open>string\<close>: a \<^typ>\<open>char\<close> is one code point of the Latin-1 range,
    the range in which the ASGI server decodes HTTP header values.
  \<^item> Python dictionaries are association lists with distinct keys, in insertion order:
    \<open>map_of\<close> reads, \<open>AList.update\<close> writes in place or appends, \<open>upd_entry\<close> mutates the
    object stored under a key.
  \<^item> Object identity is a heap: a list whose indices are the addresses; allocation appends.
  \<^item> A call that mutates an object and may raise is \<open>'s \<Rightarrow> ('e + 'a) \<times> 's\<close>: an exception does not
    roll the state back, exactly as in Python.
  \<^item> Interfaces shared by several components are locales: an invariant of a transition system
    (\<open>inv_system\<close>) and a ledger of idempotently releasable leases (\<open>lease_ledger\<close>).
\<close>

named_theorems gw_defs \<open>definitions of the small state updates, to be unfolded together\<close>

section \<open>State and exceptions\<close>

type_synonym ('s, 'e, 'a) effect = "'s \<Rightarrow> ('e + 'a) \<times> 's"

definition and_then :: "('e + 'a) \<times> 's \<Rightarrow> ('a \<Rightarrow> 's \<Rightarrow> ('e + 'b) \<times> 's) \<Rightarrow> ('e + 'b) \<times> 's" where
  "and_then r k = (case r of (Inl e, s) \<Rightarrow> (Inl e, s) | (Inr x, s) \<Rightarrow> k x s)"

lemma and_then_simps [simp]:
  "and_then (Inl e, s) k = (Inl e, s)"
  "and_then (Inr x, s) k = k x s"
  by (simp_all add: and_then_def)

lemma and_then_cases:
  assumes "and_then r k = (res, s')"
  obtains (raised) e where "r = (Inl e, s')" and "res = Inl e"
    | (returned) x s1 where "r = (Inr x, s1)" and "k x s1 = (res, s')"
  using assms by (cases r; cases "fst r") auto

section \<open>Python strings\<close>

definition code_point :: "char \<Rightarrow> nat" where
  "code_point c = of_char c"

text \<open>\<open>str.isspace\<close> on the Latin-1 range; \<open>str.strip()\<close> removes the same characters.\<close>

definition py_isspace :: "char \<Rightarrow> bool" where
  "py_isspace c = (let n = code_point c in
     9 \<le> n \<and> n \<le> 13 \<or> 28 \<le> n \<and> n \<le> 32 \<or> n = 133 \<or> n = 160)"

definition py_isascii :: "string \<Rightarrow> bool" where
  "py_isascii s = list_all (\<lambda>c. code_point c < 128) s"

definition py_strip :: "string \<Rightarrow> string" where
  "py_strip s = rev (dropWhile py_isspace (rev (dropWhile py_isspace s)))"

definition py_lower_char :: "char \<Rightarrow> char" where
  "py_lower_char c = (let n = code_point c in if 65 \<le> n \<and> n \<le> 90 then char_of (n + 32) else c)"

text \<open>\<open>s.split(sep)\<close> for a one-character separator: never the empty list.\<close>

fun py_split :: "char \<Rightarrow> string \<Rightarrow> string list" where
  "py_split sep [] = [[]]"
| "py_split sep (c # cs) =
     (if c = sep then [] # py_split sep cs
      else case py_split sep cs of [] \<Rightarrow> [[c]] | w # ws \<Rightarrow> (c # w) # ws)"

lemma py_split_not_Nil [simp]: "py_split sep s \<noteq> []"
  by (induction s) (auto split: list.splits)

lemma py_strip_blank: "py_strip s = [] \<longleftrightarrow> (\<forall>c\<in>set s. py_isspace c)"
proof -
  have "py_strip s = [] \<longleftrightarrow> (\<forall>c\<in>set (dropWhile py_isspace s). py_isspace c)"
    by (simp add: py_strip_def)
  also have "\<dots> \<longleftrightarrow> (\<forall>c\<in>set s. py_isspace c)"
  proof
    assume *: "\<forall>c\<in>set (dropWhile py_isspace s). py_isspace c"
    show "\<forall>c\<in>set s. py_isspace c"
    proof (cases "dropWhile py_isspace s = []")
      case True
      then show ?thesis by simp
    next
      case False
      then have "\<not> py_isspace (hd (dropWhile py_isspace s))"
        by (rule hd_dropWhile)
      with * False show ?thesis by (metis list.set_sel(1))
    qed
  qed (auto dest: set_dropWhileD)
  finally show ?thesis .
qed

lemma py_split_no_sep: "sep \<notin> set w \<Longrightarrow> py_split sep w = [w]"
  by (induction w) auto

lemma py_split_append_sep: "sep \<notin> set w \<Longrightarrow> py_split sep (w @ sep # s) = w # py_split sep s"
  by (induction w) auto

lemma py_split_join:
  "py_split sep s = ws \<Longrightarrow> s = concat (map (\<lambda>w. w @ [sep]) (butlast ws)) @ last ws"
proof (induction s arbitrary: ws)
  case Nil
  then show ?case by auto
next
  case (Cons c cs)
  show ?case
  proof (cases "c = sep")
    case True
    with Cons show ?thesis by auto
  next
    case False
    obtain w ws' where *: "py_split sep cs = w # ws'"
      by (cases "py_split sep cs") auto
    with False Cons.prems have ws: "ws = (c # w) # ws'" by simp
    have "cs = concat (map (\<lambda>w. w @ [sep]) (butlast (w # ws'))) @ last (w # ws')"
      by (rule Cons.IH [OF *])
    then show ?thesis using ws by (cases ws') auto
  qed
qed

section \<open>Dictionaries\<close>

text \<open>Lookups stay lookups: the simplifier does not turn them into list membership.\<close>

declare map_of_eq_Some_iff [simp del] Some_eq_map_of_iff [simp del]

text \<open>Mutating the object a dictionary holds under a key, which stays in its place.\<close>

fun upd_entry :: "'k \<Rightarrow> ('v \<Rightarrow> 'v) \<Rightarrow> ('k \<times> 'v) list \<Rightarrow> ('k \<times> 'v) list" where
  "upd_entry k f [] = []"
| "upd_entry k f ((k', v) # ps) = (if k' = k then (k', f v) # ps else (k', v) # upd_entry k f ps)"

lemma map_of_upd_entry [simp]:
  "map_of (upd_entry k f ps) k' =
     (if k' = k then map_option f (map_of ps k) else map_of ps k')"
  by (induction k f ps rule: upd_entry.induct) auto

lemma keys_upd_entry [simp]: "map fst (upd_entry k f ps) = map fst ps"
  by (induction k f ps rule: upd_entry.induct) auto

lemma length_upd_entry [simp]: "length (upd_entry k f ps) = length ps"
  by (metis keys_upd_entry length_map)

lemma fst_set_upd_entry [simp]: "fst ` set (upd_entry k f ps) = fst ` set ps"
  by (metis keys_upd_entry list.set_map)

lemma upd_entry_absent: "map_of ps k = None \<Longrightarrow> upd_entry k f ps = ps"
  by (induction k f ps rule: upd_entry.induct) (auto split: if_splits)

lemma upd_entry_same: "map_of ps k = Some v \<Longrightarrow> f v = v \<Longrightarrow> upd_entry k f ps = ps"
  by (induction k f ps rule: upd_entry.induct) (auto split: if_splits)

lemma upd_entry_comp: "upd_entry k f (upd_entry k g ps) = upd_entry k (f \<circ> g) ps"
  by (induction k g ps rule: upd_entry.induct) auto

lemma upd_entry_cong: "map_of ps k = Some v \<Longrightarrow> f v = g v \<Longrightarrow> upd_entry k f ps = upd_entry k g ps"
  by (induction k f ps rule: upd_entry.induct) (auto split: if_splits)

lemma sum_list_upd_entry:
  fixes f :: "'v \<Rightarrow> 'n :: ab_group_add"
  assumes "map_of ps k = Some v"
  shows "(\<Sum>p\<leftarrow>upd_entry k g ps. f (snd p)) = (\<Sum>p\<leftarrow>ps. f (snd p)) + f (g v) - f v"
  using assms
  by (induction k g ps rule: upd_entry.induct) (auto simp: algebra_simps split: if_splits)

lemma sum_list_upd_entry_nat:
  fixes f :: "'v \<Rightarrow> nat"
  assumes "map_of ps k = Some v"
  shows "(\<Sum>p\<leftarrow>upd_entry k g ps. f (snd p)) + f v = (\<Sum>p\<leftarrow>ps. f (snd p)) + f (g v)"
  using assms
  by (induction k g ps rule: upd_entry.induct) (auto split: if_splits)

text \<open>Building a dictionary by insertion: nothing was overwritten iff every key was fresh.\<close>

lemma length_dict_update:
  "length (AList.update k v d) = (if k \<in> fst ` set d then length d else Suc (length d))"
  by (induction d) auto

lemma dict_update_fresh: "k \<notin> fst ` set d \<Longrightarrow> AList.update k v d = d @ [(k, v)]"
  by (induction d) auto

lemma length_fold_update_le:
  "length (fold (\<lambda>t d. AList.update (f t) (g t) d) xs d) \<le> length d + length xs"
proof (induction xs arbitrary: d)
  case (Cons y ys)
  have "length (AList.update (f y) (g y) d) \<le> Suc (length d)" by (simp add: length_dict_update)
  with Cons.IH [of "AList.update (f y) (g y) d"] show ?case by simp
qed simp

lemma fold_update_fresh:
  "length (fold (\<lambda>t d. AList.update (f t) (g t) d) xs d) = length d + length xs \<Longrightarrow>
   fold (\<lambda>t d. AList.update (f t) (g t) d) xs d = d @ map (\<lambda>t. (f t, g t)) xs"
proof (induction xs arbitrary: d)
  case (Cons x xs)
  have "length (AList.update (f x) (g x) d) = Suc (length d)"
    using length_fold_update_le [of f g xs "AList.update (f x) (g x) d"] Cons.prems
    by (simp add: length_dict_update split: if_splits)
  then have "f x \<notin> fst ` set d" by (auto simp: length_dict_update split: if_splits)
  then show ?case
    using Cons.prems Cons.IH [of "d @ [(f x, g x)]"] by (simp add: dict_update_fresh)
qed simp

lemma fold_update_distinct:
  "distinct (map fst d) \<Longrightarrow> distinct (map fst (fold (\<lambda>t d. AList.update (f t) (g t) d) xs d))"
  by (induction xs arbitrary: d) (simp_all add: distinct_update)

section \<open>Heaps and sums\<close>

lemma sum_list_update_int:
  fixes f :: "'a \<Rightarrow> int"
  assumes "i < length xs"
  shows "(\<Sum>x\<leftarrow>xs[i := v]. f x) = (\<Sum>x\<leftarrow>xs. f x) + f v - f (xs ! i)"
  using assms
proof (induction xs arbitrary: i)
  case (Cons x xs)
  then show ?case by (cases i) auto
qed simp

lemma sum_list_nonneg_int:
  fixes f :: "'a \<Rightarrow> int"
  shows "(\<And>x. x \<in> set xs \<Longrightarrow> 0 \<le> f x) \<Longrightarrow> 0 \<le> (\<Sum>x\<leftarrow>xs. f x)"
  by (induction xs) (auto simp: add_nonneg_nonneg)

lemma sum_list_member_le_int:
  fixes f :: "'a \<Rightarrow> int"
  assumes "\<And>x. x \<in> set xs \<Longrightarrow> 0 \<le> f x" and "y \<in> set xs"
  shows "f y \<le> (\<Sum>x\<leftarrow>xs. f x)"
  using assms
proof (induction xs)
  case (Cons x xs)
  have "0 \<le> (\<Sum>x\<leftarrow>xs. f x)" using Cons.prems by (intro sum_list_nonneg_int) auto
  with Cons show ?case by (fastforce intro: add_increasing)
qed simp

lemma sum_list_cong_set:
  "(\<And>x. x \<in> set xs \<Longrightarrow> f x = g x) \<Longrightarrow> (\<Sum>x\<leftarrow>xs. f x) = (\<Sum>x\<leftarrow>xs. g x)"
  by (metis map_eq_conv)

section \<open>Interfaces\<close>

text \<open>
  An invariant of a transition system: it holds initially and every step keeps it, so it
  holds after any number of steps.
\<close>

locale inv_system =
  fixes start :: "'s \<Rightarrow> bool"
    and step :: "'s \<Rightarrow> 's \<Rightarrow> bool"
    and inv :: "'s \<Rightarrow> bool"
  assumes start_inv: "start s \<Longrightarrow> inv s"
    and step_inv: "inv s \<Longrightarrow> step s t \<Longrightarrow> inv t"
begin

lemma steps_inv: "step\<^sup>*\<^sup>* s t \<Longrightarrow> inv s \<Longrightarrow> inv t"
  by (induction rule: rtranclp_induct) (auto intro: step_inv)

lemma reachable_inv: "start s \<Longrightarrow> step\<^sup>*\<^sup>* s t \<Longrightarrow> inv t"
  by (blast intro: start_inv steps_inv)

end

text \<open>
  A ledger of leases: \<open>live\<close> are the leases not yet released, \<open>weight\<close> what each one
  holds, \<open>load\<close> what is held in total. Releasing a live lease gives its weight back and
  releasing it again does nothing. Whatever the order and however often leases are
  released, each one is given back once.
\<close>

locale lease_ledger =
  fixes inv :: "'s \<Rightarrow> bool"
    and live :: "'s \<Rightarrow> 'l set"
    and weight :: "'s \<Rightarrow> 'l \<Rightarrow> int"
    and load :: "'s \<Rightarrow> int"
    and release :: "'l \<Rightarrow> 's \<Rightarrow> 's"
  assumes release_inv: "inv s \<Longrightarrow> inv (release l s)"
    and release_live: "inv s \<Longrightarrow> live (release l s) = live s - {l}"
    and release_load: "inv s \<Longrightarrow> load (release l s) = load s - (if l \<in> live s then weight s l else 0)"
    and release_weight: "inv s \<Longrightarrow> weight (release l s) = weight s"
    and live_finite: "inv s \<Longrightarrow> finite (live s)"
begin

lemma fold_release_inv: "inv s \<Longrightarrow> inv (fold release ls s)"
  by (induction ls arbitrary: s) (auto intro: release_inv)

lemma fold_release_live: "inv s \<Longrightarrow> live (fold release ls s) = live s - set ls"
  by (induction ls arbitrary: s) (auto simp: release_live release_inv)

lemma fold_release_weight: "inv s \<Longrightarrow> weight (fold release ls s) = weight s"
  by (induction ls arbitrary: s) (auto simp: release_weight release_inv)

lemma fold_release_load:
  "inv s \<Longrightarrow> load (fold release ls s) = load s - (\<Sum>l\<in>live s \<inter> set ls. weight s l)"
proof (induction ls arbitrary: s)
  case Nil
  then show ?case by simp
next
  case (Cons l ls)
  have fin: "finite (live s)" using Cons.prems by (rule live_finite)
  have IH: "load (fold release ls (release l s)) =
      load (release l s) - (\<Sum>x\<in>live (release l s) \<inter> set ls. weight (release l s) x)"
    using Cons.prems by (intro Cons.IH release_inv)
  have rest: "(live s - {l}) \<inter> set ls = (live s \<inter> set (l # ls)) - {l}" by auto
  show ?case
  proof (cases "l \<in> live s")
    case True
    then have "(\<Sum>x\<in>live s \<inter> set (l # ls). weight s x) =
        weight s l + (\<Sum>x\<in>(live s - {l}) \<inter> set ls. weight s x)"
      unfolding rest using fin by (subst sum.remove [of _ l]) auto
    with IH True Cons.prems show ?thesis
      by (simp add: release_load release_live release_weight)
  next
    case False
    then have "live s \<inter> set (l # ls) = (live s - {l}) \<inter> set ls" by auto
    with IH False Cons.prems show ?thesis
      by (simp add: release_load release_live release_weight)
  qed
qed

lemma release_twice: "inv s \<Longrightarrow> load (release l (release l s)) = load (release l s)"
  by (simp add: release_load release_live release_inv)

lemma release_all_load:
  assumes "inv s" and "live s \<subseteq> set ls"
  shows "load (fold release ls s) = load s - (\<Sum>l\<in>live s. weight s l)"
  using assms fold_release_load [of s ls] by (simp add: Int_absorb2)

end

end
