(* ===== verification/Gw_Json.thy ===== *)
theory Gw_Json
  imports Gw_Prelude
begin

text \<open>
  JSON values as Python's \<open>json\<close> module and pydantic represent them: a JSON object is a
  dictionary (an association list with distinct keys), and \<open>True\<close> is an \<open>int\<close> for
  \<open>isinstance\<close> but not a JSON integer, so the source tests \<open>isinstance(x, int) and not
  isinstance(x, bool)\<close>: exactly the constructor \<open>JInt\<close>. A Python float is a real number
  here: rounding, NaN and the infinities are outside the model.
\<close>

datatype json =
    JNull
  | JBool bool
  | JInt int
  | JFloat real
  | JStr string
  | JList "json list"
  | JObj "(string \<times> json) list"

type_synonym json_dict = "(string \<times> json) list"

fun json_ok :: "json \<Rightarrow> bool" where
  "json_ok (JList xs) = list_all json_ok xs"
| "json_ok (JObj kvs) = (distinct (map fst kvs) \<and> list_all (\<lambda>kv. json_ok (snd kv)) kvs)"
| "json_ok _ = True"

text \<open>\<open>d.get(k)\<close>, with Python's \<open>None\<close> the JSON null for an absent key.\<close>

definition dict_get :: "json_dict \<Rightarrow> string \<Rightarrow> json" where
  "dict_get d k = (case map_of d k of Some v \<Rightarrow> v | None \<Rightarrow> JNull)"

definition has_key :: "string \<Rightarrow> json_dict \<Rightarrow> bool" where
  "has_key k d = (map_of d k \<noteq> None)"

text \<open>
  The classification of authoritative token usage that three places of the source spell
  out: the vLLM batch demultiplexer, the SSE observer and the non-streaming metrics.
\<close>

datatype usage_result = Observed | Missing | Invalid

definition classify_usage :: "json_dict \<Rightarrow> usage_result \<times> int option" where
  "classify_usage payload =
     (if \<not> has_key ''usage'' payload then (Missing, None)
      else case dict_get payload ''usage'' of
        JObj usage \<Rightarrow>
          (if \<not> has_key ''completion_tokens'' usage then (Invalid, None)
           else case dict_get usage ''completion_tokens'' of
             JInt n \<Rightarrow> if n < 0 then (Invalid, None) else (Observed, Some n)
           | _ \<Rightarrow> (Invalid, None))
      | _ \<Rightarrow> (Invalid, None))"

lemma has_key_dict_get: "has_key k d \<longleftrightarrow> (\<exists>v. map_of d k = Some v)"
  by (auto simp: has_key_def)

lemma classify_usage_observed_iff:
  "classify_usage p = (Observed, t) \<longleftrightarrow>
     (\<exists>u n. map_of p ''usage'' = Some (JObj u) \<and> map_of u ''completion_tokens'' = Some (JInt n) \<and>
        0 \<le> n \<and> t = Some n)"
  by (auto simp: classify_usage_def has_key_def dict_get_def split: json.splits if_splits option.splits)

lemma classify_usage_missing_iff:
  "classify_usage p = (Missing, t) \<longleftrightarrow> map_of p ''usage'' = None \<and> t = None"
  by (auto simp: classify_usage_def has_key_def dict_get_def split: json.splits if_splits option.splits)

lemma classify_usage_tokens:
  "classify_usage p = (r, t) \<Longrightarrow> (t \<noteq> None \<longleftrightarrow> r = Observed) \<and> (\<forall>n. t = Some n \<longrightarrow> 0 \<le> n)"
  by (auto simp: classify_usage_def split: json.splits if_splits)

end
