(* ===== verification/Gw_Errors.thy ===== *)
theory Gw_Errors
  imports Gw_Json
begin

text \<open>
  \<open>gateway/core/errors.py\<close>: the exception classes with their inherited attributes, the
  Python exceptions the modelled code raises or catches, and the stable error response.
\<close>

datatype error_class =
    GatewayError
  | ConfigurationError
  | BackendError
  | InvalidRequestError
  | BackendUnavailableError
  | NoHealthyBackendError
  | BackendTimeoutError
  | BackendProtocolError
  | BackendHTTPError
  | BackendConfigurationError
  | BackendRequestRejectedError
  | BackendCapabilityError
  | UnauthorizedError
  | TenantQueueFullError
  | GatewayQueueFullError
  | AdmissionTimeoutError
  | AdmissionUnavailableError
  | BatchingUnavailableError

fun class_base :: "error_class \<Rightarrow> error_class option" where
  "class_base GatewayError = None"
| "class_base BackendUnavailableError = Some BackendError"
| "class_base NoHealthyBackendError = Some BackendError"
| "class_base BackendTimeoutError = Some BackendError"
| "class_base BackendProtocolError = Some BackendError"
| "class_base BackendHTTPError = Some BackendError"
| "class_base BackendConfigurationError = Some BackendError"
| "class_base BackendRequestRejectedError = Some BackendError"
| "class_base BackendCapabilityError = Some BackendError"
| "class_base _ = Some GatewayError"

fun class_code :: "error_class \<Rightarrow> string" where
  "class_code GatewayError = ''gateway_error''"
| "class_code ConfigurationError = ''configuration_error''"
| "class_code BackendError = ''backend_error''"
| "class_code InvalidRequestError = ''invalid_request''"
| "class_code BackendUnavailableError = ''backend_unavailable''"
| "class_code NoHealthyBackendError = ''no_healthy_backend''"
| "class_code BackendTimeoutError = ''backend_timeout''"
| "class_code BackendProtocolError = ''backend_protocol_error''"
| "class_code BackendHTTPError = ''backend_http_error''"
| "class_code BackendConfigurationError = ''backend_configuration_error''"
| "class_code BackendRequestRejectedError = ''backend_request_rejected''"
| "class_code BackendCapabilityError = ''backend_capability_unsupported''"
| "class_code UnauthorizedError = ''unauthorized''"
| "class_code TenantQueueFullError = ''tenant_queue_full''"
| "class_code GatewayQueueFullError = ''gateway_queue_full''"
| "class_code AdmissionTimeoutError = ''admission_timeout''"
| "class_code AdmissionUnavailableError = ''admission_unavailable''"
| "class_code BatchingUnavailableError = ''batching_unavailable''"

fun class_default_message :: "error_class \<Rightarrow> string" where
  "class_default_message GatewayError = ''Gateway request failed''"
| "class_default_message ConfigurationError = ''Gateway configuration is invalid''"
| "class_default_message BackendError = ''Inference backend failed''"
| "class_default_message InvalidRequestError = ''Invalid chat completion request''"
| "class_default_message BackendUnavailableError = ''Inference backend is unavailable''"
| "class_default_message NoHealthyBackendError = ''No healthy inference backend is available''"
| "class_default_message BackendTimeoutError = ''Inference backend timed out''"
| "class_default_message BackendProtocolError = ''Inference backend returned an invalid response''"
| "class_default_message BackendHTTPError = ''Inference backend request failed''"
| "class_default_message BackendConfigurationError = ''Inference backend configuration was rejected''"
| "class_default_message BackendRequestRejectedError = ''Inference backend rejected the request''"
| "class_default_message BackendCapabilityError = ''Inference backend capability is not supported''"
| "class_default_message UnauthorizedError = ''Invalid or missing tenant credentials''"
| "class_default_message TenantQueueFullError = ''Tenant admission queue is full''"
| "class_default_message GatewayQueueFullError = ''Gateway admission queue is full''"
| "class_default_message AdmissionTimeoutError = ''Timed out waiting for inference admission''"
| "class_default_message AdmissionUnavailableError = ''Inference admission is unavailable''"
| "class_default_message BatchingUnavailableError = ''Dynamic batching is unavailable''"

text \<open>The \<open>status_code\<close> a class body sets itself; the others inherit it.\<close>

fun own_status :: "error_class \<Rightarrow> int option" where
  "own_status GatewayError = Some 500"
| "own_status BackendError = Some 502"
| "own_status InvalidRequestError = Some 400"
| "own_status BackendUnavailableError = Some 503"
| "own_status NoHealthyBackendError = Some 503"
| "own_status BackendTimeoutError = Some 504"
| "own_status BackendRequestRejectedError = Some 400"
| "own_status BackendCapabilityError = Some 501"
| "own_status UnauthorizedError = Some 401"
| "own_status TenantQueueFullError = Some 429"
| "own_status GatewayQueueFullError = Some 429"
| "own_status AdmissionTimeoutError = Some 429"
| "own_status AdmissionUnavailableError = Some 503"
| "own_status BatchingUnavailableError = Some 503"
| "own_status _ = None"

fun class_depth :: "error_class \<Rightarrow> nat" where
  "class_depth c = (case class_base c of None \<Rightarrow> 0 | Some b \<Rightarrow> if b = GatewayError then 1 else 2)"

text \<open>Attribute lookup along the bases.\<close>

function class_status :: "error_class \<Rightarrow> int" where
  "class_status c = (case own_status c of
      Some st \<Rightarrow> st
    | None \<Rightarrow> (case class_base c of Some b \<Rightarrow> class_status b | None \<Rightarrow> 500))"
  by pat_completeness auto
termination
proof (relation "measure class_depth")
  fix c b
  assume "class_base c = Some b"
  then show "(b, c) \<in> measure class_depth" by (cases c) auto
qed simp

function is_subclass :: "error_class \<Rightarrow> error_class \<Rightarrow> bool" where
  "is_subclass c d = (c = d \<or> (case class_base c of Some b \<Rightarrow> is_subclass b d | None \<Rightarrow> False))"
  by pat_completeness auto
termination
proof (relation "measure (class_depth \<circ> fst)")
  fix c d b
  assume "class_base c = Some b"
  then show "((b, d), c, d) \<in> measure (class_depth \<circ> fst)" by (cases c) auto
qed simp

declare class_status.simps [simp del] is_subclass.simps [simp del]

definition class_response_headers :: "error_class \<Rightarrow> (string \<times> string) list" where
  "class_response_headers c = (if c = UnauthorizedError then [(''WWW-Authenticate'', ''Bearer'')] else [])"

record gateway_exc =
  exc_class :: error_class
  exc_message :: string
  exc_code :: string
  exc_status :: int

text \<open>\<open>GatewayError.__init__\<close>: an empty message is falsy and falls back to the default.\<close>

definition mk_error :: "error_class \<Rightarrow> string option \<Rightarrow> string option \<Rightarrow> int option \<Rightarrow> gateway_exc" where
  "mk_error c msg cd st =
     \<lparr>exc_class = c,
      exc_message = (case msg of Some m \<Rightarrow> if m = [] then class_default_message c else m
                      | None \<Rightarrow> class_default_message c),
      exc_code = (case cd of Some k \<Rightarrow> k | None \<Rightarrow> class_code c),
      exc_status = (case st of Some n \<Rightarrow> n | None \<Rightarrow> class_status c)\<rparr>"

datatype exn =
    Gateway gateway_exc
  | RequestValidationError
  | ValueError string
  | RuntimeError string
  | KeyError
  | IndexError
  | TypeError
  | InvalidStateError
  | TimeoutError
  | CancelledError
  | OtherException string

abbreviation raised :: "error_class \<Rightarrow> exn" where
  "raised c \<equiv> Gateway (mk_error c None None None)"

text \<open>\<open>except Exception\<close> does not catch \<open>asyncio.CancelledError\<close>.\<close>

definition is_exception :: "exn \<Rightarrow> bool" where
  "is_exception e = (e \<noteq> CancelledError)"

definition is_instance :: "exn \<Rightarrow> error_class \<Rightarrow> bool" where
  "is_instance e c = (case e of Gateway x \<Rightarrow> is_subclass (exc_class x) c | _ \<Rightarrow> False)"

section \<open>The error response\<close>

record http_response =
  resp_status :: int
  resp_body :: json
  resp_headers :: "(string \<times> string) list"

text \<open>What the handlers read of the request: the context variable, the request state, the header name.\<close>

record error_context =
  ctx_request_id :: "string option"
  state_request_id :: "string option"
  request_id_header :: string

definition request_id_from :: "error_context \<Rightarrow> string option" where
  "request_id_from r = (case ctx_request_id r of
      Some i \<Rightarrow> if i = [] then state_request_id r else Some i
    | None \<Rightarrow> state_request_id r)"

definition error_payload :: "string \<Rightarrow> string \<Rightarrow> string option \<Rightarrow> json" where
  "error_payload cd msg rid =
     JObj [(''error'', JObj [(''code'', JStr cd), (''message'', JStr msg),
       (''request_id'', case rid of Some i \<Rightarrow> JStr i | None \<Rightarrow> JNull)])]"

definition error_headers :: "error_context \<Rightarrow> string option \<Rightarrow> (string \<times> string) list" where
  "error_headers r rid = (case rid of None \<Rightarrow> [] | Some i \<Rightarrow> [(request_id_header r, i)])"

definition error_response ::
  "error_context \<Rightarrow> int \<Rightarrow> string \<Rightarrow> string \<Rightarrow> (string \<times> string) list \<Rightarrow> http_response" where
  "error_response r st cd msg hs =
     (let rid = request_id_from r in
      \<lparr>resp_status = st, resp_body = error_payload cd msg rid,
       resp_headers = fold (\<lambda>(k, v) d. AList.update k v d) hs (error_headers r rid)\<rparr>)"

section \<open>Lemmas\<close>

lemma class_status_values:
  "class_status GatewayError = 500" "class_status ConfigurationError = 500"
  "class_status BackendError = 502" "class_status InvalidRequestError = 400"
  "class_status BackendUnavailableError = 503" "class_status NoHealthyBackendError = 503"
  "class_status BackendTimeoutError = 504" "class_status BackendProtocolError = 502"
  "class_status BackendHTTPError = 502" "class_status BackendConfigurationError = 502"
  "class_status BackendRequestRejectedError = 400" "class_status BackendCapabilityError = 501"
  "class_status UnauthorizedError = 401" "class_status TenantQueueFullError = 429"
  "class_status GatewayQueueFullError = 429" "class_status AdmissionTimeoutError = 429"
  "class_status AdmissionUnavailableError = 503" "class_status BatchingUnavailableError = 503"
  by (simp_all add: class_status.simps)

lemma is_subclass_refl [simp]: "is_subclass c c"
  by (subst is_subclass.simps) simp

lemma is_subclass_GatewayError [simp]: "is_subclass c GatewayError"
  by (cases c) (simp_all add: is_subclass.simps)

lemma is_subclass_BackendError:
  "is_subclass c BackendError \<longleftrightarrow> c = BackendError \<or> class_base c = Some BackendError"
  by (cases c) (simp_all add: is_subclass.simps)

lemma class_code_inj: "class_code c = class_code d \<Longrightarrow> c = d"
  by (cases c; cases d) simp_all

lemma mk_error_fields [simp]:
  "exc_class (mk_error c m k st) = c"
  "exc_code (mk_error c m None st) = class_code c"
  "exc_status (mk_error c m k None) = class_status c"
  "exc_status (mk_error c m k (Some n)) = n"
  by (simp_all add: mk_error_def)

lemma is_instance_raised [simp]: "is_instance (Gateway (mk_error c m k st)) d = is_subclass c d"
  by (simp add: is_instance_def)

lemma raised_inject [simp]: "raised c = raised d \<longleftrightarrow> c = d"
  by (metis exn.inject(1) mk_error_fields(1))

end
