(* ===== verification/Gw_Tenants.thy ===== *)
theory Gw_Tenants
  imports Gw_Errors
begin

text \<open>
  \<open>gateway/auth/tenants.py\<close>: tenant configuration, the registry of bearer credentials and
  their authentication. \<open>secrets.compare_digest\<close> on two strings is equality, and raises
  \<open>TypeError\<close> when one of them is not ASCII.
\<close>

record tenant_config =
  cfg_api_key :: string
  cfg_max_inflight :: int
  cfg_max_queue :: int

definition valid_api_key :: "string \<Rightarrow> bool" where
  "valid_api_key k \<longleftrightarrow> \<not> (k = [] \<or> \<not> py_isascii k \<or> list_ex py_isspace k)"

definition validate_tenant_config :: "tenant_config \<Rightarrow> exn + tenant_config" where
  "validate_tenant_config c =
     (if \<not> valid_api_key (cfg_api_key c)
      then Inl (ValueError ''tenant API key must be a non-empty ASCII bearer token'')
      else if \<not> cfg_max_inflight c > 0 \<or> \<not> cfg_max_queue c \<ge> 0
      then Inl (ValueError ''tenant admission limits are invalid'')
      else Inr c)"

record tenant_context =
  tenant_id :: string
  max_inflight :: int
  max_queue :: int

text \<open>The constructor runs \<open>__post_init__\<close>.\<close>

definition TenantContext :: "string \<Rightarrow> int \<Rightarrow> int \<Rightarrow> exn + tenant_context" where
  "TenantContext i f q =
     (if py_strip i = [] then Inl (ValueError ''tenant ID must not be blank'')
      else if f \<le> 0 \<or> q < 0 then Inl (ValueError ''tenant admission limits are invalid'')
      else Inr \<lparr>tenant_id = i, max_inflight = f, max_queue = q\<rparr>)"

type_synonym tenant_registry = "(string \<times> tenant_context) list"

fun TenantRegistry :: "(string \<times> tenant_config) list \<Rightarrow> exn + tenant_registry" where
  "TenantRegistry [] = Inr []"
| "TenantRegistry ((i, c) # rest) =
     (case TenantContext i (cfg_max_inflight c) (cfg_max_queue c) of
        Inl e \<Rightarrow> Inl e
      | Inr t \<Rightarrow> (case TenantRegistry rest of
          Inl e \<Rightarrow> Inl e
        | Inr entries \<Rightarrow> Inr ((cfg_api_key c, t) # entries)))"

definition registry_tenants :: "tenant_registry \<Rightarrow> tenant_context list" where
  "registry_tenants r = map snd r"

definition compare_digest :: "string \<Rightarrow> string \<Rightarrow> exn + bool" where
  "compare_digest a b = (if py_isascii a \<and> py_isascii b then Inr (a = b) else Inl TypeError)"

text \<open>\<open>parts[0].casefold() == "bearer"\<close>; no character outside ASCII folds into that word.\<close>

definition is_bearer :: "string \<Rightarrow> bool" where
  "is_bearer scheme = (map py_lower_char scheme = ''bearer'')"

definition extract_bearer_token :: "string option \<Rightarrow> exn + string" where
  "extract_bearer_token authorization = (case authorization of
      None \<Rightarrow> Inl (raised UnauthorizedError)
    | Some a \<Rightarrow>
        (case py_split (CHR 0x20) a of
           [scheme, token] \<Rightarrow>
             (if \<not> is_bearer scheme \<or> token = [] \<or> \<not> py_isascii token
                 \<or> list_ex py_isspace token
              then Inl (raised UnauthorizedError) else Inr token)
         | _ \<Rightarrow> Inl (raised UnauthorizedError)))"

text \<open>The loop scans every entry and keeps the last match.\<close>

fun authenticate_loop :: "string \<Rightarrow> tenant_context option \<Rightarrow> tenant_registry \<Rightarrow> exn + tenant_context option" where
  "authenticate_loop token matched [] = Inr matched"
| "authenticate_loop token matched ((key, t) # rest) =
     (case compare_digest token key of
        Inl e \<Rightarrow> Inl e
      | Inr b \<Rightarrow> authenticate_loop token (if b then Some t else matched) rest)"

definition authenticate :: "tenant_registry \<Rightarrow> string option \<Rightarrow> exn + tenant_context" where
  "authenticate r authorization =
     (case extract_bearer_token authorization of
        Inl e \<Rightarrow> Inl e
      | Inr token \<Rightarrow> (case authenticate_loop token None r of
          Inl e \<Rightarrow> Inl e
        | Inr None \<Rightarrow> Inl (raised UnauthorizedError)
        | Inr (Some t) \<Rightarrow> Inr t))"

definition context_ok :: "tenant_context \<Rightarrow> bool" where
  "context_ok t \<longleftrightarrow> py_strip (tenant_id t) \<noteq> [] \<and> 0 < max_inflight t \<and> 0 \<le> max_queue t"

definition registry_ok :: "tenant_registry \<Rightarrow> bool" where
  "registry_ok r \<longleftrightarrow> list_all (\<lambda>(k, t). valid_api_key k \<and> context_ok t) r"

section \<open>Lemmas\<close>

lemma TenantContext_ok: "TenantContext i f q = Inr t \<Longrightarrow> context_ok t \<and> tenant_id t = i"
  by (auto simp: TenantContext_def context_ok_def split: if_splits)

lemma TenantRegistry_ids:
  "TenantRegistry cs = Inr r \<Longrightarrow> map (tenant_id \<circ> snd) r = map fst cs \<and> map fst r = map (cfg_api_key \<circ> snd) cs"
proof (induction cs arbitrary: r)
  case (Cons ic cs)
  then show ?case
    by (cases ic) (auto split: sum.splits dest: TenantContext_ok)
qed simp

lemma TenantRegistry_ok:
  assumes "TenantRegistry cs = Inr r" and "list_all (\<lambda>(i, c). valid_api_key (cfg_api_key c)) cs"
  shows "registry_ok r"
  using assms
proof (induction cs arbitrary: r)
  case (Cons ic cs)
  then show ?case
    by (cases ic) (auto simp: registry_ok_def split: sum.splits dest: TenantContext_ok)
qed (simp add: registry_ok_def)

lemma valid_key_ascii: "valid_api_key k \<Longrightarrow> py_isascii k"
  by (simp add: valid_api_key_def)

text \<open>On valid keys the loop never raises and returns the last entry whose key is the token.\<close>

lemma authenticate_loop_eq:
  assumes "registry_ok r" and "py_isascii token"
  shows "authenticate_loop token m r =
    Inr (case map_of (rev r) token of Some t \<Rightarrow> Some t | None \<Rightarrow> m)"
  using assms
proof (induction r arbitrary: m)
  case (Cons kt r)
  obtain key t where kt: "kt = (key, t)" by (cases kt)
  from Cons.prems kt have "registry_ok r" and "py_isascii key"
    by (auto simp: registry_ok_def valid_key_ascii)
  with Cons.IH Cons.prems(2) kt show ?case
    by (auto simp: compare_digest_def map_of_append split: option.splits)
qed simp

lemma bearer_split:
  assumes "py_split (CHR 0x20) a = [scheme, token]"
  shows "a = scheme @ CHR 0x20 # token"
  using py_split_join [OF assms] by simp

lemma space_is_space: "py_isspace (CHR 0x20)"
  by (simp add: py_isspace_def code_point_def)

lemma extract_bearer_token_iff:
  "extract_bearer_token h = Inr token \<longleftrightarrow>
     (\<exists>scheme. h = Some (scheme @ CHR 0x20 # token) \<and> is_bearer scheme \<and>
       valid_api_key token)"
  (is "?L \<longleftrightarrow> ?R")
proof
  assume L: ?L
  then obtain a where h: "h = Some a"
    by (auto simp: extract_bearer_token_def split: option.splits)
  have "\<exists>scheme tk. py_split (CHR 0x20) a = [scheme, tk]"
  proof (rule ccontr)
    assume *: "\<not> (\<exists>scheme tk. py_split (CHR 0x20) a = [scheme, tk])"
    then have "extract_bearer_token h = Inl (raised UnauthorizedError)"
      unfolding extract_bearer_token_def h by (simp split: list.split)
    with L show False by simp
  qed
  then obtain scheme tk where sp: "py_split (CHR 0x20) a = [scheme, tk]" by blast
  from L have "tk = token" "is_bearer scheme" "valid_api_key token"
    by (simp_all add: extract_bearer_token_def h sp valid_api_key_def split: if_splits)
  with h bearer_split [OF sp] show ?R by blast
next
  assume ?R
  then obtain scheme where h: "h = Some (scheme @ CHR 0x20 # token)"
    and b: "is_bearer scheme" and v: "valid_api_key token" by blast
  have "CHR 0x20 \<notin> set scheme"
  proof
    assume "CHR 0x20 \<in> set scheme"
    then have "py_lower_char (CHR 0x20) \<in> set (map py_lower_char scheme)" by auto
    with b show False by (simp add: is_bearer_def py_lower_char_def code_point_def)
  qed
  moreover have "CHR 0x20 \<notin> set token"
    using v space_is_space by (auto simp: valid_api_key_def list_ex_iff)
  ultimately have "py_split (CHR 0x20) (scheme @ CHR 0x20 # token) = [scheme, token]"
    by (simp add: py_split_append_sep py_split_no_sep)
  with h b v show ?L by (auto simp: extract_bearer_token_def valid_api_key_def)
qed

lemma extract_bearer_token_error: "extract_bearer_token h = Inl e \<Longrightarrow> e = raised UnauthorizedError"
  by (auto simp: extract_bearer_token_def split: option.splits list.splits if_splits)

section \<open>Properties\<close>

text \<open>
  C30. Authentication is exact: the registry returns a tenant precisely when the header is
  the word Bearer (in any case), one space and a valid key, and that tenant is the last
  entry configured with that key; every other header, missing, malformed or unknown, gives
  the same \<open>UnauthorizedError\<close> and nothing else.
\<close>

theorem authenticate_exact:
  assumes "registry_ok r"
  shows "(authenticate r h = Inr t \<longleftrightarrow>
      (\<exists>scheme token. h = Some (scheme @ CHR 0x20 # token) \<and> is_bearer scheme \<and>
         valid_api_key token \<and> map_of (rev r) token = Some t)) \<and>
    (authenticate r h = Inl e \<longrightarrow> e = raised UnauthorizedError)"
proof (cases "extract_bearer_token h")
  case (Inl x)
  then have "\<not> (extract_bearer_token h = Inr token)" for token by simp
  then have "\<not> (\<exists>scheme token. h = Some (scheme @ CHR 0x20 # token) \<and> is_bearer scheme \<and> valid_api_key token)"
    unfolding extract_bearer_token_iff by blast
  with Inl extract_bearer_token_error [OF Inl] show ?thesis
    by (auto simp: authenticate_def)
next
  case (Inr token)
  then have v: "valid_api_key token" using extract_bearer_token_iff by blast
  have loop: "authenticate_loop token None r = Inr (map_of (rev r) token)"
    using authenticate_loop_eq [OF assms valid_key_ascii [OF v], of None]
    by (simp split: option.splits)
  have "(\<exists>tk. extract_bearer_token h = Inr tk \<and> map_of (rev r) tk = Some t) \<longleftrightarrow> map_of (rev r) token = Some t"
    using Inr by simp
  moreover have "authenticate r h = (case map_of (rev r) token of None \<Rightarrow> Inl (raised UnauthorizedError) | Some t \<Rightarrow> Inr t)"
    by (simp add: authenticate_def Inr loop split: option.split)
  ultimately show ?thesis unfolding extract_bearer_token_iff
    by (auto split: option.splits)
qed

definition example_registry :: tenant_registry where
  "example_registry = [(''k1'', \<lparr>tenant_id = ''a'', max_inflight = 1, max_queue = 1\<rparr>)]"

theorem authenticate_exact_witness:
  "registry_ok example_registry \<and>
   authenticate example_registry (Some ''BEARER k1'') =
     Inr \<lparr>tenant_id = ''a'', max_inflight = 1, max_queue = 1\<rparr> \<and>
   authenticate example_registry None = Inl (raised UnauthorizedError)"
proof -
  have ok: "registry_ok example_registry" by code_simp
  have "authenticate example_registry (Some ''BEARER k1'') =
     Inr \<lparr>tenant_id = ''a'', max_inflight = 1, max_queue = 1\<rparr>" by code_simp
  with ok authenticate_exact [OF ok, of None undefined "raised UnauthorizedError"]
    show ?thesis by (simp add: authenticate_def extract_bearer_token_def)
qed

end
