(* ===== verification/Gw_Admission.thy ===== *)
theory Gw_Admission
  imports Gw_Tenants
begin

text \<open>
  \<open>gateway/admission/controller.py\<close>: bounded admission with round-robin tenant fairness.

  Every section under \<open>self._lock\<close> is free of suspension points, so it runs atomically on the
  event loop and is one function here. Futures and leases are heap objects, addressed by
  their index. The clock is a stream of readings consumed one at a time. A waiter is the
  address of its future; two waiters are equal iff their futures are the same object. The
  observer's callbacks are recorded in \<open>adm_events\<close>; an exception in an observer is swallowed
  by the source and so cannot influence the controller.
\<close>

section \<open>State\<close>

datatype 'a future = Pending | Result 'a | Failed exn | Cancelled

record admission_lease =
  lease_tenant :: string
  was_queued :: bool
  granted_at :: real
  released :: bool

record tenant_state =
  tenant :: tenant_context
  inflight :: int
  queue :: "nat list"

datatype wait_outcome = Admitted | Timed_out | Rejected | Wait_cancelled

datatype admission_event =
    Wait_observed real wait_outcome
  | State_changed int int "(string \<times> int \<times> int) list"

record admission =
  tenants :: "(string \<times> tenant_state) list"
  global_max_inflight :: int
  global_max_queue :: int
  queue_timeout_seconds :: real
  global_inflight :: int
  global_queued :: int
  active_tenants :: "string list"
  active_tenant_ids :: "string set"
  adm_closed :: bool
  adm_observer :: bool
  adm_clock :: "nat \<Rightarrow> real"
  adm_ticks :: nat
  adm_futures :: "nat future list"
  adm_leases :: "admission_lease list"
  adm_events :: "admission_event list"

definition future_done :: "'a future \<Rightarrow> bool" where
  "future_done f = (f \<noteq> Pending)"

definition state_event :: "admission \<Rightarrow> admission_event" where
  "state_event s = State_changed (global_inflight s) (global_queued s)
     (map (\<lambda>(i, st). (i, inflight st, int (length (queue st)))) (tenants s))"

definition adm_notify :: "admission \<Rightarrow> admission" where
  "adm_notify s = (if adm_observer s then s\<lparr>adm_events := adm_events s @ [state_event s]\<rparr> else s)"

definition read_clock :: "admission \<Rightarrow> real \<times> admission" where
  "read_clock s = (adm_clock s (adm_ticks s), s\<lparr>adm_ticks := Suc (adm_ticks s)\<rparr>)"

text \<open>The constructor: a dictionary comprehension collapses duplicate ids, which is then refused.\<close>

definition AdmissionController ::
  "tenant_context list \<Rightarrow> int \<Rightarrow> int \<Rightarrow> real \<Rightarrow> bool \<Rightarrow> (nat \<Rightarrow> real) \<Rightarrow> exn + admission" where
  "AdmissionController configured gmi gmq timeout obs clk =
     (if gmi \<le> 0 \<or> gmq < 0 \<or> timeout \<le> 0
      then Inl (ValueError ''global admission limits are invalid'')
      else
        let ts = fold (\<lambda>t d. AList.update (tenant_id t) \<lparr>tenant = t, inflight = 0, queue = []\<rparr> d)
                   configured [] in
        if length ts \<noteq> length configured then Inl (ValueError ''tenant IDs must be unique'')
        else Inr (adm_notify
          \<lparr>tenants = ts, global_max_inflight = gmi, global_max_queue = gmq,
           queue_timeout_seconds = timeout, global_inflight = 0, global_queued = 0,
           active_tenants = [], active_tenant_ids = {}, adm_closed = False,
           adm_observer = obs, adm_clock = clk, adm_ticks = 0,
           adm_futures = [], adm_leases = [], adm_events = []\<rparr>))"

definition set_observer :: "bool \<Rightarrow> admission \<Rightarrow> admission" where
  "set_observer obs s = adm_notify (s\<lparr>adm_observer := obs\<rparr>)"

section \<open>Operations under the lock\<close>

definition can_admit :: "admission \<Rightarrow> tenant_state \<Rightarrow> bool" where
  "can_admit s st \<longleftrightarrow> inflight st < max_inflight (tenant st) \<and> global_inflight s < global_max_inflight s"

definition activate_tenant_locked :: "string \<Rightarrow> admission \<Rightarrow> admission" where
  "activate_tenant_locked i s =
     (if i \<notin> active_tenant_ids s
      then s\<lparr>active_tenants := active_tenants s @ [i], active_tenant_ids := insert i (active_tenant_ids s)\<rparr>
      else s)"

definition deactivate_tenant_locked :: "string \<Rightarrow> admission \<Rightarrow> admission" where
  "deactivate_tenant_locked i s =
     (if i \<notin> active_tenant_ids s then s
      else s\<lparr>active_tenant_ids := active_tenant_ids s - {i}, active_tenants := remove1 i (active_tenants s)\<rparr>)"

definition state_for :: "admission \<Rightarrow> tenant_context \<Rightarrow> exn + tenant_state" where
  "state_for s t = (case map_of (tenants s) (tenant_id t) of
      Some st \<Rightarrow> Inr st
    | None \<Rightarrow> Inl (raised AdmissionUnavailableError))"

definition grant_locked :: "string \<Rightarrow> bool \<Rightarrow> admission \<Rightarrow> (exn + nat) \<times> admission" where
  "grant_locked i wq s = (case map_of (tenants s) i of
      None \<Rightarrow> (Inl KeyError, s)
    | Some st \<Rightarrow>
       (if \<not> can_admit s st
        then (Inl (RuntimeError ''attempted to grant admission without capacity''), s)
        else
          let s1 = s\<lparr>tenants := upd_entry i (\<lambda>st. st\<lparr>inflight := inflight st + 1\<rparr>) (tenants s),
                     global_inflight := global_inflight s + 1\<rparr>;
              (now, s2) = read_clock s1;
              lease = \<lparr>lease_tenant = tenant_id (tenant st), was_queued = wq, granted_at = now,
                       released = False\<rparr>;
              s3 = s2\<lparr>adm_leases := adm_leases s2 @ [lease]\<rparr>
          in (Inr (length (adm_leases s2)), adm_notify s3)))"

definition future_set_result :: "nat \<Rightarrow> nat \<Rightarrow> admission \<Rightarrow> (exn + unit) \<times> admission" where
  "future_set_result w l s =
     (if future_done (adm_futures s ! w) then (Inl InvalidStateError, s)
      else (Inr (), s\<lparr>adm_futures := (adm_futures s)[w := Result l]\<rparr>))"

text \<open>The loop that drops completed waiters from the head of one tenant's queue.\<close>

fun discard_loop :: "nat future list \<Rightarrow> nat list \<Rightarrow> int \<Rightarrow> bool \<Rightarrow> nat list \<times> int \<times> bool" where
  "discard_loop fs [] queued discarded = ([], queued, discarded)"
| "discard_loop fs (w # ws) queued discarded =
     (if future_done (fs ! w) then discard_loop fs ws (queued - 1) True else (w # ws, queued, discarded))"

definition discard_completed_waiters_locked :: "string \<Rightarrow> admission \<Rightarrow> admission" where
  "discard_completed_waiters_locked i s = (case map_of (tenants s) i of
      None \<Rightarrow> s
    | Some st \<Rightarrow>
        (let (q, n, discarded) = discard_loop (adm_futures s) (queue st) (global_queued s) False;
             s1 = s\<lparr>tenants := upd_entry i (\<lambda>st. st\<lparr>queue := q\<rparr>) (tenants s), global_queued := n\<rparr>
         in if discarded then adm_notify s1 else s1))"

definition remove_waiter_locked :: "string \<Rightarrow> nat \<Rightarrow> admission \<Rightarrow> bool \<times> admission" where
  "remove_waiter_locked i w s = (case map_of (tenants s) i of
      None \<Rightarrow> (False, s)
    | Some st \<Rightarrow>
       (if w \<notin> set (queue st) then (False, s)
        else
          let s1 = s\<lparr>tenants := upd_entry i (\<lambda>st. st\<lparr>queue := remove1 w (queue st)\<rparr>) (tenants s),
                     global_queued := global_queued s - 1\<rparr>;
              s2 = (if remove1 w (queue st) = [] then deactivate_tenant_locked (tenant_id (tenant st)) s1 else s1)
          in (True, adm_notify s2)))"

text \<open>
  One pass of the \<open>for\<close> loop of \<open>_dispatch_locked\<close>: take the next candidate tenant off the
  rotation, drop its completed waiters, and either go on (nothing queued, or the tenant is at
  its limit and rejoins the rotation) or grant its oldest waiter and stop. The result says
  whether a slot was granted.
\<close>

definition take_candidate :: "string \<Rightarrow> string list \<Rightarrow> admission \<Rightarrow> admission" where
  "take_candidate i rest s = discard_completed_waiters_locked i
     (s\<lparr>active_tenants := rest, active_tenant_ids := active_tenant_ids s - {i}\<rparr>)"

definition take_waiter :: "string \<Rightarrow> nat list \<Rightarrow> admission \<Rightarrow> admission" where
  "take_waiter i ws s =
     (let s1 = s\<lparr>tenants := upd_entry i (\<lambda>st. st\<lparr>queue := ws\<rparr>) (tenants s),
                 global_queued := global_queued s - 1\<rparr>
      in if ws \<noteq> [] then activate_tenant_locked i s1 else s1)"

definition grant_waiter :: "string \<Rightarrow> nat \<Rightarrow> admission \<Rightarrow> (exn + unit) \<times> admission" where
  "grant_waiter i w s = and_then (grant_locked i True s) (\<lambda>l s1. future_set_result w l s1)"

fun dispatch_for :: "nat \<Rightarrow> admission \<Rightarrow> (exn + bool) \<times> admission" where
  "dispatch_for 0 s = (Inr False, s)"
| "dispatch_for (Suc n) s = (case active_tenants s of
      [] \<Rightarrow> (Inl IndexError, s)
    | i # rest \<Rightarrow>
       (if i \<notin> active_tenant_ids s then (Inl KeyError, s\<lparr>active_tenants := rest\<rparr>)
        else case map_of (tenants (take_candidate i rest s)) i of
               None \<Rightarrow> (Inl KeyError, take_candidate i rest s)
             | Some st \<Rightarrow>
                (case queue st of
                   [] \<Rightarrow> dispatch_for n (take_candidate i rest s)
                 | w # ws \<Rightarrow>
                    (if inflight st \<ge> max_inflight (tenant st)
                     then dispatch_for n (activate_tenant_locked i (take_candidate i rest s))
                     else and_then (grant_waiter i w (take_waiter i ws (take_candidate i rest s)))
                            (\<lambda>_ s'. (Inr True, s'))))))"

definition total_queue :: "admission \<Rightarrow> nat" where
  "total_queue s = (\<Sum>p\<leftarrow>tenants s. length (queue (snd p)))"

lemma discard_loop_dropWhile:
  "discard_loop fs ws n d =
     (let ws' = dropWhile (\<lambda>w. future_done (fs ! w)) ws in
      (ws', n - int (length ws - length ws'), d \<or> length ws' < length ws))"
proof (induction fs ws n d rule: discard_loop.induct)
  case (2 fs w ws n d)
  have "length (dropWhile (\<lambda>w. future_done (fs ! w)) ws) \<le> length ws"
    by (rule length_dropWhile_le)
  with 2 show ?case by (auto simp: Let_def)
qed (simp add: Let_def)

lemma total_queue_upd:
  assumes "map_of (tenants s) i = Some st" and "tenants s' = upd_entry i f (tenants s)"
  shows "total_queue s' + length (queue st) = total_queue s + length (queue (f st))"
  using sum_list_upd_entry_nat [OF assms(1), of "\<lambda>st. length (queue st)" f] assms(2)
  by (simp add: total_queue_def)

lemma tenants_frame [simp]:
  "tenants (adm_notify s) = tenants s"
  "tenants (activate_tenant_locked i s) = tenants s"
  "tenants (deactivate_tenant_locked i s) = tenants s"
  "tenants (snd (read_clock s)) = tenants s"
  by (simp_all add: adm_notify_def activate_tenant_locked_def deactivate_tenant_locked_def read_clock_def)

lemma total_queue_discard: "total_queue (discard_completed_waiters_locked i s) \<le> total_queue s"
proof (cases "map_of (tenants s) i")
  case (Some st)
  let ?q = "dropWhile (\<lambda>w. future_done (adm_futures s ! w)) (queue st)"
  have "tenants (discard_completed_waiters_locked i s) = upd_entry i (\<lambda>st. st\<lparr>queue := ?q\<rparr>) (tenants s)"
    by (simp add: discard_completed_waiters_locked_def discard_loop_dropWhile Some Let_def)
  from total_queue_upd [OF Some this] show ?thesis
    using length_dropWhile_le [of "\<lambda>w. future_done (adm_futures s ! w)" "queue st"] by simp
qed (simp add: discard_completed_waiters_locked_def)

lemma total_queue_grant: "grant_locked i wq s = (r, s') \<Longrightarrow> total_queue s' = total_queue s"
proof (cases "map_of (tenants s) i")
  case (Some st)
  assume "grant_locked i wq s = (r, s')"
  with Some have "tenants s' = tenants s \<or>
      tenants s' = upd_entry i (\<lambda>st. st\<lparr>inflight := inflight st + 1\<rparr>) (tenants s)"
    by (auto simp: grant_locked_def read_clock_def Let_def split: if_splits)
  then show ?thesis
  proof
    assume "tenants s' = tenants s"
    then show ?thesis by (simp add: total_queue_def)
  next
    assume "tenants s' = upd_entry i (\<lambda>st. st\<lparr>inflight := inflight st + 1\<rparr>) (tenants s)"
    from total_queue_upd [OF Some this] show ?thesis by simp
  qed
qed (simp add: grant_locked_def)

lemma total_queue_set_result: "future_set_result w l s = (r, s') \<Longrightarrow> total_queue s' = total_queue s"
  by (auto simp: future_set_result_def total_queue_def split: if_splits)

lemma total_queue_take_candidate: "total_queue (take_candidate i rest s) \<le> total_queue s"
  using total_queue_discard [of i "s\<lparr>active_tenants := rest, active_tenant_ids := active_tenant_ids s - {i}\<rparr>"]
  by (simp add: take_candidate_def total_queue_def)

lemma total_queue_grant_waiter:
  "grant_waiter i w s = (r, s') \<Longrightarrow> total_queue s' = total_queue s"
  unfolding grant_waiter_def
  by (erule and_then_cases) (metis total_queue_grant, metis total_queue_grant total_queue_set_result)

lemma tenants_take_waiter [simp]:
  "tenants (take_waiter i ws s) = upd_entry i (\<lambda>st. st\<lparr>queue := ws\<rparr>) (tenants s)"
  by (simp add: take_waiter_def Let_def)

lemma total_queue_take_waiter:
  assumes "map_of (tenants s) i = Some st" and "queue st = w # ws"
  shows "total_queue (take_waiter i ws s) < total_queue s"
  using total_queue_upd [OF assms(1) tenants_take_waiter [of i ws s]] assms(2) by simp

lemma dispatch_for_decreases: "dispatch_for n s = (Inr True, s') \<Longrightarrow> total_queue s' < total_queue s"
proof (induction n s arbitrary: s' rule: dispatch_for.induct)
  case (1 s)
  then show ?case by simp
next
  case (2 n s)
  from "2.prems" obtain i rest where act: "active_tenants s = i # rest" and mem: "i \<in> active_tenant_ids s"
    by (auto split: list.splits if_splits)
  define s2 where "s2 = take_candidate i rest s"
  from "2.prems" act mem obtain st where st: "map_of (tenants s2) i = Some st"
    by (auto simp: s2_def split: option.splits)
  have le: "total_queue s2 \<le> total_queue s"
    unfolding s2_def by (rule total_queue_take_candidate)
  note IH = "2.IH" [OF act, folded s2_def, simplified, OF mem st]
  show ?case
  proof (cases "queue st")
    case Nil
    with "2.prems" act mem st have "dispatch_for n s2 = (Inr True, s')"
      by (simp add: s2_def)
    from IH(1) [OF Nil this] le show ?thesis by simp
  next
    case (Cons w ws)
    show ?thesis
    proof (cases "max_inflight (tenant st) \<le> inflight st")
      case True
      with "2.prems" act mem st Cons have "dispatch_for n (activate_tenant_locked i s2) = (Inr True, s')"
        by (simp add: s2_def)
      from IH(2) [OF Cons True this] le show ?thesis by (simp add: total_queue_def)
    next
      case False
      with "2.prems" act mem st Cons obtain x where "grant_waiter i w (take_waiter i ws s2) = (x, s')"
        by (auto simp: s2_def elim: and_then_cases)
      from total_queue_grant_waiter [OF this] total_queue_take_waiter [OF st Cons] le
      show ?thesis by simp
    qed
  qed
qed

text \<open>
  The \<open>while\<close> loop of \<open>_dispatch_locked\<close>: it ends because every granting pass takes a waiter
  out of a queue.
\<close>

function dispatch_while :: "admission \<Rightarrow> (exn + unit) \<times> admission" where
  "dispatch_while s =
     (if global_inflight s < global_max_inflight s \<and> active_tenants s \<noteq> []
      then (case dispatch_for (length (active_tenants s)) s of
              (Inl e, s') \<Rightarrow> (Inl e, s')
            | (Inr False, s') \<Rightarrow> (Inr (), s')
            | (Inr True, s') \<Rightarrow> dispatch_while s')
      else (Inr (), s))"
  by pat_completeness auto
termination
  by (relation "measure total_queue") (auto intro: dispatch_for_decreases sym)

declare dispatch_while.simps [simp del] dispatch_for.simps [simp del]

definition dispatch_locked :: "admission \<Rightarrow> (exn + unit) \<times> admission" where
  "dispatch_locked s = (if adm_closed s then (Inr (), s) else dispatch_while s)"

definition release_locked :: "nat \<Rightarrow> admission \<Rightarrow> (exn + unit) \<times> admission" where
  "release_locked l s =
     (let lease = adm_leases s ! l in
      if released lease then (Inr (), s)
      else case map_of (tenants s) (lease_tenant lease) of
          None \<Rightarrow> (Inl KeyError, s)
        | Some st \<Rightarrow>
           (if inflight st \<le> 0 \<or> global_inflight s \<le> 0
            then (Inl (RuntimeError ''admission inflight accounting became inconsistent''), s)
            else (Inr (), adm_notify
              (s\<lparr>adm_leases := (adm_leases s)[l := lease\<lparr>released := True\<rparr>],
                 tenants := upd_entry (lease_tenant lease) (\<lambda>st. st\<lparr>inflight := inflight st - 1\<rparr>) (tenants s),
                 global_inflight := global_inflight s - 1\<rparr>))))"

section \<open>Entry points\<close>

definition adm_release :: "nat \<Rightarrow> admission \<Rightarrow> (exn + unit) \<times> admission" where
  "adm_release l s = and_then (release_locked l s) (\<lambda>_ s1. dispatch_locked s1)"

datatype entered = Granted nat | Queued nat

text \<open>The first critical section of \<open>_acquire\<close>: an immediate grant, a refusal, or a place in the queue.\<close>

definition enqueue_waiter :: "string \<Rightarrow> admission \<Rightarrow> admission" where
  "enqueue_waiter i s = adm_notify (activate_tenant_locked i
     (s\<lparr>adm_futures := adm_futures s @ [Pending],
        tenants := upd_entry i (\<lambda>st. st\<lparr>queue := queue st @ [length (adm_futures s)]\<rparr>) (tenants s),
        global_queued := global_queued s + 1\<rparr>))"

definition acquire_locked :: "tenant_context \<Rightarrow> admission \<Rightarrow> (exn + entered) \<times> admission" where
  "acquire_locked t s =
     (if adm_closed s then (Inl (raised AdmissionUnavailableError), s)
      else case state_for s t of
        Inl e \<Rightarrow> (Inl e, s)
      | Inr _ \<Rightarrow> and_then (dispatch_locked s) (\<lambda>_ s1.
          case map_of (tenants s1) (tenant_id t) of
            None \<Rightarrow> (Inl KeyError, s1)
          | Some st \<Rightarrow>
             (if queue st = [] \<and> can_admit s1 st
              then and_then (grant_locked (tenant_id t) False s1) (\<lambda>l s2. (Inr (Granted l), s2))
              else if int (length (queue st)) \<ge> max_queue (tenant st)
              then (Inl (raised TenantQueueFullError), s1)
              else if global_queued s1 \<ge> global_max_queue s1
              then (Inl (raised GatewayQueueFullError), s1)
              else and_then (dispatch_locked (enqueue_waiter (tenant_id t) s1))
                     (\<lambda>_ s2. (Inr (Queued (length (adm_futures s1))), s2)))))"

text \<open>The critical sections of \<open>_acquire\<close> after \<open>wait_for\<close> raised \<open>TimeoutError\<close> or was cancelled.\<close>

definition acquire_timeout_locked :: "string \<Rightarrow> nat \<Rightarrow> admission \<Rightarrow> (exn + nat) \<times> admission" where
  "acquire_timeout_locked i w s =
     and_then (dispatch_locked (snd (remove_waiter_locked i w s)))
       (\<lambda>_ s2. (Inl (raised AdmissionTimeoutError), s2))"

definition acquire_cancelled_locked :: "string \<Rightarrow> nat \<Rightarrow> admission \<Rightarrow> (exn + nat) \<times> admission" where
  "acquire_cancelled_locked i w s =
     (let (removed, s1) = remove_waiter_locked i w s in
      and_then
        (if removed then (Inr (), s1)
         else case adm_futures s1 ! w of
             Result l \<Rightarrow> release_locked l s1
           | Failed e \<Rightarrow> if is_instance e AdmissionUnavailableError then (Inr (), s1) else (Inl e, s1)
           | Pending \<Rightarrow> (Inr (), s1)
           | Cancelled \<Rightarrow> (Inr (), s1))
        (\<lambda>_ s2. and_then (dispatch_locked s2) (\<lambda>_ s3. (Inl CancelledError, s3))))"

text \<open>The observation \<open>acquire\<close> makes around \<open>_acquire\<close>; the clock is read only when it is needed.\<close>

definition observe_wait :: "real \<Rightarrow> wait_outcome \<Rightarrow> real option \<Rightarrow> admission \<Rightarrow> admission" where
  "observe_wait started outcome finished s =
     (if \<not> adm_observer s then s
      else let (fin, s1) = (case finished of Some t \<Rightarrow> (t, s) | None \<Rightarrow> read_clock s)
           in s1\<lparr>adm_events := adm_events s1 @ [Wait_observed (max 0 (fin - started)) outcome]\<rparr>)"

definition observe_acquire :: "real \<Rightarrow> exn + nat \<Rightarrow> admission \<Rightarrow> admission" where
  "observe_acquire started r s = (case r of
      Inr l \<Rightarrow> observe_wait started Admitted (Some (granted_at (adm_leases s ! l))) s
    | Inl e \<Rightarrow>
       (if is_instance e AdmissionTimeoutError then observe_wait started Timed_out None s
        else if is_instance e AdmissionUnavailableError \<or> is_instance e GatewayQueueFullError \<or>
                is_instance e TenantQueueFullError then observe_wait started Rejected None s
        else if e = CancelledError then observe_wait started Wait_cancelled None s
        else s))"

text \<open>\<open>shutdown\<close> drains every queue in dictionary order and fails the waiters still pending.\<close>

fun fail_waiters :: "nat list \<Rightarrow> nat future list \<Rightarrow> nat future list" where
  "fail_waiters [] fs = fs"
| "fail_waiters (w # ws) fs =
     fail_waiters ws (if future_done (fs ! w) then fs else fs[w := Failed (raised AdmissionUnavailableError)])"

fun drain_queues :: "(string \<times> tenant_state) list \<Rightarrow> nat future list \<Rightarrow> int \<Rightarrow>
    (string \<times> tenant_state) list \<times> nat future list \<times> int" where
  "drain_queues [] fs n = ([], fs, n)"
| "drain_queues ((i, st) # ts) fs n =
     (let (ts', fs', n') = drain_queues ts (fail_waiters (queue st) fs) (n - int (length (queue st)))
      in ((i, st\<lparr>queue := []\<rparr>) # ts', fs', n'))"

definition adm_shutdown :: "admission \<Rightarrow> (exn + unit) \<times> admission" where
  "adm_shutdown s =
     (if adm_closed s then (Inr (), s)
      else
        let (ts, fs, n) = drain_queues (tenants s) (adm_futures s) (global_queued s);
            s1 = s\<lparr>adm_closed := True, tenants := ts, adm_futures := fs, global_queued := n,
                   active_tenants := [], active_tenant_ids := {}\<rparr>
        in if n \<noteq> 0 then (Inl (RuntimeError ''admission queue accounting became inconsistent''), s1)
           else (Inr (), adm_notify s1))"

record admission_snapshot =
  snap_global_inflight :: int
  snap_global_queued :: int
  snap_tenants :: "(string \<times> int \<times> int) list"
  snap_closed :: bool

definition adm_snapshot :: "admission \<Rightarrow> admission_snapshot" where
  "adm_snapshot s =
     \<lparr>snap_global_inflight = global_inflight s, snap_global_queued = global_queued s,
      snap_tenants = map (\<lambda>(i, st). (i, inflight st, int (length (queue st)))) (tenants s),
      snap_closed = adm_closed s\<rparr>"

end
