(* ===== verification/Gw_Admission_Inv.thy ===== *)
theory Gw_Admission_Inv
  imports Gw_Admission
begin

text \<open>
  The invariant of the admission controller and its preservation by every critical section.

  \<^item> \<open>tenants_ok\<close>: per-tenant limits; \<open>sums_ok\<close>: the global counters are the sums over tenants
    and respect the global limits; \<open>waiters_ok\<close>: a queued waiter is an allocated future that is
    pending or cancelled, in one place of one queue; \<open>leases_ok\<close>: a tenant's inflight count is
    the number of its unreleased leases.
  \<^item> \<open>active_ok A\<close>: the rotation holds, once each, the tenants with queued waiters, except those
    in \<open>A\<close>, which a dispatch pass has taken off the rotation.
  \<^item> \<open>settled\<close>: no waiter could be admitted that has not been (work conservation).
\<close>

definition tenants_ok :: "admission \<Rightarrow> bool" where
  "tenants_ok s \<longleftrightarrow> distinct (map fst (tenants s)) \<and>
     (\<forall>i st. map_of (tenants s) i = Some st \<longrightarrow>
        tenant_id (tenant st) = i \<and> 0 \<le> inflight st \<and> inflight st \<le> max_inflight (tenant st) \<and>
        int (length (queue st)) \<le> max_queue (tenant st))"

definition sums_ok :: "admission \<Rightarrow> bool" where
  "sums_ok s \<longleftrightarrow>
     global_inflight s = (\<Sum>p\<leftarrow>tenants s. inflight (snd p)) \<and>
     global_queued s = (\<Sum>p\<leftarrow>tenants s. int (length (queue (snd p)))) \<and>
     global_inflight s \<le> global_max_inflight s \<and> global_queued s \<le> global_max_queue s"

definition waiters_ok :: "admission \<Rightarrow> bool" where
  "waiters_ok s \<longleftrightarrow>
     (\<forall>i st. map_of (tenants s) i = Some st \<longrightarrow> distinct (queue st) \<and>
        (\<forall>w\<in>set (queue st). w < length (adm_futures s) \<and>
           (adm_futures s ! w = Pending \<or> adm_futures s ! w = Cancelled))) \<and>
     (\<forall>i j st st'. map_of (tenants s) i = Some st \<longrightarrow> map_of (tenants s) j = Some st' \<longrightarrow> i \<noteq> j \<longrightarrow>
        set (queue st) \<inter> set (queue st') = {})"

definition live_count :: "string \<Rightarrow> admission_lease list \<Rightarrow> int" where
  "live_count i ls = (\<Sum>l\<leftarrow>ls. of_bool (lease_tenant l = i \<and> \<not> released l))"

definition leases_ok :: "admission \<Rightarrow> bool" where
  "leases_ok s \<longleftrightarrow>
     (\<forall>i st. map_of (tenants s) i = Some st \<longrightarrow> live_count i (adm_leases s) = inflight st) \<and>
     (\<forall>l\<in>set (adm_leases s). map_of (tenants s) (lease_tenant l) \<noteq> None)"

definition adm_core :: "admission \<Rightarrow> bool" where
  "adm_core s \<longleftrightarrow> tenants_ok s \<and> sums_ok s \<and> waiters_ok s \<and> leases_ok s"

definition active_ok :: "string set \<Rightarrow> admission \<Rightarrow> bool" where
  "active_ok A s \<longleftrightarrow> distinct (active_tenants s) \<and> set (active_tenants s) = active_tenant_ids s \<and>
     active_tenant_ids s = {i. i \<notin> A \<and> (\<exists>st. map_of (tenants s) i = Some st \<and> queue st \<noteq> [])}"

definition adm_inv :: "admission \<Rightarrow> bool" where
  "adm_inv s \<longleftrightarrow> adm_core s \<and> active_ok {} s \<and> (adm_closed s \<longrightarrow> active_tenants s = [])"

definition settled :: "admission \<Rightarrow> bool" where
  "settled s \<longleftrightarrow> adm_closed s \<or> global_inflight s = global_max_inflight s \<or>
     (\<forall>i st. map_of (tenants s) i = Some st \<longrightarrow> queue st \<noteq> [] \<longrightarrow> inflight st = max_inflight (tenant st))"

lemmas adm_core_defs = adm_core_def tenants_ok_def sums_ok_def waiters_ok_def leases_ok_def

text \<open>What the invariant says of one tenant, one waiter, one lease.\<close>

lemma adm_core_tenant:
  assumes "adm_core s" and "map_of (tenants s) i = Some st"
  shows "tenant_id (tenant st) = i" "0 \<le> inflight st" "inflight st \<le> max_inflight (tenant st)"
    "int (length (queue st)) \<le> max_queue (tenant st)" "live_count i (adm_leases s) = inflight st"
    "distinct (queue st)"
  using assms by (simp_all add: adm_core_defs)

lemma adm_core_waiter:
  assumes "adm_core s" and "map_of (tenants s) i = Some st" and "w \<in> set (queue st)"
  shows "w < length (adm_futures s)" "adm_futures s ! w = Pending \<or> adm_futures s ! w = Cancelled"
  using assms by (simp_all add: adm_core_def waiters_ok_def)

lemma adm_core_one_queue:
  assumes "adm_core s" and "map_of (tenants s) i = Some st" and "w \<in> set (queue st)"
    and "map_of (tenants s) j = Some st'" and "w \<in> set (queue st')"
  shows "i = j"
  using assms by (simp add: adm_core_def waiters_ok_def) blast

lemma adm_core_entry: "adm_core s \<Longrightarrow> p \<in> set (tenants s) \<Longrightarrow> map_of (tenants s) (fst p) = Some (snd p)"
  by (cases p) (simp add: adm_core_def tenants_ok_def)

section \<open>Frames\<close>

lemma adm_core_cong:
  assumes "tenants s' = tenants s" and "global_inflight s' = global_inflight s"
    and "global_queued s' = global_queued s" and "global_max_inflight s' = global_max_inflight s"
    and "global_max_queue s' = global_max_queue s" and "adm_futures s' = adm_futures s"
    and "adm_leases s' = adm_leases s"
  shows "adm_core s' = adm_core s"
  using assms by (simp add: adm_core_defs)

lemma adm_notify_fields [simp]:
  "global_max_inflight (adm_notify s) = global_max_inflight s"
  "global_max_queue (adm_notify s) = global_max_queue s"
  "global_inflight (adm_notify s) = global_inflight s"
  "global_queued (adm_notify s) = global_queued s"
  "active_tenants (adm_notify s) = active_tenants s"
  "active_tenant_ids (adm_notify s) = active_tenant_ids s"
  "adm_closed (adm_notify s) = adm_closed s"
  "adm_observer (adm_notify s) = adm_observer s"
  "adm_futures (adm_notify s) = adm_futures s"
  "adm_leases (adm_notify s) = adm_leases s"
  by (simp_all add: adm_notify_def)

lemma activate_fields [simp]:
  "global_max_inflight (activate_tenant_locked i s) = global_max_inflight s"
  "global_max_queue (activate_tenant_locked i s) = global_max_queue s"
  "global_inflight (activate_tenant_locked i s) = global_inflight s"
  "global_queued (activate_tenant_locked i s) = global_queued s"
  "adm_closed (activate_tenant_locked i s) = adm_closed s"
  "adm_observer (activate_tenant_locked i s) = adm_observer s"
  "adm_events (activate_tenant_locked i s) = adm_events s"
  "adm_futures (activate_tenant_locked i s) = adm_futures s"
  "adm_leases (activate_tenant_locked i s) = adm_leases s"
  by (simp_all add: activate_tenant_locked_def)

lemma deactivate_fields [simp]:
  "global_max_inflight (deactivate_tenant_locked i s) = global_max_inflight s"
  "global_max_queue (deactivate_tenant_locked i s) = global_max_queue s"
  "global_inflight (deactivate_tenant_locked i s) = global_inflight s"
  "global_queued (deactivate_tenant_locked i s) = global_queued s"
  "adm_closed (deactivate_tenant_locked i s) = adm_closed s"
  "adm_observer (deactivate_tenant_locked i s) = adm_observer s"
  "adm_events (deactivate_tenant_locked i s) = adm_events s"
  "adm_futures (deactivate_tenant_locked i s) = adm_futures s"
  "adm_leases (deactivate_tenant_locked i s) = adm_leases s"
  by (simp_all add: deactivate_tenant_locked_def)

lemma adm_core_frames [simp]:
  "adm_core (adm_notify s) = adm_core s"
  "adm_core (activate_tenant_locked i s) = adm_core s"
  "adm_core (deactivate_tenant_locked i s) = adm_core s"
  "adm_core (s\<lparr>active_tenants := x\<rparr>) = adm_core s"
  "adm_core (s\<lparr>active_tenant_ids := y\<rparr>) = adm_core s"
  by (rule adm_core_cong; simp)+

lemma active_ok_notify [simp]: "active_ok A (adm_notify s) = active_ok A s"
  by (simp add: active_ok_def)

lemma active_ok_activate:
  assumes "active_ok (insert i A) s" and "map_of (tenants s) i = Some st" and "queue st \<noteq> []" and "i \<notin> A"
  shows "active_ok A (activate_tenant_locked i s)"
  using assms by (auto simp: active_ok_def activate_tenant_locked_def)

lemma active_ok_idle:
  "active_ok (insert i A) s \<Longrightarrow> map_of (tenants s) i = Some st \<Longrightarrow> queue st = [] \<Longrightarrow> i \<notin> A \<Longrightarrow> active_ok A s"
  by (auto simp: active_ok_def)

section \<open>Primitive updates\<close>

text \<open>Shrinking one queue, with the global count following.\<close>

lemma adm_core_shrink:
  assumes core: "adm_core s" and st: "map_of (tenants s) i = Some st"
    and q: "distinct q" "set q \<subseteq> set (queue st)" "length q \<le> length (queue st)"
    and s': "tenants s' = upd_entry i (\<lambda>st. st\<lparr>queue := q\<rparr>) (tenants s)"
      "global_queued s' = global_queued s - (int (length (queue st)) - int (length q))"
      "global_inflight s' = global_inflight s" "global_max_inflight s' = global_max_inflight s"
      "global_max_queue s' = global_max_queue s" "adm_futures s' = adm_futures s"
      "adm_leases s' = adm_leases s"
  shows "adm_core s'"
proof -
  have sums: "(\<Sum>p\<leftarrow>tenants s'. inflight (snd p)) = (\<Sum>p\<leftarrow>tenants s. inflight (snd p))"
    "(\<Sum>p\<leftarrow>tenants s'. int (length (queue (snd p)))) =
      (\<Sum>p\<leftarrow>tenants s. int (length (queue (snd p)))) + int (length q) - int (length (queue st))"
    unfolding s'(1)
    using sum_list_upd_entry [OF st, of inflight] sum_list_upd_entry [OF st, of "\<lambda>st. int (length (queue st))"]
    by simp_all
  have "int (length q) \<le> max_queue (tenant st)" using q adm_core_tenant(4) [OF core st] by linarith
  then have "tenants_ok s'"
    using core st by (auto simp: tenants_ok_def s'(1) adm_core_def)
  moreover have "sums_ok s'" using core sums q s' by (auto simp: adm_core_defs)
  moreover have "waiters_ok s'" using core st q s'
    by (simp add: adm_core_def waiters_ok_def) blast
  moreover have "leases_ok s'" using core st s' by (auto simp: adm_core_defs)
  ultimately show ?thesis by (simp add: adm_core_def)
qed

lemma discard_queue:
  assumes "map_of (tenants s) i = Some st"
  shows "tenants (discard_completed_waiters_locked i s) =
      upd_entry i (\<lambda>st. st\<lparr>queue := dropWhile (\<lambda>w. future_done (adm_futures s ! w)) (queue st)\<rparr>) (tenants s)"
proof -
  have "tenants (discard_completed_waiters_locked i s) =
      upd_entry i (\<lambda>st'. st'\<lparr>queue := dropWhile (\<lambda>w. future_done (adm_futures s ! w)) (queue st)\<rparr>) (tenants s)"
    using assms by (simp add: discard_completed_waiters_locked_def discard_loop_dropWhile Let_def)
  also have "\<dots> = upd_entry i (\<lambda>st. st\<lparr>queue := dropWhile (\<lambda>w. future_done (adm_futures s ! w)) (queue st)\<rparr>) (tenants s)"
    by (rule upd_entry_cong [OF assms]) simp
  finally show ?thesis .
qed

lemma discard_fields [simp]:
  "global_max_inflight (discard_completed_waiters_locked i s) = global_max_inflight s"
  "global_max_queue (discard_completed_waiters_locked i s) = global_max_queue s"
  "global_inflight (discard_completed_waiters_locked i s) = global_inflight s"
  "active_tenants (discard_completed_waiters_locked i s) = active_tenants s"
  "active_tenant_ids (discard_completed_waiters_locked i s) = active_tenant_ids s"
  "adm_closed (discard_completed_waiters_locked i s) = adm_closed s"
  "adm_observer (discard_completed_waiters_locked i s) = adm_observer s"
  "adm_futures (discard_completed_waiters_locked i s) = adm_futures s"
  "adm_leases (discard_completed_waiters_locked i s) = adm_leases s"
  by (simp_all add: discard_completed_waiters_locked_def Let_def split: option.split prod.split)

lemma adm_core_discard:
  assumes "adm_core s"
  shows "adm_core (discard_completed_waiters_locked i s)"
proof (cases "map_of (tenants s) i")
  case (Some st)
  let ?q = "dropWhile (\<lambda>w. future_done (adm_futures s ! w)) (queue st)"
  have le: "length ?q \<le> length (queue st)" by (rule length_dropWhile_le)
  have "global_queued (discard_completed_waiters_locked i s) =
      global_queued s - (int (length (queue st)) - int (length ?q))"
    using Some le by (simp add: discard_completed_waiters_locked_def discard_loop_dropWhile Let_def)
  moreover have "distinct ?q" using assms Some by (auto simp: adm_core_defs)
  moreover have "tenants (discard_completed_waiters_locked i s) = upd_entry i (\<lambda>st'. st'\<lparr>queue := ?q\<rparr>) (tenants s)"
    using Some by (simp add: discard_completed_waiters_locked_def discard_loop_dropWhile Let_def)
  ultimately show ?thesis
    by (intro adm_core_shrink [OF assms Some, of ?q]) (auto simp: le dest: set_dropWhileD)
qed (simp add: discard_completed_waiters_locked_def assms)

lemma take_candidate_fields [simp]:
  "global_max_inflight (take_candidate i rest s) = global_max_inflight s"
  "global_max_queue (take_candidate i rest s) = global_max_queue s"
  "global_inflight (take_candidate i rest s) = global_inflight s"
  "active_tenants (take_candidate i rest s) = rest"
  "active_tenant_ids (take_candidate i rest s) = active_tenant_ids s - {i}"
  "adm_closed (take_candidate i rest s) = adm_closed s"
  "adm_observer (take_candidate i rest s) = adm_observer s"
  "adm_futures (take_candidate i rest s) = adm_futures s"
  "adm_leases (take_candidate i rest s) = adm_leases s"
  by (simp_all add: take_candidate_def)

lemma adm_core_take_candidate: "adm_core s \<Longrightarrow> adm_core (take_candidate i rest s)"
  unfolding take_candidate_def by (rule adm_core_discard) simp

lemma map_of_take_candidate:
  "map_of (tenants (take_candidate i rest s)) j =
     (if j = i then map_option (\<lambda>st. st\<lparr>queue := dropWhile (\<lambda>w. future_done (adm_futures s ! w)) (queue st)\<rparr>)
                      (map_of (tenants s) i)
      else map_of (tenants s) j)"
proof (cases "map_of (tenants s) i")
  case None
  then show ?thesis by (simp add: take_candidate_def discard_completed_waiters_locked_def)
next
  case (Some st)
  then show ?thesis
    using discard_queue [of "s\<lparr>active_tenants := rest, active_tenant_ids := active_tenant_ids s - {i}\<rparr>" i st]
    by (simp add: take_candidate_def)
qed

lemma active_ok_take_candidate:
  assumes "active_ok {} s" and "active_tenants s = i # rest"
  shows "active_ok {i} (take_candidate i rest s)"
  using assms by (auto simp: active_ok_def map_of_take_candidate split: if_splits)

lemma take_waiter_fields [simp]:
  "global_max_inflight (take_waiter i ws s) = global_max_inflight s"
  "global_max_queue (take_waiter i ws s) = global_max_queue s"
  "global_inflight (take_waiter i ws s) = global_inflight s"
  "global_queued (take_waiter i ws s) = global_queued s - 1"
  "adm_closed (take_waiter i ws s) = adm_closed s"
  "adm_observer (take_waiter i ws s) = adm_observer s"
  "adm_futures (take_waiter i ws s) = adm_futures s"
  "adm_leases (take_waiter i ws s) = adm_leases s"
  by (simp_all add: take_waiter_def Let_def)

lemma adm_core_take_waiter:
  assumes "adm_core s" and st: "map_of (tenants s) i = Some st" and q: "queue st = w # ws"
  shows "adm_core (take_waiter i ws s)"
proof -
  have "distinct ws" using adm_core_tenant(6) [OF assms(1) st] q by simp
  then show ?thesis
    by (intro adm_core_shrink [OF assms(1) st, of ws]) (auto simp: q)
qed

lemma active_ok_take_waiter:
  assumes "active_ok {i} s" and st: "map_of (tenants s) i = Some st"
  shows "active_ok {} (take_waiter i ws s)"
proof -
  let ?s = "s\<lparr>tenants := upd_entry i (\<lambda>st. st\<lparr>queue := ws\<rparr>) (tenants s), global_queued := global_queued s - 1\<rparr>"
  have "active_ok {i} ?s" using assms by (auto simp: active_ok_def)
  then have "active_ok {} (if ws \<noteq> [] then activate_tenant_locked i ?s else ?s)"
    using st active_ok_activate [of i "{}" ?s] active_ok_idle [of i "{}" ?s] by auto
  then show ?thesis by (simp add: take_waiter_def Let_def)
qed

text \<open>Granting a slot to a tenant with capacity.\<close>

definition granted_state :: "string \<Rightarrow> bool \<Rightarrow> admission \<Rightarrow> admission" where
  "granted_state i wq s = snd (grant_locked i wq s)"

lemma grant_locked_ok:
  assumes "map_of (tenants s) i = Some st" and "can_admit s st"
  shows "grant_locked i wq s = (Inr (length (adm_leases s)), granted_state i wq s)"
  using assms by (simp add: grant_locked_def granted_state_def read_clock_def Let_def)

lemma granted_fields:
  assumes "map_of (tenants s) i = Some st" and "can_admit s st"
  shows "tenants (granted_state i wq s) = upd_entry i (\<lambda>st. st\<lparr>inflight := inflight st + 1\<rparr>) (tenants s)"
    "global_inflight (granted_state i wq s) = global_inflight s + 1"
    "global_queued (granted_state i wq s) = global_queued s"
    "global_max_inflight (granted_state i wq s) = global_max_inflight s"
    "global_max_queue (granted_state i wq s) = global_max_queue s"
    "adm_futures (granted_state i wq s) = adm_futures s"
    "active_tenants (granted_state i wq s) = active_tenants s"
    "active_tenant_ids (granted_state i wq s) = active_tenant_ids s"
    "adm_closed (granted_state i wq s) = adm_closed s"
    "adm_observer (granted_state i wq s) = adm_observer s"
    "adm_leases (granted_state i wq s) = adm_leases s @
       [\<lparr>lease_tenant = tenant_id (tenant st), was_queued = wq, granted_at = adm_clock s (adm_ticks s),
         released = False\<rparr>]"
  using assms by (simp_all add: grant_locked_def granted_state_def read_clock_def Let_def)

lemma live_count_append [simp]: "live_count i (ls @ ls') = live_count i ls + live_count i ls'"
  by (simp add: live_count_def)

lemma live_count_single [simp]:
  "live_count i [l] = of_bool (lease_tenant l = i \<and> \<not> released l)"
  by (simp add: live_count_def)

lemma adm_core_grant:
  assumes core: "adm_core s" and st: "map_of (tenants s) i = Some st" and can: "can_admit s st"
  shows "adm_core (granted_state i wq s)"
proof -
  note f = granted_fields [OF st can]
  have tid: "tenant_id (tenant st) = i" using core st by (auto simp: adm_core_defs)
  have sums: "(\<Sum>p\<leftarrow>tenants (granted_state i wq s). inflight (snd p)) = (\<Sum>p\<leftarrow>tenants s. inflight (snd p)) + 1"
    "(\<Sum>p\<leftarrow>tenants (granted_state i wq s). int (length (queue (snd p)))) = (\<Sum>p\<leftarrow>tenants s. int (length (queue (snd p))))"
    unfolding f(1)
    using sum_list_upd_entry [OF st, of inflight] sum_list_upd_entry [OF st, of "\<lambda>st. int (length (queue st))"]
    by simp_all
  have "tenants_ok (granted_state i wq s)"
    using core st can by (auto simp: adm_core_defs f can_admit_def)
  moreover have "sums_ok (granted_state i wq s)"
    unfolding sums_ok_def sums using core can by (simp add: adm_core_def sums_ok_def f can_admit_def)
  moreover have "waiters_ok (granted_state i wq s)"
    using core st by (simp add: adm_core_def waiters_ok_def f)
  moreover have "leases_ok (granted_state i wq s)"
    using core st tid by (auto simp: adm_core_defs f)
  ultimately show ?thesis by (simp add: adm_core_def)
qed

lemma active_ok_grant:
  assumes "map_of (tenants s) i = Some st" and "can_admit s st"
  shows "active_ok A (granted_state i wq s) = active_ok A s"
  using assms by (auto simp: active_ok_def granted_fields)

text \<open>Resolving a future that is in no queue.\<close>

lemma adm_core_resolve:
  assumes core: "adm_core s" and free: "\<And>j st. map_of (tenants s) j = Some st \<Longrightarrow> w \<notin> set (queue st)"
  shows "adm_core (s\<lparr>adm_futures := (adm_futures s)[w := f]\<rparr>)"
proof -
  have "waiters_ok (s\<lparr>adm_futures := (adm_futures s)[w := f]\<rparr>)"
    unfolding waiters_ok_def
  proof (intro conjI allI impI ballI)
    fix i st x
    assume st: "map_of (tenants (s\<lparr>adm_futures := (adm_futures s)[w := f]\<rparr>)) i = Some st" and x: "x \<in> set (queue st)"
    then have "x \<noteq> w" using free by auto
    with core st x show "x < length (adm_futures (s\<lparr>adm_futures := (adm_futures s)[w := f]\<rparr>))"
      "adm_futures (s\<lparr>adm_futures := (adm_futures s)[w := f]\<rparr>) ! x = Pending \<or>
       adm_futures (s\<lparr>adm_futures := (adm_futures s)[w := f]\<rparr>) ! x = Cancelled"
      by (simp_all add: adm_core_def waiters_ok_def)
  next
    fix i st
    assume "map_of (tenants (s\<lparr>adm_futures := (adm_futures s)[w := f]\<rparr>)) i = Some st"
    with core show "distinct (queue st)" by (simp add: adm_core_def waiters_ok_def)
  next
    fix i j st st'
    assume "map_of (tenants (s\<lparr>adm_futures := (adm_futures s)[w := f]\<rparr>)) i = Some st"
      "map_of (tenants (s\<lparr>adm_futures := (adm_futures s)[w := f]\<rparr>)) j = Some st'" "i \<noteq> j"
    with core show "set (queue st) \<inter> set (queue st') = {}" by (simp add: adm_core_def waiters_ok_def)
  qed
  then show ?thesis using core by (simp add: adm_core_def tenants_ok_def sums_ok_def leases_ok_def)
qed

section \<open>One dispatch pass\<close>

text \<open>
  What dispatching sees of a tenant: its limits, its inflight count and its waiters from the
  first one still pending on. Dropping completed waiters does not change the view.
\<close>

definition view :: "admission \<Rightarrow> string \<Rightarrow> (tenant_context \<times> int \<times> nat list) option" where
  "view s i = map_option (\<lambda>st. (tenant st, inflight st, dropWhile (\<lambda>w. future_done (adm_futures s ! w)) (queue st)))
     (map_of (tenants s) i)"

definition eligible :: "admission \<Rightarrow> string \<Rightarrow> bool" where
  "eligible s i = (case view s i of Some (t, f, q) \<Rightarrow> f < max_inflight t \<and> q \<noteq> [] | None \<Rightarrow> False)"

definition next_waiter :: "admission \<Rightarrow> string \<Rightarrow> nat" where
  "next_waiter s i = (case view s i of Some (t, f, q) \<Rightarrow> hd q | None \<Rightarrow> 0)"

definition queue_of :: "admission \<Rightarrow> string \<Rightarrow> nat list" where
  "queue_of s i = (case map_of (tenants s) i of Some st \<Rightarrow> queue st | None \<Rightarrow> [])"

text \<open>An attached observer has last been told the counters as they are now.\<close>

fun last_state :: "admission_event list \<Rightarrow> admission_event option" where
  "last_state [] = None"
| "last_state (e # es) = (case last_state es of
      Some x \<Rightarrow> Some x
    | None \<Rightarrow> (case e of State_changed _ _ _ \<Rightarrow> Some e | Wait_observed _ _ \<Rightarrow> None))"

definition mirrored :: "admission \<Rightarrow> bool" where
  "mirrored s \<longleftrightarrow> (adm_observer s \<longrightarrow> last_state (adm_events s) = Some (state_event s))"

lemma last_state_append:
  "last_state (es @ [e]) = (case e of State_changed _ _ _ \<Rightarrow> Some e | Wait_observed _ _ \<Rightarrow> last_state es)"
  by (induction es) (auto split: admission_event.splits option.splits)

lemma state_event_cong:
  "tenants s' = tenants s \<Longrightarrow> global_inflight s' = global_inflight s \<Longrightarrow> global_queued s' = global_queued s \<Longrightarrow>
   state_event s' = state_event s"
  by (simp add: state_event_def)

lemma mirrored_notify [simp]: "mirrored (adm_notify s)"
  by (auto simp: mirrored_def adm_notify_def last_state_append state_event_def)

lemma mirrored_cong:
  assumes "tenants s' = tenants s" and "global_inflight s' = global_inflight s" and "global_queued s' = global_queued s"
    and "adm_observer s' = adm_observer s" and "adm_events s' = adm_events s"
  shows "mirrored s' = mirrored s"
  using assms state_event_cong [of s' s] by (simp add: mirrored_def)

lemma mirrored_granted:
  assumes "map_of (tenants s) i = Some st" and "can_admit s st"
  shows "mirrored (granted_state i wq s)"
  using assms by (simp add: granted_state_def grant_locked_def read_clock_def Let_def)

text \<open>A pass that grants nothing leaves everything but completed waiters and the rotation as it was.\<close>

definition skips :: "admission \<Rightarrow> admission \<Rightarrow> bool" where
  "skips s s' \<longleftrightarrow> adm_futures s' = adm_futures s \<and> adm_leases s' = adm_leases s \<and>
     global_inflight s' = global_inflight s \<and> global_max_inflight s' = global_max_inflight s \<and>
     global_max_queue s' = global_max_queue s \<and> adm_closed s' = adm_closed s \<and>
     adm_observer s' = adm_observer s \<and> (\<forall>j. view s' j = view s j) \<and>
     (\<forall>j. \<exists>pre. queue_of s j = pre @ queue_of s' j) \<and> (mirrored s \<longrightarrow> mirrored s')"

lemma skips_refl: "skips s s"
  by (simp add: skips_def)

lemma skips_trans:
  assumes "skips s t" and "skips t u"
  shows "skips s u"
proof -
  have "\<exists>pre. queue_of s j = pre @ queue_of u j" for j
  proof -
    have "\<exists>p. queue_of s j = p @ queue_of t j" "\<exists>q. queue_of t j = q @ queue_of u j"
      using assms unfolding skips_def by blast+
    then obtain p q where "queue_of s j = p @ queue_of t j" "queue_of t j = q @ queue_of u j" by blast
    then show ?thesis by (intro exI [of _ "p @ q"]) simp
  qed
  with assms show ?thesis by (simp add: skips_def)
qed

lemma skips_eligible: "skips s s' \<Longrightarrow> eligible s' = eligible s"
  by (auto simp: skips_def eligible_def fun_eq_iff)

lemma skips_next_waiter: "skips s s' \<Longrightarrow> next_waiter s' = next_waiter s"
  by (auto simp: skips_def next_waiter_def fun_eq_iff)

lemma dropWhile_twice: "dropWhile P (dropWhile P xs) = dropWhile P xs"
  by (induction xs) auto

lemma mirrored_discard: "mirrored s \<Longrightarrow> mirrored (discard_completed_waiters_locked i s)"
proof (cases "map_of (tenants s) i")
  case (Some st)
  assume m: "mirrored s"
  let ?P = "\<lambda>w. future_done (adm_futures s ! w)"
  show ?thesis
  proof (cases "length (dropWhile ?P (queue st)) < length (queue st)")
    case True
    with Some show ?thesis
      by (simp add: discard_completed_waiters_locked_def discard_loop_dropWhile Let_def)
  next
    case False
    then have "dropWhile ?P (queue st) = queue st"
      by (metis append.simps(1) length_append length_greater_0_conv less_add_same_cancel2 takeWhile_dropWhile_id)
    then have "discard_completed_waiters_locked i s = s"
      using Some upd_entry_same [OF Some, of "\<lambda>st'. st'\<lparr>queue := queue st\<rparr>"]
      by (simp add: discard_completed_waiters_locked_def discard_loop_dropWhile Let_def)
    with m show ?thesis by simp
  qed
qed (simp add: discard_completed_waiters_locked_def)

lemma queue_of_take_candidate:
  "queue_of (take_candidate i rest s) j =
     (if j = i then dropWhile (\<lambda>w. future_done (adm_futures s ! w)) (queue_of s i) else queue_of s j)"
  by (auto simp: queue_of_def map_of_take_candidate split: option.splits)

lemma skips_take_candidate: "skips s (take_candidate i rest s)"
proof -
  have "\<exists>pre. queue_of s j = pre @ queue_of (take_candidate i rest s) j" for j
    using takeWhile_dropWhile_id [of "\<lambda>w. future_done (adm_futures s ! w)" "queue_of s i"]
    by (metis append_Nil queue_of_take_candidate)
  moreover have "mirrored s \<longrightarrow> mirrored (take_candidate i rest s)"
    using mirrored_cong [of "s\<lparr>active_tenants := rest, active_tenant_ids := active_tenant_ids s - {i}\<rparr>" s]
    by (simp add: take_candidate_def mirrored_discard)
  ultimately show ?thesis
    by (auto simp: skips_def view_def map_of_take_candidate option.map_comp o_def dropWhile_twice)
qed

lemma skips_activate: "skips s (activate_tenant_locked i s)"
  using mirrored_cong [of "activate_tenant_locked i s" s]
  by (simp add: skips_def view_def queue_of_def)

lemma activate_fresh:
  "i \<notin> active_tenant_ids s \<Longrightarrow> active_tenants (activate_tenant_locked i s) = active_tenants s @ [i]"
  by (simp add: activate_tenant_locked_def)

lemma active_ok_exists:
  assumes "active_ok A s" and "i \<in> set (active_tenants s)"
  obtains st where "map_of (tenants s) i = Some st" and "queue st \<noteq> []" and "i \<in> active_tenant_ids s"
  using assms by (auto simp: active_ok_def)

text \<open>
  The pass over the next \<open>n\<close> candidates never raises. Either none of them is eligible and nothing
  is granted, or the first eligible one, at position \<open>k\<close>, gets a slot for its oldest pending
  waiter; the tenants that stay in the rotation keep their order, the granted one goes last.
\<close>

definition grants :: "admission \<Rightarrow> nat \<Rightarrow> admission \<Rightarrow> bool" where
  "grants s k s' \<longleftrightarrow> (\<exists>s1 i st ws kept.
     skips s s1 \<and> adm_core s1 \<and> i = active_tenants s ! k \<and> map_of (tenants s1) i = Some st \<and>
     queue st = next_waiter s i # ws \<and> \<not> future_done (adm_futures s ! next_waiter s i) \<and>
     inflight st < max_inflight (tenant st) \<and>
     active_ok {i} s1 \<and> active_tenants s1 = drop (Suc k) (active_tenants s) @ kept \<and>
     set kept \<subseteq> set (take k (active_tenants s)) \<and>
     grant_waiter i (next_waiter s i) (take_waiter i ws s1) = (Inr (), s'))"

lemma grant_waiter_ok:
  assumes core: "adm_core s" and act: "active_ok {i} s" and st: "map_of (tenants s) i = Some st"
    and q: "queue st = w # ws" and pend: "\<not> future_done (adm_futures s ! w)"
    and cap: "inflight st < max_inflight (tenant st)" "global_inflight s < global_max_inflight s"
  defines "s3 \<equiv> granted_state i True (take_waiter i ws s)"
  defines "s4 \<equiv> s3\<lparr>adm_futures := (adm_futures s3)[w := Result (length (adm_leases s))]\<rparr>"
  shows "grant_waiter i w (take_waiter i ws s) = (Inr (), s4)" and "adm_core s4" and "active_ok {} s4"
proof -
  let ?s2 = "take_waiter i ws s"
  have st2: "map_of (tenants ?s2) i = Some (st\<lparr>queue := ws\<rparr>)" using st by simp
  have can: "can_admit ?s2 (st\<lparr>queue := ws\<rparr>)" using cap by (simp add: can_admit_def)
  have g: "grant_locked i True ?s2 = (Inr (length (adm_leases s)), s3)"
    using grant_locked_ok [OF st2 can, of True] by (simp add: s3_def)
  note f = granted_fields [OF st2 can, of True, folded s3_def]
  show "grant_waiter i w (take_waiter i ws s) = (Inr (), s4)"
    using pend by (simp add: grant_waiter_def g future_set_result_def f s4_def)
  have core3: "adm_core s3"
    unfolding s3_def by (intro adm_core_grant [OF _ st2 can] adm_core_take_waiter [OF core st q])
  have "active_ok {} s3"
    unfolding s3_def active_ok_grant [OF st2 can] by (rule active_ok_take_waiter [OF act st])
  then show "active_ok {} s4" by (simp add: s4_def active_ok_def)
  show "adm_core s4" unfolding s4_def
  proof (rule adm_core_resolve [OF core3])
    fix j st'
    assume j: "map_of (tenants s3) j = Some st'"
    show "w \<notin> set (queue st')"
    proof (cases "j = i")
      case True
      then show ?thesis using j st q adm_core_tenant(6) [OF core st] by (auto simp: f(1))
    next
      case False
      with j have "map_of (tenants s) j = Some st'" by (simp add: f(1))
      with False adm_core_one_queue [OF core st] q show ?thesis by auto
    qed
  qed
qed

lemma grants_keeps:
  assumes "grants s k s'" and "global_inflight s < global_max_inflight s"
  shows "adm_core s'" and "active_ok {} s'"
proof -
  obtain s1 i st ws kept where *: "skips s s1" "adm_core s1" "map_of (tenants s1) i = Some st"
    "queue st = next_waiter s i # ws" "\<not> future_done (adm_futures s ! next_waiter s i)"
    "inflight st < max_inflight (tenant st)" "active_ok {i} s1"
    "grant_waiter i (next_waiter s i) (take_waiter i ws s1) = (Inr (), s')"
    using assms(1) by (auto simp: grants_def)
  from *(1) assms(2) have "global_inflight s1 < global_max_inflight s1" "adm_futures s1 = adm_futures s"
    by (simp_all add: skips_def)
  with grant_waiter_ok [OF *(2,7,3,4)] *(5,6,8) show "adm_core s'" "active_ok {} s'" by simp_all
qed

end
