(* ===== verification/Gw_Admission_Dispatch.thy ===== *)
theory Gw_Admission_Dispatch
  imports Gw_Admission_Inv
begin

text \<open>
  Dispatching waiters: a pass over the rotation is characterised by which tenant it serves,
  the loop by its final state. From these follow the preservation of the invariant by every
  critical section, the absence of the internal errors, work conservation and fairness.
\<close>

section \<open>A pass over the rotation\<close>

definition at_limit :: "admission \<Rightarrow> string \<Rightarrow> bool" where
  "at_limit s i = (case map_of (tenants s) i of Some st \<Rightarrow> inflight st = max_inflight (tenant st) | None \<Rightarrow> False)"

lemma skips_at_limit: "skips s s' \<Longrightarrow> at_limit s' i = at_limit s i"
proof -
  assume "skips s s'"
  then have "view s' i = view s i" by (simp add: skips_def)
  then show ?thesis
    by (cases "map_of (tenants s) i"; cases "map_of (tenants s') i") (auto simp: view_def at_limit_def)
qed

lemma candidate_view:
  assumes "map_of (tenants (take_candidate i rest s)) i = Some st"
  shows "view s i = Some (tenant st, inflight st, queue st)"
    and "\<And>w ws. queue st = w # ws \<Longrightarrow> \<not> future_done (adm_futures s ! w)"
proof -
  obtain st0 where st0: "map_of (tenants s) i = Some st0"
    and st: "st = st0\<lparr>queue := dropWhile (\<lambda>w. future_done (adm_futures s ! w)) (queue st0)\<rparr>"
    using assms by (auto simp: map_of_take_candidate)
  then show "view s i = Some (tenant st, inflight st, queue st)" by (simp add: view_def)
  fix w ws
  assume "queue st = w # ws"
  then show "\<not> future_done (adm_futures s ! w)"
    using hd_dropWhile [of "\<lambda>w. future_done (adm_futures s ! w)" "queue st0"] st by auto
qed

definition skip_pass :: "admission \<Rightarrow> nat \<Rightarrow> admission \<Rightarrow> bool" where
  "skip_pass s n s' \<longleftrightarrow> skips s s' \<and> adm_core s' \<and> active_ok {} s' \<and>
     (\<forall>i\<in>set (take n (active_tenants s)). \<not> eligible s i) \<and>
     (\<exists>kept. active_tenants s' = drop n (active_tenants s) @ kept \<and>
        set kept \<subseteq> set (take n (active_tenants s)) \<and> (\<forall>i\<in>set kept. at_limit s i))"

definition grant_pass :: "admission \<Rightarrow> nat \<Rightarrow> admission \<Rightarrow> bool" where
  "grant_pass s n s' \<longleftrightarrow> (\<exists>k<n. k < length (active_tenants s) \<and>
     (\<forall>i\<in>set (take k (active_tenants s)). \<not> eligible s i) \<and>
     eligible s (active_tenants s ! k) \<and> grants s k s')"

lemma skip_pass_0: "adm_core s \<Longrightarrow> active_ok {} s \<Longrightarrow> skip_pass s 0 s"
  by (simp add: skip_pass_def skips_refl)

text \<open>Prefixing a pass with one skipped candidate.\<close>

definition skipped_one :: "admission \<Rightarrow> string \<Rightarrow> string list \<Rightarrow> string list \<Rightarrow> admission \<Rightarrow> bool" where
  "skipped_one s i rest kept t \<longleftrightarrow> active_tenants s = i # rest \<and> skips s t \<and> adm_core t \<and> active_ok {} t \<and>
     \<not> eligible s i \<and> active_tenants t = rest @ kept \<and> (kept = [] \<or> kept = [i] \<and> at_limit s i)"

lemma skip_pass_Suc:
  assumes "skipped_one s i rest kept t" and "skip_pass t n s'" and "n \<le> length rest"
  shows "skip_pass s (Suc n) s'"
proof -
  from assms(1) have t: "active_tenants s = i # rest" "skips s t" "\<not> eligible s i"
    "active_tenants t = rest @ kept" "kept = [] \<or> kept = [i] \<and> at_limit s i"
    by (auto simp: skipped_one_def)
  from assms(2) obtain kept' where k: "skips t s'" "adm_core s'" "active_ok {} s'"
    "\<forall>j\<in>set (take n (rest @ kept)). \<not> eligible t j"
    "active_tenants s' = drop n (rest @ kept) @ kept'"
    "set kept' \<subseteq> set (take n (rest @ kept))" "\<forall>j\<in>set kept'. at_limit t j"
    by (auto simp: skip_pass_def t(4))
  have "active_tenants s' = drop (Suc n) (active_tenants s) @ (kept @ kept')"
    using k(5) assms(3) t(1) by simp
  moreover have "set (kept @ kept') \<subseteq> set (take (Suc n) (active_tenants s))"
    using k(6) assms(3) t(1,5) by auto
  moreover have "\<forall>j\<in>set (kept @ kept'). at_limit s j"
    using k(7) t(5) skips_at_limit [OF t(2)] by auto
  moreover have "\<forall>j\<in>set (take (Suc n) (active_tenants s)). \<not> eligible s j"
    using k(4) assms(3) t(1,3) skips_eligible [OF t(2)] by auto
  ultimately show ?thesis
    unfolding skip_pass_def using skips_trans [OF t(2) k(1)] k(2,3) by blast
qed

lemma grants_Suc:
  assumes one: "skipped_one s i rest kept t" and g: "grants t k s'" and k: "k < length rest"
  shows "grants s (Suc k) s'"
proof -
  from one have t: "active_tenants s = i # rest" "skips s t" "active_tenants t = rest @ kept"
    "set kept \<subseteq> {i}"
    by (auto simp: skipped_one_def)
  have nth: "active_tenants s ! Suc k = active_tenants t ! k" using k t(1,3) by (simp add: nth_append)
  from g obtain s1 st ws kept' where s1: "skips t s1" "adm_core s1"
    "map_of (tenants s1) (active_tenants t ! k) = Some st"
    "queue st = next_waiter t (active_tenants t ! k) # ws"
    "\<not> future_done (adm_futures t ! next_waiter t (active_tenants t ! k))"
    "inflight st < max_inflight (tenant st)" "active_ok {active_tenants t ! k} s1"
    "active_tenants s1 = drop (Suc k) (active_tenants t) @ kept'"
    "set kept' \<subseteq> set (take k (active_tenants t))"
    "grant_waiter (active_tenants t ! k) (next_waiter t (active_tenants t ! k))
       (take_waiter (active_tenants t ! k) ws s1) = (Inr (), s')"
    by (auto simp: grants_def)
  have nw: "next_waiter t = next_waiter s" by (rule skips_next_waiter [OF t(2)])
  have fut: "adm_futures t = adm_futures s" using t(2) by (simp add: skips_def)
  have "active_tenants s1 = drop (Suc (Suc k)) (active_tenants s) @ (kept @ kept')"
    using s1(8) k t(1,3) by simp
  moreover have "set (kept @ kept') \<subseteq> set (take (Suc k) (active_tenants s))"
    using s1(9) k t by auto
  ultimately show ?thesis
    unfolding grants_def nth using skips_trans [OF t(2) s1(1)] s1(2-7,10) nw fut by metis
qed

lemma grant_pass_Suc:
  assumes "skipped_one s i rest kept t" and "grant_pass t n s'" and "n \<le> length rest"
  shows "grant_pass s (Suc n) s'"
proof -
  from assms(1) have t: "active_tenants s = i # rest" "skips s t" "\<not> eligible s i" "active_tenants t = rest @ kept"
    by (auto simp: skipped_one_def)
  note el = skips_eligible [OF t(2)]
  from assms(2) obtain k where k: "k < n" "\<forall>j\<in>set (take k (rest @ kept)). \<not> eligible t j"
    "eligible t ((rest @ kept) ! k)" "grants t k s'"
    by (auto simp: grant_pass_def t(4))
  with assms(3) have "k < length rest" by simp
  then have "grants s (Suc k) s'" by (rule grants_Suc [OF assms(1) k(4)])
  moreover have "eligible s (active_tenants s ! Suc k)"
    using k(3) el \<open>k < length rest\<close> by (simp add: t(1) nth_append)
  moreover have "\<forall>j\<in>set (take (Suc k) (active_tenants s)). \<not> eligible s j"
    using k(2) el t(1,3) \<open>k < length rest\<close> by auto
  ultimately show ?thesis
    unfolding grant_pass_def using k(1) \<open>k < length rest\<close> t(1) by (intro exI [of _ "Suc k"]) simp
qed

text \<open>The three things that can happen to the next candidate.\<close>

lemma skipped_idle:
  assumes "adm_core s" and "active_ok {} s" and act: "active_tenants s = i # rest"
    and st: "map_of (tenants (take_candidate i rest s)) i = Some st" and q: "queue st = []"
  shows "skipped_one s i rest [] (take_candidate i rest s)"
  using assms candidate_view(1) [OF st]
    active_ok_idle [OF active_ok_take_candidate [OF assms(2) act] st q]
  by (simp add: skipped_one_def skips_take_candidate adm_core_take_candidate eligible_def)

lemma skipped_limited:
  assumes core: "adm_core s" and ok: "active_ok {} s" and act: "active_tenants s = i # rest"
    and st: "map_of (tenants (take_candidate i rest s)) i = Some st" and q: "queue st \<noteq> []"
    and lim: "max_inflight (tenant st) \<le> inflight st"
  shows "skipped_one s i rest [i] (activate_tenant_locked i (take_candidate i rest s))"
proof -
  let ?t = "take_candidate i rest s"
  have "adm_core ?t" by (rule adm_core_take_candidate [OF core])
  then have "inflight st = max_inflight (tenant st)" using adm_core_tenant(3) [OF _ st] lim by force
  then have "at_limit s i"
    using st skips_at_limit [OF skips_take_candidate [of s i rest], of i] by (simp add: at_limit_def)
  moreover have "active_ok {} (activate_tenant_locked i ?t)"
    by (rule active_ok_activate [OF active_ok_take_candidate [OF ok act] st q]) simp
  moreover have "\<not> eligible s i"
    using lim candidate_view(1) [OF st] by (simp add: eligible_def)
  ultimately show ?thesis
    using act skips_trans [OF skips_take_candidate [of s i rest] skips_activate [of ?t i]] \<open>adm_core ?t\<close>
    by (simp add: skipped_one_def activate_fresh)
qed

lemma granted_candidate:
  assumes core: "adm_core s" and ok: "active_ok {} s" and act: "active_tenants s = i # rest"
    and st: "map_of (tenants (take_candidate i rest s)) i = Some st" and q: "queue st = w # ws"
    and cap: "inflight st < max_inflight (tenant st)" "global_inflight s < global_max_inflight s"
  shows "\<exists>s'. grant_waiter i w (take_waiter i ws (take_candidate i rest s)) = (Inr (), s') \<and>
    grant_pass s (Suc n) s'"
proof -
  let ?t = "take_candidate i rest s"
  have ct: "adm_core ?t" by (rule adm_core_take_candidate [OF core])
  have at: "active_ok {i} ?t" by (rule active_ok_take_candidate [OF ok act])
  have pend: "\<not> future_done (adm_futures s ! w)" by (rule candidate_view(2) [OF st q])
  have v: "view s i = Some (tenant st, inflight st, w # ws)" using candidate_view(1) [OF st] q by simp
  then have nw: "next_waiter s i = w" and el: "eligible s i"
    using cap by (simp_all add: next_waiter_def eligible_def)
  obtain s' where s': "grant_waiter i w (take_waiter i ws ?t) = (Inr (), s')"
    using grant_waiter_ok(1) [OF ct at st q] pend cap by auto
  have "grants s 0 s'"
    unfolding grants_def using s' skips_take_candidate [of s i rest] ct st q pend cap(1) at act nw
    by (intro exI [of _ ?t] exI [of _ i] exI [of _ st] exI [of _ ws] exI [of _ "[]"]) simp
  with el act s' show ?thesis by (auto simp: grant_pass_def)
qed

lemma dispatch_for_spec:
  assumes "adm_core s" and "active_ok {} s" and "n \<le> length (active_tenants s)"
    and "global_inflight s < global_max_inflight s"
  shows "(\<exists>s'. dispatch_for n s = (Inr False, s') \<and> skip_pass s n s') \<or>
    (\<exists>s'. dispatch_for n s = (Inr True, s') \<and> grant_pass s n s')"
  using assms
proof (induction n arbitrary: s)
  case 0
  then show ?case by (simp add: dispatch_for.simps skip_pass_0)
next
  case (Suc n)
  then obtain i rest where act: "active_tenants s = i # rest" and n: "n \<le> length rest"
    by (cases "active_tenants s") auto
  let ?t = "take_candidate i rest s"
  obtain st0 where "map_of (tenants s) i = Some st0" and mem: "i \<in> active_tenant_ids s"
    using active_ok_exists [OF Suc.prems(2), of i] act by auto
  then obtain st where st: "map_of (tenants ?t) i = Some st" by (simp add: map_of_take_candidate)
  have unfold: "dispatch_for (Suc n) s = (case queue st of
      [] \<Rightarrow> dispatch_for n ?t
    | w # ws \<Rightarrow> if inflight st \<ge> max_inflight (tenant st) then dispatch_for n (activate_tenant_locked i ?t)
        else and_then (grant_waiter i w (take_waiter i ws ?t)) (\<lambda>_ s'. (Inr True, s')))"
    by (simp add: dispatch_for.simps act mem st)
  have via_skip: ?case if "skipped_one s i rest kept t" "dispatch_for (Suc n) s = dispatch_for n t" for kept t
  proof -
    have t: "adm_core t" "active_ok {} t" "n \<le> length (active_tenants t)"
      "global_inflight t < global_max_inflight t"
      using that(1) n Suc.prems(4) by (auto simp: skipped_one_def skips_def)
    from Suc.IH [OF t] that skip_pass_Suc [OF that(1) _ n] grant_pass_Suc [OF that(1) _ n]
    show ?thesis by fastforce
  qed
  show ?case
  proof (cases "queue st")
    case Nil
    show ?thesis
      by (rule via_skip [OF skipped_idle [OF Suc.prems(1,2) act st Nil]]) (simp add: unfold Nil)
  next
    case (Cons w ws)
    show ?thesis
    proof (cases "max_inflight (tenant st) \<le> inflight st")
      case True
      show ?thesis
        by (rule via_skip [OF skipped_limited [OF Suc.prems(1,2) act st _ True]])
          (simp_all add: unfold Cons True)
    next
      case False
      with granted_candidate [OF Suc.prems(1,2) act st Cons _ Suc.prems(4), of n]
      show ?thesis by (auto simp: unfold Cons)
    qed
  qed
qed

section \<open>What a pass changes\<close>

definition frame :: "admission \<Rightarrow> admission \<Rightarrow> bool" where
  "frame s s' \<longleftrightarrow> global_max_inflight s' = global_max_inflight s \<and> global_max_queue s' = global_max_queue s \<and>
     adm_closed s' = adm_closed s \<and> adm_observer s' = adm_observer s \<and>
     length (adm_futures s') = length (adm_futures s) \<and>
     (\<forall>j. map_option tenant (map_of (tenants s') j) = map_option tenant (map_of (tenants s) j))"

lemma frame_refl: "frame s s"
  by (simp add: frame_def)

lemma frame_trans: "frame s t \<Longrightarrow> frame t u \<Longrightarrow> frame s u"
  by (simp add: frame_def)

lemma skips_tenant:
  assumes "skips s s'"
  shows "map_option tenant (map_of (tenants s') j) = map_option tenant (map_of (tenants s) j)"
    and "map_option inflight (map_of (tenants s') j) = map_option inflight (map_of (tenants s) j)"
proof -
  have "view s' j = view s j" using assms by (simp add: skips_def)
  then show "map_option tenant (map_of (tenants s') j) = map_option tenant (map_of (tenants s) j)"
    "map_option inflight (map_of (tenants s') j) = map_option inflight (map_of (tenants s) j)"
    by (cases "map_of (tenants s) j"; cases "map_of (tenants s') j"; simp add: view_def)+
qed

lemma skips_frame: "skips s s' \<Longrightarrow> frame s s'"
  using skips_tenant by (auto simp: frame_def skips_def)

lemma skips_queue:
  assumes "skips s t"
  shows "\<exists>pre. queue_of s i = pre @ queue_of t i \<and> (\<forall>w\<in>set pre. adm_futures t ! w \<noteq> Pending)"
proof -
  have v: "view t i = view s i" and f: "adm_futures t = adm_futures s" using assms by (simp_all add: skips_def)
  obtain pre where pre: "queue_of s i = pre @ queue_of t i" using assms unfolding skips_def by blast
  let ?P = "\<lambda>w. future_done (adm_futures s ! w)"
  have "dropWhile ?P (queue_of t i) = dropWhile ?P (queue_of s i)"
    using v f by (cases "map_of (tenants s) i"; cases "map_of (tenants t) i") (simp_all add: view_def queue_of_def)
  then have "length (dropWhile ?P (pre @ queue_of t i)) \<le> length (queue_of t i)"
    using pre length_dropWhile_le [of ?P "queue_of t i"] by simp
  then have "\<forall>w\<in>set pre. ?P w" by (cases "\<forall>w\<in>set pre. ?P w") (simp_all add: dropWhile_append)
  with pre f show ?thesis by (auto simp: future_done_def)
qed

text \<open>A granting pass resolves one pending future with one new lease.\<close>

lemma grants_effect:
  assumes g: "grants s k s'" and room: "global_inflight s < global_max_inflight s" and core: "adm_core s"
  defines "i \<equiv> active_tenants s ! k"
  shows "frame s s'"
    and "adm_futures s ! next_waiter s i = Pending"
    and "next_waiter s i < length (adm_futures s)"
    and "adm_futures s' = (adm_futures s)[next_waiter s i := Result (length (adm_leases s))]"
    and "\<exists>l. adm_leases s' = adm_leases s @ [l] \<and> lease_tenant l = i \<and> was_queued l \<and> \<not> released l"
    and "global_inflight s' = global_inflight s + 1"
    and "\<exists>kept. active_tenants s' = drop (Suc k) (active_tenants s) @ kept"
    and "\<exists>pre. queue_of s j = pre @ queue_of s' j \<and> (\<forall>w\<in>set pre. adm_futures s' ! w \<noteq> Pending)"
    and "mirrored s'"
    and "j \<noteq> i \<Longrightarrow> view s' j = view s j"
    and "next_waiter s i \<in> set (queue_of s i)"
proof -
  obtain s1 st ws kept where s1: "skips s s1" "adm_core s1" "map_of (tenants s1) i = Some st"
    "queue st = next_waiter s i # ws" "\<not> future_done (adm_futures s ! next_waiter s i)"
    "inflight st < max_inflight (tenant st)" "active_ok {i} s1"
    "active_tenants s1 = drop (Suc k) (active_tenants s) @ kept"
    "grant_waiter i (next_waiter s i) (take_waiter i ws s1) = (Inr (), s')"
    using g by (auto simp: grants_def i_def)
  have eqs: "adm_futures s1 = adm_futures s" "adm_leases s1 = adm_leases s" "global_inflight s1 = global_inflight s"
    "global_max_inflight s1 = global_max_inflight s"
    using s1(1) by (simp_all add: skips_def)
  let ?t = "take_waiter i ws s1"
  let ?s3 = "granted_state i True ?t"
  have st2: "map_of (tenants ?t) i = Some (st\<lparr>queue := ws\<rparr>)" using s1(3) by simp
  have can: "can_admit ?t (st\<lparr>queue := ws\<rparr>)" using s1(6) room eqs by (simp add: can_admit_def)
  note f = granted_fields [OF st2 can, of True]
  have s'_def: "s' = ?s3\<lparr>adm_futures := (adm_futures ?s3)[next_waiter s i := Result (length (adm_leases s1))]\<rparr>"
    using grant_waiter_ok(1) [OF s1(2,7,3,4)] s1(5,6,9) room eqs by simp
  then have s': "adm_futures s' = (adm_futures s)[next_waiter s i := Result (length (adm_leases s))]"
    "adm_leases s' = adm_leases ?s3" "global_inflight s' = global_inflight s + 1"
    "active_tenants s' = active_tenants ?t" "tenants s' = tenants ?s3"
    "global_max_inflight s' = global_max_inflight s1" "global_max_queue s' = global_max_queue s1"
    "adm_closed s' = adm_closed s1" "adm_observer s' = adm_observer s1"
    using eqs by (simp_all add: f)
  show "adm_futures s' = (adm_futures s)[next_waiter s i := Result (length (adm_leases s))]" by (rule s')
  show "global_inflight s' = global_inflight s + 1" by (rule s')
  show "adm_futures s ! next_waiter s i = Pending" using s1(5) by (simp add: future_done_def)
  show "next_waiter s i < length (adm_futures s)"
    using adm_core_waiter(1) [OF s1(2,3)] s1(4) eqs by simp
  show "\<exists>l. adm_leases s' = adm_leases s @ [l] \<and> lease_tenant l = i \<and> was_queued l \<and> \<not> released l"
    using s'(2) adm_core_tenant(1) [OF s1(2,3)] eqs by (simp add: f)
  show "\<exists>kept. active_tenants s' = drop (Suc k) (active_tenants s) @ kept"
    using s1(8) s'(4) by (auto simp: take_waiter_def Let_def activate_tenant_locked_def)
  have "frame s1 s'"
    using s' s1(3) eqs by (auto simp: frame_def f(1) option.map_comp o_def)
  with skips_frame [OF s1(1)] show "frame s s'" by (rule frame_trans)
  have q': "queue_of s' j = (if j = i then ws else queue_of s1 j)" for j
    using s1(3) by (simp add: queue_of_def s'(5) f(1))
  have wr: "next_waiter s i < length (adm_futures s)"
    using adm_core_waiter(1) [OF s1(2,3)] s1(4) eqs by simp
  obtain pre where pre: "queue_of s j = pre @ queue_of s1 j" "\<forall>w\<in>set pre. adm_futures s1 ! w \<noteq> Pending"
    using skips_queue [OF s1(1), of j] by blast
  show "\<exists>pre. queue_of s j = pre @ queue_of s' j \<and> (\<forall>w\<in>set pre. adm_futures s' ! w \<noteq> Pending)"
  proof (cases "j = i")
    case True
    then have "queue_of s1 j = next_waiter s i # ws" using s1(3,4) by (simp add: queue_of_def)
    then show ?thesis using pre True q' s'(1) eqs(1) wr
      by (intro exI [of _ "pre @ [next_waiter s i]"]) (auto simp: nth_list_update)
  next
    case False
    then show ?thesis using pre q' s'(1) eqs(1) wr by (intro exI [of _ pre]) (auto simp: nth_list_update)
  qed
  have "next_waiter s i \<in> set (queue_of s1 i)" using s1(3,4) by (simp add: queue_of_def)
  then show "next_waiter s i \<in> set (queue_of s i)" using skips_queue [OF s1(1), of i] by auto
  have "mirrored ?s3" by (rule mirrored_granted [OF st2 can])
  moreover have "mirrored s' = mirrored ?s3" by (rule mirrored_cong) (simp_all add: s'_def)
  ultimately show "mirrored s'" by simp
  show "view s' j = view s j" if "j \<noteq> i"
  proof -
    have "view s' j = view s1 j"
    proof (cases "map_of (tenants s1) j")
      case (Some stj)
      have "next_waiter s i \<notin> set (queue stj)"
        using adm_core_one_queue [OF s1(2,3) _ Some] s1(4) that by auto
      then have "dropWhile (\<lambda>w. future_done (adm_futures s' ! w)) (queue stj) =
          dropWhile (\<lambda>w. future_done (adm_futures s1 ! w)) (queue stj)"
        using s'(1) eqs(1) wr by (intro dropWhile_cong) (auto simp: nth_list_update split: if_splits)
      with Some that show ?thesis by (simp add: view_def s'(5) f(1))
    next
      case None
      with that show ?thesis by (simp add: view_def s'(5) f(1))
    qed
    with s1(1) show ?thesis by (simp add: skips_def)
  qed
qed

section \<open>The dispatch loop\<close>

text \<open>A relation that every pass respects relates the states before and after the loop.\<close>

lemma dispatch_while_rel:
  assumes "adm_core s" and "active_ok {} s"
    and refl: "\<And>s. R s s" and trans: "\<And>s t u. R s t \<Longrightarrow> R t u \<Longrightarrow> R s u"
    and skip: "\<And>s n t. adm_core s \<Longrightarrow> active_ok {} s \<Longrightarrow> skip_pass s n t \<Longrightarrow> R s t"
    and grant: "\<And>s n t. adm_core s \<Longrightarrow> active_ok {} s \<Longrightarrow> global_inflight s < global_max_inflight s \<Longrightarrow>
        grant_pass s n t \<Longrightarrow> R s t"
  shows "\<exists>s'. dispatch_while s = (Inr (), s') \<and> adm_core s' \<and> active_ok {} s' \<and> R s s' \<and>
    (global_inflight s' = global_max_inflight s' \<or> (\<forall>i\<in>set (active_tenants s'). at_limit s' i))"
  using assms(1,2)
proof (induction s rule: dispatch_while.induct)
  case (1 s)
  show ?case
  proof (cases "global_inflight s < global_max_inflight s \<and> active_tenants s \<noteq> []")
    case False
    with "1.prems"(1) have "global_inflight s = global_max_inflight s \<or> active_tenants s = []"
      by (auto simp: adm_core_def sums_ok_def)
    with False "1.prems" refl show ?thesis by (auto simp: dispatch_while.simps [of s])
  next
    case True
    let ?n = "length (active_tenants s)"
    consider (no) t where "dispatch_for ?n s = (Inr False, t)" "skip_pass s ?n t"
      | (yes) t where "dispatch_for ?n s = (Inr True, t)" "grant_pass s ?n t"
      using dispatch_for_spec [OF "1.prems", of ?n] True by auto
    then show ?thesis
    proof cases
      case no
      then have "dispatch_while s = (Inr (), t)" using True by (simp add: dispatch_while.simps [of s])
      moreover from no(2) have "\<forall>i\<in>set (active_tenants t). at_limit t i"
        by (auto simp: skip_pass_def skips_at_limit)
      ultimately show ?thesis
        using no(2) skip [OF "1.prems" no(2)] by (auto simp: skip_pass_def)
    next
      case yes
      then obtain k where "grants s k t" by (auto simp: grant_pass_def)
      then have t: "adm_core t" "active_ok {} t" using grants_keeps True by blast+
      have "R s t" using grant [OF "1.prems" _ yes(2)] True by blast
      moreover from "1.IH" [OF True yes(1) [symmetric] HOL.refl HOL.refl t] obtain s' where
        "dispatch_while t = (Inr (), s') \<and> adm_core s' \<and> active_ok {} s' \<and> R t s' \<and>
         (global_inflight s' = global_max_inflight s' \<or> (\<forall>i\<in>set (active_tenants s'). at_limit s' i))"
        by blast
      moreover have "dispatch_while s = dispatch_while t"
        using True yes(1) by (simp add: dispatch_while.simps [of s])
      ultimately show ?thesis using trans by auto
    qed
  qed
qed

text \<open>
  The footprint of dispatching on futures and leases: futures already done stay as they are,
  a pending future may receive a new lease, and every new lease goes to exactly one future.
\<close>

definition ext :: "admission \<Rightarrow> admission \<Rightarrow> bool" where
  "ext s s' \<longleftrightarrow> frame s s' \<and>
     (\<exists>new. adm_leases s' = adm_leases s @ new \<and> (\<forall>l\<in>set new. \<not> released l)) \<and>
     (\<forall>i. \<exists>pre. queue_of s i = pre @ queue_of s' i \<and>
        (\<forall>w\<in>set pre. w < length (adm_futures s) \<longrightarrow> adm_futures s' ! w \<noteq> Pending)) \<and>
     (mirrored s \<longrightarrow> mirrored s') \<and>
     (\<forall>w<length (adm_futures s). adm_futures s ! w \<noteq> Pending \<longrightarrow> adm_futures s' ! w = adm_futures s ! w) \<and>
     (\<forall>w<length (adm_futures s). adm_futures s ! w = Pending \<longrightarrow> adm_futures s' ! w = Pending \<or>
        (\<exists>l. adm_futures s' ! w = Result l \<and> length (adm_leases s) \<le> l \<and> l < length (adm_leases s') \<and>
           w \<in> set (queue_of s (lease_tenant (adm_leases s' ! l))))) \<and>
     (\<forall>l. length (adm_leases s) \<le> l \<longrightarrow> l < length (adm_leases s') \<longrightarrow>
        (\<exists>w<length (adm_futures s). adm_futures s ! w = Pending \<and> adm_futures s' ! w = Result l)) \<and>
     (\<forall>w w' l. w < length (adm_futures s) \<longrightarrow> w' < length (adm_futures s) \<longrightarrow>
        adm_futures s ! w = Pending \<longrightarrow> adm_futures s ! w' = Pending \<longrightarrow>
        adm_futures s' ! w = Result l \<longrightarrow> adm_futures s' ! w' = Result l \<longrightarrow> w = w')"

lemma extD:
  assumes "ext s s'"
  shows "frame s s'" and "length (adm_futures s') = length (adm_futures s)"
    and "length (adm_leases s) \<le> length (adm_leases s')"
    and "\<And>l. l < length (adm_leases s) \<Longrightarrow> adm_leases s' ! l = adm_leases s ! l"
    and "\<And>l. length (adm_leases s) \<le> l \<Longrightarrow> l < length (adm_leases s') \<Longrightarrow> \<not> released (adm_leases s' ! l)"
    and "\<And>w. w < length (adm_futures s) \<Longrightarrow> adm_futures s ! w \<noteq> Pending \<Longrightarrow> adm_futures s' ! w = adm_futures s ! w"
    and "\<And>w. w < length (adm_futures s) \<Longrightarrow> adm_futures s ! w = Pending \<Longrightarrow> adm_futures s' ! w \<noteq> Pending \<Longrightarrow>
        \<exists>l. adm_futures s' ! w = Result l \<and> length (adm_leases s) \<le> l \<and> l < length (adm_leases s') \<and>
          w \<in> set (queue_of s (lease_tenant (adm_leases s' ! l)))"
    and "\<And>l. length (adm_leases s) \<le> l \<Longrightarrow> l < length (adm_leases s') \<Longrightarrow>
        \<exists>w<length (adm_futures s). adm_futures s ! w = Pending \<and> adm_futures s' ! w = Result l"
    and "\<And>w w' l. w < length (adm_futures s) \<Longrightarrow> w' < length (adm_futures s) \<Longrightarrow>
        adm_futures s ! w = Pending \<Longrightarrow> adm_futures s ! w' = Pending \<Longrightarrow>
        adm_futures s' ! w = Result l \<Longrightarrow> adm_futures s' ! w' = Result l \<Longrightarrow> w = w'"
    and "\<And>i. \<exists>pre. queue_of s i = pre @ queue_of s' i \<and>
        (\<forall>w\<in>set pre. w < length (adm_futures s) \<longrightarrow> adm_futures s' ! w \<noteq> Pending)"
    and "mirrored s \<Longrightarrow> mirrored s'"
proof -
  from assms obtain new where new: "adm_leases s' = adm_leases s @ new" "\<forall>l\<in>set new. \<not> released l"
    by (auto simp: ext_def)
  show "frame s s'" and fl: "length (adm_futures s') = length (adm_futures s)"
    using assms by (simp_all add: ext_def frame_def)
  show "length (adm_leases s) \<le> length (adm_leases s')" by (simp add: new)
  show "adm_leases s' ! l = adm_leases s ! l" if "l < length (adm_leases s)" for l
    using that by (simp add: new nth_append)
  show "\<not> released (adm_leases s' ! l)"
    if "length (adm_leases s) \<le> l" "l < length (adm_leases s')" for l
    using that new by (simp add: nth_append)
  show "adm_futures s' ! w = adm_futures s ! w"
    if "w < length (adm_futures s)" "adm_futures s ! w \<noteq> Pending" for w
    using assms that by (auto simp: ext_def)
  show "\<exists>l. adm_futures s' ! w = Result l \<and> length (adm_leases s) \<le> l \<and> l < length (adm_leases s') \<and>
      w \<in> set (queue_of s (lease_tenant (adm_leases s' ! l)))"
    if "w < length (adm_futures s)" "adm_futures s ! w = Pending" "adm_futures s' ! w \<noteq> Pending" for w
    using assms that unfolding ext_def by meson
  show "\<exists>w<length (adm_futures s). adm_futures s ! w = Pending \<and> adm_futures s' ! w = Result l"
    if "length (adm_leases s) \<le> l" "l < length (adm_leases s')" for l
    using assms that unfolding ext_def by meson
  show "w = w'" if "w < length (adm_futures s)" "w' < length (adm_futures s)"
        "adm_futures s ! w = Pending" "adm_futures s ! w' = Pending"
        "adm_futures s' ! w = Result l" "adm_futures s' ! w' = Result l" for w w' l
    using assms that unfolding ext_def by meson
  show "\<exists>pre. queue_of s i = pre @ queue_of s' i \<and>
      (\<forall>w\<in>set pre. w < length (adm_futures s) \<longrightarrow> adm_futures s' ! w \<noteq> Pending)" for i
    using assms unfolding ext_def by blast
  show "mirrored s'" if "mirrored s" using assms that unfolding ext_def by blast
qed

lemma ext_refl: "ext s s"
  by (simp add: ext_def frame_refl)

lemma ext_trans:
  assumes st: "ext s t" and tu: "ext t u"
  shows "ext s u"
proof -
  note a = extD [OF st] and b = extD [OF tu]
  obtain n1 n2 where "adm_leases t = adm_leases s @ n1" "adm_leases u = adm_leases t @ n2"
    "\<forall>l\<in>set n1. \<not> released l" "\<forall>l\<in>set n2. \<not> released l"
    using st tu by (auto simp: ext_def)
  then have new: "\<exists>new. adm_leases u = adm_leases s @ new \<and> (\<forall>l\<in>set new. \<not> released l)" by auto
  have keep: "adm_futures u ! w = adm_futures s ! w"
    if "w < length (adm_futures s)" "adm_futures s ! w \<noteq> Pending" for w
    using a(6) [OF that] b(6) [of w] that a(2) by simp
  have old: "adm_futures t ! w = Result l"
    if "w < length (adm_futures s)" "adm_futures u ! w = Result l" "l < length (adm_leases t)" for w l
  proof (cases "adm_futures t ! w = Pending")
    case True
    with b(7) [of w] that a(2) show ?thesis by auto
  next
    case False
    with b(6) [of w] that a(2) show ?thesis by simp
  qed
  have fresh: "adm_futures t ! w = Pending"
    if "w < length (adm_futures s)" "adm_futures s ! w = Pending" "adm_futures u ! w = Result l"
      "length (adm_leases t) \<le> l" for w l
  proof (rule ccontr)
    assume np: "adm_futures t ! w \<noteq> Pending"
    with a(7) [OF that(1,2)] b(6) [of w] that a(2) show False by auto
  qed
  have got: "\<exists>l. adm_futures u ! w = Result l \<and> length (adm_leases s) \<le> l \<and> l < length (adm_leases u) \<and>
      w \<in> set (queue_of s (lease_tenant (adm_leases u ! l)))"
    if w: "w < length (adm_futures s)" "adm_futures s ! w = Pending" "adm_futures u ! w \<noteq> Pending" for w
  proof (cases "adm_futures t ! w = Pending")
    case True
    then obtain l where "adm_futures u ! w = Result l" "length (adm_leases t) \<le> l" "l < length (adm_leases u)"
      "w \<in> set (queue_of t (lease_tenant (adm_leases u ! l)))"
      using b(7) [of w] w a(2) by auto
    moreover have "set (queue_of t i) \<subseteq> set (queue_of s i)" for i using a(10) [of i] by auto
    ultimately show ?thesis using a(3) by fastforce
  next
    case False
    then obtain l where "adm_futures t ! w = Result l" "length (adm_leases s) \<le> l" "l < length (adm_leases t)"
      "w \<in> set (queue_of s (lease_tenant (adm_leases t ! l)))"
      using a(7) [OF w(1,2)] by auto
    with b(6) [of w] w(1) a(2) b(3) b(4) [of l] show ?thesis by auto
  qed
  have hand: "\<exists>w<length (adm_futures s). adm_futures s ! w = Pending \<and> adm_futures u ! w = Result l"
    if l: "length (adm_leases s) \<le> l" "l < length (adm_leases u)" for l
  proof (cases "l < length (adm_leases t)")
    case True
    with a(8) [OF l(1)] obtain w where "w < length (adm_futures s)" "adm_futures s ! w = Pending"
      "adm_futures t ! w = Result l" by blast
    with b(6) [of w] a(2) show ?thesis by auto
  next
    case False
    with b(8) [of l] l obtain w where w: "w < length (adm_futures t)" "adm_futures t ! w = Pending"
      "adm_futures u ! w = Result l" by auto
    with a(6) [of w] a(2) have "adm_futures s ! w = Pending" by force
    with w a(2) show ?thesis by auto
  qed
  have inj: "w = w'" if "w < length (adm_futures s)" "w' < length (adm_futures s)"
        "adm_futures s ! w = Pending" "adm_futures s ! w' = Pending"
        "adm_futures u ! w = Result l" "adm_futures u ! w' = Result l" for w w' l
  proof (cases "l < length (adm_leases t)")
    case True
    with old [of w l] old [of w' l] a(9) that show ?thesis by blast
  next
    case False
    with fresh [of w l] fresh [of w' l] b(9) [of w w' l] that a(2) show ?thesis by auto
  qed
  have fifo: "\<exists>pre. queue_of s i = pre @ queue_of u i \<and>
      (\<forall>w\<in>set pre. w < length (adm_futures s) \<longrightarrow> adm_futures u ! w \<noteq> Pending)" for i
  proof -
    obtain p q where pq: "queue_of s i = p @ queue_of t i" "queue_of t i = q @ queue_of u i"
      "\<forall>w\<in>set p. w < length (adm_futures s) \<longrightarrow> adm_futures t ! w \<noteq> Pending"
      "\<forall>w\<in>set q. w < length (adm_futures t) \<longrightarrow> adm_futures u ! w \<noteq> Pending"
      using a(10) b(10) by metis
    then have "\<forall>w\<in>set (p @ q). w < length (adm_futures s) \<longrightarrow> adm_futures u ! w \<noteq> Pending"
      using b(6) a(2) by auto
    then show ?thesis using pq(1,2) by (intro exI [of _ "p @ q"]) simp
  qed
  show ?thesis
    unfolding ext_def using frame_trans [OF a(1) b(1)] new keep got hand inj fifo a(11) b(11) by blast
qed

lemma ext_skip: "skip_pass s n t \<Longrightarrow> ext s t"
proof -
  assume "skip_pass s n t"
  then have sk: "skips s t" by (simp add: skip_pass_def)
  then show ?thesis
    unfolding ext_def using skips_frame [OF sk] skips_queue [OF sk] by (simp add: skips_def) blast
qed

lemma ext_grant:
  assumes "adm_core s" and "global_inflight s < global_max_inflight s" and "grant_pass s n t"
  shows "ext s t"
proof -
  obtain k where "grants s k t" using assms(3) by (auto simp: grant_pass_def)
  note e = grants_effect [OF this assms(2,1)]
  obtain l where l: "adm_leases t = adm_leases s @ [l]" "\<not> released l"
      "next_waiter s (active_tenants s ! k) \<in> set (queue_of s (lease_tenant l))"
    using e(5,11) by auto
  have "\<exists>pre. queue_of s i = pre @ queue_of t i \<and>
      (\<forall>w\<in>set pre. w < length (adm_futures s) \<longrightarrow> adm_futures t ! w \<noteq> Pending)" for i
    using e(8) [of i] by blast
  moreover have "\<exists>new. adm_leases t = adm_leases s @ new \<and> (\<forall>l\<in>set new. \<not> released l)"
    using l by auto
  ultimately show ?thesis
    unfolding ext_def using e(1,9)
    by (intro conjI allI impI) (blast | use e(2-4) l in \<open>auto simp: nth_list_update split: if_splits\<close>)+
qed

text \<open>Dispatching from a state that satisfies the invariant never raises and settles the state.\<close>

lemma dispatch_locked_ok:
  assumes inv: "adm_inv s"
  shows "\<exists>s'. dispatch_locked s = (Inr (), s') \<and> adm_inv s' \<and> settled s' \<and> ext s s'"
proof (cases "adm_closed s")
  case True
  with inv show ?thesis by (auto simp: dispatch_locked_def settled_def ext_refl)
next
  case False
  have core: "adm_core s" "active_ok {} s" using inv by (simp_all add: adm_inv_def)
  have "\<exists>s'. dispatch_while s = (Inr (), s') \<and> adm_core s' \<and> active_ok {} s' \<and> ext s s' \<and>
    (global_inflight s' = global_max_inflight s' \<or> (\<forall>i\<in>set (active_tenants s'). at_limit s' i))"
    by (rule dispatch_while_rel [OF core])
      (blast intro: ext_refl ext_skip ext_grant ext_trans)+
  then obtain s' where s': "dispatch_while s = (Inr (), s')" "adm_core s'" "active_ok {} s'" "ext s s'"
    "global_inflight s' = global_max_inflight s' \<or> (\<forall>i\<in>set (active_tenants s'). at_limit s' i)"
    by blast
  have "\<not> adm_closed s'" using extD(1) [OF s'(4)] False by (simp add: frame_def)
  moreover have "settled s'"
    using s'(3,5) by (fastforce simp: settled_def active_ok_def at_limit_def)
  ultimately show ?thesis
    using s' False by (auto simp: dispatch_locked_def adm_inv_def)
qed

end
