(* ===== verification/Gw_Admission_Sections.thy ===== *)
theory Gw_Admission_Sections
  imports Gw_Admission_Dispatch
begin

text \<open>
  Every critical section of the admission controller, from any state that satisfies the
  invariant: which of its branches runs, what it returns, what it changes, and that the
  invariant holds again. No section can reach one of the internal errors of the source
  (\<open>RuntimeError\<close>, \<open>KeyError\<close>, \<open>IndexError\<close>, \<open>InvalidStateError\<close>).
\<close>

section \<open>Releasing\<close>

lemma live_count_release:
  assumes "l < length ls"
  shows "live_count i (ls[l := (ls ! l)\<lparr>released := True\<rparr>]) =
    live_count i ls - of_bool (lease_tenant (ls ! l) = i \<and> \<not> released (ls ! l))"
  using sum_list_update_int [OF assms, of "\<lambda>l. of_bool (lease_tenant l = i \<and> \<not> released l)"]
  by (simp add: live_count_def)

lemma live_count_pos:
  assumes "l < length ls" and "\<not> released (ls ! l)"
  shows "1 \<le> live_count (lease_tenant (ls ! l)) ls"
proof -
  let ?f = "\<lambda>x. of_bool (lease_tenant x = lease_tenant (ls ! l) \<and> \<not> released x) :: int"
  have "?f (ls ! l) \<le> (\<Sum>x\<leftarrow>ls. ?f x)"
    using assms(1) by (intro sum_list_member_le_int) auto
  with assms(2) show ?thesis by (simp add: live_count_def)
qed

definition released_state :: "nat \<Rightarrow> admission \<Rightarrow> admission" where
  "released_state l s = snd (release_locked l s)"

lemma lease_tenant_known:
  assumes "adm_core s" and "l < length (adm_leases s)"
  obtains st where "map_of (tenants s) (lease_tenant (adm_leases s ! l)) = Some st"
  using assms by (fastforce simp: adm_core_def leases_ok_def)

lemma live_lease_counts:
  assumes core: "adm_core s" and l: "l < length (adm_leases s)" "\<not> released (adm_leases s ! l)"
    and st: "map_of (tenants s) (lease_tenant (adm_leases s ! l)) = Some st"
  shows "0 < inflight st" and "0 < global_inflight s"
proof -
  show pos: "0 < inflight st"
    using live_count_pos [OF l] adm_core_tenant(5) [OF core st] by simp
  have mem: "(lease_tenant (adm_leases s ! l), st) \<in> set (tenants s)" using st by (rule map_of_SomeD)
  have "inflight (snd (lease_tenant (adm_leases s ! l), st)) \<le> (\<Sum>p\<leftarrow>tenants s. inflight (snd p))"
  proof (rule sum_list_member_le_int [OF _ mem])
    fix p
    assume "p \<in> set (tenants s)"
    then show "0 \<le> inflight (snd p)" by (rule adm_core_tenant(2) [OF core adm_core_entry [OF core]])
  qed
  with pos core show "0 < global_inflight s" by (simp add: adm_core_def sums_ok_def)
qed

lemma release_locked_live:
  assumes core: "adm_core s" and l: "l < length (adm_leases s)" "\<not> released (adm_leases s ! l)"
  defines "i \<equiv> lease_tenant (adm_leases s ! l)"
  shows "release_locked l s = (Inr (), released_state l s)"
    and "tenants (released_state l s) = upd_entry i (\<lambda>st. st\<lparr>inflight := inflight st - 1\<rparr>) (tenants s)"
    and "global_inflight (released_state l s) = global_inflight s - 1"
    and "adm_leases (released_state l s) = (adm_leases s)[l := (adm_leases s ! l)\<lparr>released := True\<rparr>]"
    and "mirrored (released_state l s)"
    and "global_queued (released_state l s) = global_queued s"
    and "global_max_inflight (released_state l s) = global_max_inflight s"
    and "global_max_queue (released_state l s) = global_max_queue s"
    and "adm_futures (released_state l s) = adm_futures s"
    and "active_tenants (released_state l s) = active_tenants s"
    and "active_tenant_ids (released_state l s) = active_tenant_ids s"
    and "adm_closed (released_state l s) = adm_closed s"
    and "adm_observer (released_state l s) = adm_observer s"
proof -
  obtain st where st: "map_of (tenants s) i = Some st"
    using lease_tenant_known [OF core l(1)] unfolding i_def by blast
  with live_lease_counts [OF core l] have pos: "0 < inflight st" "0 < global_inflight s" by (auto simp: i_def)
  have eq: "release_locked l s = (Inr (), adm_notify
      (s\<lparr>adm_leases := (adm_leases s)[l := (adm_leases s ! l)\<lparr>released := True\<rparr>],
         tenants := upd_entry i (\<lambda>st. st\<lparr>inflight := inflight st - 1\<rparr>) (tenants s),
         global_inflight := global_inflight s - 1\<rparr>))"
    using l(2) st pos by (simp add: release_locked_def Let_def i_def)
  then show "release_locked l s = (Inr (), released_state l s)" by (simp add: released_state_def)
  show "tenants (released_state l s) = upd_entry i (\<lambda>st. st\<lparr>inflight := inflight st - 1\<rparr>) (tenants s)"
    "global_inflight (released_state l s) = global_inflight s - 1"
    "adm_leases (released_state l s) = (adm_leases s)[l := (adm_leases s ! l)\<lparr>released := True\<rparr>]"
    "mirrored (released_state l s)" "global_queued (released_state l s) = global_queued s"
    "global_max_inflight (released_state l s) = global_max_inflight s"
    "global_max_queue (released_state l s) = global_max_queue s"
    "adm_futures (released_state l s) = adm_futures s"
    "active_tenants (released_state l s) = active_tenants s"
    "active_tenant_ids (released_state l s) = active_tenant_ids s"
    "adm_closed (released_state l s) = adm_closed s" "adm_observer (released_state l s) = adm_observer s"
    by (simp_all add: released_state_def eq)
qed

lemma adm_core_release:
  assumes core: "adm_core s" and l: "l < length (adm_leases s)" "\<not> released (adm_leases s ! l)"
  shows "adm_core (released_state l s)"
proof -
  note f = release_locked_live [OF core l]
  let ?i = "lease_tenant (adm_leases s ! l)"
  obtain st where st: "map_of (tenants s) ?i = Some st" using lease_tenant_known [OF core l(1)] .
  note pos = live_lease_counts [OF core l st]
  have sums: "(\<Sum>p\<leftarrow>tenants (released_state l s). inflight (snd p)) = (\<Sum>p\<leftarrow>tenants s. inflight (snd p)) - 1"
    "(\<Sum>p\<leftarrow>tenants (released_state l s). int (length (queue (snd p)))) = (\<Sum>p\<leftarrow>tenants s. int (length (queue (snd p))))"
    unfolding f(2)
    using sum_list_upd_entry [OF st, of inflight] sum_list_upd_entry [OF st, of "\<lambda>st. int (length (queue st))"]
    by simp_all
  have "inflight st - 1 \<le> max_inflight (tenant st)" using adm_core_tenant(3) [OF core st] by simp
  with core st pos have "tenants_ok (released_state l s)"
    unfolding adm_core_def tenants_ok_def f(2) by (simp split: if_splits)
  moreover have "sums_ok (released_state l s)"
    unfolding sums_ok_def sums using core by (simp add: adm_core_def sums_ok_def f(3,6-8))
  moreover have "waiters_ok (released_state l s)"
    using core st by (simp add: adm_core_def waiters_ok_def f(2,9))
  moreover have "live_count i (adm_leases (released_state l s)) = inflight st'"
    if "map_of (tenants (released_state l s)) i = Some st'" for i st'
    using that adm_core_tenant(5) [OF core] l by (auto simp: f(2,4) live_count_release split: if_splits)
  moreover have "\<forall>x\<in>set (adm_leases (released_state l s)). map_of (tenants (released_state l s)) (lease_tenant x) \<noteq> None"
    using core st l(1) set_update_subset_insert [of "adm_leases s" l]
    by (fastforce simp: adm_core_def leases_ok_def f(2,4))
  ultimately show ?thesis by (simp add: adm_core_def leases_ok_def)
qed

text \<open>What releasing leaves alone, whether or not the lease was live.\<close>

lemma release_locked_ok:
  assumes inv: "adm_inv s" and l: "l < length (adm_leases s)"
  defines "s' \<equiv> released_state l s"
  shows "release_locked l s = (Inr (), s')" and "adm_inv s'" and "frame s s'"
    and "adm_futures s' = adm_futures s" and "queue_of s' = queue_of s"
    and "adm_leases s' = (adm_leases s)[l := (adm_leases s ! l)\<lparr>released := True\<rparr>]"
    and "mirrored s \<Longrightarrow> mirrored s'"
    and "global_inflight s' = global_inflight s - of_bool (\<not> released (adm_leases s ! l))"
proof -
  have core: "adm_core s" using inv by (simp add: adm_inv_def)
  have *: "release_locked l s = (Inr (), s') \<and> adm_inv s' \<and> frame s s' \<and> adm_futures s' = adm_futures s \<and>
    queue_of s' = queue_of s \<and> adm_leases s' = (adm_leases s)[l := (adm_leases s ! l)\<lparr>released := True\<rparr>] \<and>
    (mirrored s \<longrightarrow> mirrored s') \<and> global_inflight s' = global_inflight s - of_bool (\<not> released (adm_leases s ! l))"
  proof (cases "released (adm_leases s ! l)")
    case True
    then have "s' = s" by (simp add: s'_def released_state_def release_locked_def Let_def)
    moreover have "(adm_leases s)[l := (adm_leases s ! l)\<lparr>released := True\<rparr>] = adm_leases s"
      using True by (intro list_update_same_conv [THEN iffD2, OF l]) simp
    ultimately show ?thesis using True inv by (simp add: release_locked_def Let_def frame_refl)
  next
    case False
    note f = release_locked_live [OF core l False, folded s'_def]
    have "active_ok {} s'" using inv by (auto simp: adm_inv_def active_ok_def f(2,10,11))
    with inv adm_core_release [OF core l False, folded s'_def] have "adm_inv s'"
      by (simp add: adm_inv_def f(10,12))
    moreover have "frame s s'" by (auto simp: frame_def f(2,7-9,12,13) option.map_comp o_def)
    moreover have "queue_of s' = queue_of s" by (auto simp: fun_eq_iff queue_of_def f(2) split: option.splits)
    ultimately show ?thesis using f False by simp
  qed
  then show "release_locked l s = (Inr (), s')" "adm_inv s'" "frame s s'" "adm_futures s' = adm_futures s"
    "queue_of s' = queue_of s" "adm_leases s' = (adm_leases s)[l := (adm_leases s ! l)\<lparr>released := True\<rparr>]"
    "global_inflight s' = global_inflight s - of_bool (\<not> released (adm_leases s ! l))" by simp_all
  from * show "mirrored s \<Longrightarrow> mirrored s'" by simp
qed

section \<open>Queueing\<close>

lemma queue_of_Some: "map_of (tenants s) i = Some st \<Longrightarrow> queue_of s i = queue st"
  by (simp add: queue_of_def)

lemma remove_waiter_locked_ok:
  fixes i :: string and w :: nat
  assumes inv: "adm_inv s"
  defines "s' \<equiv> snd (remove_waiter_locked i w s)"
  shows "remove_waiter_locked i w s = (w \<in> set (queue_of s i), s')" and "adm_inv s'" and "frame s s'"
    and "adm_futures s' = adm_futures s" and "adm_leases s' = adm_leases s"
    and "queue_of s' j = (if j = i then remove1 w (queue_of s i) else queue_of s j)"
    and "mirrored s \<Longrightarrow> mirrored s'"
proof -
  have core: "adm_core s" using inv by (simp add: adm_inv_def)
  have *: "remove_waiter_locked i w s = (w \<in> set (queue_of s i), s') \<and> adm_inv s' \<and> frame s s' \<and>
    adm_futures s' = adm_futures s \<and> adm_leases s' = adm_leases s \<and>
    (\<forall>j. queue_of s' j = (if j = i then remove1 w (queue_of s i) else queue_of s j)) \<and> (mirrored s \<longrightarrow> mirrored s')"
  proof (cases "w \<in> set (queue_of s i)")
    case False
    then have "remove_waiter_locked i w s = (False, s)"
      by (auto simp: remove_waiter_locked_def queue_of_def split: option.splits)
    then show ?thesis using False inv by (simp add: s'_def frame_refl remove1_idem)
  next
    case True
    then obtain st where st: "map_of (tenants s) i = Some st" and w: "w \<in> set (queue st)"
      by (cases "map_of (tenants s) i") (simp_all add: queue_of_def)
    have tid: "tenant_id (tenant st) = i" by (rule adm_core_tenant(1) [OF core st])
    let ?q = "remove1 w (queue st)"
    define s1 where "s1 = s\<lparr>tenants := upd_entry i (\<lambda>st. st\<lparr>queue := remove1 w (queue st)\<rparr>) (tenants s),
                     global_queued := global_queued s - 1\<rparr>"
    define s2 where "s2 = (if ?q = [] then deactivate_tenant_locked i s1 else s1)"
    have eq: "remove_waiter_locked i w s = (True, adm_notify s2)"
      using st w tid by (simp add: remove_waiter_locked_def Let_def s1_def s2_def)
    then have s': "s' = adm_notify s2" by (simp add: s'_def)
    have t1: "tenants s1 = upd_entry i (\<lambda>st. st\<lparr>queue := ?q\<rparr>) (tenants s)"
      unfolding s1_def by (simp, rule upd_entry_cong [OF st]) simp
    have len: "length (queue st) = Suc (length ?q)" using w by (simp add: length_remove1) (cases "queue st"; simp)
    have "adm_core s1"
      using t1 len adm_core_tenant(6) [OF core st] set_remove1_subset [of w "queue st"]
      by (intro adm_core_shrink [OF core st, of ?q]) (simp_all add: s1_def)
    then have core2: "adm_core s2" by (simp add: s2_def)
    have act2: "active_ok {} s2"
      using inv st w by (auto simp: s2_def t1 s1_def adm_inv_def active_ok_def deactivate_tenant_locked_def)
    have cl: "adm_closed s \<longrightarrow> active_tenants s2 = []"
      using inv by (auto simp: adm_inv_def s2_def s1_def deactivate_tenant_locked_def)
    have "adm_closed s2 = adm_closed s" by (simp add: s2_def s1_def)
    with core2 act2 cl have "adm_inv s'" by (simp add: adm_inv_def s')
    moreover have t2: "tenants s2 = tenants s1" by (simp add: s2_def)
    moreover have "global_max_inflight s2 = global_max_inflight s" "global_max_queue s2 = global_max_queue s"
      "adm_closed s2 = adm_closed s" "adm_observer s2 = adm_observer s" "adm_futures s2 = adm_futures s"
      by (simp_all add: s2_def s1_def)
    then have "frame s s'" by (auto simp: frame_def s' t2 t1 option.map_comp o_def)
    moreover have "queue_of s' j = (if j = i then remove1 w (queue_of s i) else queue_of s j)" for j
      using st by (simp add: queue_of_def s' t2 t1)
    ultimately show ?thesis using eq s' True by (simp add: s2_def s1_def)
  qed
  then show "remove_waiter_locked i w s = (w \<in> set (queue_of s i), s')" "adm_inv s'" "frame s s'"
    "adm_futures s' = adm_futures s" "adm_leases s' = adm_leases s"
    "queue_of s' j = (if j = i then remove1 w (queue_of s i) else queue_of s j)" by simp_all
  from * show "mirrored s \<Longrightarrow> mirrored s'" by simp
qed

lemma waiters_ok_enqueue:
  assumes core: "adm_core s" and st: "map_of (tenants s) i = Some st"
    and s': "tenants s' = upd_entry i (\<lambda>st. st\<lparr>queue := queue st @ [length (adm_futures s)]\<rparr>) (tenants s)"
      "adm_futures s' = adm_futures s @ [Pending]"
  shows "waiters_ok s'"
proof -
  have old: "x < length (adm_futures s)" "adm_futures s' ! x = Pending \<or> adm_futures s' ! x = Cancelled"
    if "map_of (tenants s) j = Some stj" "x \<in> set (queue stj)" for j stj x
    using adm_core_waiter [OF core that] by (simp_all add: s' nth_append)
  have new: "adm_futures s' ! length (adm_futures s) = Pending" by (simp add: s')
  have q: "\<exists>stj. map_of (tenants s) j = Some stj \<and>
      queue st' = queue stj @ (if j = i then [length (adm_futures s)] else [])"
    if "map_of (tenants s') j = Some st'" for j st'
    using that st by (auto simp: s'(1) split: if_splits)
  show ?thesis
    unfolding waiters_ok_def
  proof (intro conjI allI impI ballI)
    fix j st' x
    assume j: "map_of (tenants s') j = Some st'" and x: "x \<in> set (queue st')"
    from q [OF j] x old new show "x < length (adm_futures s')"
      "adm_futures s' ! x = Pending \<or> adm_futures s' ! x = Cancelled"
      by (fastforce simp: s'(2) split: if_splits)+
  next
    fix j st'
    assume "map_of (tenants s') j = Some st'"
    from q [OF this] show "distinct (queue st')"
      using adm_core_tenant(6) [OF core] old(1) by fastforce
  next
    fix j k st' st''
    assume j: "map_of (tenants s') j = Some st'" and k: "map_of (tenants s') k = Some st''" and "j \<noteq> k"
    obtain a b where a: "map_of (tenants s) j = Some a" "queue st' = queue a @ (if j = i then [length (adm_futures s)] else [])"
      and b: "map_of (tenants s) k = Some b" "queue st'' = queue b @ (if k = i then [length (adm_futures s)] else [])"
      using q [OF j] q [OF k] by blast
    have "set (queue a) \<inter> set (queue b) = {}" using adm_core_one_queue [OF core a(1) _ b(1)] \<open>j \<noteq> k\<close> by blast
    moreover have "length (adm_futures s) \<notin> set (queue a)" "length (adm_futures s) \<notin> set (queue b)"
      using old(1) [OF a(1)] old(1) [OF b(1)] by blast+
    ultimately show "set (queue st') \<inter> set (queue st'') = {}"
      using \<open>j \<noteq> k\<close> by (cases "j = i"; cases "k = i") (auto simp: a(2) b(2))
  qed
qed

lemma enqueue_waiter_ok:
  assumes inv: "adm_inv s" and opn: "\<not> adm_closed s" and st: "map_of (tenants s) i = Some st"
    and room: "int (length (queue st)) < max_queue (tenant st)" "global_queued s < global_max_queue s"
  defines "s' \<equiv> enqueue_waiter i s"
  shows "adm_inv s'" and "adm_futures s' = adm_futures s @ [Pending]" and "adm_leases s' = adm_leases s"
    and "queue_of s' j = (if j = i then queue_of s i @ [length (adm_futures s)] else queue_of s j)"
    and "mirrored s'" and "\<not> adm_closed s'"
proof -
  have core: "adm_core s" using inv by (simp add: adm_inv_def)
  define s1 where "s1 = s\<lparr>adm_futures := adm_futures s @ [Pending],
        tenants := upd_entry i (\<lambda>st. st\<lparr>queue := queue st @ [length (adm_futures s)]\<rparr>) (tenants s),
        global_queued := global_queued s + 1\<rparr>"
  have s': "s' = adm_notify (activate_tenant_locked i s1)" by (simp add: s'_def enqueue_waiter_def s1_def)
  have sums: "(\<Sum>p\<leftarrow>tenants s1. inflight (snd p)) = (\<Sum>p\<leftarrow>tenants s. inflight (snd p))"
    "(\<Sum>p\<leftarrow>tenants s1. int (length (queue (snd p)))) = (\<Sum>p\<leftarrow>tenants s. int (length (queue (snd p)))) + 1"
    using sum_list_upd_entry [OF st, of inflight] sum_list_upd_entry [OF st, of "\<lambda>st. int (length (queue st))"]
    by (simp_all add: s1_def)
  have "tenants_ok s1" using core st room by (auto simp: adm_core_def tenants_ok_def s1_def)
  moreover have "sums_ok s1"
    unfolding sums_ok_def sums using core room by (simp add: adm_core_def sums_ok_def s1_def)
  moreover have "waiters_ok s1" by (rule waiters_ok_enqueue [OF core st]) (simp_all add: s1_def)
  moreover have "leases_ok s1" using core st by (auto simp: adm_core_def leases_ok_def s1_def)
  ultimately have "adm_core s1" by (simp add: adm_core_def)
  moreover have "active_ok {} (activate_tenant_locked i s1)"
    using inv st by (auto simp: adm_inv_def active_ok_def activate_tenant_locked_def s1_def)
  ultimately show "adm_inv s'" using opn by (simp add: adm_inv_def s' s1_def)
  show "adm_futures s' = adm_futures s @ [Pending]" "adm_leases s' = adm_leases s" "mirrored s'"
    "\<not> adm_closed s'"
    using opn by (simp_all add: s' s1_def)
  show "queue_of s' j = (if j = i then queue_of s i @ [length (adm_futures s)] else queue_of s j)"
    using st by (simp add: s' s1_def queue_of_def)
qed

section \<open>Acquiring\<close>

text \<open>The first section of \<open>acquire\<close>: refused, admitted at once, or queued.\<close>

lemma settled_granted:
  assumes "settled s" and st: "map_of (tenants s) i = Some st" and q: "queue st = []" and can: "can_admit s st"
  shows "settled (granted_state i False s)"
  using assms by (auto simp: settled_def granted_fields [OF st can] can_admit_def)

lemma adm_inv_granted:
  assumes "adm_inv s" and st: "map_of (tenants s) i = Some st" and can: "can_admit s st"
  shows "adm_inv (granted_state i wq s)"
  using assms adm_core_grant [OF _ st can] by (simp add: adm_inv_def active_ok_grant [OF st can] granted_fields [OF st can])

abbreviation admission_refusals :: "exn set" where
  "admission_refusals \<equiv> {raised AdmissionUnavailableError, raised TenantQueueFullError, raised GatewayQueueFullError}"

lemma frame_tenant:
  assumes "frame s s'" and "map_of (tenants s) i = Some st"
  obtains st' where "map_of (tenants s') i = Some st'" and "tenant st' = tenant st"
proof -
  have "map_option tenant (map_of (tenants s') i) = Some (tenant st)"
    using assms by (simp add: frame_def)
  then show ?thesis using that by auto
qed

lemma acquire_locked_cases:
  assumes inv: "adm_inv s" and set: "settled s"
  obtains (refused) e s1 where "acquire_locked t s = (Inl e, s1)" and "e \<in> admission_refusals"
      and "adm_inv s1" and "settled s1" and "ext s s1"
    | (granted) s1 st where "ext s s1" and "adm_inv s1" and "settled s1"
      and "map_of (tenants s1) (tenant_id t) = Some st" and "queue st = []" and "can_admit s1 st"
      and "acquire_locked t s = (Inr (Granted (length (adm_leases s1))), granted_state (tenant_id t) False s1)"
    | (queued) s1 st s2 where "ext s s1" and "adm_inv s1" and "\<not> adm_closed s1"
      and "map_of (tenants s1) (tenant_id t) = Some st"
      and "int (length (queue st)) < max_queue (tenant st)" and "global_queued s1 < global_max_queue s1"
      and "ext (enqueue_waiter (tenant_id t) s1) s2" and "adm_inv s2" and "settled s2"
      and "acquire_locked t s = (Inr (Queued (length (adm_futures s1))), s2)"
proof (cases "adm_closed s \<or> map_of (tenants s) (tenant_id t) = None")
  case True
  then have "acquire_locked t s = (Inl (raised AdmissionUnavailableError), s)"
    by (auto simp: acquire_locked_def state_for_def)
  then show thesis using refused inv set ext_refl by blast
next
  case False
  then obtain st0 where st0: "map_of (tenants s) (tenant_id t) = Some st0" and opn: "\<not> adm_closed s" by auto
  obtain s1 where s1: "dispatch_locked s = (Inr (), s1)" "adm_inv s1" "settled s1" "ext s s1"
    using dispatch_locked_ok [OF inv] by blast
  have cl: "\<not> adm_closed s1" using extD(1) [OF s1(4)] opn by (simp add: frame_def)
  obtain st where st: "map_of (tenants s1) (tenant_id t) = Some st"
    using frame_tenant [OF extD(1) [OF s1(4)] st0] by metis
  have unfold: "acquire_locked t s =
     (if queue st = [] \<and> can_admit s1 st
      then and_then (grant_locked (tenant_id t) False s1) (\<lambda>l s2. (Inr (Granted l), s2))
      else if int (length (queue st)) \<ge> max_queue (tenant st) then (Inl (raised TenantQueueFullError), s1)
      else if global_queued s1 \<ge> global_max_queue s1 then (Inl (raised GatewayQueueFullError), s1)
      else and_then (dispatch_locked (enqueue_waiter (tenant_id t) s1))
             (\<lambda>_ s2. (Inr (Queued (length (adm_futures s1))), s2)))"
    using opn st0 by (simp add: acquire_locked_def state_for_def s1(1) st)
  consider (g) "queue st = []" "can_admit s1 st"
    | (t) "\<not> (queue st = [] \<and> can_admit s1 st)" "int (length (queue st)) \<ge> max_queue (tenant st)"
    | (f) "\<not> (queue st = [] \<and> can_admit s1 st)" "int (length (queue st)) < max_queue (tenant st)"
        "global_queued s1 \<ge> global_max_queue s1"
    | (q) "\<not> (queue st = [] \<and> can_admit s1 st)" "int (length (queue st)) < max_queue (tenant st)"
        "global_queued s1 < global_max_queue s1"
    by linarith
  then show thesis
  proof cases
    case g
    then show thesis
      using granted [OF s1(4,2,3) st g] unfold grant_locked_ok [OF st g(2)] by simp
  next
    case t
    then have "acquire_locked t s = (Inl (raised TenantQueueFullError), s1)" unfolding unfold by auto
    then show thesis using refused s1 by blast
  next
    case f
    then have "acquire_locked t s = (Inl (raised GatewayQueueFullError), s1)" unfolding unfold by auto
    then show thesis using refused s1 by blast
  next
    case q
    obtain s2 where s2: "dispatch_locked (enqueue_waiter (tenant_id t) s1) = (Inr (), s2)"
      "adm_inv s2" "settled s2" "ext (enqueue_waiter (tenant_id t) s1) s2"
      using dispatch_locked_ok [OF enqueue_waiter_ok(1) [OF s1(2) cl st q(2,3)]] by blast
    have "acquire_locked t s = (Inr (Queued (length (adm_futures s1))), s2)"
      unfolding unfold using q s2(1) by auto
    then show thesis using queued [OF s1(4,2) cl st q(2,3) s2(4,2,3)] by blast
  qed
qed

lemma acquire_timeout_ok:
  assumes "adm_inv s"
  obtains s2 where "acquire_timeout_locked i w s = (Inl (raised AdmissionTimeoutError), s2)"
    and "adm_inv s2" and "settled s2" and "ext (snd (remove_waiter_locked i w s)) s2"
proof -
  obtain s2 where "dispatch_locked (snd (remove_waiter_locked i w s)) = (Inr (), s2)" "adm_inv s2" "settled s2"
    "ext (snd (remove_waiter_locked i w s)) s2"
    using dispatch_locked_ok [OF remove_waiter_locked_ok(2) [OF assms]] by blast
  then show ?thesis using that by (simp add: acquire_timeout_locked_def)
qed

lemma adm_release_ok:
  assumes "adm_inv s" and "l < length (adm_leases s)"
  obtains s2 where "adm_release l s = (Inr (), s2)" and "adm_inv s2" and "settled s2"
    and "ext (released_state l s) s2"
proof -
  obtain s2 where "dispatch_locked (released_state l s) = (Inr (), s2)" "adm_inv s2" "settled s2"
    "ext (released_state l s) s2"
    using dispatch_locked_ok [OF release_locked_ok(2) [OF assms]] by blast
  then show ?thesis using that release_locked_ok(1) [OF assms] by (simp add: adm_release_def)
qed

text \<open>
  The section run on cancellation gives back the slot of a waiter that had already been
  granted one.
\<close>

definition cancel_cleanup :: "string \<Rightarrow> nat \<Rightarrow> admission \<Rightarrow> admission" where
  "cancel_cleanup i w s =
     (if w \<in> set (queue_of s i) then snd (remove_waiter_locked i w s)
      else case adm_futures s ! w of Result l \<Rightarrow> released_state l s | _ \<Rightarrow> s)"

lemma acquire_cancelled_ok:
  assumes inv: "adm_inv s"
    and res: "\<And>l. adm_futures s ! w = Result l \<Longrightarrow> l < length (adm_leases s)"
    and exc: "\<And>e. adm_futures s ! w = Failed e \<Longrightarrow> e = raised AdmissionUnavailableError"
  obtains s2 where "acquire_cancelled_locked i w s = (Inl CancelledError, s2)"
    and "adm_inv s2" and "settled s2" and "ext (cancel_cleanup i w s) s2"
proof -
  let ?s1 = "snd (remove_waiter_locked i w s)"
  note rm = remove_waiter_locked_ok [OF inv, where i = i and w = w]
  have same: "?s1 = s" if "w \<notin> set (queue_of s i)"
    using that by (auto simp: remove_waiter_locked_def queue_of_def split: option.splits)
  have "adm_inv (cancel_cleanup i w s)"
    using inv rm(2) release_locked_ok(2) [OF inv res] by (auto simp: cancel_cleanup_def split: future.splits)
  then obtain s2 where s2: "dispatch_locked (cancel_cleanup i w s) = (Inr (), s2)" "adm_inv s2" "settled s2"
    "ext (cancel_cleanup i w s) s2"
    using dispatch_locked_ok by blast
  have unav: "is_instance (raised AdmissionUnavailableError) AdmissionUnavailableError"
    by simp
  have "acquire_cancelled_locked i w s = and_then (Inr (), cancel_cleanup i w s)
      (\<lambda>_ s2. and_then (dispatch_locked s2) (\<lambda>_ s3. (Inl CancelledError, s3)))"
  proof (cases "w \<in> set (queue_of s i)")
    case True
    then obtain x where x: "remove_waiter_locked i w s = (True, x)" using rm(1) by simp
    with True show ?thesis by (simp add: acquire_cancelled_locked_def cancel_cleanup_def)
  next
    case False
    then have r: "remove_waiter_locked i w s = (False, s)" using rm(1) same by metis
    show ?thesis
    proof (cases "adm_futures s ! w")
      case (Result l)
      then show ?thesis using False release_locked_ok(1) [OF inv res [OF Result]]
        by (simp add: acquire_cancelled_locked_def cancel_cleanup_def r)
    next
      case (Failed e)
      then show ?thesis using False unav exc [OF Failed]
        by (simp add: acquire_cancelled_locked_def cancel_cleanup_def r)
    qed (use False in \<open>simp_all add: acquire_cancelled_locked_def cancel_cleanup_def r\<close>)
  qed
  then show ?thesis using s2 that by simp
qed

section \<open>Shutting down, observing, cancelling a future\<close>

lemma length_fail_waiters [simp]: "length (fail_waiters ws fs) = length fs"
  by (induction ws fs rule: fail_waiters.induct) auto

lemma fail_waiters_nth:
  "\<forall>w\<in>set ws. w < length fs \<Longrightarrow> x < length fs \<Longrightarrow>
   fail_waiters ws fs ! x =
     (if x \<in> set ws \<and> fs ! x = Pending then Failed (raised AdmissionUnavailableError) else fs ! x)"
  by (induction ws fs rule: fail_waiters.induct) (auto simp: future_done_def nth_list_update)

lemma fail_waiters_append: "fail_waiters (ws @ vs) fs = fail_waiters vs (fail_waiters ws fs)"
  by (induction ws fs rule: fail_waiters.induct) auto

lemma drain_queues_eq:
  "drain_queues ts fs n = (map (\<lambda>(i, st). (i, st\<lparr>queue := []\<rparr>)) ts,
     fail_waiters (concat (map (\<lambda>p. queue (snd p)) ts)) fs, n - (\<Sum>p\<leftarrow>ts. int (length (queue (snd p)))))"
  by (induction ts fs n rule: drain_queues.induct) (auto simp: fail_waiters_append)

lemma map_of_map_queue:
  "map_of (map (\<lambda>(i, st). (i, st\<lparr>queue := []\<rparr>)) ts) i = map_option (\<lambda>st. st\<lparr>queue := []\<rparr>) (map_of ts i)"
  by (induction ts) auto

definition all_queued :: "admission \<Rightarrow> nat list" where
  "all_queued s = concat (map (\<lambda>p. queue (snd p)) (tenants s))"

lemma all_queued_iff:
  assumes "adm_core s"
  shows "x \<in> set (all_queued s) \<longleftrightarrow> (\<exists>i. x \<in> set (queue_of s i))"
proof -
  have mem: "(i, st) \<in> set (tenants s) \<longleftrightarrow> map_of (tenants s) i = Some st" for i st
    using assms by (simp add: map_of_eq_Some_iff adm_core_def tenants_ok_def)
  have "x \<in> set (all_queued s) \<longleftrightarrow> (\<exists>i st. map_of (tenants s) i = Some st \<and> x \<in> set (queue st))"
    unfolding mem [symmetric] by (force simp: all_queued_def)
  also have "\<dots> \<longleftrightarrow> (\<exists>i. x \<in> set (queue_of s i))"
  proof -
    have "x \<in> set (queue_of s i) \<longleftrightarrow> (\<exists>st. map_of (tenants s) i = Some st \<and> x \<in> set (queue st))" for i
      by (cases "map_of (tenants s) i") (simp_all add: queue_of_def)
    then show ?thesis by blast
  qed
  finally show ?thesis .
qed

lemma queued_waiter:
  assumes "adm_core s" and "w \<in> set (queue_of s i)"
  shows "w < length (adm_futures s)" and "adm_futures s ! w = Pending \<or> adm_futures s ! w = Cancelled"
  using assms by (cases "map_of (tenants s) i"; simp add: queue_of_def adm_core_waiter)+

lemma closed_no_queue:
  assumes "adm_inv s" and "adm_closed s"
  shows "queue_of s i = []"
proof (cases "map_of (tenants s) i")
  case (Some st)
  from assms have "active_tenant_ids s = {}" "active_ok {} s" by (auto simp: adm_inv_def active_ok_def)
  with Some show ?thesis by (auto simp: active_ok_def queue_of_def)
qed (simp add: queue_of_def)

text \<open>
  Shutting down fails every waiter that is still pending, empties the queues and leaves the
  slots already granted to be released by their holders.
\<close>

lemma adm_shutdown_open:
  assumes inv: "adm_inv s" and opn: "\<not> adm_closed s"
  defines "s1 \<equiv> s\<lparr>adm_closed := True, tenants := map (\<lambda>(i, st). (i, st\<lparr>queue := []\<rparr>)) (tenants s),
      adm_futures := fail_waiters (all_queued s) (adm_futures s), global_queued := 0,
      active_tenants := [], active_tenant_ids := {}\<rparr>"
  shows "adm_shutdown s = (Inr (), adm_notify s1)" and "adm_inv (adm_notify s1)"
proof -
  have core: "adm_core s" using inv by (simp add: adm_inv_def)
  have n: "global_queued s - (\<Sum>p\<leftarrow>tenants s. int (length (queue (snd p)))) = 0"
    using core by (simp add: adm_core_def sums_ok_def)
  then show "adm_shutdown s = (Inr (), adm_notify s1)"
    using opn by (simp add: adm_shutdown_def drain_queues_eq s1_def all_queued_def Let_def)
  have sums: "(\<Sum>p\<leftarrow>tenants s1. inflight (snd p)) = (\<Sum>p\<leftarrow>tenants s. inflight (snd p))"
    "(\<Sum>p\<leftarrow>tenants s1. int (length (queue (snd p)))) = 0"
    by (simp_all add: s1_def o_def case_prod_beta)
  have nn: "0 \<le> (\<Sum>p\<leftarrow>tenants s. int (length (queue (snd p))))" by (rule sum_list_nonneg_int) simp
  have keys: "map fst (tenants s1) = map fst (tenants s)" by (simp add: s1_def o_def case_prod_beta)
  have mq: "0 \<le> max_queue (tenant st)" if "map_of (tenants s) i = Some st" for i st
    using adm_core_tenant(4) [OF core that] by linarith
  have "distinct (map fst (tenants s1))" unfolding keys using core by (simp add: adm_core_def tenants_ok_def)
  then have "tenants_ok s1"
    using core mq by (auto simp: adm_core_def tenants_ok_def s1_def map_of_map_queue)
  moreover have "sums_ok s1"
    unfolding sums_ok_def sums using core nn by (simp add: adm_core_def sums_ok_def s1_def)
  moreover have "waiters_ok s1" by (auto simp: waiters_ok_def s1_def map_of_map_queue)
  moreover have "leases_ok s1" using core by (auto simp: adm_core_def leases_ok_def s1_def map_of_map_queue)
  ultimately have "adm_core s1" by (simp add: adm_core_def)
  moreover have "active_ok {} s1" by (auto simp: active_ok_def s1_def map_of_map_queue)
  moreover have "active_tenants s1 = []" by (simp add: s1_def)
  ultimately show "adm_inv (adm_notify s1)" by (simp add: adm_inv_def)
qed

lemma adm_shutdown_ok:
  assumes inv: "adm_inv s"
  defines "s' \<equiv> snd (adm_shutdown s)"
  shows "adm_shutdown s = (Inr (), s')" and "adm_inv s'" and "adm_closed s'" and "adm_leases s' = adm_leases s"
    and "global_inflight s' = global_inflight s" and "length (adm_futures s') = length (adm_futures s)"
    and "\<And>w. w < length (adm_futures s) \<Longrightarrow> adm_futures s' ! w =
      (if (\<exists>i. w \<in> set (queue_of s i)) \<and> adm_futures s ! w = Pending
       then Failed (raised AdmissionUnavailableError) else adm_futures s ! w)"
    and "mirrored s \<Longrightarrow> mirrored s'"
proof -
  have core: "adm_core s" using inv by (simp add: adm_inv_def)
  have "\<forall>w\<in>set (all_queued s). w < length (adm_futures s)"
    using queued_waiter(1) [OF core] all_queued_iff [OF core] by blast
  note fw = fail_waiters_nth [OF this, unfolded all_queued_iff [OF core]]
  have *: "adm_shutdown s = (Inr (), s') \<and> adm_inv s' \<and> adm_closed s' \<and> adm_leases s' = adm_leases s \<and>
    global_inflight s' = global_inflight s \<and> length (adm_futures s') = length (adm_futures s) \<and>
    (\<forall>w<length (adm_futures s). adm_futures s' ! w =
      (if (\<exists>i. w \<in> set (queue_of s i)) \<and> adm_futures s ! w = Pending
       then Failed (raised AdmissionUnavailableError) else adm_futures s ! w)) \<and> (mirrored s \<longrightarrow> mirrored s')"
  proof (cases "adm_closed s")
    case True
    then have "adm_shutdown s = (Inr (), s)" by (simp add: adm_shutdown_def)
    then show ?thesis using True inv closed_no_queue [OF inv True] by (simp add: s'_def)
  next
    case False
    note o = adm_shutdown_open [OF inv False]
    show ?thesis
      using o(2) by (simp add: s'_def o(1) fw)
  qed
  then show "adm_shutdown s = (Inr (), s')" "adm_inv s'" "adm_closed s'" "adm_leases s' = adm_leases s"
    "global_inflight s' = global_inflight s" "length (adm_futures s') = length (adm_futures s)"
    "\<And>w. w < length (adm_futures s) \<Longrightarrow> adm_futures s' ! w =
      (if (\<exists>i. w \<in> set (queue_of s i)) \<and> adm_futures s ! w = Pending
       then Failed (raised AdmissionUnavailableError) else adm_futures s ! w)" by simp_all
  from * show "mirrored s \<Longrightarrow> mirrored s'" by simp
qed

lemma set_observer_ok:
  assumes "adm_inv s"
  shows "adm_inv (set_observer b s)" and "mirrored (set_observer b s)" and "queue_of (set_observer b s) = queue_of s"
    and "adm_futures (set_observer b s) = adm_futures s" and "adm_leases (set_observer b s) = adm_leases s"
    and "settled (set_observer b s) = settled s"
  using assms adm_core_cong [of "s\<lparr>adm_observer := b\<rparr>" s]
  by (simp_all add: set_observer_def adm_inv_def active_ok_def settled_def queue_of_def fun_eq_iff)

text \<open>Cancelling a pending future, as \<open>wait_for\<close> and a task's \<open>cancel\<close> do.\<close>

definition future_cancel :: "nat \<Rightarrow> admission \<Rightarrow> admission" where
  "future_cancel w s =
     (if adm_futures s ! w = Pending then s\<lparr>adm_futures := (adm_futures s)[w := Cancelled]\<rparr> else s)"

lemma future_cancel_ok:
  assumes "adm_inv s"
  shows "adm_inv (future_cancel w s)" and "settled (future_cancel w s) = settled s"
    and "mirrored (future_cancel w s) = mirrored s" and "queue_of (future_cancel w s) = queue_of s"
    and "adm_leases (future_cancel w s) = adm_leases s"
    and "length (adm_futures (future_cancel w s)) = length (adm_futures s)"
proof -
  let ?s = "s\<lparr>adm_futures := (adm_futures s)[w := Cancelled]\<rparr>"
  have up: "(adm_futures s)[w := Cancelled] ! x = Pending \<or> (adm_futures s)[w := Cancelled] ! x = Cancelled"
    if "x < length (adm_futures s)" "adm_futures s ! x = Pending \<or> adm_futures s ! x = Cancelled" for x
    using that by (cases "x = w") auto
  have core: "adm_core s" using assms by (simp add: adm_inv_def)
  have "waiters_ok ?s"
    unfolding waiters_ok_def
    using up adm_core_waiter [OF core] adm_core_tenant(6) [OF core] adm_core_one_queue [OF core]
    by (simp add: disjoint_iff) blast
  then have "adm_inv ?s"
    using assms by (simp add: adm_inv_def adm_core_def tenants_ok_def sums_ok_def leases_ok_def active_ok_def)
  then show "adm_inv (future_cancel w s)" using assms by (simp add: future_cancel_def)
  show "mirrored (future_cancel w s) = mirrored s"
    using mirrored_cong [of ?s s] by (simp add: future_cancel_def)
  show "settled (future_cancel w s) = settled s" "queue_of (future_cancel w s) = queue_of s"
    "adm_leases (future_cancel w s) = adm_leases s"
    "length (adm_futures (future_cancel w s)) = length (adm_futures s)"
    by (simp_all add: future_cancel_def settled_def queue_of_def fun_eq_iff)
qed

section \<open>The constructor\<close>

lemma AdmissionController_ok:
  assumes new: "AdmissionController configured gmi gmq timeout obs clk = Inr s"
    and ctx: "\<forall>t\<in>set configured. 0 < max_inflight t \<and> 0 \<le> max_queue t"
  shows "adm_inv s" and "settled s" and "mirrored s" and "adm_futures s = []" and "adm_leases s = []"
    and "\<And>i. queue_of s i = []" and "\<not> adm_closed s" and "global_inflight s = 0" and "global_queued s = 0"
proof -
  define mk where "mk = (\<lambda>t. \<lparr>tenant = t, inflight = 0, queue = [] :: nat list\<rparr>)"
  define ts where "ts = fold (\<lambda>t d. AList.update (tenant_id t) (mk t) d) configured []"
  define s0 where "s0 = \<lparr>tenants = ts, global_max_inflight = gmi, global_max_queue = gmq,
           queue_timeout_seconds = timeout, global_inflight = 0, global_queued = 0,
           active_tenants = [], active_tenant_ids = {}, adm_closed = False,
           adm_observer = obs, adm_clock = clk, adm_ticks = 0,
           adm_futures = [], adm_leases = [], adm_events = []\<rparr>"
  from new have lim: "0 < gmi" "0 \<le> gmq" and len: "length ts = length configured" and s: "s = adm_notify s0"
    by (auto simp: AdmissionController_def Let_def ts_def mk_def s0_def split: if_splits)
  have ts: "ts = map (\<lambda>t. (tenant_id t, mk t)) configured"
    using fold_update_fresh [of tenant_id mk configured "[]"] len by (simp add: ts_def)
  have dist: "distinct (map fst ts)"
    unfolding ts_def by (rule fold_update_distinct) simp
  have st: "tenant st \<in> set configured \<and> tenant_id (tenant st) = i \<and> inflight st = 0 \<and> queue st = []"
    if "map_of ts i = Some st" for i st
    using map_of_SomeD [OF that] by (auto simp: ts mk_def)
  have zero: "(\<Sum>p\<leftarrow>ts. inflight (snd p)) = 0" "(\<Sum>p\<leftarrow>ts. int (length (queue (snd p)))) = 0"
    by (simp_all add: ts mk_def o_def)
  have "0 \<le> max_inflight (tenant st) \<and> 0 \<le> max_queue (tenant st)" if "map_of ts i = Some st" for i st
    using st [OF that] ctx by fastforce
  with dist st have "tenants_ok s0" by (simp add: tenants_ok_def s0_def)
  moreover have "sums_ok s0" using lim zero by (simp add: sums_ok_def s0_def)
  moreover have "waiters_ok s0" using st by (auto simp: waiters_ok_def s0_def)
  moreover have "leases_ok s0" using st by (auto simp: leases_ok_def s0_def live_count_def)
  ultimately have "adm_core s0" by (simp add: adm_core_def)
  moreover have "active_ok {} s0" using st by (auto simp: active_ok_def s0_def)
  moreover have "active_tenants s0 = []" by (simp add: s0_def)
  ultimately show "adm_inv s" by (simp add: adm_inv_def s)
  show "settled s" using st by (auto simp: settled_def s s0_def)
  show "queue_of s i = []" for i using st by (auto simp: queue_of_def s s0_def split: option.split)
  show "mirrored s" "adm_futures s = []" "adm_leases s = []" "\<not> adm_closed s" "global_inflight s = 0"
    "global_queued s = 0" by (simp_all add: s) (simp_all add: s0_def)
qed

end
