(* ===== verification/Gw_Admission_Sys.thy ===== *)
theory Gw_Admission_Sys
  imports Gw_Admission_Sections
begin

text \<open>
  Many concurrent calls of \<open>AdmissionController.acquire\<close> on one event loop.

  A call that had to queue is suspended in \<open>asyncio.wait_for\<close> (\<open>Waiting\<close>); the timer
  (\<open>Expiring\<close>) or a cancellation of its task (\<open>Cancelling\<close>) wakes it into the matching
  \<open>except\<close> branch, the future's result into the normal return. The parameter \<open>late\<close> is the
  contract of \<open>wait_for\<close>: since Python 3.12 it is built on \<open>asyncio.timeout\<close>, whose timer may
  fire after the future has got its result and before the task has resumed, and then still
  raises \<open>TimeoutError\<close>; before 3.12 a completed future wins.
\<close>

section \<open>Calls and steps\<close>

datatype call_pc = Waiting nat | Expiring nat | Cancelling nat | Done "exn + nat"

record call =
  call_tenant :: tenant_context
  call_started :: real
  call_pc :: call_pc

record adm_sys =
  ctl :: admission
  calls :: "call list"

definition enter_acquire :: "tenant_context \<Rightarrow> admission \<Rightarrow> call \<times> admission" where
  "enter_acquire t s =
     (let (now, s0) = read_clock s;
          (r, s1) = acquire_locked t s0;
          c = (\<lambda>pc. \<lparr>call_tenant = t, call_started = now, call_pc = pc\<rparr>)
      in case r of
           Inl e \<Rightarrow> (c (Done (Inl e)), observe_acquire now (Inl e) s1)
         | Inr (Granted l) \<Rightarrow> (c (Done (Inr l)), observe_acquire now (Inr l) s1)
         | Inr (Queued w) \<Rightarrow> (c (Waiting w), s1))"

definition finish_call :: "nat \<Rightarrow> (exn + nat) \<times> admission \<Rightarrow> adm_sys \<Rightarrow> adm_sys" where
  "finish_call k rs y =
     (let c = calls y ! k in
      \<lparr>ctl = observe_acquire (call_started c) (fst rs) (snd rs),
       calls = (calls y)[k := c\<lparr>call_pc := Done (fst rs)\<rparr>]\<rparr>)"

definition set_pc :: "nat \<Rightarrow> call_pc \<Rightarrow> adm_sys \<Rightarrow> adm_sys" where
  "set_pc k pc y = y\<lparr>calls := (calls y)[k := (calls y ! k)\<lparr>call_pc := pc\<rparr>]\<rparr>"

abbreviation caller :: "adm_sys \<Rightarrow> nat \<Rightarrow> string" where
  "caller y k \<equiv> tenant_id (call_tenant (calls y ! k))"

inductive adm_step :: "bool \<Rightarrow> adm_sys \<Rightarrow> adm_sys \<Rightarrow> bool" for late :: bool where
  enter: "enter_acquire t (ctl y) = (c, s) \<Longrightarrow> adm_step late y (y\<lparr>ctl := s, calls := calls y @ [c]\<rparr>)"
| resume_granted: "k < length (calls y) \<Longrightarrow> call_pc (calls y ! k) = Waiting w \<Longrightarrow>
    adm_futures (ctl y) ! w = Result l \<Longrightarrow> adm_step late y (finish_call k (Inr l, ctl y) y)"
| resume_failed: "k < length (calls y) \<Longrightarrow> call_pc (calls y ! k) = Waiting w \<Longrightarrow>
    adm_futures (ctl y) ! w = Failed e \<Longrightarrow> adm_step late y (finish_call k (Inl e, ctl y) y)"
| expire: "k < length (calls y) \<Longrightarrow> call_pc (calls y ! k) = Waiting w \<Longrightarrow>
    late \<or> adm_futures (ctl y) ! w = Pending \<Longrightarrow>
    adm_step late y (set_pc k (Expiring w) (y\<lparr>ctl := future_cancel w (ctl y)\<rparr>))"
| cancel: "k < length (calls y) \<Longrightarrow> call_pc (calls y ! k) \<in> {Waiting w, Expiring w} \<Longrightarrow>
    adm_step late y (set_pc k (Cancelling w) (y\<lparr>ctl := future_cancel w (ctl y)\<rparr>))"
| timed_out: "k < length (calls y) \<Longrightarrow> call_pc (calls y ! k) = Expiring w \<Longrightarrow>
    adm_step late y (finish_call k (acquire_timeout_locked (caller y k) w (ctl y)) y)"
| cancelled: "k < length (calls y) \<Longrightarrow> call_pc (calls y ! k) = Cancelling w \<Longrightarrow>
    adm_step late y (finish_call k (acquire_cancelled_locked (caller y k) w (ctl y)) y)"
| release: "k < length (calls y) \<Longrightarrow> call_pc (calls y ! k) = Done (Inr l) \<Longrightarrow>
    adm_step late y (y\<lparr>ctl := snd (adm_release l (ctl y))\<rparr>)"
| shutdown: "adm_step late y (y\<lparr>ctl := snd (adm_shutdown (ctl y))\<rparr>)"
| observe: "adm_step late y (y\<lparr>ctl := set_observer b (ctl y)\<rparr>)"

definition adm_start :: "adm_sys \<Rightarrow> bool" where
  "adm_start y \<longleftrightarrow> calls y = [] \<and> (\<exists>configured gmi gmq timeout obs clk.
     AdmissionController configured gmi gmq timeout obs clk = Inr (ctl y) \<and>
     (\<forall>t\<in>set configured. 0 < max_inflight t \<and> 0 \<le> max_queue t))"

section \<open>What the calls and the controller know of each other\<close>

definition wait_of :: "call \<Rightarrow> nat option" where
  "wait_of c = (case call_pc c of Waiting w \<Rightarrow> Some w | Expiring w \<Rightarrow> Some w | Cancelling w \<Rightarrow> Some w
     | Done _ \<Rightarrow> None)"

definition holds :: "admission \<Rightarrow> call \<Rightarrow> nat \<Rightarrow> bool" where
  "holds s c l \<longleftrightarrow> call_pc c = Done (Inr l) \<or> (\<exists>w. wait_of c = Some w \<and> adm_futures s ! w = Result l)"

definition live_lease :: "admission \<Rightarrow> string \<Rightarrow> nat \<Rightarrow> bool" where
  "live_lease s i l \<longleftrightarrow> l < length (adm_leases s) \<and> lease_tenant (adm_leases s ! l) = i \<and> \<not> released (adm_leases s ! l)"

abbreviation acquire_outcomes :: "exn set" where
  "acquire_outcomes \<equiv> admission_refusals \<union> {raised AdmissionTimeoutError, CancelledError}"

definition wait_ok :: "admission \<Rightarrow> string \<Rightarrow> nat \<Rightarrow> nat future \<Rightarrow> bool" where
  "wait_ok s i w f = (case f of
      Pending \<Rightarrow> w \<in> set (queue_of s i)
    | Result l \<Rightarrow> live_lease s i l
    | Failed e \<Rightarrow> e = raised AdmissionUnavailableError
    | Cancelled \<Rightarrow> False)"

definition call_ok :: "bool \<Rightarrow> admission \<Rightarrow> call \<Rightarrow> bool" where
  "call_ok late s c = (let i = tenant_id (call_tenant c) in case call_pc c of
      Waiting w \<Rightarrow> w < length (adm_futures s) \<and> wait_ok s i w (adm_futures s ! w)
    | Expiring w \<Rightarrow> w < length (adm_futures s) \<and> (adm_futures s ! w = Cancelled \<or>
        late \<and> adm_futures s ! w \<noteq> Pending \<and> wait_ok s i w (adm_futures s ! w))
    | Cancelling w \<Rightarrow> w < length (adm_futures s) \<and> (adm_futures s ! w = Cancelled \<or>
        adm_futures s ! w \<noteq> Pending \<and> wait_ok s i w (adm_futures s ! w))
    | Done (Inl e) \<Rightarrow> e \<in> acquire_outcomes
    | Done (Inr l) \<Rightarrow> l < length (adm_leases s) \<and> lease_tenant (adm_leases s ! l) = i)"

definition calls_inv :: "bool \<Rightarrow> admission \<Rightarrow> call list \<Rightarrow> bool" where
  "calls_inv late s cs \<longleftrightarrow>
     (\<forall>k<length cs. call_ok late s (cs ! k)) \<and>
     (\<forall>a b w. a < length cs \<longrightarrow> b < length cs \<longrightarrow> wait_of (cs ! a) = Some w \<longrightarrow> wait_of (cs ! b) = Some w \<longrightarrow> a = b) \<and>
     (\<forall>i w. w \<in> set (queue_of s i) \<longrightarrow> (\<exists>k<length cs. tenant_id (call_tenant (cs ! k)) = i \<and> wait_of (cs ! k) = Some w)) \<and>
     (\<forall>a b l. a < length cs \<longrightarrow> b < length cs \<longrightarrow> holds s (cs ! a) l \<longrightarrow> holds s (cs ! b) l \<longrightarrow> a = b) \<and>
     (\<not> late \<longrightarrow> (\<forall>l<length (adm_leases s). \<not> released (adm_leases s ! l) \<longrightarrow> (\<exists>k<length cs. holds s (cs ! k) l)))"

definition ctl_ok :: "admission \<Rightarrow> bool" where
  "ctl_ok s \<longleftrightarrow> adm_inv s \<and> settled s \<and> mirrored s"

definition sys_inv :: "bool \<Rightarrow> adm_sys \<Rightarrow> bool" where
  "sys_inv late y \<longleftrightarrow> ctl_ok (ctl y) \<and> calls_inv late (ctl y) (calls y)"

lemma calls_invI:
  assumes "\<And>k. k < length cs \<Longrightarrow> call_ok late s (cs ! k)"
    and "\<And>a b w. a < length cs \<Longrightarrow> b < length cs \<Longrightarrow> wait_of (cs ! a) = Some w \<Longrightarrow> wait_of (cs ! b) = Some w \<Longrightarrow> a = b"
    and "\<And>i w. w \<in> set (queue_of s i) \<Longrightarrow> \<exists>k<length cs. tenant_id (call_tenant (cs ! k)) = i \<and> wait_of (cs ! k) = Some w"
    and "\<And>a b l. a < length cs \<Longrightarrow> b < length cs \<Longrightarrow> holds s (cs ! a) l \<Longrightarrow> holds s (cs ! b) l \<Longrightarrow> a = b"
    and "\<And>l. \<not> late \<Longrightarrow> l < length (adm_leases s) \<Longrightarrow> \<not> released (adm_leases s ! l) \<Longrightarrow> \<exists>k<length cs. holds s (cs ! k) l"
  shows "calls_inv late s cs"
  unfolding calls_inv_def using assms by blast

lemma calls_invD:
  assumes "calls_inv late s cs"
  shows "\<And>k. k < length cs \<Longrightarrow> call_ok late s (cs ! k)"
    and "\<And>a b w. a < length cs \<Longrightarrow> b < length cs \<Longrightarrow> wait_of (cs ! a) = Some w \<Longrightarrow> wait_of (cs ! b) = Some w \<Longrightarrow> a = b"
    and "\<And>i w. w \<in> set (queue_of s i) \<Longrightarrow> \<exists>k<length cs. tenant_id (call_tenant (cs ! k)) = i \<and> wait_of (cs ! k) = Some w"
    and "\<And>a b l. a < length cs \<Longrightarrow> b < length cs \<Longrightarrow> holds s (cs ! a) l \<Longrightarrow> holds s (cs ! b) l \<Longrightarrow> a = b"
    and "\<And>l. \<not> late \<Longrightarrow> l < length (adm_leases s) \<Longrightarrow> \<not> released (adm_leases s ! l) \<Longrightarrow> \<exists>k<length cs. holds s (cs ! k) l"
  using assms unfolding calls_inv_def by blast+

lemma call_ok_held:
  assumes "call_ok late s c" and "holds s c l"
  shows "l < length (adm_leases s)" and "wait_of c \<noteq> None \<Longrightarrow> \<not> released (adm_leases s ! l)"
  using assms
  by (auto simp: call_ok_def holds_def wait_ok_def live_lease_def wait_of_def Let_def split: call_pc.splits)

lemma call_ok_wait: "call_ok late s c \<Longrightarrow> wait_of c = Some w \<Longrightarrow> w < length (adm_futures s)"
  by (auto simp: call_ok_def wait_of_def Let_def split: call_pc.splits)

section \<open>Dispatching seen from the calls\<close>

lemma wait_ok_ext:
  assumes e: "ext s s'" and core: "adm_core s" and w: "w < length (adm_futures s)"
    and ok: "wait_ok s i w (adm_futures s ! w)"
  shows "wait_ok s' i w (adm_futures s' ! w)"
proof (cases "adm_futures s ! w")
  case Pending
  then have q: "w \<in> set (queue_of s i)" using ok by (simp add: wait_ok_def)
  show ?thesis
  proof (cases "adm_futures s' ! w = Pending")
    case True
    with q extD(10) [OF e, of i] w show ?thesis by (auto simp: wait_ok_def)
  next
    case False
    then obtain l where l: "adm_futures s' ! w = Result l" "length (adm_leases s) \<le> l" "l < length (adm_leases s')"
      "w \<in> set (queue_of s (lease_tenant (adm_leases s' ! l)))"
      using extD(7) [OF e w Pending] by blast
    have "lease_tenant (adm_leases s' ! l) = i"
    proof -
      obtain a b where "map_of (tenants s) i = Some a" "w \<in> set (queue a)"
        "map_of (tenants s) (lease_tenant (adm_leases s' ! l)) = Some b" "w \<in> set (queue b)"
        using q l(4) by (cases "map_of (tenants s) i"; cases "map_of (tenants s) (lease_tenant (adm_leases s' ! l))")
          (simp_all add: queue_of_def)
      then show ?thesis using adm_core_one_queue [OF core] by metis
    qed
    with l extD(5) [OF e l(2,3)] show ?thesis by (simp add: wait_ok_def live_lease_def)
  qed
next
  case (Result l)
  with ok have "live_lease s i l" by (simp add: wait_ok_def)
  moreover from this have "live_lease s' i l"
    using extD(3) [OF e] extD(4) [OF e, of l] by (simp add: live_lease_def)
  ultimately show ?thesis using extD(6) [OF e w] Result by (simp add: wait_ok_def)
qed (use extD(6) [OF e w] ok in \<open>simp_all add: wait_ok_def\<close>)

lemma call_ok_ext:
  assumes e: "ext s s'" and core: "adm_core s" and ok: "call_ok late s c"
  shows "call_ok late s' c"
  using ok wait_ok_ext [OF e core] extD(2,3) [OF e] extD(4) [OF e] extD(6) [OF e]
  by (fastforce simp: call_ok_def Let_def split: call_pc.splits sum.splits)

lemma holds_ext_old:
  assumes "ext s s'" and "call_ok late s c" and "l < length (adm_leases s)"
  shows "holds s' c l \<longleftrightarrow> holds s c l"
proof -
  have "adm_futures s' ! w = Result l \<longleftrightarrow> adm_futures s ! w = Result l" if "wait_of c = Some w" for w
  proof -
    have w: "w < length (adm_futures s)" using assms(2) that by (rule call_ok_wait)
    show ?thesis
    proof (cases "adm_futures s ! w = Pending")
      case True
      then show ?thesis using extD(7) [OF assms(1) w] assms(3) by fastforce
    next
      case False
      then show ?thesis using extD(6) [OF assms(1) w] by simp
    qed
  qed
  then show ?thesis unfolding holds_def by blast
qed

lemma holds_ext_new:
  assumes "ext s s'" and "call_ok late s c" and "length (adm_leases s) \<le> l" and "holds s' c l"
  obtains w where "wait_of c = Some w" and "w < length (adm_futures s)" and "adm_futures s ! w = Pending"
    and "adm_futures s' ! w = Result l"
proof -
  have "call_pc c \<noteq> Done (Inr l)" using assms(2,3) by (auto simp: call_ok_def)
  with assms(4) obtain w where w: "wait_of c = Some w" "adm_futures s' ! w = Result l" by (auto simp: holds_def)
  have wl: "w < length (adm_futures s)" using assms(2) w(1) by (rule call_ok_wait)
  have "adm_futures s ! w = Pending"
  proof (rule ccontr)
    assume np: "adm_futures s ! w \<noteq> Pending"
    then have "holds s c l" using extD(6) [OF assms(1) wl] w by (auto simp: holds_def)
    then show False using call_ok_held(1) [OF assms(2)] assms(3) by force
  qed
  then show ?thesis using that w wl by blast
qed

text \<open>A pending future in a queue has a call waiting for it, so every new lease has a holder.\<close>

lemma calls_inv_ext:
  assumes e: "ext s s'" and core: "adm_core s" and inv: "calls_inv late s cs"
  shows "calls_inv late s' cs"
proof (rule calls_invI)
  note I = calls_invD [OF inv]
  show "call_ok late s' (cs ! k)" if "k < length cs" for k
    using call_ok_ext [OF e core I(1) [OF that]] .
  show "a = b" if "a < length cs" "b < length cs" "wait_of (cs ! a) = Some w" "wait_of (cs ! b) = Some w" for a b w
    using I(2) that .
  show "\<exists>k<length cs. tenant_id (call_tenant (cs ! k)) = i \<and> wait_of (cs ! k) = Some w"
    if "w \<in> set (queue_of s' i)" for i w
    using I(3) that extD(10) [OF e, of i] by auto
  show "a = b" if ab: "a < length cs" "b < length cs" and h: "holds s' (cs ! a) l" "holds s' (cs ! b) l" for a b l
  proof (cases "l < length (adm_leases s)")
    case True
    then show ?thesis using I(4) [OF ab] holds_ext_old [OF e I(1)] ab h by blast
  next
    case False
    then have l: "length (adm_leases s) \<le> l" by simp
    from holds_ext_new [OF e I(1) [OF ab(1)] l h(1)] obtain v where v: "wait_of (cs ! a) = Some v"
      "v < length (adm_futures s)" "adm_futures s ! v = Pending" "adm_futures s' ! v = Result l" .
    from holds_ext_new [OF e I(1) [OF ab(2)] l h(2)] obtain w where w: "wait_of (cs ! b) = Some w"
      "w < length (adm_futures s)" "adm_futures s ! w = Pending" "adm_futures s' ! w = Result l" .
    have "v = w" using extD(9) [OF e] v w by blast
    then show ?thesis using I(2) [OF ab] v(1) w(1) by blast
  qed
  show "\<exists>k<length cs. holds s' (cs ! k) l"
    if "\<not> late" and l: "l < length (adm_leases s')" "\<not> released (adm_leases s' ! l)" for l
  proof (cases "l < length (adm_leases s)")
    case True
    then show ?thesis
      using I(5) [OF \<open>\<not> late\<close> True] l(2) extD(4) [OF e True] holds_ext_old [OF e I(1) True] by auto
  next
    case False
    then obtain w where w: "w < length (adm_futures s)" "adm_futures s ! w = Pending" "adm_futures s' ! w = Result l"
      using extD(8) [OF e, of l] l by auto
    have "w \<in> set (queue_of s (lease_tenant (adm_leases s' ! l)))"
      using extD(7) [OF e w(1,2)] w(3) by auto
    then show ?thesis using I(3) w(3) by (fastforce simp: holds_def)
  qed
qed

section \<open>The other updates seen from the calls\<close>

lemma calls_inv_cong:
  assumes "queue_of s' = queue_of s" and "adm_futures s' = adm_futures s" and "adm_leases s' = adm_leases s"
  shows "calls_inv late s' cs = calls_inv late s cs"
  unfolding calls_inv_def call_ok_def wait_ok_def live_lease_def holds_def assms by (rule refl)

lemma observe_wait_fields:
  "tenants (observe_wait b oc f s) = tenants s \<and> global_inflight (observe_wait b oc f s) = global_inflight s \<and>
   global_queued (observe_wait b oc f s) = global_queued s \<and>
   global_max_inflight (observe_wait b oc f s) = global_max_inflight s \<and>
   global_max_queue (observe_wait b oc f s) = global_max_queue s \<and>
   active_tenants (observe_wait b oc f s) = active_tenants s \<and>
   active_tenant_ids (observe_wait b oc f s) = active_tenant_ids s \<and>
   adm_closed (observe_wait b oc f s) = adm_closed s \<and>
   adm_futures (observe_wait b oc f s) = adm_futures s \<and> adm_leases (observe_wait b oc f s) = adm_leases s \<and>
   (mirrored s \<longrightarrow> mirrored (observe_wait b oc f s))"
  by (auto simp: observe_wait_def read_clock_def mirrored_def last_state_append state_event_def
      split: option.splits)

lemma observe_acquire_eq:
  "observe_acquire b r s = s \<or> (\<exists>oc f. observe_acquire b r s = observe_wait b oc f s)"
  unfolding observe_acquire_def by (cases r) auto

lemma ctl_ok_cong:
  assumes "tenants s' = tenants s" and "global_inflight s' = global_inflight s" and "global_queued s' = global_queued s"
    and "global_max_inflight s' = global_max_inflight s" and "global_max_queue s' = global_max_queue s"
    and "active_tenants s' = active_tenants s" and "active_tenant_ids s' = active_tenant_ids s"
    and "adm_closed s' = adm_closed s" and "adm_futures s' = adm_futures s" and "adm_leases s' = adm_leases s"
    and "mirrored s \<Longrightarrow> mirrored s'"
  shows "ctl_ok s \<Longrightarrow> ctl_ok s'"
  using assms adm_core_cong [of s' s] by (simp add: ctl_ok_def adm_inv_def active_ok_def settled_def)

lemma observe_acquire_ok:
  shows "ctl_ok s \<Longrightarrow> ctl_ok (observe_acquire b r s)"
    and "calls_inv late (observe_acquire b r s) cs = calls_inv late s cs"
    and "adm_leases (observe_acquire b r s) = adm_leases s" and "adm_futures (observe_acquire b r s) = adm_futures s"
proof -
  let ?t = "observe_acquire b r s"
  have t: "tenants ?t = tenants s \<and> global_inflight ?t = global_inflight s \<and> global_queued ?t = global_queued s \<and>
     global_max_inflight ?t = global_max_inflight s \<and> global_max_queue ?t = global_max_queue s \<and>
     active_tenants ?t = active_tenants s \<and> active_tenant_ids ?t = active_tenant_ids s \<and>
     adm_closed ?t = adm_closed s \<and> adm_futures ?t = adm_futures s \<and> adm_leases ?t = adm_leases s \<and>
     (mirrored s \<longrightarrow> mirrored ?t)"
    using observe_acquire_eq [of b r s] observe_wait_fields [of b _ _ s] by metis
  then show "adm_leases ?t = adm_leases s" "adm_futures ?t = adm_futures s" by simp_all
  show "ctl_ok s \<Longrightarrow> ctl_ok ?t" using t by (intro ctl_ok_cong [of ?t s]) simp_all
  show "calls_inv late ?t cs = calls_inv late s cs"
    using t by (intro calls_inv_cong) (simp_all add: queue_of_def fun_eq_iff)
qed

lemma read_clock_ok:
  shows "ctl_ok s \<Longrightarrow> ctl_ok (snd (read_clock s))"
    and "calls_inv late (snd (read_clock s)) cs = calls_inv late s cs"
proof -
  show "ctl_ok s \<Longrightarrow> ctl_ok (snd (read_clock s))"
    by (rule ctl_ok_cong [of _ s]) (simp_all add: read_clock_def mirrored_def state_event_def)
  show "calls_inv late (snd (read_clock s)) cs = calls_inv late s cs"
    by (rule calls_inv_cong) (simp_all add: read_clock_def queue_of_def fun_eq_iff)
qed

text \<open>A waiting call ends with an exception: its waiter leaves the queue and its slot, if any, is given back.\<close>

lemma calls_inv_finish:
  assumes inv: "calls_inv late s cs" and k: "k < length cs" and w: "wait_of (cs ! k) = Some w"
    and f: "adm_futures s' = adm_futures s" and q: "\<And>j. set (queue_of s' j) = set (queue_of s j) - {w}"
    and len: "length (adm_leases s') = length (adm_leases s)"
    and tn: "\<And>l. l < length (adm_leases s) \<Longrightarrow> lease_tenant (adm_leases s' ! l) = lease_tenant (adm_leases s ! l)"
    and same: "\<And>l. l < length (adm_leases s) \<Longrightarrow> adm_futures s ! w \<noteq> Result l \<Longrightarrow> adm_leases s' ! l = adm_leases s ! l"
    and given: "\<And>l. adm_futures s ! w = Result l \<Longrightarrow> late \<or> released (adm_leases s' ! l)"
    and e: "e \<in> acquire_outcomes"
  shows "calls_inv late s' (cs[k := (cs ! k)\<lparr>call_pc := Done (Inl e)\<rparr>])"
proof -
  note I = calls_invD [OF inv]
  let ?cs = "cs[k := (cs ! k)\<lparr>call_pc := Done (Inl e)\<rparr>]"
  have wk: "wait_of (?cs ! k) = None" using k by (simp add: wait_of_def)
  have nh: "\<not> holds s' (?cs ! k) l" for l using k by (simp add: holds_def wait_of_def)
  have hs: "holds s' c l = holds s c l" for c l by (simp add: holds_def f)
  have nk: "?cs ! a = cs ! a" if "a \<noteq> k" for a using that by simp
  have wok: "wait_ok s' i x (adm_futures s' ! x)"
    if a: "a < length cs" "a \<noteq> k" "wait_of (cs ! a) = Some x" and ok: "wait_ok s i x (adm_futures s ! x)" for a x i
  proof -
    have "x \<noteq> w" using I(2) [OF a(1) k] a w by blast
    have "adm_futures s ! w \<noteq> Result l" if "adm_futures s ! x = Result l" for l
      using I(4) [OF a(1) k, of l] a w that by (auto simp: holds_def)
    with ok \<open>x \<noteq> w\<close> show ?thesis
      by (auto simp: wait_ok_def f q live_lease_def len same split: future.splits)
  qed
  have ok: "call_ok late s' (cs ! a)" if a: "a < length cs" "a \<noteq> k" for a
    using I(1) [OF a(1)] wok [OF a] len tn
    by (auto simp: call_ok_def wait_of_def f Let_def split: call_pc.splits sum.splits)
  show ?thesis
  proof (rule calls_invI)
    show "call_ok late s' (?cs ! a)" if "a < length ?cs" for a
      using that ok e k by (cases "a = k") (simp_all add: call_ok_def)
    show "a = b" if "a < length ?cs" "b < length ?cs" "wait_of (?cs ! a) = Some x" "wait_of (?cs ! b) = Some x" for a b x
      using that I(2) [of a b x] wk by (cases "a = k"; cases "b = k") auto
    show "\<exists>a<length ?cs. tenant_id (call_tenant (?cs ! a)) = i \<and> wait_of (?cs ! a) = Some x"
      if x: "x \<in> set (queue_of s' i)" for i x
    proof -
      from x q obtain a where a: "a < length cs" "tenant_id (call_tenant (cs ! a)) = i" "wait_of (cs ! a) = Some x"
        using I(3) by blast
      moreover have "a \<noteq> k" using a(3) w x q by auto
      ultimately show ?thesis by auto
    qed
    show "a = b" if "a < length ?cs" "b < length ?cs" "holds s' (?cs ! a) l" "holds s' (?cs ! b) l" for a b l
    proof -
      have "a \<noteq> k" "b \<noteq> k" using that nh by blast+
      with that show ?thesis using I(4) [of a b l] by (simp add: hs)
    qed
    show "\<exists>a<length ?cs. holds s' (?cs ! a) l"
      if live: "\<not> late" "l < length (adm_leases s')" "\<not> released (adm_leases s' ! l)" for l
    proof -
      have nw: "adm_futures s ! w \<noteq> Result l" using given live by blast
      then have "\<not> released (adm_leases s ! l)" using same live len by metis
      then obtain a where a: "a < length cs" "holds s (cs ! a) l" using I(5) live len by metis
      have "a \<noteq> k" using a(2) nw w by (auto simp: holds_def wait_of_def split: call_pc.splits)
      with a show ?thesis by (auto simp: hs)
    qed
  qed
qed

text \<open>The holder of a lease releases it.\<close>

lemma calls_inv_release:
  assumes inv: "calls_inv late s cs" and k: "k < length cs" and pc: "call_pc (cs ! k) = Done (Inr l)"
    and f: "adm_futures s' = adm_futures s" and q: "queue_of s' = queue_of s"
    and l: "adm_leases s' = (adm_leases s)[l := (adm_leases s ! l)\<lparr>released := True\<rparr>]"
  shows "calls_inv late s' cs"
proof -
  note I = calls_invD [OF inv]
  have hs: "holds s' c x = holds s c x" for c x by (simp add: holds_def f)
  have hk: "holds s (cs ! k) l" using pc by (simp add: holds_def)
  have wok: "wait_ok s' i x (adm_futures s' ! x)"
    if a: "a < length cs" "wait_of (cs ! a) = Some x" and ok: "wait_ok s i x (adm_futures s ! x)" for a x i
  proof -
    have "a \<noteq> k" using a(2) pc by (auto simp: wait_of_def)
    then have "adm_futures s ! x \<noteq> Result l" using I(4) [OF a(1) k _ hk] a(2) by (auto simp: holds_def)
    with ok show ?thesis by (auto simp: wait_ok_def f q live_lease_def l nth_list_update split: future.splits)
  qed
  have tn: "lease_tenant (adm_leases s' ! x) = lease_tenant (adm_leases s ! x)" for x
    by (cases "l < length (adm_leases s)") (auto simp: l nth_list_update not_less list_update_beyond)
  have "call_ok late s' (cs ! a)" if a: "a < length cs" for a
    using I(1) [OF a] wok [OF a] tn
    by (auto simp: call_ok_def wait_of_def f l Let_def split: call_pc.splits sum.splits)
  moreover have "\<exists>a<length cs. holds s' (cs ! a) x"
    if "\<not> late" "x < length (adm_leases s')" "\<not> released (adm_leases s' ! x)" for x
    using I(5) [of x] that by (cases "x = l") (auto simp: hs l)
  ultimately show ?thesis
    using I(2,3,4) by (intro calls_invI) (simp_all add: hs q)
qed

text \<open>The timer or a cancellation wakes a waiting call; a pending future becomes cancelled.\<close>

lemma future_cancel_nth:
  assumes "w < length (adm_futures s)"
  shows "adm_futures (future_cancel w s) ! x =
    (if x = w \<and> adm_futures s ! w = Pending then Cancelled else adm_futures s ! x)"
  using assms by (auto simp: future_cancel_def)

lemma calls_inv_wake:
  assumes inv: "calls_inv late s cs" and adm: "adm_inv s" and k: "k < length cs" and w: "wait_of (cs ! k) = Some w"
    and pc: "pc = Expiring w \<and> (late \<or> adm_futures s ! w = Pending) \<and> call_pc (cs ! k) = Waiting w \<or> pc = Cancelling w"
  shows "calls_inv late (future_cancel w s) (cs[k := (cs ! k)\<lparr>call_pc := pc\<rparr>])"
proof -
  note I = calls_invD [OF inv]
  let ?cs = "cs[k := (cs ! k)\<lparr>call_pc := pc\<rparr>]" and ?s = "future_cancel w s"
  have wl: "w < length (adm_futures s)" using call_ok_wait [OF I(1) [OF k] w] .
  note n = future_cancel_nth [OF wl] and sq = future_cancel_ok [OF adm, of w]
  have waits: "wait_of (?cs ! a) = wait_of (cs ! a)" for a
    using w pc k by (cases "a = k") (auto simp: wait_of_def)
  have hs: "holds ?s (?cs ! a) l = holds s (cs ! a) l" for a l
  proof -
    have "adm_futures ?s ! x = Result l \<longleftrightarrow> adm_futures s ! x = Result l" for x by (auto simp: n)
    moreover have "call_pc (?cs ! a) = Done r \<longleftrightarrow> call_pc (cs ! a) = Done r" for r
      using pc w k by (cases "a = k") (auto simp: wait_of_def)
    ultimately show ?thesis unfolding holds_def waits by blast
  qed
  have wok: "wait_ok ?s i x f = wait_ok s i x f" for i x f
    by (simp add: wait_ok_def live_lease_def sq split: future.split)
  have ok: "call_ok late ?s (cs ! a)" if a: "a < length cs" "a \<noteq> k" for a
  proof -
    have "x \<noteq> w" if "wait_of (cs ! a) = Some x" for x using I(2) [OF a(1) k] a(2) w that by blast
    then show ?thesis using I(1) [OF a(1)]
      by (auto simp: call_ok_def wait_of_def Let_def n wok sq split: call_pc.splits sum.splits)
  qed
  have okk: "call_ok late ?s (?cs ! k)"
    using I(1) [OF k] pc w k
    by (auto simp: call_ok_def wait_of_def Let_def n wok sq split: call_pc.splits)
  show ?thesis
  proof (rule calls_invI)
    show "call_ok late ?s (?cs ! a)" if "a < length ?cs" for a
      using that ok okk by (cases "a = k") simp_all
    show "a = b" if "a < length ?cs" "b < length ?cs" "wait_of (?cs ! a) = Some x" "wait_of (?cs ! b) = Some x" for a b x
      using that I(2) unfolding waits by simp
    have tid: "call_tenant (?cs ! a) = call_tenant (cs ! a)" for a using k by (cases "a = k") auto
    show "\<exists>a<length ?cs. tenant_id (call_tenant (?cs ! a)) = i \<and> wait_of (?cs ! a) = Some x"
      if "x \<in> set (queue_of ?s i)" for i x
      using I(3) that unfolding waits tid sq by simp
    show "a = b" if "a < length ?cs" "b < length ?cs" "holds ?s (?cs ! a) l" "holds ?s (?cs ! b) l" for a b l
      using that I(4) unfolding hs by simp
    show "\<exists>a<length ?cs. holds ?s (?cs ! a) l"
      if "\<not> late" "l < length (adm_leases ?s)" "\<not> released (adm_leases ?s ! l)" for l
      using that I(5) unfolding hs sq by simp
  qed
qed

text \<open>A call returns what its future holds.\<close>

lemma calls_inv_resume:
  assumes inv: "calls_inv late s cs" and adm: "adm_inv s" and k: "k < length cs"
    and pc: "call_pc (cs ! k) = Waiting w"
    and r: "r = Inr l \<and> adm_futures s ! w = Result l \<or> r = Inl e \<and> adm_futures s ! w = Failed e"
  shows "calls_inv late s (cs[k := (cs ! k)\<lparr>call_pc := Done r\<rparr>])"
proof -
  note I = calls_invD [OF inv]
  let ?cs = "cs[k := (cs ! k)\<lparr>call_pc := Done r\<rparr>]"
  have w: "wait_of (cs ! k) = Some w" using pc by (simp add: wait_of_def)
  have wk: "wait_of (?cs ! k) = None" using k by (simp add: wait_of_def)
  have hs: "holds s (?cs ! a) x = holds s (cs ! a) x" for a x
    using r pc k by (cases "a = k") (auto simp: holds_def wait_of_def)
  have okk: "call_ok late s (?cs ! k)"
    using I(1) [OF k] pc r k by (auto simp: call_ok_def wait_ok_def live_lease_def Let_def)
  have nq: "w \<notin> set (queue_of s i)" for i
    using queued_waiter(2) [of s w i] adm r by (auto simp: adm_inv_def)
  show ?thesis
  proof (rule calls_invI)
    show "call_ok late s (?cs ! a)" if "a < length ?cs" for a
      using that I(1) okk by (cases "a = k") simp_all
    show "a = b" if "a < length ?cs" "b < length ?cs" "wait_of (?cs ! a) = Some x" "wait_of (?cs ! b) = Some x" for a b x
      using that I(2) [of a b x] wk by (cases "a = k"; cases "b = k") auto
    show "\<exists>a<length ?cs. tenant_id (call_tenant (?cs ! a)) = i \<and> wait_of (?cs ! a) = Some x"
      if x: "x \<in> set (queue_of s i)" for i x
    proof -
      obtain a where a: "a < length cs" "tenant_id (call_tenant (cs ! a)) = i" "wait_of (cs ! a) = Some x"
        using I(3) [OF x] by blast
      moreover have "a \<noteq> k" using a(3) w x nq by auto
      ultimately show ?thesis by auto
    qed
    show "a = b" if "a < length ?cs" "b < length ?cs" "holds s (?cs ! a) x" "holds s (?cs ! b) x" for a b x
      using that I(4) unfolding hs by simp
    show "\<exists>a<length ?cs. holds s (?cs ! a) x"
      if "\<not> late" "x < length (adm_leases s)" "\<not> released (adm_leases s ! x)" for x
      using that I(5) unfolding hs by simp
  qed
qed

text \<open>A new call: refused, admitted at once with a new lease, or waiting for a new future.\<close>

lemma calls_inv_enter:
  assumes inv: "calls_inv late s cs"
    and f: "length (adm_futures s) \<le> length (adm_futures s')"
      "\<And>w. w < length (adm_futures s) \<Longrightarrow> adm_futures s' ! w = adm_futures s ! w"
    and l: "length (adm_leases s) \<le> length (adm_leases s')"
      "\<And>l. l < length (adm_leases s) \<Longrightarrow> adm_leases s' ! l = adm_leases s ! l"
    and q: "\<And>j. set (queue_of s j) \<subseteq> set (queue_of s' j)"
      "\<And>j x. x \<in> set (queue_of s' j) - set (queue_of s j) \<Longrightarrow> wait_of c = Some x \<and> tenant_id (call_tenant c) = j"
    and c: "call_ok late s' c" "\<And>w. wait_of c = Some w \<Longrightarrow> length (adm_futures s) \<le> w"
      "\<And>l. holds s' c l \<Longrightarrow> length (adm_leases s) \<le> l"
      "\<And>l. length (adm_leases s) \<le> l \<Longrightarrow> l < length (adm_leases s') \<Longrightarrow> holds s' c l"
  shows "calls_inv late s' (cs @ [c])"
proof -
  note I = calls_invD [OF inv]
  have old: "call_ok late s' (cs ! a)" if "a < length cs" for a
  proof -
    have wok: "wait_ok s' i w (adm_futures s' ! w)"
      if "w < length (adm_futures s)" "wait_ok s i w (adm_futures s ! w)" for i w
      using that f(2) l q(1) [of i] by (auto simp: wait_ok_def live_lease_def split: future.splits)
    show ?thesis
      using I(1) [OF that] wok f l
      by (auto simp: call_ok_def Let_def split: call_pc.splits sum.splits)
  qed
  have hs: "holds s' (cs ! a) x = holds s (cs ! a) x" if "a < length cs" for a x
    using call_ok_wait [OF I(1) [OF that]] f(2) by (auto simp: holds_def)
  have lt: "w < length (adm_futures s)" if "a < length cs" "wait_of (cs ! a) = Some w" for a w
    using call_ok_wait [OF I(1)] that by blast
  have hl: "x < length (adm_leases s)" if "a < length cs" "holds s' (cs ! a) x" for a x
    using call_ok_held(1) [OF I(1)] that hs by blast
  show ?thesis
  proof (rule calls_invI)
    show "call_ok late s' ((cs @ [c]) ! a)" if "a < length (cs @ [c])" for a
      using that old c(1) by (cases "a < length cs") (auto simp: nth_append less_Suc_eq)
    show "a = b" if "a < length (cs @ [c])" "b < length (cs @ [c])" "wait_of ((cs @ [c]) ! a) = Some x"
      "wait_of ((cs @ [c]) ! b) = Some x" for a b x
      using that I(2) [of a b x] lt [of _ x] c(2) [of x] by (fastforce simp: nth_append less_Suc_eq split: if_splits)
    show "\<exists>a<length (cs @ [c]). tenant_id (call_tenant ((cs @ [c]) ! a)) = i \<and> wait_of ((cs @ [c]) ! a) = Some x"
      if x: "x \<in> set (queue_of s' i)" for i x
    proof (cases "x \<in> set (queue_of s i)")
      case True
      from I(3) [OF this] obtain a where "a < length cs" "tenant_id (call_tenant (cs ! a)) = i" "wait_of (cs ! a) = Some x"
        by blast
      then show ?thesis by (intro exI [of _ a]) (simp add: nth_append)
    next
      case False
      then show ?thesis using q(2) [of x i] x by (intro exI [of _ "length cs"]) simp
    qed
    show "a = b" if "a < length (cs @ [c])" "b < length (cs @ [c])" "holds s' ((cs @ [c]) ! a) x"
      "holds s' ((cs @ [c]) ! b) x" for a b x
    proof (cases "a < length cs"; cases "b < length cs")
      assume "a < length cs" "b < length cs"
      then show ?thesis using I(4) [of a b x] that hs by (simp add: nth_append)
    qed (use that hl [of a x] hl [of b x] c(3) [of x] in \<open>auto simp: nth_append\<close>)
    show "\<exists>a<length (cs @ [c]). holds s' ((cs @ [c]) ! a) x"
      if x: "\<not> late" "x < length (adm_leases s')" "\<not> released (adm_leases s' ! x)" for x
    proof (cases "x < length (adm_leases s)")
      case True
      then obtain a where "a < length cs" "holds s (cs ! a) x" using I(5) [OF x(1) True] x(3) l(2) by auto
      then show ?thesis using hs by (intro exI [of _ a]) (simp add: nth_append)
    next
      case False
      then show ?thesis using c(4) [of x] x by (intro exI [of _ "length cs"]) simp
    qed
  qed
qed

lemma calls_inv_shutdown:
  assumes inv: "calls_inv late s cs" and adm: "adm_inv s"
  shows "calls_inv late (snd (adm_shutdown s)) cs"
proof -
  note I = calls_invD [OF inv] and sd = adm_shutdown_ok [OF adm]
  let ?s = "snd (adm_shutdown s)"
  have q: "queue_of ?s i = []" for i by (rule closed_no_queue [OF sd(2,3)])
  have hs: "holds ?s (cs ! a) l = holds s (cs ! a) l" if "a < length cs" for a l
    using call_ok_wait [OF I(1) [OF that]] sd(7) by (auto simp: holds_def split: if_splits)
  have wok: "wait_ok ?s i w (adm_futures ?s ! w)"
    if "w < length (adm_futures s)" "wait_ok s i w (adm_futures s ! w)" for i w
    using that by (auto simp: sd(7) wait_ok_def live_lease_def sd(4) split: future.splits)
  have np: "adm_futures ?s ! w \<noteq> Pending" and cn: "adm_futures s ! w = Cancelled \<Longrightarrow> adm_futures ?s ! w = Cancelled"
    if "w < length (adm_futures s)" "adm_futures s ! w \<noteq> Pending" for w
    using that by (simp_all add: sd(7))
  have "call_ok late ?s (cs ! a)" if "a < length cs" for a
    using I(1) [OF that] wok np cn
    by (auto simp: call_ok_def Let_def sd(4,6) split: call_pc.splits sum.splits)
  moreover have "\<exists>k<length cs. holds ?s (cs ! k) l"
    if "\<not> late" "l < length (adm_leases ?s)" "\<not> released (adm_leases ?s ! l)" for l
    using I(5) [of l] that hs unfolding sd(4) by blast
  ultimately show ?thesis
    using I(2,4) by (intro calls_invI) (simp_all add: q hs)
qed

section \<open>Every step keeps the invariant\<close>

lemma enter_acquire_ok:
  assumes ok: "ctl_ok s" and inv: "calls_inv late s cs" and eq: "enter_acquire t s = (c, s')"
  shows "ctl_ok s' \<and> calls_inv late s' (cs @ [c])"
proof -
  obtain now s0 where s0: "read_clock s = (now, s0)" by (cases "read_clock s")
  have ok0: "ctl_ok s0" and inv0: "calls_inv late s0 cs"
    using read_clock_ok [where s = s] ok inv s0 by simp_all
  then have adm0: "adm_inv s0" "settled s0" and core0: "adm_core s0" and m0: "mirrored s0"
    by (simp_all add: ctl_ok_def adm_inv_def)
  from adm0 show ?thesis
  proof (cases rule: acquire_locked_cases [where s = s0 and t = t])
    case (refused e s1)
    let ?c = "\<lparr>call_tenant = t, call_started = now, call_pc = Done (Inl e)\<rparr>"
    have c: "c = ?c" and s': "s' = observe_acquire now (Inl e) s1"
      using eq s0 refused(1) by (simp_all add: enter_acquire_def)
    have inv1: "calls_inv late s1 cs" by (rule calls_inv_ext [OF refused(5) core0 inv0])
    have "calls_inv late s1 (cs @ [?c])"
      using refused(2) by (intro calls_inv_enter [OF inv1]) (auto simp: call_ok_def wait_of_def holds_def)
    moreover have "ctl_ok s1" using refused(3,4) extD(11) [OF refused(5) m0] by (simp add: ctl_ok_def)
    ultimately show ?thesis by (simp add: c s' observe_acquire_ok)
  next
    case (granted s1 st)
    let ?l = "length (adm_leases s1)" and ?g = "granted_state (tenant_id t) False s1"
    let ?c = "\<lparr>call_tenant = t, call_started = now, call_pc = Done (Inr ?l)\<rparr>"
    have c: "c = ?c" and s': "s' = observe_acquire now (Inr ?l) ?g"
      using eq s0 granted(7) by (simp_all add: enter_acquire_def)
    note g = granted_fields [OF granted(4,6), of False]
    have tid: "tenant_id (tenant st) = tenant_id t"
      using adm_core_tenant(1) [OF _ granted(4)] granted(2) by (simp add: adm_inv_def)
    have inv1: "calls_inv late s1 cs" by (rule calls_inv_ext [OF granted(1) core0 inv0])
    have q: "queue_of ?g j = queue_of s1 j" for j
      using granted(4) by (simp add: queue_of_def g(1))
    have "calls_inv late ?g (cs @ [?c])"
      using tid
      by (intro calls_inv_enter [OF inv1])
        (auto simp: call_ok_def wait_of_def holds_def g(6,11) q nth_append)
    moreover have "ctl_ok ?g"
      using adm_inv_granted [OF granted(2,4,6)] settled_granted [OF granted(3,4,5,6)] mirrored_granted [OF granted(4,6)]
      by (simp add: ctl_ok_def)
    ultimately show ?thesis by (simp add: c s' observe_acquire_ok)
  next
    case (queued s1 st s2)
    let ?w = "length (adm_futures s1)" and ?e = "enqueue_waiter (tenant_id t) s1"
    let ?c = "\<lparr>call_tenant = t, call_started = now, call_pc = Waiting ?w\<rparr>"
    have c: "c = ?c" and s': "s' = s2" using eq s0 queued(10) by (simp_all add: enter_acquire_def)
    note e = enqueue_waiter_ok [OF queued(2-6)]
    have inv1: "calls_inv late s1 cs" by (rule calls_inv_ext [OF queued(1) core0 inv0])
    have "calls_inv late ?e (cs @ [?c])"
      by (intro calls_inv_enter [OF inv1])
        (auto simp: call_ok_def wait_of_def holds_def wait_ok_def e(2,3,4) nth_append split: if_splits)
    moreover have "adm_core ?e" using e(1) by (simp add: adm_inv_def)
    ultimately have "calls_inv late s2 (cs @ [?c])" using calls_inv_ext [OF queued(7)] by blast
    moreover have "ctl_ok s2" using queued(8,9) extD(11) [OF queued(7) e(5)] by (simp add: ctl_ok_def)
    ultimately show ?thesis by (simp add: c s')
  qed
qed

lemma waiter_left:
  assumes adm: "adm_inv s" and inv: "calls_inv late s cs" and k: "k < length cs" and w: "wait_of (cs ! k) = Some w"
  defines "i \<equiv> tenant_id (call_tenant (cs ! k))"
  shows "set (queue_of (snd (remove_waiter_locked i w s)) j) = set (queue_of s j) - {w}"
    and "w \<notin> set (queue_of s i) \<Longrightarrow> set (queue_of s j) = set (queue_of s j) - {w}"
proof -
  have other: "w \<notin> set (queue_of s j)" if "j \<noteq> i" for j
  proof
    assume "w \<in> set (queue_of s j)"
    then obtain a where "a < length cs" "tenant_id (call_tenant (cs ! a)) = j" "wait_of (cs ! a) = Some w"
      using calls_invD(3) [OF inv] by blast
    with calls_invD(2) [OF inv _ k _ w] that show False unfolding i_def by blast
  qed
  have "distinct (queue_of s i)"
    using adm_core_tenant(6) [of s i] adm by (cases "map_of (tenants s) i") (simp_all add: queue_of_def adm_inv_def)
  then show "set (queue_of (snd (remove_waiter_locked i w s)) j) = set (queue_of s j) - {w}"
    using remove_waiter_locked_ok(6) [OF adm] other by simp
  show "w \<notin> set (queue_of s i) \<Longrightarrow> set (queue_of s j) = set (queue_of s j) - {w}"
    using other by (cases "j = i") auto
qed

lemma timeout_ok:
  assumes ok: "ctl_ok s" and inv: "calls_inv late s cs" and k: "k < length cs" and pc: "call_pc (cs ! k) = Expiring w"
  obtains s2 where
    "acquire_timeout_locked (tenant_id (call_tenant (cs ! k))) w s = (Inl (raised AdmissionTimeoutError), s2)"
    and "ctl_ok s2"
    and "calls_inv late s2 (cs[k := (cs ! k)\<lparr>call_pc := Done (Inl (raised AdmissionTimeoutError))\<rparr>])"
proof -
  let ?i = "tenant_id (call_tenant (cs ! k))"
  let ?s1 = "snd (remove_waiter_locked ?i w s)"
  have adm: "adm_inv s" and m: "mirrored s" using ok by (simp_all add: ctl_ok_def)
  have w: "wait_of (cs ! k) = Some w" using pc by (simp add: wait_of_def)
  note rm = remove_waiter_locked_ok [OF adm, where i = ?i and w = w]
  obtain s2 where s2: "acquire_timeout_locked ?i w s = (Inl (raised AdmissionTimeoutError), s2)" "adm_inv s2"
    "settled s2" "ext ?s1 s2"
    using acquire_timeout_ok [OF adm] by blast
  have "late \<or> adm_futures s ! w = Cancelled"
    using calls_invD(1) [OF inv k] pc by (auto simp: call_ok_def Let_def)
  then have "calls_inv late ?s1 (cs[k := (cs ! k)\<lparr>call_pc := Done (Inl (raised AdmissionTimeoutError))\<rparr>])"
    by (intro calls_inv_finish [OF inv k w]) (auto simp: rm(4,5) waiter_left(1) [OF adm inv k w])
  then have "calls_inv late s2 (cs[k := (cs ! k)\<lparr>call_pc := Done (Inl (raised AdmissionTimeoutError))\<rparr>])"
    using calls_inv_ext [OF s2(4)] rm(2) by (simp add: adm_inv_def)
  moreover have "ctl_ok s2" using s2(2,3) extD(11) [OF s2(4) rm(7) [OF m]] by (simp add: ctl_ok_def)
  ultimately show ?thesis using that s2(1) by blast
qed

lemma cancelled_ok:
  assumes ok: "ctl_ok s" and inv: "calls_inv late s cs" and k: "k < length cs" and pc: "call_pc (cs ! k) = Cancelling w"
  obtains s2 where "acquire_cancelled_locked (tenant_id (call_tenant (cs ! k))) w s = (Inl CancelledError, s2)"
    and "ctl_ok s2" and "calls_inv late s2 (cs[k := (cs ! k)\<lparr>call_pc := Done (Inl CancelledError)\<rparr>])"
proof -
  let ?i = "tenant_id (call_tenant (cs ! k))" and ?cs = "cs[k := (cs ! k)\<lparr>call_pc := Done (Inl CancelledError)\<rparr>]"
  let ?s1 = "cancel_cleanup ?i w s"
  have adm: "adm_inv s" and m: "mirrored s" using ok by (simp_all add: ctl_ok_def)
  have w: "wait_of (cs ! k) = Some w" using pc by (simp add: wait_of_def)
  note rm = remove_waiter_locked_ok [OF adm, where i = ?i and w = w]
  have res: "l < length (adm_leases s)" if "adm_futures s ! w = Result l" for l
    using call_ok_held(1) [OF calls_invD(1) [OF inv k]] w that by (auto simp: holds_def)
  have exc: "e = raised AdmissionUnavailableError" if "adm_futures s ! w = Failed e" for e
    using calls_invD(1) [OF inv k] pc that by (auto simp: call_ok_def wait_ok_def Let_def)
  obtain s2 where s2: "acquire_cancelled_locked ?i w s = (Inl CancelledError, s2)" "adm_inv s2" "settled s2" "ext ?s1 s2"
    using acquire_cancelled_ok [OF adm res exc] by blast
  have "adm_inv ?s1 \<and> mirrored ?s1 \<and> calls_inv late ?s1 ?cs"
  proof (cases "w \<in> set (queue_of s ?i)")
    case True
    have "\<nexists>l. adm_futures s ! w = Result l" using queued_waiter(2) [OF _ True] adm by (auto simp: adm_inv_def)
    then have "calls_inv late (snd (remove_waiter_locked ?i w s)) ?cs"
      by (intro calls_inv_finish [OF inv k w]) (auto simp: rm(4,5) waiter_left(1) [OF adm inv k w])
    with True rm(2) rm(7) [OF m] show ?thesis by (simp add: cancel_cleanup_def)
  next
    case False
    note left = waiter_left(2) [OF adm inv k w False]
    show ?thesis
    proof (cases "\<exists>l. adm_futures s ! w = Result l")
      case True
      then obtain l where l: "adm_futures s ! w = Result l" ..
      note rl = release_locked_ok [OF adm res [OF l]]
      have "calls_inv late (released_state l s) ?cs"
        using l res [OF l] left by (intro calls_inv_finish [OF inv k w]) (auto simp: rl(4,5,6) nth_list_update)
      with False l rl(2) rl(7) [OF m] show ?thesis by (simp add: cancel_cleanup_def)
    next
      case no: False
      have "calls_inv late s ?cs" using no left by (intro calls_inv_finish [OF inv k w]) auto
      with False no adm m show ?thesis by (auto simp: cancel_cleanup_def split: future.splits)
    qed
  qed
  then have "ctl_ok s2" "calls_inv late s2 ?cs"
    using s2(2,3) extD(11) [OF s2(4)] calls_inv_ext [OF s2(4)] by (simp_all add: ctl_ok_def adm_inv_def)
  then show ?thesis using that s2(1) by blast
qed

end
