(* ===== verification/Gw_Admission_Props.thy ===== *)
theory Gw_Admission_Props
  imports Gw_Admission_Sys
begin

text \<open>
  The properties of the admission controller under any interleaving of calls, timers,
  cancellations, releases and shutdown: the invariant of the system of calls interprets the
  generic \<open>inv_system\<close>, the leases interpret the generic \<open>lease_ledger\<close>.
\<close>

lemma sys_inv_start: "adm_start y \<Longrightarrow> sys_inv late y"
proof -
  assume "adm_start y"
  then obtain configured gmi gmq timeout obs clk where y: "calls y = []"
    "AdmissionController configured gmi gmq timeout obs clk = Inr (ctl y)"
    "\<forall>t\<in>set configured. 0 < max_inflight t \<and> 0 \<le> max_queue t"
    unfolding adm_start_def by blast
  note a = AdmissionController_ok [OF y(2,3)]
  have "calls_inv late (ctl y) []" by (rule calls_invI) (simp_all add: a(5,6))
  with a(1-3) y(1) show ?thesis by (simp add: sys_inv_def ctl_ok_def)
qed

lemma sys_inv_finish_call:
  assumes "ctl_ok s" and "calls_inv late s ((calls y)[k := (calls y ! k)\<lparr>call_pc := Done r\<rparr>])"
  shows "sys_inv late (finish_call k (r, s) y)"
  using assms by (simp add: sys_inv_def finish_call_def Let_def observe_acquire_ok)

lemma sys_inv_step: "sys_inv late y \<Longrightarrow> adm_step late y z \<Longrightarrow> sys_inv late z"
proof -
  assume "sys_inv late y"
  then have ok: "ctl_ok (ctl y)" and inv: "calls_inv late (ctl y) (calls y)" by (simp_all add: sys_inv_def)
  then have adm: "adm_inv (ctl y)" and core: "adm_core (ctl y)" by (simp_all add: ctl_ok_def adm_inv_def)
  have wake: "sys_inv late (set_pc k pc (y\<lparr>ctl := future_cancel w (ctl y)\<rparr>))"
    if "calls_inv late (future_cancel w (ctl y)) ((calls y)[k := (calls y ! k)\<lparr>call_pc := pc\<rparr>])" for k pc w
    using that ok future_cancel_ok [OF adm, of w] by (simp add: sys_inv_def set_pc_def ctl_ok_def)
  assume "adm_step late y z"
  then show ?thesis
  proof cases
    case (enter t c s)
    then show ?thesis using enter_acquire_ok [OF ok inv enter(2)] by (simp add: sys_inv_def)
  next
    case (resume_granted k w l)
    then show ?thesis using calls_inv_resume [OF inv adm resume_granted(2,3)] ok
      by (simp add: sys_inv_finish_call)
  next
    case (resume_failed k w e)
    then show ?thesis using calls_inv_resume [OF inv adm resume_failed(2,3)] ok
      by (simp add: sys_inv_finish_call)
  next
    case (expire k w)
    then show ?thesis by (auto intro!: wake calls_inv_wake [OF inv adm] simp: wait_of_def)
  next
    case (cancel k w)
    then show ?thesis by (auto intro!: wake calls_inv_wake [OF inv adm] simp: wait_of_def)
  next
    case (timed_out k w)
    then show ?thesis using timeout_ok [OF ok inv timed_out(2,3)] sys_inv_finish_call by metis
  next
    case (cancelled k w)
    then show ?thesis using cancelled_ok [OF ok inv cancelled(2,3)] sys_inv_finish_call by metis
  next
    case (release k l)
    have l: "l < length (adm_leases (ctl y))"
      using calls_invD(1) [OF inv release(2)] release(3) by (simp add: call_ok_def)
    note rl = release_locked_ok [OF adm l]
    obtain s2 where s2: "adm_release l (ctl y) = (Inr (), s2)" "adm_inv s2" "settled s2"
      "ext (released_state l (ctl y)) s2"
      using adm_release_ok [OF adm l] by blast
    have "calls_inv late (released_state l (ctl y)) (calls y)"
      by (rule calls_inv_release [OF inv release(2,3) rl(4,5,6)])
    then have "calls_inv late s2 (calls y)" using calls_inv_ext [OF s2(4)] rl(2) by (simp add: adm_inv_def)
    moreover have "mirrored s2" using extD(11) [OF s2(4)] rl(7) ok by (simp add: ctl_ok_def)
    ultimately show ?thesis using release(1) s2 by (simp add: sys_inv_def ctl_ok_def)
  next
    case shutdown
    note sd = adm_shutdown_ok [OF adm]
    have "settled (snd (adm_shutdown (ctl y)))" using sd(3) by (simp add: settled_def)
    with shutdown sd(2,8) calls_inv_shutdown [OF inv adm] ok show ?thesis by (simp add: sys_inv_def ctl_ok_def)
  next
    case (observe b)
    note so = set_observer_ok [OF adm, of b]
    have "calls_inv late (set_observer b (ctl y)) (calls y)" using calls_inv_cong [OF so(3-5)] inv by simp
    with observe so ok show ?thesis by (simp add: sys_inv_def ctl_ok_def)
  qed
qed

interpretation adm: inv_system adm_start "adm_step late" "sys_inv late" for late
  by unfold_locales (auto intro: sys_inv_start sys_inv_step)

abbreviation adm_reachable :: "bool \<Rightarrow> adm_sys \<Rightarrow> bool" where
  "adm_reachable late y \<equiv> \<exists>y0. adm_start y0 \<and> (adm_step late)\<^sup>*\<^sup>* y0 y"

lemma reachable_sys_inv: "adm_reachable late y \<Longrightarrow> sys_inv late y"
  using adm.reachable_inv by blast

section \<open>The lease ledger\<close>

definition live_leases :: "admission \<Rightarrow> nat set" where
  "live_leases s = {l. l < length (adm_leases s) \<and> \<not> released (adm_leases s ! l)}"

definition release_once :: "nat \<Rightarrow> admission \<Rightarrow> admission" where
  "release_once l s = (if l < length (adm_leases s) then snd (release_locked l s) else s)"

interpretation adm_ledger: lease_ledger adm_inv live_leases "\<lambda>_ _. 1" global_inflight release_once
proof unfold_locales
  fix s l
  assume inv: "adm_inv s"
  show "finite (live_leases s)" by (simp add: live_leases_def)
  show "adm_inv (release_once l s)" "live_leases (release_once l s) = live_leases s - {l}"
    "global_inflight (release_once l s) = global_inflight s - (if l \<in> live_leases s then 1 else 0)"
  proof -
    have "adm_inv (release_once l s) \<and> live_leases (release_once l s) = live_leases s - {l} \<and>
      global_inflight (release_once l s) = global_inflight s - (if l \<in> live_leases s then 1 else 0)"
    proof (cases "l < length (adm_leases s)")
      case True
      note r = release_locked_ok [OF inv True]
      have "release_once l s = released_state l s" using True by (simp add: release_once_def released_state_def)
      then show ?thesis using r(2,6,8) True by (auto simp: live_leases_def nth_list_update)
    next
      case False
      then show ?thesis using inv by (auto simp: release_once_def live_leases_def)
    qed
    then show "adm_inv (release_once l s)" "live_leases (release_once l s) = live_leases s - {l}"
      "global_inflight (release_once l s) = global_inflight s - (if l \<in> live_leases s then 1 else 0)" by blast+
  qed
qed simp

section \<open>Fairness and order\<close>

text \<open>
  How far an eligible tenant is from being served: either its oldest pending waiter has got a
  new lease, or it is still first in its queue and the tenant has moved forward in the rotation
  by at least one place per slot granted.
\<close>

definition fair :: "admission \<Rightarrow> admission \<Rightarrow> bool" where
  "fair s t \<longleftrightarrow> (\<forall>p<length (active_tenants s). eligible s (active_tenants s ! p) \<longrightarrow>
     (\<exists>l. adm_futures t ! next_waiter s (active_tenants s ! p) = Result l \<and> length (adm_leases s) \<le> l) \<or>
     eligible t (active_tenants s ! p) \<and>
     next_waiter t (active_tenants s ! p) = next_waiter s (active_tenants s ! p) \<and>
     (\<exists>p'<length (active_tenants t). active_tenants t ! p' = active_tenants s ! p \<and>
        p' + (length (adm_leases t) - length (adm_leases s)) \<le> p))"

lemma eligible_waiter:
  assumes "adm_core s" and "eligible s i"
  shows "next_waiter s i < length (adm_futures s)" and "adm_futures s ! next_waiter s i = Pending"
proof -
  obtain st where st: "map_of (tenants s) i = Some st"
    and ne: "dropWhile (\<lambda>w. future_done (adm_futures s ! w)) (queue st) \<noteq> []"
    using assms(2) by (auto simp: eligible_def view_def split: option.splits)
  have hd: "next_waiter s i = hd (dropWhile (\<lambda>w. future_done (adm_futures s ! w)) (queue st))"
    using st by (simp add: next_waiter_def view_def)
  then have "next_waiter s i \<in> set (queue st)" using ne by (metis hd_in_set set_dropWhileD)
  then show "next_waiter s i < length (adm_futures s)" using adm_core_waiter(1) [OF assms(1) st] by blast
  show "adm_futures s ! next_waiter s i = Pending"
    using hd_dropWhile [OF ne] hd by (simp add: future_done_def)
qed

definition fair_ext :: "admission \<Rightarrow> admission \<Rightarrow> bool" where
  "fair_ext s t \<longleftrightarrow> ext s t \<and> (adm_core s \<longrightarrow> fair s t \<and> adm_core t)"

lemma fair_trans:
  assumes st: "ext s t" "fair s t" and tu: "ext t u" "fair t u" and core: "adm_core s"
  shows "fair s u"
  unfolding fair_def
proof (intro allI impI)
  fix p
  assume p: "p < length (active_tenants s)" and el: "eligible s (active_tenants s ! p)"
  let ?j = "active_tenants s ! p"
  note ew = eligible_waiter [OF core el]
  from st(2) p el consider (served) l where "adm_futures t ! next_waiter s ?j = Result l" "length (adm_leases s) \<le> l"
    | (kept) p' where "eligible t ?j" "next_waiter t ?j = next_waiter s ?j" "p' < length (active_tenants t)"
        "active_tenants t ! p' = ?j" "p' + (length (adm_leases t) - length (adm_leases s)) \<le> p"
    unfolding fair_def by blast
  then show "(\<exists>l. adm_futures u ! next_waiter s ?j = Result l \<and> length (adm_leases s) \<le> l) \<or>
     eligible u ?j \<and> next_waiter u ?j = next_waiter s ?j \<and>
     (\<exists>p'<length (active_tenants u). active_tenants u ! p' = ?j \<and>
        p' + (length (adm_leases u) - length (adm_leases s)) \<le> p)"
  proof cases
    case served
    then show ?thesis using extD(6) [OF tu(1), of "next_waiter s ?j"] ew extD(2) [OF st(1)] by simp
  next
    case kept
    have le: "length (adm_leases s) \<le> length (adm_leases t)" "length (adm_leases t) \<le> length (adm_leases u)"
      by (rule extD(3) [OF st(1)], rule extD(3) [OF tu(1)])
    from tu(2) kept(1,3,4) consider (served) l where "adm_futures u ! next_waiter t ?j = Result l" "length (adm_leases t) \<le> l"
      | (kept2) q where "eligible u ?j" "next_waiter u ?j = next_waiter t ?j" "q < length (active_tenants u)"
          "active_tenants u ! q = ?j" "q + (length (adm_leases u) - length (adm_leases t)) \<le> p'"
      unfolding fair_def by metis
    then show ?thesis
    proof cases
      case served
      then show ?thesis using kept(2) le by auto
    next
      case kept2
      then show ?thesis using kept(2,5) le by (intro disjI2 conjI exI [of _ q]) auto
    qed
  qed
qed

lemma fair_skip:
  assumes "skip_pass s n t"
  shows "fair s t"
  unfolding fair_def
proof (intro allI impI disjI2 conjI)
  fix p
  assume p: "p < length (active_tenants s)" and el: "eligible s (active_tenants s ! p)"
  obtain kept where t: "skips s t" "\<forall>i\<in>set (take n (active_tenants s)). \<not> eligible s i"
    "active_tenants t = drop n (active_tenants s) @ kept"
    using assms by (auto simp: skip_pass_def)
  have "n \<le> p"
  proof (rule ccontr)
    assume "\<not> n \<le> p"
    then have "active_tenants s ! p \<in> set (take n (active_tenants s))" using p by (auto simp: in_set_conv_nth)
    with t(2) el show False by blast
  qed
  with p t(1,3) show "\<exists>p'<length (active_tenants t). active_tenants t ! p' = active_tenants s ! p \<and>
      p' + (length (adm_leases t) - length (adm_leases s)) \<le> p"
    by (intro exI [of _ "p - n"]) (auto simp: nth_append skips_def)
  show "eligible t (active_tenants s ! p)" using el skips_eligible [OF t(1)] by simp
  show "next_waiter t (active_tenants s ! p) = next_waiter s (active_tenants s ! p)"
    using skips_next_waiter [OF t(1)] by simp
qed

lemma fair_grant:
  assumes core: "adm_core s" and act: "active_ok {} s" and room: "global_inflight s < global_max_inflight s"
    and gp: "grant_pass s n t"
  shows "fair s t"
proof -
  obtain k where k: "k < length (active_tenants s)" "\<forall>i\<in>set (take k (active_tenants s)). \<not> eligible s i" "grants s k t"
    using gp by (auto simp: grant_pass_def)
  note g = grants_effect [OF k(3) room core]
  obtain kept where t: "active_tenants t = drop (Suc k) (active_tenants s) @ kept" using g(7) by blast
  have len: "length (adm_leases t) = Suc (length (adm_leases s))" using g(5) by auto
  show ?thesis
    unfolding fair_def
  proof (intro allI impI)
    fix p
    assume p: "p < length (active_tenants s)" and el: "eligible s (active_tenants s ! p)"
    have "k \<le> p"
    proof (rule ccontr)
      assume "\<not> k \<le> p"
      then have "active_tenants s ! p \<in> set (take k (active_tenants s))" using p by (auto simp: in_set_conv_nth)
      with k(2) el show False by blast
    qed
    show "(\<exists>l. adm_futures t ! next_waiter s (active_tenants s ! p) = Result l \<and> length (adm_leases s) \<le> l) \<or>
     eligible t (active_tenants s ! p) \<and> next_waiter t (active_tenants s ! p) = next_waiter s (active_tenants s ! p) \<and>
     (\<exists>p'<length (active_tenants t). active_tenants t ! p' = active_tenants s ! p \<and>
        p' + (length (adm_leases t) - length (adm_leases s)) \<le> p)"
    proof (cases "p = k")
      case True
      then show ?thesis using g(3,4) by simp
    next
      case False
      with \<open>k \<le> p\<close> have kp: "Suc k \<le> p" by simp
      have "active_tenants s ! p \<noteq> active_tenants s ! k"
        using False p k(1) act by (simp add: active_ok_def nth_eq_iff_index_eq)
      then have v: "view t (active_tenants s ! p) = view s (active_tenants s ! p)" by (rule g(10))
      then have "eligible t (active_tenants s ! p)" "next_waiter t (active_tenants s ! p) = next_waiter s (active_tenants s ! p)"
        using el by (simp_all add: eligible_def next_waiter_def)
      moreover have "\<exists>p'<length (active_tenants t). active_tenants t ! p' = active_tenants s ! p \<and>
          p' + (length (adm_leases t) - length (adm_leases s)) \<le> p"
        using kp p t len by (intro exI [of _ "p - Suc k"]) (auto simp: nth_append)
      ultimately show ?thesis by blast
    qed
  qed
qed

lemma dispatch_locked_fair:
  assumes inv: "adm_inv s" and d: "dispatch_locked s = (Inr (), s')"
  shows "fair s s'"
proof (cases "adm_closed s")
  case True
  with d have "s' = s" by (simp add: dispatch_locked_def)
  then show ?thesis unfolding fair_def by auto
next
  case False
  have core: "adm_core s" "active_ok {} s" using inv by (simp_all add: adm_inv_def)
  have "\<exists>s'. dispatch_while s = (Inr (), s') \<and> adm_core s' \<and> active_ok {} s' \<and> fair_ext s s' \<and>
    (global_inflight s' = global_max_inflight s' \<or> (\<forall>i\<in>set (active_tenants s'). at_limit s' i))"
  proof (rule dispatch_while_rel [OF core])
    show "fair_ext s s" for s using ext_refl by (auto simp: fair_ext_def fair_def)
    show "fair_ext s u" if "fair_ext s t" "fair_ext t u" for s t u
      using that ext_trans fair_trans unfolding fair_ext_def by blast
    show "fair_ext s t" if "adm_core s" "active_ok {} s" "skip_pass s n t" for s n t
    proof -
      have "adm_core t" using that(3) by (simp add: skip_pass_def)
      then show ?thesis using ext_skip [OF that(3)] fair_skip [OF that(3)] by (simp add: fair_ext_def)
    qed
    show "fair_ext s t" if "adm_core s" "active_ok {} s" "global_inflight s < global_max_inflight s" "grant_pass s n t" for s n t
      using that ext_grant fair_grant grants_keeps unfolding fair_ext_def grant_pass_def by blast
  qed
  with d False core(1) show ?thesis by (auto simp: dispatch_locked_def fair_ext_def)
qed

lemma dispatch_fifo:
  assumes inv: "adm_inv s" and d: "dispatch_locked s = (Inr (), s')"
    and q: "queue_of s i = xs @ v # ys" and w: "w \<in> set ys"
    and res: "adm_futures s' ! w = Result l" and pend: "adm_futures s ! v = Pending"
  shows "\<exists>l'. adm_futures s' ! v = Result l'"
proof -
  have core: "adm_core s" using inv by (simp add: adm_inv_def)
  obtain t where t: "dispatch_locked s = (Inr (), t)" "adm_inv t" "ext s t" using dispatch_locked_ok [OF inv] by blast
  then have e: "ext s s'" and inv': "adm_core s'" using d by (simp_all add: adm_inv_def)
  have vr: "v < length (adm_futures s)" using queued_waiter(1) [OF core, of v i] q by simp
  have dist: "distinct (queue_of s i)"
    using adm_core_tenant(6) [OF core, of i] by (cases "map_of (tenants s) i") (simp_all add: queue_of_def)
  obtain pre where pre: "queue_of s i = pre @ queue_of s' i"
    "\<forall>x\<in>set pre. x < length (adm_futures s) \<longrightarrow> adm_futures s' ! x \<noteq> Pending"
    using extD(10) [OF e] by blast
  have "w \<notin> set (queue_of s' i)" using queued_waiter(2) [OF inv', of w i] res by auto
  have "v \<in> set pre"
  proof (rule ccontr)
    assume nv: "v \<notin> set pre"
    then have "\<exists>us. queue_of s' i = us @ v # ys"
      using q pre(1) nv by (auto simp: append_eq_append_conv2 append_eq_Cons_conv)
    with w \<open>w \<notin> set (queue_of s' i)\<close> show False by auto
  qed
  with pre(2) vr have "adm_futures s' ! v \<noteq> Pending" by blast
  then show ?thesis using extD(7) [OF e vr pend] by blast
qed

section \<open>Leases without a holder\<close>

text \<open>A lease that no call holds, neither as its result nor in its future, can never be released.\<close>

definition orphan :: "admission \<Rightarrow> call list \<Rightarrow> nat \<Rightarrow> bool" where
  "orphan s cs l \<longleftrightarrow> l < length (adm_leases s) \<and> \<not> released (adm_leases s ! l) \<and>
     (\<forall>k<length cs. \<not> holds s (cs ! k) l)"

lemma orphan_cong:
  assumes "orphan s cs l" and "l < length (adm_leases s')" and "adm_leases s' ! l = adm_leases s ! l"
    and "\<And>k. k < length cs' \<Longrightarrow> holds s' (cs' ! k) l \<Longrightarrow> \<exists>j<length cs. holds s (cs ! j) l"
  shows "orphan s' cs' l"
  using assms by (auto simp: orphan_def)

lemma orphan_ext:
  assumes e: "ext s s'" and w: "\<And>k w. k < length cs \<Longrightarrow> wait_of (cs ! k) = Some w \<Longrightarrow> w < length (adm_futures s)"
    and o: "orphan s cs l"
  shows "orphan s' cs l"
proof (rule orphan_cong [OF o])
  have l: "l < length (adm_leases s)" using o by (simp add: orphan_def)
  then show "l < length (adm_leases s')" "adm_leases s' ! l = adm_leases s ! l" using extD(3,4) [OF e] by auto
  fix k
  assume k: "k < length cs" and h: "holds s' (cs ! k) l"
  have "adm_futures s ! x = Result l" if "wait_of (cs ! k) = Some x" "adm_futures s' ! x = Result l" for x
  proof (rule ccontr)
    assume n: "adm_futures s ! x \<noteq> Result l"
    have x: "x < length (adm_futures s)" by (rule w [OF k that(1)])
    then show False using extD(6,7) [OF e x] n that(2) l by (cases "adm_futures s ! x = Pending") auto
  qed
  with h k show "\<exists>j<length cs. holds s (cs ! j) l" by (auto simp: holds_def)
qed

lemma orphan_enter:
  assumes ok: "ctl_ok s" and inv: "calls_inv late s cs" and eq: "enter_acquire t s = (c, s')" and o: "orphan s cs l"
  shows "orphan s' (cs @ [c]) l"
proof -
  obtain now s0 where s0: "read_clock s = (now, s0)" by (cases "read_clock s")
  have ok0: "ctl_ok s0" and inv0: "calls_inv late s0 cs"
    using read_clock_ok [where s = s] ok inv s0 by simp_all
  have wr: "w < length (adm_futures s0)" if "k < length cs" "wait_of (cs ! k) = Some w" for k w
    using call_ok_wait [OF calls_invD(1) [OF inv0]] that by blast
  have o0: "orphan s0 cs l" using o s0 by (auto simp: orphan_def read_clock_def holds_def)
  from ok0 have adm0: "adm_inv s0" "settled s0" and core0: "adm_core s0" by (simp_all add: ctl_ok_def adm_inv_def)
  have grow: "orphan u (cs @ [d]) l"
    if "orphan u cs l" "\<not> holds u d l" for u d
    using that by (auto simp: orphan_def nth_append less_Suc_eq)
  have obs: "orphan (observe_acquire b r u) ds l = orphan u ds l" for b r u ds
    by (simp add: orphan_def holds_def observe_acquire_ok)
  from adm0 show ?thesis
  proof (cases rule: acquire_locked_cases [where s = s0 and t = t])
    case (refused e s1)
    have "c = \<lparr>call_tenant = t, call_started = now, call_pc = Done (Inl e)\<rparr>" "s' = observe_acquire now (Inl e) s1"
      using eq s0 refused(1) by (simp_all add: enter_acquire_def)
    then show ?thesis using grow [OF orphan_ext [OF refused(5) wr o0]]
      by (simp add: obs holds_def wait_of_def)
  next
    case (granted s1 st)
    note g = granted_fields [OF granted(4,6), of False]
    have o1: "orphan s1 cs l" by (rule orphan_ext [OF granted(1) wr o0])
    then have "orphan (granted_state (tenant_id t) False s1) cs l"
      by (auto simp: orphan_def holds_def g(6,11) nth_append)
    moreover have "l \<noteq> length (adm_leases s1)" using o1 by (simp add: orphan_def)
    moreover have "c = \<lparr>call_tenant = t, call_started = now, call_pc = Done (Inr (length (adm_leases s1)))\<rparr>"
      "s' = observe_acquire now (Inr (length (adm_leases s1))) (granted_state (tenant_id t) False s1)"
      using eq s0 granted(7) by (simp_all add: enter_acquire_def)
    ultimately show ?thesis by (simp add: obs grow holds_def wait_of_def)
  next
    case (queued s1 st s2)
    note e = enqueue_waiter_ok [OF queued(2-6)]
    let ?e = "enqueue_waiter (tenant_id t) s1"
    let ?c = "\<lparr>call_tenant = t, call_started = now, call_pc = Waiting (length (adm_futures s1))\<rparr>"
    have inv1: "calls_inv late s1 cs" by (rule calls_inv_ext [OF queued(1) core0 inv0])
    have o1: "orphan s1 cs l" by (rule orphan_ext [OF queued(1) wr o0])
    have "orphan ?e cs l"
      using o1 call_ok_wait [OF calls_invD(1) [OF inv1]] by (fastforce simp: orphan_def holds_def e(2,3) nth_append)
    then have oe: "orphan ?e (cs @ [?c]) l" by (rule grow) (simp add: holds_def wait_of_def e(2))
    have "calls_inv late ?e (cs @ [?c])"
      by (intro calls_inv_enter [OF inv1])
        (auto simp: call_ok_def wait_of_def holds_def wait_ok_def e(2,3,4) nth_append split: if_splits)
    then have "orphan s2 (cs @ [?c]) l"
      using orphan_ext [OF queued(7) _ oe] call_ok_wait [OF calls_invD(1)] by blast
    then show ?thesis using eq s0 queued(10) by (simp add: enter_acquire_def)
  qed
qed

lemma orphan_finish:
  assumes "orphan s cs l" and "r \<noteq> Inr l"
  shows "orphan s (cs[k := (cs ! k)\<lparr>call_pc := Done r\<rparr>]) l"
proof (rule orphan_cong [OF assms(1)])
  fix a
  assume a: "a < length (cs[k := (cs ! k)\<lparr>call_pc := Done r\<rparr>])" "holds s (cs[k := (cs ! k)\<lparr>call_pc := Done r\<rparr>] ! a) l"
  have "a \<noteq> k" using a assms(2) by (auto simp: holds_def wait_of_def)
  with a show "\<exists>j<length cs. holds s (cs ! j) l" by auto
qed (use assms(1) in \<open>simp_all add: orphan_def\<close>)

lemma orphan_wake:
  assumes "orphan s cs l" and k: "k < length cs" "wait_of (cs ! k) = Some w" "w < length (adm_futures s)"
    and pc: "pc = Expiring w \<or> pc = Cancelling w"
  shows "orphan (future_cancel w s) (cs[k := (cs ! k)\<lparr>call_pc := pc\<rparr>]) l"
proof (rule orphan_cong [OF assms(1)])
  fix a
  assume a: "a < length (cs[k := (cs ! k)\<lparr>call_pc := pc\<rparr>])"
    "holds (future_cancel w s) (cs[k := (cs ! k)\<lparr>call_pc := pc\<rparr>] ! a) l"
  have "adm_futures (future_cancel w s) ! x = Result l \<Longrightarrow> adm_futures s ! x = Result l" for x
    using k(3) by (simp add: future_cancel_nth split: if_splits)
  with a k pc show "\<exists>j<length cs. holds s (cs ! j) l"
    by (cases "a = k") (auto simp: holds_def wait_of_def)
qed (use assms(1) in \<open>simp_all add: orphan_def future_cancel_def\<close>)

lemma orphan_step:
  assumes inv: "sys_inv late y" and step: "adm_step late y z" and o: "orphan (ctl y) (calls y) l"
  shows "orphan (ctl z) (calls z) l"
proof -
  let ?s = "ctl y" and ?cs = "calls y"
  have ok: "ctl_ok ?s" and ci: "calls_inv late ?s ?cs" using inv by (simp_all add: sys_inv_def)
  have adm: "adm_inv ?s" using ok by (simp add: ctl_ok_def)
  have nh: "\<not> holds ?s (?cs ! k) l" if "k < length ?cs" for k using o that by (simp add: orphan_def)
  have wr: "w < length (adm_futures ?s)" if "k < length ?cs" "wait_of (?cs ! k) = Some w" for k w
    using call_ok_wait [OF calls_invD(1) [OF ci]] that by blast
  have obs: "orphan (observe_acquire b r u) ds x = orphan u ds x" for b r u ds x
    by (simp add: orphan_def holds_def observe_acquire_ok)
  have via: "orphan s2 ?cs l" if e: "ext s1 s2" and f: "adm_futures s1 = adm_futures ?s"
    and len: "length (adm_leases s1) = length (adm_leases ?s)" and same: "adm_leases s1 ! l = adm_leases ?s ! l" for s1 s2
  proof -
    have "orphan s1 ?cs l" using o f len same by (simp add: orphan_def holds_def)
    then show ?thesis using wr f by (intro orphan_ext [OF e]) auto
  qed
  from step show ?thesis
  proof cases
    case (enter t c s)
    then show ?thesis using orphan_enter [OF ok ci enter(2) o] by simp
  next
    case (resume_granted k w x)
    then have "x \<noteq> l" using nh [of k] by (auto simp: holds_def wait_of_def)
    then show ?thesis using resume_granted(1) orphan_finish [OF o] by (simp add: finish_call_def Let_def obs)
  next
    case (resume_failed k w e)
    then show ?thesis using orphan_finish [OF o] by (simp add: finish_call_def Let_def obs)
  next
    case (expire k w)
    have "wait_of (?cs ! k) = Some w" using expire by (simp add: wait_of_def)
    then show ?thesis using expire orphan_wake [OF o expire(2)] wr [OF expire(2)] by (simp add: set_pc_def)
  next
    case (cancel k w)
    have "wait_of (?cs ! k) = Some w" using cancel by (auto simp: wait_of_def)
    then show ?thesis using cancel orphan_wake [OF o cancel(2)] wr [OF cancel(2)] by (simp add: set_pc_def)
  next
    case (timed_out k w)
    note rm = remove_waiter_locked_ok [OF adm, where i = "caller y k" and w = w]
    obtain s2 where s2: "acquire_timeout_locked (caller y k) w ?s = (Inl (raised AdmissionTimeoutError), s2)"
      "ext (snd (remove_waiter_locked (caller y k) w ?s)) s2"
      using acquire_timeout_ok [OF adm] by blast
    have "orphan s2 ?cs l" using via [OF s2(2)] rm(4,5) by simp
    then show ?thesis using timed_out(1) s2(1) orphan_finish by (simp add: finish_call_def Let_def obs)
  next
    case (cancelled k w)
    have w: "wait_of (?cs ! k) = Some w" using cancelled(3) by (simp add: wait_of_def)
    have res: "x < length (adm_leases ?s)" "x \<noteq> l" if "adm_futures ?s ! w = Result x" for x
      using call_ok_held(1) [OF calls_invD(1) [OF ci cancelled(2)]] nh [OF cancelled(2)] w that
      by (auto simp: holds_def)
    have exc: "e = raised AdmissionUnavailableError" if "adm_futures ?s ! w = Failed e" for e
      using calls_invD(1) [OF ci cancelled(2)] cancelled(3) that by (auto simp: call_ok_def wait_ok_def Let_def)
    obtain s2 where s2: "acquire_cancelled_locked (caller y k) w ?s = (Inl CancelledError, s2)"
      "ext (cancel_cleanup (caller y k) w ?s) s2"
      using acquire_cancelled_ok [OF adm res(1) exc] by blast
    have "adm_futures (cancel_cleanup (caller y k) w ?s) = adm_futures ?s \<and>
      length (adm_leases (cancel_cleanup (caller y k) w ?s)) = length (adm_leases ?s) \<and>
      adm_leases (cancel_cleanup (caller y k) w ?s) ! l = adm_leases ?s ! l"
    proof (cases "w \<in> set (queue_of ?s (caller y k))")
      case True
      then show ?thesis
        using remove_waiter_locked_ok(4,5) [OF adm, where i = "caller y k" and w = w] by (simp add: cancel_cleanup_def)
    next
      case False
      then show ?thesis using release_locked_ok(4,6) [OF adm res(1)] res(2)
        by (auto simp: cancel_cleanup_def split: future.splits)
    qed
    then have "orphan s2 ?cs l" using via [OF s2(2)] by simp
    then show ?thesis using cancelled(1) s2(1) orphan_finish by (simp add: finish_call_def Let_def obs)
  next
    case (release k x)
    then have x: "x < length (adm_leases ?s)" "x \<noteq> l"
      using calls_invD(1) [OF ci release(2)] nh [OF release(2)] by (auto simp: call_ok_def holds_def)
    obtain s2 where s2: "adm_release x ?s = (Inr (), s2)" "ext (released_state x ?s) s2"
      using adm_release_ok [OF adm x(1)] by blast
    have "orphan s2 ?cs l" using via [OF s2(2)] release_locked_ok(4,6) [OF adm x(1)] x(2) by simp
    then show ?thesis using release(1) s2(1) by simp
  next
    case shutdown
    note sd = adm_shutdown_ok [OF adm]
    have "orphan (snd (adm_shutdown ?s)) ?cs l"
      by (rule orphan_cong [OF o]) (use o wr in \<open>auto simp: sd(4,7) orphan_def holds_def split: if_splits\<close>)
    then show ?thesis using shutdown by simp
  next
    case (observe b)
    then show ?thesis using o set_observer_ok(4,5) [OF adm, of b] by (simp add: orphan_def holds_def)
  qed
qed

lemma orphan_forever:
  assumes "(adm_step late)\<^sup>*\<^sup>* y z" and "sys_inv late y" and "orphan (ctl y) (calls y) l"
  shows "orphan (ctl z) (calls z) l"
  using assms(1)
proof (induction rule: rtranclp_induct)
  case base
  show ?case by (rule assms(3))
next
  case (step z1 z2)
  then show ?case using orphan_step adm.steps_inv [OF step(1) assms(2)] by blast
qed

section \<open>Quiescence\<close>

lemma quiet_idle:
  assumes sys: "sys_inv False y"
    and quiet: "\<forall>k<length (calls y). \<exists>r. call_pc (calls y ! k) = Done r \<and>
            (\<forall>l. r = Inr l \<longrightarrow> released (adm_leases (ctl y) ! l))"
  shows "global_inflight (ctl y) = 0 \<and> global_queued (ctl y) = 0"
proof -
  have inv: "calls_inv False (ctl y) (calls y)" and core: "adm_core (ctl y)"
    using sys by (simp_all add: sys_inv_def ctl_ok_def adm_inv_def)
  have nw: "wait_of (calls y ! k) = None" if "k < length (calls y)" for k
    using quiet that by (fastforce simp: wait_of_def)
  have "released (adm_leases (ctl y) ! l)" if "l < length (adm_leases (ctl y))" for l
    using calls_invD(5) [OF inv _ that] quiet nw by (fastforce simp: holds_def)
  then have "released l" if "l \<in> set (adm_leases (ctl y))" for l
    using that by (metis in_set_conv_nth)
  then have "live_count i (adm_leases (ctl y)) = 0" for i
    unfolding live_count_def by (subst sum_list_cong_set [of _ _ "\<lambda>_. 0"]) simp_all
  moreover have "queue_of (ctl y) i = []" for i
    using calls_invD(3) [OF inv, of _ i] nw by (metis last_in_set option.distinct(1))
  ultimately have idle: "inflight st = 0 \<and> queue st = []" if "map_of (tenants (ctl y)) i = Some st" for i st
    using adm_core_tenant(5) [OF core that] queue_of_Some [OF that] by simp
  have "inflight (snd p) = 0 \<and> queue (snd p) = []" if "p \<in> set (tenants (ctl y))" for p
    by (rule idle [OF adm_core_entry [OF core that]])
  then have "(\<Sum>p\<leftarrow>tenants (ctl y). inflight (snd p)) = 0" "(\<Sum>p\<leftarrow>tenants (ctl y). int (length (queue (snd p)))) = 0"
    by (subst sum_list_cong_set [of _ _ "\<lambda>_. 0"]; simp)+
  with core show ?thesis by (simp add: adm_core_def sums_ok_def)
qed

end
