(* ===== verification/Gw_Admission_Claims.thy ===== *)
theory Gw_Admission_Claims
  imports Gw_Admission_Props
begin

text \<open>
  What the admission controller guarantees, with a run of it as the witness: tenants
  \<open>a\<close> and \<open>b\<close> share one global slot; \<open>a\<close> is admitted, \<open>b\<close> queues, \<open>a\<close> releases and \<open>b\<close>'s
  future receives the slot.
\<close>

section \<open>A run\<close>

definition example_a :: tenant_context where
  "example_a = \<lparr>tenant_id = ''a'', max_inflight = 1, max_queue = 2\<rparr>"

definition example_b :: tenant_context where
  "example_b = \<lparr>tenant_id = ''b'', max_inflight = 1, max_queue = 2\<rparr>"

definition example_ctl :: admission where
  "example_ctl = (case AdmissionController [example_a, example_b] 1 4 1 True (\<lambda>_. 0) of
     Inr s \<Rightarrow> s | Inl _ \<Rightarrow> undefined)"

definition example0 :: adm_sys where
  "example0 = \<lparr>ctl = example_ctl, calls = []\<rparr>"

definition example_enter :: "tenant_context \<Rightarrow> adm_sys \<Rightarrow> adm_sys" where
  "example_enter t y = (let (c, s) = enter_acquire t (ctl y) in y\<lparr>ctl := s, calls := calls y @ [c]\<rparr>)"

definition example2 :: adm_sys where
  "example2 = example_enter example_b (example_enter example_a example0)"

definition example3 :: adm_sys where
  "example3 = example2\<lparr>ctl := snd (adm_release 0 (ctl example2))\<rparr>"

definition example4 :: adm_sys where
  "example4 = set_pc 1 (Expiring 0) (example3\<lparr>ctl := future_cancel 0 (ctl example3)\<rparr>)"

definition example5 :: adm_sys where
  "example5 = finish_call 1 (acquire_timeout_locked ''b'' 0 (ctl example4)) example4"

lemma example0_start: "adm_start example0"
proof -
  have "AdmissionController [example_a, example_b] 1 4 1 True (\<lambda>_. 0) = Inr example_ctl"
    by (simp add: example_ctl_def AdmissionController_def example_a_def example_b_def Let_def)
  then show ?thesis
    unfolding adm_start_def example0_def
    by (intro conjI exI [of _ "[example_a, example_b]"] exI [of _ "1::int"] exI [of _ "4::int"] exI [of _ "1::real"]
        exI [of _ True] exI [of _ "\<lambda>_. 0"]) (simp_all add: example_a_def example_b_def)
qed

lemma example_enter_step: "adm_step late y (example_enter t y)"
  unfolding example_enter_def by (cases "enter_acquire t (ctl y)") (simp add: adm_step.enter)

lemma example2_calls: "map call_pc (calls example2) = [Done (Inr 0), Waiting 0]"
  by code_simp

lemma example2_reachable: "adm_reachable late example2"
proof -
  have "(adm_step late)\<^sup>*\<^sup>* example0 example2"
    unfolding example2_def by (meson example_enter_step rtranclp.rtrancl_into_rtrancl rtranclp.rtrancl_refl)
  then show ?thesis using example0_start by blast
qed

lemma example3_reachable: "adm_reachable late example3"
proof -
  have e2: "length (calls example2) = 2" "call_pc (calls example2 ! 0) = Done (Inr 0)"
    using example2_calls by (auto dest: arg_cong [of _ _ length] simp: map_eq_Cons_conv)
  have "adm_step late example2 example3"
    unfolding example3_def by (rule adm_step.release [of 0]) (simp_all add: e2)
  then show ?thesis using example2_reachable by (meson rtranclp.rtrancl_into_rtrancl)
qed

lemma example3_state:
  "map call_pc (calls example3) = [Done (Inr 0), Waiting 0]" "adm_futures (ctl example3) = [Result 1]"
  by code_simp+

lemma example5_reachable: "adm_reachable True example5"
proof -
  have e3: "length (calls example3) = 2" "call_pc (calls example3 ! Suc 0) = Waiting 0"
    using example3_state(1) by (auto dest: arg_cong [of _ _ length] simp: map_eq_Cons_conv)
  have e4: "length (calls example4) = 2" "call_pc (calls example4 ! Suc 0) = Expiring 0"
    using e3 by (simp_all add: example4_def set_pc_def)
  have tid: "caller example4 1 = ''b''" by code_simp
  have "adm_step True example3 example4"
    unfolding example4_def by (rule adm_step.expire) (simp_all add: e3)
  moreover have "adm_step True example4 example5"
    unfolding example5_def using adm_step.timed_out [of 1 example4 0 True] e4 tid by simp
  ultimately show ?thesis using example3_reachable by (meson rtranclp.rtrancl_into_rtrancl)
qed

text \<open>
  Three calls of one tenant that may have one request inflight, with room for two globally: one
  is admitted, two queue.
\<close>

definition example_wide :: admission where
  "example_wide = (case AdmissionController [example_a, example_b] 2 4 1 False (\<lambda>_. 0) of
     Inr s \<Rightarrow> s | Inl _ \<Rightarrow> undefined)"

definition example6 :: adm_sys where
  "example6 = example_enter example_a (example_enter example_a (example_enter example_a \<lparr>ctl = example_wide, calls = []\<rparr>))"

definition example7 :: admission where
  "example7 = released_state 0 (ctl example6)"

lemma example6_reachable: "adm_reachable late example6"
proof -
  have "AdmissionController [example_a, example_b] 2 4 1 False (\<lambda>_. 0) = Inr example_wide"
    by (simp add: example_wide_def AdmissionController_def example_a_def example_b_def Let_def)
  then have "adm_start \<lparr>ctl = example_wide, calls = []\<rparr>"
    unfolding adm_start_def
    by (intro conjI exI [of _ "[example_a, example_b]"] exI [of _ "2::int"] exI [of _ "4::int"] exI [of _ "1::real"]
        exI [of _ False] exI [of _ "\<lambda>_. 0"]) (simp_all add: example_a_def example_b_def)
  moreover have "(adm_step late)\<^sup>*\<^sup>* \<lparr>ctl = example_wide, calls = []\<rparr> example6"
    unfolding example6_def by (meson example_enter_step rtranclp.rtrancl_into_rtrancl rtranclp.rtrancl_refl)
  ultimately show ?thesis by blast
qed

lemma example6_inv: "adm_inv (ctl example6)"
  using reachable_sys_inv [OF example6_reachable] by (simp add: sys_inv_def ctl_ok_def)

lemma example7_inv: "adm_inv example7"
proof -
  have "0 < length (adm_leases (ctl example6))" by code_simp
  then show ?thesis unfolding example7_def by (rule release_locked_ok(2) [OF example6_inv])
qed

text \<open>The same with two slots for the tenant, both given back at once.\<close>

definition example_d :: tenant_context where
  "example_d = \<lparr>tenant_id = ''a'', max_inflight = 2, max_queue = 2\<rparr>"

definition example_pair :: admission where
  "example_pair = (case AdmissionController [example_d] 2 4 1 False (\<lambda>_. 0) of Inr s \<Rightarrow> s | Inl _ \<Rightarrow> undefined)"

definition example_busy :: adm_sys where
  "example_busy = example_enter example_d (example_enter example_d (example_enter example_d (example_enter example_d
     \<lparr>ctl = example_pair, calls = []\<rparr>)))"

definition example8 :: admission where
  "example8 = fold release_once [0, 1] (ctl example_busy)"

lemma example8_inv: "adm_inv example8"
proof -
  have "AdmissionController [example_d] 2 4 1 False (\<lambda>_. 0) = Inr example_pair"
    by (simp add: example_pair_def AdmissionController_def example_d_def Let_def)
  then have "adm_start \<lparr>ctl = example_pair, calls = []\<rparr>"
    unfolding adm_start_def
    by (intro conjI exI [of _ "[example_d]"] exI [of _ "2::int"] exI [of _ "4::int"] exI [of _ "1::real"]
        exI [of _ False] exI [of _ "\<lambda>_. 0"]) (simp_all add: example_d_def)
  moreover have "(adm_step True)\<^sup>*\<^sup>* \<lparr>ctl = example_pair, calls = []\<rparr> example_busy"
    unfolding example_busy_def by (meson example_enter_step rtranclp.rtrancl_into_rtrancl rtranclp.rtrancl_refl)
  ultimately have "sys_inv True example_busy" using reachable_sys_inv by blast
  then show ?thesis
    unfolding example8_def by (intro adm_ledger.fold_release_inv) (simp add: sys_inv_def ctl_ok_def)
qed

section \<open>Limits\<close>

text \<open>
  C7. Whatever calls, timers, cancellations, releases and shutdowns happen, in whatever order and
  under either contract of \<open>wait_for\<close>: every tenant's inflight count is between 0 and its
  \<open>max_inflight\<close> and its queue no longer than its \<open>max_queue\<close>; the global counters are the sums
  over the tenants and respect the global limits; each inflight count is the number of leases of
  that tenant not yet released.
\<close>

theorem admission_limits:
  assumes "adm_reachable late y"
  shows "global_inflight (ctl y) = (\<Sum>p\<leftarrow>tenants (ctl y). inflight (snd p)) \<and>
    global_inflight (ctl y) \<le> global_max_inflight (ctl y) \<and>
    global_queued (ctl y) = (\<Sum>p\<leftarrow>tenants (ctl y). int (length (queue (snd p)))) \<and>
    global_queued (ctl y) \<le> global_max_queue (ctl y) \<and>
    (\<forall>i st. map_of (tenants (ctl y)) i = Some st \<longrightarrow>
       0 \<le> inflight st \<and> inflight st \<le> max_inflight (tenant st) \<and>
       int (length (queue st)) \<le> max_queue (tenant st) \<and>
       inflight st = live_count i (adm_leases (ctl y)))"
proof -
  have "adm_core (ctl y)" using reachable_sys_inv [OF assms] by (simp add: sys_inv_def ctl_ok_def adm_inv_def)
  then show ?thesis by (simp add: adm_core_defs)
qed

theorem admission_limits_witness:
  "adm_reachable True example5 \<and> global_inflight (ctl example5) \<le> global_max_inflight (ctl example5) \<and>
   global_inflight (ctl example5) = 1"
proof -
  have "global_inflight (ctl example5) = 1" by code_simp
  then show ?thesis using admission_limits [OF example5_reachable] example5_reachable by simp
qed

text \<open>
  C8. No slot is lost when a completed future wins over the timer (the contract of \<open>wait_for\<close>
  before Python 3.12): every lease not yet released is held by a call, as its result or as the
  result of the future it waits for. So once all calls have ended and those that were admitted
  have released their lease, nothing is inflight and nothing is queued.
\<close>

theorem admission_no_leak:
  assumes "adm_reachable False y"
  shows "(\<forall>l<length (adm_leases (ctl y)). \<not> released (adm_leases (ctl y) ! l) \<longrightarrow>
      (\<exists>k<length (calls y). holds (ctl y) (calls y ! k) l)) \<and>
    ((\<forall>k<length (calls y). \<exists>r. call_pc (calls y ! k) = Done r \<and>
            (\<forall>l. r = Inr l \<longrightarrow> released (adm_leases (ctl y) ! l))) \<longrightarrow>
      global_inflight (ctl y) = 0 \<and> global_queued (ctl y) = 0)"
proof (rule conjI)
  have inv: "sys_inv False y" by (rule reachable_sys_inv [OF assms])
  show "\<forall>l<length (adm_leases (ctl y)). \<not> released (adm_leases (ctl y) ! l) \<longrightarrow>
      (\<exists>k<length (calls y). holds (ctl y) (calls y ! k) l)"
    using inv calls_invD(5) by (auto simp: sys_inv_def)
  show "(\<forall>k<length (calls y). \<exists>r. call_pc (calls y ! k) = Done r \<and>
            (\<forall>l. r = Inr l \<longrightarrow> released (adm_leases (ctl y) ! l))) \<longrightarrow>
      global_inflight (ctl y) = 0 \<and> global_queued (ctl y) = 0"
    using quiet_idle [OF inv] by blast
qed

theorem admission_no_leak_witness:
  "adm_reachable False example3 \<and> \<not> released (adm_leases (ctl example3) ! 1) \<and>
   (\<exists>k<length (calls example3). holds (ctl example3) (calls example3 ! k) 1)"
proof -
  have "length (adm_leases (ctl example3)) = 2" "\<not> released (adm_leases (ctl example3) ! 1)" by code_simp+
  then show ?thesis using admission_no_leak [OF example3_reachable] example3_reachable by simp
qed

text \<open>
  C9. Since Python 3.12 the timer may fire after the waiter's future has been granted a slot and
  before its task has resumed; \<open>wait_for\<close> then raises \<open>TimeoutError\<close> and the handler only removes
  the waiter from the queue it has already left. Every call has ended, every lease that was
  delivered has been released, yet the only slot stays occupied, whatever happens afterwards.
\<close>

theorem admission_slot_leaked:
  "\<exists>y. adm_reachable True y \<and>
     (\<forall>k<length (calls y). \<exists>r. call_pc (calls y ! k) = Done r \<and>
        (\<forall>l. r = Inr l \<longrightarrow> released (adm_leases (ctl y) ! l))) \<and>
     global_max_inflight (ctl y) = 1 \<and>
     (\<forall>z. (adm_step True)\<^sup>*\<^sup>* y z \<longrightarrow> (\<exists>l. orphan (ctl z) (calls z) l) \<and> 1 \<le> global_inflight (ctl z))"
proof (rule exI [of _ example5], intro conjI allI impI)
  show "adm_reachable True example5" by (rule example5_reachable)
  have pcs: "map call_pc (calls example5) = [Done (Inr 0), Done (Inl (raised AdmissionTimeoutError))]" by code_simp
  then have len: "length (calls example5) = 2" by (auto dest: arg_cong [of _ _ length])
  have rel: "map released (adm_leases (ctl example5)) = [True, False]" by code_simp
  then have l2: "length (adm_leases (ctl example5)) = 2" by (auto dest: arg_cong [of _ _ length])
  have pc: "call_pc (calls example5 ! k) = [Done (Inr 0), Done (Inl (raised AdmissionTimeoutError))] ! k" if "k < 2" for k
    using pcs len that by (metis nth_map)
  have r: "released (adm_leases (ctl example5) ! 0)" "\<not> released (adm_leases (ctl example5) ! 1)"
    using rel l2 nth_map [of 0 "adm_leases (ctl example5)" released] nth_map [of 1 "adm_leases (ctl example5)" released]
    by simp_all
  {
    fix k
    assume "k < length (calls example5)"
    then show "\<exists>r. call_pc (calls example5 ! k) = Done r \<and> (\<forall>l. r = Inr l \<longrightarrow> released (adm_leases (ctl example5) ! l))"
      using pc [of k] r(1) len by (cases k) (auto simp: less_Suc_eq)
  }
  show "global_max_inflight (ctl example5) = 1" by code_simp
  have "orphan (ctl example5) (calls example5) 1"
    unfolding orphan_def
  proof (intro conjI allI impI)
    fix k
    assume "k < length (calls example5)"
    with len have k: "k < 2" by simp
    from pc [OF k] k show "\<not> holds (ctl example5) (calls example5 ! k) 1"
      by (cases k) (auto simp: holds_def wait_of_def less_Suc_eq)
  qed (use r l2 in simp_all)
  note o = orphan_forever [OF _ reachable_sys_inv [OF example5_reachable] this]
  fix z
  assume z: "(adm_step True)\<^sup>*\<^sup>* example5 z"
  show "\<exists>l. orphan (ctl z) (calls z) l" using o [OF z] by blast
  have core: "adm_core (ctl z)"
    using adm.steps_inv [OF z reachable_sys_inv [OF example5_reachable]] by (simp add: sys_inv_def ctl_ok_def adm_inv_def)
  from o [OF z] have l: "1 < length (adm_leases (ctl z))" "\<not> released (adm_leases (ctl z) ! 1)"
    by (simp_all add: orphan_def)
  obtain st where "map_of (tenants (ctl z)) (lease_tenant (adm_leases (ctl z) ! 1)) = Some st"
    using lease_tenant_known [OF core l(1)] .
  from live_lease_counts(2) [OF core l this] show "1 \<le> global_inflight (ctl z)" by simp
qed

theorem admission_slot_leaked_witness:
  "\<exists>y. adm_reachable True y \<and> global_max_inflight (ctl y) = 1 \<and> 1 \<le> global_inflight (ctl y) \<and>
     (\<forall>k<length (calls y). wait_of (calls y ! k) = None)"
proof -
  obtain y where y: "adm_reachable True y" "\<forall>k<length (calls y). \<exists>r. call_pc (calls y ! k) = Done r"
    "global_max_inflight (ctl y) = 1" "\<forall>z. (adm_step True)\<^sup>*\<^sup>* y z \<longrightarrow> 1 \<le> global_inflight (ctl z)"
    using admission_slot_leaked by blast
  have "\<forall>k<length (calls y). wait_of (calls y ! k) = None" using y(2) by (fastforce simp: wait_of_def)
  moreover have "1 \<le> global_inflight (ctl y)" using y(4) by blast
  ultimately show ?thesis using y(1,3) by blast
qed

section \<open>Outcomes\<close>

text \<open>
  A call of \<open>acquire\<close> ends in one of six ways: a lease of the caller's own tenant, one of the
  refusals (unavailable, tenant queue full, gateway queue full), an admission timeout, or its own
  cancellation. The consistency errors of the controller (\<open>RuntimeError\<close>, \<open>KeyError\<close>,
  \<open>InvalidStateError\<close>) never occur, and releasing any lease and shutting down never raise.
\<close>

theorem acquire_outcomes_only:
  assumes "adm_reachable late y"
  shows "(\<forall>k<length (calls y). \<forall>r. call_pc (calls y ! k) = Done r \<longrightarrow> (case r of
      Inl e \<Rightarrow> e \<in> {raised AdmissionUnavailableError, raised TenantQueueFullError, raised GatewayQueueFullError,
                   raised AdmissionTimeoutError, CancelledError}
    | Inr l \<Rightarrow> l < length (adm_leases (ctl y)) \<and> lease_tenant (adm_leases (ctl y) ! l) = caller y k)) \<and>
    (\<forall>l<length (adm_leases (ctl y)). fst (adm_release l (ctl y)) = Inr ()) \<and>
    fst (adm_shutdown (ctl y)) = Inr ()"
proof (intro conjI allI impI)
  have inv: "calls_inv late (ctl y) (calls y)" and adm: "adm_inv (ctl y)"
    using reachable_sys_inv [OF assms] by (simp_all add: sys_inv_def ctl_ok_def)
  {
    fix k r
    assume "k < length (calls y)" and r: "call_pc (calls y ! k) = Done r"
    from calls_invD(1) [OF inv this(1)] r show "case r of
      Inl e \<Rightarrow> e \<in> {raised AdmissionUnavailableError, raised TenantQueueFullError, raised GatewayQueueFullError,
                   raised AdmissionTimeoutError, CancelledError}
    | Inr l \<Rightarrow> l < length (adm_leases (ctl y)) \<and> lease_tenant (adm_leases (ctl y) ! l) = caller y k"
      by (auto simp: call_ok_def split: sum.split)
  }
  show "fst (adm_release l (ctl y)) = Inr ()" if "l < length (adm_leases (ctl y))" for l
    using adm_release_ok [OF adm that] by (metis fst_conv)
  show "fst (adm_shutdown (ctl y)) = Inr ()" using adm_shutdown_ok(1) [OF adm] by (metis fst_conv)
qed

theorem acquire_outcomes_only_witness:
  "adm_reachable True example5 \<and> call_pc (calls example5 ! 1) = Done (Inl (raised AdmissionTimeoutError)) \<and>
   raised AdmissionTimeoutError \<in> {raised AdmissionUnavailableError, raised TenantQueueFullError,
     raised GatewayQueueFullError, raised AdmissionTimeoutError, CancelledError}"
proof -
  have c: "call_pc (calls example5 ! 1) = Done (Inl (raised AdmissionTimeoutError))" "1 < length (calls example5)"
    by code_simp+
  then show ?thesis using acquire_outcomes_only [OF example5_reachable] example5_reachable by fastforce
qed



text \<open>
  C11. Work conservation. Between any two steps, if the controller is open and a global slot is
  free, then every tenant that has someone queued is at its own limit: no one waits for a slot
  that could be granted.
\<close>

theorem work_conservation:
  assumes "adm_reachable late y" and "\<not> adm_closed (ctl y)"
    and "global_inflight (ctl y) < global_max_inflight (ctl y)"
    and "map_of (tenants (ctl y)) i = Some st" and "queue st \<noteq> []"
  shows "inflight st = max_inflight (tenant st)"
proof -
  have "settled (ctl y)" using reachable_sys_inv [OF assms(1)] by (simp add: sys_inv_def ctl_ok_def)
  then show ?thesis using assms(2-5) by (auto simp: settled_def)
qed

theorem work_conservation_witness:
  "adm_reachable True example6 \<and> global_inflight (ctl example6) < global_max_inflight (ctl example6) \<and>
   (\<exists>st. map_of (tenants (ctl example6)) ''a'' = Some st \<and> queue st = [0, 1] \<and> inflight st = max_inflight (tenant st))"
proof -
  let ?st = "\<lparr>tenant = example_a, inflight = 1, queue = [0, 1]\<rparr>"
  have st: "map_of (tenants (ctl example6)) ''a'' = Some ?st" by code_simp
  have c: "\<not> adm_closed (ctl example6)" "global_inflight (ctl example6) < global_max_inflight (ctl example6)" by code_simp+
  have "inflight ?st = max_inflight (tenant ?st)"
    by (rule work_conservation [OF example6_reachable [of True] c st]) simp
  then show ?thesis using st c example6_reachable by simp
qed

text \<open>
  C12. Round-robin fairness. When a dispatch runs, a tenant that could be served and stands at
  position \<open>p\<close> of the rotation has its oldest pending waiter granted one of the first \<open>p + 1\<close> slots:
  otherwise fewer slots were granted and the tenant, with the same waiter first, has moved forward
  by at least the number of slots granted to others.
\<close>

theorem round_robin_fairness:
  assumes "adm_inv s" and "dispatch_locked s = (Inr (), s')"
    and "p < length (active_tenants s)" and "eligible s (active_tenants s ! p)"
  shows "(\<exists>l. adm_futures s' ! next_waiter s (active_tenants s ! p) = Result l \<and> length (adm_leases s) \<le> l) \<or>
     next_waiter s' (active_tenants s ! p) = next_waiter s (active_tenants s ! p) \<and>
     (\<exists>p'<length (active_tenants s'). active_tenants s' ! p' = active_tenants s ! p \<and>
        p' + (length (adm_leases s') - length (adm_leases s)) \<le> p)"
  using dispatch_locked_fair [OF assms(1,2)] assms(3,4) unfolding fair_def by blast

theorem round_robin_fairness_witness:
  "eligible example7 ''a'' \<and>
   (\<exists>l. adm_futures (snd (dispatch_locked example7)) ! 0 = Result l \<and> 1 \<le> l)"
proof -
  have c: "0 < length (active_tenants example7)" "active_tenants example7 ! 0 = ''a''" "eligible example7 ''a''"
    "length (adm_leases example7) = 1" "next_waiter example7 ''a'' = 0" "next_waiter (snd (dispatch_locked example7)) ''a'' = 1"
    "fst (dispatch_locked example7) = Inr ()"
    by code_simp+
  have "dispatch_locked example7 = (Inr (), snd (dispatch_locked example7))" using c(7) by (metis prod.collapse)
  from round_robin_fairness [OF example7_inv this c(1)] c show ?thesis by simp
qed

text \<open>
  First in, first out within a tenant: if a dispatch grants a slot to a queued waiter, every
  waiter of the same tenant that was ahead of it and still pending has been granted one too.
\<close>

theorem tenant_fifo:
  assumes "adm_inv s" and "dispatch_locked s = (Inr (), s')"
    and "queue_of s i = xs @ v # ys" and "w \<in> set ys"
    and "adm_futures s ! v = Pending" and "adm_futures s' ! w = Result l"
  shows "\<exists>l'. adm_futures s' ! v = Result l'"
  using dispatch_fifo [OF assms(1-4)] assms(5,6) by blast

theorem tenant_fifo_witness:
  "queue_of example8 ''a'' = [] @ 0 # [1] \<and> adm_futures (snd (dispatch_locked example8)) ! 1 = Result 3 \<and>
   (\<exists>l. adm_futures (snd (dispatch_locked example8)) ! 0 = Result l)"
proof -
  have c: "queue_of example8 ''a'' = [] @ 0 # [1]" "adm_futures example8 ! 0 = Pending"
    "adm_futures (snd (dispatch_locked example8)) ! 1 = Result 3" "fst (dispatch_locked example8) = Inr ()"
    by code_simp+
  have "dispatch_locked example8 = (Inr (), snd (dispatch_locked example8))" using c(4) by (metis prod.collapse)
  from tenant_fifo [OF example8_inv this c(1) _ c(2,3)] c show ?thesis by simp
qed

text \<open>
  Shutting down, from any reachable state: no error, the controller is closed, every queue is
  empty, every waiter that was still pending fails with \<open>AdmissionUnavailableError\<close>, no other
  future and no lease changes, and every later \<open>acquire\<close> is refused.
\<close>

theorem shutdown_fails_waiters:
  assumes "adm_reachable late y"
  defines "s' \<equiv> snd (adm_shutdown (ctl y))"
  shows "fst (adm_shutdown (ctl y)) = Inr () \<and> adm_closed s' \<and> (\<forall>i. queue_of s' i = []) \<and>
    global_queued s' = 0 \<and> adm_leases s' = adm_leases (ctl y) \<and> global_inflight s' = global_inflight (ctl y) \<and>
    (\<forall>w<length (adm_futures (ctl y)). adm_futures s' ! w =
      (if (\<exists>i. w \<in> set (queue_of (ctl y) i)) \<and> adm_futures (ctl y) ! w = Pending
       then Failed (raised AdmissionUnavailableError) else adm_futures (ctl y) ! w)) \<and>
    (\<forall>t. acquire_locked t s' = (Inl (raised AdmissionUnavailableError), s'))"
proof -
  have adm: "adm_inv (ctl y)" using reachable_sys_inv [OF assms(1)] by (simp add: sys_inv_def ctl_ok_def)
  note sd = adm_shutdown_ok [OF adm, folded s'_def]
  have q: "queue_of s' i = []" for i by (rule closed_no_queue [OF sd(2,3)])
  have core: "adm_core s'" using sd(2) by (simp add: adm_inv_def)
  have "int (length (queue (snd p))) = 0" if "p \<in> set (tenants s')" for p
    using queue_of_Some [OF adm_core_entry [OF core that]] q by simp
  then have "(\<Sum>p\<leftarrow>tenants s'. int (length (queue (snd p)))) = 0"
    by (subst sum_list_cong_set [of _ _ "\<lambda>_. 0"]) simp_all
  then have "global_queued s' = 0" using core by (simp add: adm_core_def sums_ok_def)
  then show ?thesis using sd q by (simp add: acquire_locked_def)
qed

theorem shutdown_fails_waiters_witness:
  "adm_reachable True example2 \<and> adm_futures (ctl example2) ! 0 = Pending \<and>
   adm_futures (snd (adm_shutdown (ctl example2))) ! 0 = Failed (raised AdmissionUnavailableError)"
proof -
  have c: "adm_futures (ctl example2) ! 0 = Pending" "0 < length (adm_futures (ctl example2))"
    "0 \<in> set (queue_of (ctl example2) ''b'')"
    by code_simp+
  then show ?thesis using shutdown_fails_waiters [OF example2_reachable [of True]] example2_reachable by auto
qed

text \<open>
  Releasing is idempotent and order does not matter: whatever leases are released, in
  whatever order and however often, the inflight count falls by the number of distinct leases
  among them that were live, and releasing every live lease leaves nothing inflight.
\<close>

theorem release_exactly_once:
  assumes "adm_inv s"
  shows "global_inflight (fold release_once ls s) = global_inflight s - int (card (live_leases s \<inter> set ls)) \<and>
    live_leases (fold release_once ls s) = live_leases s - set ls \<and> adm_inv (fold release_once ls s)"
  using adm_ledger.fold_release_load [OF assms, of ls] adm_ledger.fold_release_live [OF assms, of ls]
    adm_ledger.fold_release_inv [OF assms, of ls] by simp

theorem release_exactly_once_witness:
  "adm_inv (ctl example6) \<and> global_inflight (fold release_once [0, 0] (ctl example6)) = 0"
proof -
  have c: "global_inflight (ctl example6) = 1" "length (adm_leases (ctl example6)) = 1" "\<not> released (adm_leases (ctl example6) ! 0)"
    by code_simp+
  then have "live_leases (ctl example6) \<inter> set [0, 0] = {0}" by (auto simp: live_leases_def)
  then show ?thesis using release_exactly_once [OF example6_inv, of "[0, 0]"] c(1) example6_inv by simp
qed

text \<open>
  The observer is never stale: between any two steps, an attached observer has last been
  given exactly the current global counts and the current counts of every tenant.
\<close>

theorem observer_in_sync:
  assumes "adm_reachable late y" and "adm_observer (ctl y)"
  shows "last_state (adm_events (ctl y)) = Some (State_changed (global_inflight (ctl y)) (global_queued (ctl y))
     (snap_tenants (adm_snapshot (ctl y))))"
  using reachable_sys_inv [OF assms(1)] assms(2)
  by (simp add: sys_inv_def ctl_ok_def mirrored_def state_event_def adm_snapshot_def)

theorem observer_in_sync_witness:
  "adm_reachable True example5 \<and> last_state (adm_events (ctl example5)) =
     Some (State_changed 1 0 [(''a'', 0, 0), (''b'', 1, 0)])"
proof -
  have "adm_observer (ctl example5)" "global_inflight (ctl example5) = 1" "global_queued (ctl example5) = 0"
    "snap_tenants (adm_snapshot (ctl example5)) = [(''a'', 0, 0), (''b'', 1, 0)]"
    by code_simp+
  then show ?thesis using observer_in_sync [OF example5_reachable] example5_reachable by simp
qed

end
