(* ===== verification/Gw_Pool.thy ===== *)
theory Gw_Pool
  imports Gw_Errors
begin

text \<open>
  \<open>gateway/routing/pool.py\<close>: health-filtered least-inflight routing over a fixed list of
  backends.

  Leases and routed streams are heap objects, addressed by their index; a slot is addressed by
  its position. Every section under \<open>self._lock\<close> is free of suspension points and is one function.
  An operation of the pool suspends only in the call of the leaf backend, whose outcome (a value
  or an exception) is an argument of the function that resumes it.
\<close>

section \<open>State\<close>

record backend_slot =
  backend_id :: string
  healthy :: "bool option"
  slot_inflight :: int

record backend_lease =
  lease_slot :: nat
  weight :: int
  lease_released :: bool

datatype backend_operation = Generate | Stream | Batch

datatype backend_outcome = Success | Error | Cancelled_op

text \<open>
  \<open>RoutedBackendStream\<close>: \<open>_closed\<close> is false in phase \<open>Open\<close>; in phase \<open>Closing\<close> its \<open>_finish\<close> holds the
  close lock and awaits the leaf's \<open>aclose\<close>.
\<close>

datatype stream_phase = Open | Closing backend_outcome | Shut

record routed_stream =
  stream_lease :: nat
  stream_phase :: stream_phase

datatype pool_event =
    Backends_changed "(string \<times> bool \<times> int) list"
  | Operation_observed string backend_operation backend_outcome

record pool =
  slots :: "backend_slot list"
  cursor :: nat
  stop_event :: bool
  probe_task :: bool
  active_leases :: "nat set"
  active_streams :: "nat set"
  pool_started :: bool
  pool_closed :: bool
  pool_observer :: bool
  pool_leases :: "backend_lease list"
  pool_streams :: "routed_stream list"
  pool_events :: "pool_event list"

definition health_impacting :: "exn \<Rightarrow> bool" where
  "health_impacting e \<longleftrightarrow> is_instance e BackendUnavailableError \<or> is_instance e BackendTimeoutError \<or>
     is_instance e BackendProtocolError \<or> is_instance e BackendConfigurationError \<or>
     is_instance e BackendHTTPError"

definition backends_event :: "pool \<Rightarrow> pool_event" where
  "backends_event p = Backends_changed
     (map (\<lambda>sl. (backend_id sl, healthy sl = Some True \<and> \<not> pool_closed p, slot_inflight sl)) (slots p))"

definition pool_notify :: "pool \<Rightarrow> pool" where
  "pool_notify p = (if pool_observer p then p\<lparr>pool_events := pool_events p @ [backends_event p]\<rparr> else p)"

definition observe_operation :: "string \<Rightarrow> backend_operation \<Rightarrow> backend_outcome \<Rightarrow> pool \<Rightarrow> pool" where
  "observe_operation b op oc p =
     (if pool_observer p then p\<lparr>pool_events := pool_events p @ [Operation_observed b op oc]\<rparr> else p)"

text \<open>The constructor, on the keys of the \<open>backends\<close> mapping.\<close>

definition BackendPool :: "string list \<Rightarrow> real \<Rightarrow> real \<Rightarrow> bool \<Rightarrow> exn + pool" where
  "BackendPool backends interval timeout obs =
     (if backends = [] then Inl (ValueError ''at least one backend is required'')
      else if interval \<le> 0 \<or> timeout \<le> 0 then Inl (ValueError ''backend health timing must be positive'')
      else if list_ex (\<lambda>b. py_strip b = []) backends then Inl (ValueError ''backend IDs must not be blank'')
      else if \<not> distinct backends then Inl (ValueError ''backend IDs must be unique'')
      else Inr (pool_notify
        \<lparr>slots = map (\<lambda>b. \<lparr>backend_id = b, healthy = None, slot_inflight = 0\<rparr>) backends,
         cursor = 0, stop_event = False, probe_task = False, active_leases = {}, active_streams = {},
         pool_started = False, pool_closed = False, pool_observer = obs,
         pool_leases = [], pool_streams = [], pool_events = []\<rparr>))"

definition pool_set_observer :: "bool \<Rightarrow> pool \<Rightarrow> pool" where
  "pool_set_observer obs p = pool_notify (p\<lparr>pool_observer := obs\<rparr>)"

section \<open>Selecting and releasing\<close>

definition healthy_indices :: "pool \<Rightarrow> nat list" where
  "healthy_indices p = filter (\<lambda>i. healthy (slots p ! i) = Some True) [0..<length (slots p)]"

definition minimum_inflight :: "pool \<Rightarrow> int" where
  "minimum_inflight p = Min (set (map (\<lambda>i. slot_inflight (slots p ! i)) (healthy_indices p)))"

definition candidates :: "pool \<Rightarrow> nat list" where
  "candidates p = filter (\<lambda>i. slot_inflight (slots p ! i) = minimum_inflight p) (healthy_indices p)"

definition rotation :: "pool \<Rightarrow> nat list" where
  "rotation p = map (\<lambda>offset. (cursor p + offset) mod length (slots p)) [0..<length (slots p)]"

definition assign_slot :: "nat \<Rightarrow> int \<Rightarrow> pool \<Rightarrow> pool" where
  "assign_slot i w p = pool_notify
     (p\<lparr>slots := (slots p)[i := (slots p ! i)\<lparr>slot_inflight := slot_inflight (slots p ! i) + w\<rparr>],
        cursor := (i + 1) mod length (slots p),
        pool_leases := pool_leases p @ [\<lparr>lease_slot = i, weight = w, lease_released = False\<rparr>],
        active_leases := insert (length (pool_leases p)) (active_leases p)\<rparr>)"

definition select :: "int \<Rightarrow> pool \<Rightarrow> (exn + nat) \<times> pool" where
  "select w p =
     (if w \<le> 0 then (Inl (ValueError ''backend assignment weight must be positive''), p)
      else if pool_closed p then (Inl (raised NoHealthyBackendError), p)
      else if healthy_indices p = [] then (Inl (raised NoHealthyBackendError), p)
      else case find (\<lambda>i. i \<in> set (candidates p)) (rotation p) of
          None \<Rightarrow> (Inl (RuntimeError ''coroutine raised StopIteration''), p)
        | Some i \<Rightarrow> (Inr (length (pool_leases p)), assign_slot i w p))"

definition pool_release :: "nat \<Rightarrow> pool \<Rightarrow> (exn + unit) \<times> pool" where
  "pool_release l p =
     (let lease = pool_leases p ! l; sl = slots p ! lease_slot lease in
      if lease_released lease then (Inr (), p)
      else if slot_inflight sl < weight lease
      then (Inl (RuntimeError ''backend inflight accounting became inconsistent''), p)
      else (Inr (), pool_notify
        (p\<lparr>pool_leases := (pool_leases p)[l := lease\<lparr>lease_released := True\<rparr>],
           slots := (slots p)[lease_slot lease := sl\<lparr>slot_inflight := slot_inflight sl - weight lease\<rparr>],
           active_leases := active_leases p - {l}\<rparr>)))"

section \<open>Health\<close>

fun slot_index :: "string \<Rightarrow> backend_slot list \<Rightarrow> nat option" where
  "slot_index b [] = None"
| "slot_index b (sl # sls) = (if backend_id sl = b then Some 0 else map_option Suc (slot_index b sls))"

definition set_health :: "string \<Rightarrow> bool \<Rightarrow> pool \<Rightarrow> (exn + unit) \<times> pool" where
  "set_health b h p =
     (if pool_closed p then (Inr (), p)
      else case slot_index b (slots p) of
          None \<Rightarrow> (Inl KeyError, p)
        | Some i \<Rightarrow> (Inr (), pool_notify (p\<lparr>slots := (slots p)[i := (slots p ! i)\<lparr>healthy := Some h\<rparr>]\<rparr>)))"

definition mark_unhealthy :: "string \<Rightarrow> pool \<Rightarrow> (exn + unit) \<times> pool" where
  "mark_unhealthy b p = set_health b False p"

text \<open>A probe turns any failure of \<open>check_health\<close>, its timeout included, into "unhealthy".\<close>

definition probe_outcome :: "exn + bool \<Rightarrow> bool" where
  "probe_outcome r = (case r of Inl _ \<Rightarrow> False | Inr h \<Rightarrow> h)"

definition probe_done :: "nat \<Rightarrow> exn + bool \<Rightarrow> pool \<Rightarrow> (exn + unit) \<times> pool" where
  "probe_done i r p =
     (if r = Inl CancelledError then (Inl CancelledError, p)
      else set_health (backend_id (slots p ! i)) (probe_outcome r) p)"

definition pool_start :: "pool \<Rightarrow> (exn + bool) \<times> pool" where
  "pool_start p =
     (if pool_closed p then (Inl (raised NoHealthyBackendError), p)
      else if pool_started p then (Inr False, p)
      else (Inr True, p\<lparr>pool_started := True\<rparr>))"

definition pool_start_loop :: "pool \<Rightarrow> pool" where
  "pool_start_loop p = (if \<not> pool_closed p \<and> \<not> probe_task p then p\<lparr>probe_task := True\<rparr> else p)"

definition is_routable :: "pool \<Rightarrow> bool" where
  "is_routable p \<longleftrightarrow> \<not> pool_closed p \<and> list_ex (\<lambda>sl. healthy sl = Some True) (slots p)"

definition pool_snapshot :: "pool \<Rightarrow> bool \<times> (string \<times> bool \<times> int) list" where
  "pool_snapshot p = (pool_closed p, map (\<lambda>sl. (backend_id sl, healthy sl = Some True, slot_inflight sl)) (slots p))"

section \<open>Operations\<close>

abbreviation lease_backend :: "pool \<Rightarrow> nat \<Rightarrow> string" where
  "lease_backend p l \<equiv> backend_id (slots p ! lease_slot (pool_leases p ! l))"

text \<open>
  The \<open>except\<close> clauses shared by \<open>generate\<close> and \<open>generate_batch\<close>, then the \<open>finally\<close> clause; what is
  raised in a handler replaces what it handles.
\<close>

definition leaf_handlers :: "backend_operation \<Rightarrow> string \<Rightarrow> exn + 'r \<Rightarrow> pool \<Rightarrow> (exn + 'r) \<times> pool" where
  "leaf_handlers op b r p = (case r of
      Inl e \<Rightarrow>
       (if e = CancelledError then (Inl e, observe_operation b op Cancelled_op p)
        else if health_impacting e
        then and_then (mark_unhealthy b p) (\<lambda>_ p1. (Inl e, observe_operation b op Error p1))
        else (Inl e, observe_operation b op Error p))
    | Inr x \<Rightarrow> (Inr x, observe_operation b op Success p))"

definition finally_release :: "nat \<Rightarrow> (exn + 'r) \<times> pool \<Rightarrow> (exn + 'r) \<times> pool" where
  "finally_release l rp = and_then (pool_release l (snd rp)) (\<lambda>_ p. (fst rp, p))"

definition generate_done :: "nat \<Rightarrow> exn + 'r \<Rightarrow> pool \<Rightarrow> (exn + 'r) \<times> pool" where
  "generate_done l r p = finally_release l (leaf_handlers Generate (lease_backend p l) r p)"

definition generate_batch_start :: "nat \<Rightarrow> pool \<Rightarrow> (exn + nat) \<times> pool" where
  "generate_batch_start n p =
     (if n = 0
      then (Inl (Gateway (mk_error BackendCapabilityError (Some ''Batch generation requires at least one request'') None None)), p)
      else select (int n) p)"

definition generate_batch_done :: "nat \<Rightarrow> exn + 'r \<Rightarrow> pool \<Rightarrow> (exn + 'r) \<times> pool" where
  "generate_batch_done l r p = finally_release l (leaf_handlers Batch (lease_backend p l) r p)"

section \<open>Routed streams\<close>

definition register_stream :: "nat \<Rightarrow> pool \<Rightarrow> bool \<times> pool" where
  "register_stream x p =
     (if pool_closed p then (False, p) else (True, p\<lparr>active_streams := insert x (active_streams p)\<rparr>))"

definition unregister_stream :: "nat \<Rightarrow> pool \<Rightarrow> pool" where
  "unregister_stream x p = p\<lparr>active_streams := active_streams p - {x}\<rparr>"

text \<open>\<open>_finish\<close> up to its await of the leaf's \<open>aclose\<close>; a stream already closed is left alone.\<close>

definition finish_start :: "nat \<Rightarrow> backend_outcome \<Rightarrow> pool \<Rightarrow> pool" where
  "finish_start x oc p =
     (if stream_phase (pool_streams p ! x) = Open
      then p\<lparr>pool_streams := (pool_streams p)[x := (pool_streams p ! x)\<lparr>stream_phase := Closing oc\<rparr>]\<rparr>
      else p)"

text \<open>\<open>_finish\<close> from the outcome of \<open>aclose\<close> on: the nested \<open>finally\<close> clauses run in any case.\<close>

definition final_outcome :: "backend_outcome \<Rightarrow> exn + unit \<Rightarrow> backend_outcome" where
  "final_outcome oc r = (case r of Inl e \<Rightarrow> if e = CancelledError then Cancelled_op else Error | Inr _ \<Rightarrow> oc)"

definition finish_done :: "nat \<Rightarrow> exn + unit \<Rightarrow> pool \<Rightarrow> (exn + unit) \<times> pool" where
  "finish_done x r p = (case stream_phase (pool_streams p ! x) of
      Closing oc \<Rightarrow>
       (let l = stream_lease (pool_streams p ! x);
            (released, p1) = pool_release l
              (p\<lparr>pool_streams := (pool_streams p)[x := (pool_streams p ! x)\<lparr>stream_phase := Shut\<rparr>]\<rparr>);
            p2 = observe_operation (lease_backend p l) Stream (final_outcome oc r) (unregister_stream x p1)
        in (case released of Inl e \<Rightarrow> (Inl e, p2) | Inr _ \<Rightarrow> (r, p2)))
    | _ \<Rightarrow> (Inr (), p))"

text \<open>\<open>_iterate\<close> once the leaf's iteration has ended, up to the await inside \<open>_finish\<close>.\<close>

definition iterate_end :: "nat \<Rightarrow> exn + unit \<Rightarrow> pool \<Rightarrow> (exn + unit) \<times> pool" where
  "iterate_end x r p = (case r of
      Inl e \<Rightarrow>
       (if e = CancelledError then (Inr (), finish_start x Cancelled_op p)
        else if health_impacting e
        then and_then (mark_unhealthy (lease_backend p (stream_lease (pool_streams p ! x))) p)
               (\<lambda>_ p1. (Inr (), finish_start x Error p1))
        else (Inr (), finish_start x Error p))
    | Inr _ \<Rightarrow> (Inr (), finish_start x Success p))"

text \<open>\<open>stream\<close> once the leaf has opened its stream or failed to.\<close>

definition open_failed :: "nat \<Rightarrow> exn \<Rightarrow> pool \<Rightarrow> (exn + nat) \<times> pool" where
  "open_failed l e p =
     (let b = lease_backend p l in
      and_then
        (if e = CancelledError then (Inr (), observe_operation b Stream Cancelled_op p)
         else if health_impacting e
         then and_then (mark_unhealthy b p) (\<lambda>_ p1. (Inr (), observe_operation b Stream Error p1))
         else (Inr (), observe_operation b Stream Error p))
        (\<lambda>_ p1. and_then (pool_release l p1) (\<lambda>_ p2. (Inl e, p2))))"

text \<open>A stream that cannot be registered because the pool has closed is finished at once.\<close>

definition open_done :: "nat \<Rightarrow> pool \<Rightarrow> bool \<times> nat \<times> pool" where
  "open_done l p =
     (let x = length (pool_streams p);
          p1 = p\<lparr>pool_streams := pool_streams p @ [\<lparr>stream_lease = l, stream_phase = Open\<rparr>]\<rparr>;
          (registered, p2) = register_stream x p1
      in if registered then (True, x, p2) else (False, x, finish_start x Error p2))"

section \<open>Closing the pool\<close>

definition close_start :: "pool \<Rightarrow> (nat list \<times> nat list) option \<times> pool" where
  "close_start p =
     (if pool_closed p then (None, p)
      else (Some (filter (\<lambda>l. l \<in> active_leases p) [0..<length (pool_leases p)],
                  filter (\<lambda>x. x \<in> active_streams p) [0..<length (pool_streams p)]),
            p\<lparr>pool_closed := True, stop_event := True\<rparr>))"

fun release_all :: "nat list \<Rightarrow> pool \<Rightarrow> (exn + unit) \<times> pool" where
  "release_all [] p = (Inr (), p)"
| "release_all (l # ls) p = and_then (pool_release l p) (\<lambda>_ p1. release_all ls p1)"

definition close_end :: "pool \<Rightarrow> pool" where
  "close_end p = pool_notify (p\<lparr>slots := map (\<lambda>sl. sl\<lparr>healthy := Some False\<rparr>) (slots p)\<rparr>)"

end
