(* ===== verification/Gw_Pool_Inv.thy ===== *)
theory Gw_Pool_Inv
  imports Gw_Pool
begin

text \<open>
  The invariant of the routing pool and what each of its operations does, from any state that
  satisfies it: \<open>pool_inv\<close> says that the inflight count of a backend is the total weight of its
  unreleased leases. Selection is characterised against its specification: a healthy backend of
  least inflight, the first such one from the cursor on.
\<close>

section \<open>Invariant\<close>

definition lease_load :: "nat \<Rightarrow> backend_lease \<Rightarrow> int" where
  "lease_load i l = (if lease_slot l = i \<and> \<not> lease_released l then weight l else 0)"

definition slot_load :: "nat \<Rightarrow> backend_lease list \<Rightarrow> int" where
  "slot_load i ls = (\<Sum>l\<leftarrow>ls. lease_load i l)"

definition pool_live :: "pool \<Rightarrow> nat set" where
  "pool_live p = {l. l < length (pool_leases p) \<and> \<not> lease_released (pool_leases p ! l)}"

definition streams_ok :: "pool \<Rightarrow> bool" where
  "streams_ok p \<longleftrightarrow>
     (\<forall>x<length (pool_streams p). stream_lease (pool_streams p ! x) < length (pool_leases p) \<and>
        (stream_phase (pool_streams p ! x) = Open \<longrightarrow> x \<in> active_streams p)) \<and>
     (\<forall>x\<in>active_streams p. x < length (pool_streams p) \<and> stream_phase (pool_streams p ! x) \<noteq> Shut)"

definition pool_inv :: "pool \<Rightarrow> bool" where
  "pool_inv p \<longleftrightarrow> slots p \<noteq> [] \<and> distinct (map backend_id (slots p)) \<and> cursor p < length (slots p) \<and>
     (\<forall>l\<in>set (pool_leases p). lease_slot l < length (slots p) \<and> 0 < weight l) \<and>
     (\<forall>i<length (slots p). slot_inflight (slots p ! i) = slot_load i (pool_leases p)) \<and>
     active_leases p = pool_live p \<and> streams_ok p"

lemma pool_invD:
  assumes "pool_inv p"
  shows "slots p \<noteq> []" "distinct (map backend_id (slots p))" "cursor p < length (slots p)"
    "\<And>l. l < length (pool_leases p) \<Longrightarrow> lease_slot (pool_leases p ! l) < length (slots p)"
    "\<And>l. l < length (pool_leases p) \<Longrightarrow> 0 < weight (pool_leases p ! l)"
    "\<And>i. i < length (slots p) \<Longrightarrow> slot_inflight (slots p ! i) = slot_load i (pool_leases p)"
    "active_leases p = pool_live p" "streams_ok p"
  using assms by (simp_all add: pool_inv_def)

lemma pool_notify_fields [simp]:
  "slots (pool_notify p) = slots p" "cursor (pool_notify p) = cursor p"
  "active_leases (pool_notify p) = active_leases p" "active_streams (pool_notify p) = active_streams p"
  "pool_closed (pool_notify p) = pool_closed p" "pool_leases (pool_notify p) = pool_leases p"
  "pool_streams (pool_notify p) = pool_streams p" "pool_observer (pool_notify p) = pool_observer p"
  by (simp_all add: pool_notify_def)

lemma observe_operation_fields [simp]:
  "slots (observe_operation b op oc p) = slots p" "cursor (observe_operation b op oc p) = cursor p"
  "active_leases (observe_operation b op oc p) = active_leases p"
  "active_streams (observe_operation b op oc p) = active_streams p"
  "pool_closed (observe_operation b op oc p) = pool_closed p"
  "pool_leases (observe_operation b op oc p) = pool_leases p"
  "pool_streams (observe_operation b op oc p) = pool_streams p"
  "pool_observer (observe_operation b op oc p) = pool_observer p"
  by (simp_all add: observe_operation_def)

lemma pool_inv_cong:
  assumes "slots p' = slots p" and "cursor p' = cursor p" and "active_leases p' = active_leases p"
    and "active_streams p' = active_streams p" and "pool_leases p' = pool_leases p"
    and "pool_streams p' = pool_streams p"
  shows "pool_inv p' = pool_inv p"
  using assms by (simp add: pool_inv_def streams_ok_def pool_live_def)

lemma pool_inv_frames [simp]:
  "pool_inv (pool_notify p) = pool_inv p"
  "pool_inv (observe_operation b op oc p) = pool_inv p"
  "pool_inv (p\<lparr>pool_closed := c\<rparr>) = pool_inv p"
  "pool_inv (p\<lparr>stop_event := c\<rparr>) = pool_inv p"
  "pool_inv (p\<lparr>pool_observer := c\<rparr>) = pool_inv p"
  "pool_inv (p\<lparr>pool_started := c\<rparr>) = pool_inv p"
  "pool_inv (p\<lparr>probe_task := c\<rparr>) = pool_inv p"
  by (rule pool_inv_cong; simp)+

lemma slot_load_append [simp]: "slot_load i (ls @ [l]) = slot_load i ls + lease_load i l"
  by (simp add: slot_load_def)

lemma slot_load_release:
  assumes "l < length ls"
  shows "slot_load i (ls[l := (ls ! l)\<lparr>lease_released := True\<rparr>]) = slot_load i ls - lease_load i (ls ! l)"
  using sum_list_update_int [OF assms, of "lease_load i" "(ls ! l)\<lparr>lease_released := True\<rparr>"]
  by (simp add: slot_load_def lease_load_def)

lemma slot_load_ge:
  assumes "\<forall>l\<in>set ls. 0 < weight l" and "l < length ls" and "\<not> lease_released (ls ! l)"
  shows "weight (ls ! l) \<le> slot_load (lease_slot (ls ! l)) ls"
proof -
  have "lease_load (lease_slot (ls ! l)) (ls ! l) \<le> (\<Sum>x\<leftarrow>ls. lease_load (lease_slot (ls ! l)) x)"
    using assms by (intro sum_list_member_le_int) (auto simp: lease_load_def less_imp_le)
  with assms(3) show ?thesis by (simp add: slot_load_def lease_load_def)
qed

section \<open>The constructor\<close>

lemma BackendPool_ok:
  assumes "BackendPool backends interval timeout obs = Inr p"
  shows "pool_inv p" and "\<not> pool_closed p" and "pool_leases p = []" and "pool_streams p = []"
    and "map backend_id (slots p) = backends" and "active_streams p = {}"
proof -
  let ?p = "\<lparr>slots = map (\<lambda>b. \<lparr>backend_id = b, healthy = None, slot_inflight = 0\<rparr>) backends,
         cursor = 0, stop_event = False, probe_task = False, active_leases = {}, active_streams = {},
         pool_started = False, pool_closed = False, pool_observer = obs,
         pool_leases = [], pool_streams = [], pool_events = []\<rparr>"
  have p: "p = pool_notify ?p" and b: "backends \<noteq> []" "distinct backends"
    using assms by (auto simp: BackendPool_def split: if_splits)
  have "pool_inv ?p"
    using b by (simp add: pool_inv_def o_def slot_load_def pool_live_def streams_ok_def)
  then show "pool_inv p" by (simp add: p)
  show "\<not> pool_closed p" "pool_leases p = []" "pool_streams p = []"
    "map backend_id (slots p) = backends" "active_streams p = {}"
    by (simp_all add: p o_def)
qed

section \<open>Selection\<close>

text \<open>
  The specification of the choice: healthy, of least inflight among the healthy, and no earlier
  position of the rotation is.
\<close>

definition least_loaded :: "pool \<Rightarrow> nat \<Rightarrow> bool" where
  "least_loaded p i \<longleftrightarrow> i < length (slots p) \<and> healthy (slots p ! i) = Some True \<and>
     (\<forall>j<length (slots p). healthy (slots p ! j) = Some True \<longrightarrow> slot_inflight (slots p ! i) \<le> slot_inflight (slots p ! j))"

lemma candidates_iff: "i \<in> set (candidates p) \<longleftrightarrow> least_loaded p i"
proof (cases "healthy_indices p = []")
  case True
  then have "\<not> least_loaded p i" by (auto simp: healthy_indices_def least_loaded_def filter_empty_conv)
  with True show ?thesis by (simp add: candidates_def)
next
  case False
  let ?S = "(\<lambda>i. slot_inflight (slots p ! i)) ` set (healthy_indices p)"
  have fin: "finite ?S" "?S \<noteq> {}" using False by simp_all
  have min: "minimum_inflight p = Min ?S" by (simp add: minimum_inflight_def)
  have hi: "j \<in> set (healthy_indices p) \<longleftrightarrow> j < length (slots p) \<and> healthy (slots p ! j) = Some True" for j
    by (simp add: healthy_indices_def)
  show ?thesis
  proof
    assume "i \<in> set (candidates p)"
    then have i: "i \<in> set (healthy_indices p)" "slot_inflight (slots p ! i) = Min ?S"
      by (simp_all add: candidates_def min)
    have "Min ?S \<le> slot_inflight (slots p ! j)" if "j \<in> set (healthy_indices p)" for j
      using fin(1) that by (intro Min_le) auto
    with i show "least_loaded p i" by (simp add: least_loaded_def hi)
  next
    assume l: "least_loaded p i"
    then have i: "i \<in> set (healthy_indices p)" by (simp add: least_loaded_def hi)
    have "slot_inflight (slots p ! i) = Min ?S"
      using fin i l by (intro antisym Min.boundedI Min_le) (auto simp: least_loaded_def hi)
    with i show "i \<in> set (candidates p)" by (simp add: candidates_def min)
  qed
qed

lemma least_loaded_ex:
  assumes "healthy_indices p \<noteq> []"
  shows "\<exists>i. least_loaded p i"
proof -
  let ?S = "(\<lambda>i. slot_inflight (slots p ! i)) ` set (healthy_indices p)"
  have "Min ?S \<in> ?S" using assms by (intro Min_in) auto
  then obtain i where "i \<in> set (healthy_indices p)" "slot_inflight (slots p ! i) = Min ?S" by auto
  then have "i \<in> set (candidates p)" by (simp add: candidates_def minimum_inflight_def)
  then show ?thesis by (auto simp: candidates_iff)
qed

lemma rotation_set:
  assumes "slots p \<noteq> []"
  shows "set (rotation p) = {..<length (slots p)}"
proof
  show "set (rotation p) \<subseteq> {..<length (slots p)}" using assms by (auto simp: rotation_def)
  show "{..<length (slots p)} \<subseteq> set (rotation p)"
  proof
    fix i
    assume "i \<in> {..<length (slots p)}"
    then have i: "i < length (slots p)" by simp
    let ?n = "length (slots p)"
    let ?o = "(i + (?n - cursor p mod ?n)) mod ?n"
    have c: "cursor p mod ?n < ?n" using assms by simp
    have "(cursor p + ?o) mod ?n = (cursor p mod ?n + (i + (?n - cursor p mod ?n))) mod ?n"
      by (metis mod_add_left_eq mod_add_right_eq)
    also have "cursor p mod ?n + (i + (?n - cursor p mod ?n)) = i + ?n"
      using c by linarith
    also have "(i + ?n) mod ?n = i" using i by simp
    finally have "(cursor p + ?o) mod ?n = i" .
    moreover have "?o < ?n" using assms by simp
    ultimately show "i \<in> set (rotation p)" by (force simp: rotation_def)
  qed
qed

definition next_backend :: "pool \<Rightarrow> nat option" where
  "next_backend p = find (least_loaded p) (rotation p)"

lemma select_cases:
  assumes "slots p \<noteq> []"
  obtains (weight) "w \<le> 0" and "select w p = (Inl (ValueError ''backend assignment weight must be positive''), p)"
    | (none) "0 < w" and "pool_closed p \<or> healthy_indices p = []"
        and "select w p = (Inl (raised NoHealthyBackendError), p)"
    | (chosen) i where "0 < w" and "\<not> pool_closed p" and "next_backend p = Some i" and "least_loaded p i"
        and "select w p = (Inr (length (pool_leases p)), assign_slot i w p)"
proof -
  have eq: "(\<lambda>i. i \<in> set (candidates p)) = least_loaded p" by (simp add: candidates_iff fun_eq_iff)
  consider "w \<le> 0" | "0 < w" "pool_closed p \<or> healthy_indices p = []"
    | "0 < w" "\<not> pool_closed p" "healthy_indices p \<noteq> []"
    by linarith
  then show thesis
  proof cases
    case 1
    then show thesis using weight by (simp add: select_def)
  next
    case 2
    then show thesis using none by (auto simp: select_def)
  next
    case 3
    obtain j where j: "least_loaded p j" using least_loaded_ex [OF 3(3)] ..
    then have "j \<in> set (rotation p)" using rotation_set [OF assms] by (simp add: least_loaded_def)
    with j have "next_backend p \<noteq> None" by (auto simp: next_backend_def find_None_iff)
    then obtain i where i: "next_backend p = Some i" by blast
    then have "least_loaded p i" by (auto simp: next_backend_def find_Some_iff)
    moreover have "select w p = (Inr (length (pool_leases p)), assign_slot i w p)"
      using 3 i by (simp add: select_def eq next_backend_def)
    ultimately show thesis using chosen 3 i by blast
  qed
qed

lemma assign_slot_fields [simp]:
  "active_streams (assign_slot i w p) = active_streams p" "pool_closed (assign_slot i w p) = pool_closed p"
  "pool_streams (assign_slot i w p) = pool_streams p"
  "pool_leases (assign_slot i w p) = pool_leases p @ [\<lparr>lease_slot = i, weight = w, lease_released = False\<rparr>]"
  "active_leases (assign_slot i w p) = insert (length (pool_leases p)) (active_leases p)"
  "slots (assign_slot i w p) = (slots p)[i := (slots p ! i)\<lparr>slot_inflight := slot_inflight (slots p ! i) + w\<rparr>]"
  "cursor (assign_slot i w p) = (i + 1) mod length (slots p)"
  by (simp_all add: assign_slot_def)

lemma map_backend_id_update: "map backend_id (sls[i := (sls ! i)\<lparr>slot_inflight := n\<rparr>]) = map backend_id sls"
  by (cases "i < length sls") (auto intro!: nth_equalityI simp: nth_list_update)

lemma map_backend_id_health: "map backend_id (sls[i := (sls ! i)\<lparr>healthy := h\<rparr>]) = map backend_id sls"
  by (cases "i < length sls") (auto intro!: nth_equalityI simp: nth_list_update)

lemma pool_inv_assign:
  assumes inv: "pool_inv p" and i: "i < length (slots p)" and w: "0 < w"
  shows "pool_inv (assign_slot i w p)"
proof -
  note I = pool_invD [OF inv]
  have "streams_ok (assign_slot i w p)" using I(8) by (auto simp: streams_ok_def less_Suc_eq)
  moreover have "pool_live (assign_slot i w p) = insert (length (pool_leases p)) (pool_live p)"
    by (auto simp: pool_live_def nth_append less_Suc_eq)
  moreover have "(i + 1) mod length (slots p) < length (slots p)" using I(1) by simp
  moreover have "slot_inflight (slots (assign_slot i w p) ! j) = slot_load j (pool_leases (assign_slot i w p))"
    if "j < length (slots p)" for j
    using I(6) [OF that] i that by (cases "j = i") (auto simp: lease_load_def)
  ultimately show ?thesis
    using inv i w by (auto simp: pool_inv_def map_backend_id_update)
qed

section \<open>Releasing\<close>

lemma pool_release_live:
  assumes inv: "pool_inv p" and l: "l \<in> pool_live p"
  defines "lease \<equiv> pool_leases p ! l"
  defines "p' \<equiv> pool_notify
        (p\<lparr>pool_leases := (pool_leases p)[l := lease\<lparr>lease_released := True\<rparr>],
           slots := (slots p)[lease_slot lease := (slots p ! lease_slot lease)\<lparr>slot_inflight :=
              slot_inflight (slots p ! lease_slot lease) - weight lease\<rparr>],
           active_leases := active_leases p - {l}\<rparr>)"
  shows "pool_release l p = (Inr (), p')" and "pool_inv p'"
proof -
  note I = pool_invD [OF inv]
  have lr: "l < length (pool_leases p)" "\<not> lease_released lease" using l by (simp_all add: pool_live_def lease_def)
  have sl: "lease_slot lease < length (slots p)" unfolding lease_def by (rule I(4) [OF lr(1)])
  have "weight lease \<le> slot_inflight (slots p ! lease_slot lease)"
    using slot_load_ge [of "pool_leases p" l] inv lr I(6) [OF sl] by (simp add: pool_inv_def lease_def)
  then show "pool_release l p = (Inr (), p')"
    using lr by (simp add: pool_release_def Let_def lease_def p'_def)
  have "streams_ok p'" using I(8) by (simp add: streams_ok_def p'_def)
  moreover have "pool_live p' = pool_live p - {l}"
    using lr by (auto simp: pool_live_def p'_def nth_list_update)
  moreover have "slot_inflight (slots p' ! j) = slot_load j (pool_leases p')" if "j < length (slots p)" for j
    using I(6) [OF that] sl lr that slot_load_release [OF lr(1), of j]
    by (cases "j = lease_slot lease") (auto simp: p'_def lease_def lease_load_def)
  moreover have "\<forall>x\<in>set (pool_leases p'). lease_slot x < length (slots p) \<and> 0 < weight x"
    using inv I(4,5) [OF lr(1)] set_update_subset_insert [of "pool_leases p" l "lease\<lparr>lease_released := True\<rparr>"]
    by (auto simp: pool_inv_def p'_def lease_def)
  ultimately show "pool_inv p'"
    using inv by (simp add: pool_inv_def p'_def map_backend_id_update)
qed

definition pool_released :: "nat \<Rightarrow> pool \<Rightarrow> pool" where
  "pool_released l p = snd (pool_release l p)"

text \<open>Releasing, whether or not the lease was still live.\<close>

lemma pool_release_ok:
  assumes inv: "pool_inv p" and l: "l < length (pool_leases p)"
  defines "p' \<equiv> pool_released l p"
  shows "pool_release l p = (Inr (), p')" and "pool_inv p'" and "pool_live p' = pool_live p - {l}"
    and "length (pool_leases p') = length (pool_leases p)"
    and "\<And>x. lease_slot (pool_leases p' ! x) = lease_slot (pool_leases p ! x)"
    and "\<And>x. weight (pool_leases p' ! x) = weight (pool_leases p ! x)"
    and "pool_streams p' = pool_streams p" and "active_streams p' = active_streams p"
    and "pool_closed p' = pool_closed p" and "map backend_id (slots p') = map backend_id (slots p)"
    and "map healthy (slots p') = map healthy (slots p)"
proof -
  have *: "pool_release l p = (Inr (), p') \<and> pool_inv p' \<and> pool_live p' = pool_live p - {l} \<and>
    length (pool_leases p') = length (pool_leases p) \<and>
    (\<forall>x. lease_slot (pool_leases p' ! x) = lease_slot (pool_leases p ! x)) \<and>
    (\<forall>x. weight (pool_leases p' ! x) = weight (pool_leases p ! x)) \<and>
    pool_streams p' = pool_streams p \<and> active_streams p' = active_streams p \<and>
    pool_closed p' = pool_closed p \<and> map backend_id (slots p') = map backend_id (slots p) \<and>
    map healthy (slots p') = map healthy (slots p)"
  proof (cases "l \<in> pool_live p")
    case True
    note r = pool_release_live [OF inv True]
    have p': "p' = snd (pool_release l p)" by (simp add: p'_def pool_released_def)
    have "map healthy ((slots p)[i := (slots p ! i)\<lparr>slot_inflight := n\<rparr>]) = map healthy (slots p)" for i n
      by (cases "i < length (slots p)") (auto intro!: nth_equalityI simp: nth_list_update)
    then show ?thesis
      using r(2) l by (auto simp: p' r(1) pool_live_def map_backend_id_update nth_list_update)
  next
    case False
    then have "lease_released (pool_leases p ! l)" using l by (simp add: pool_live_def)
    then show ?thesis using False inv by (simp add: p'_def pool_released_def pool_release_def Let_def)
  qed
  show "pool_release l p = (Inr (), p')" "pool_inv p'" "pool_live p' = pool_live p - {l}"
    "length (pool_leases p') = length (pool_leases p)"
    "\<And>x. lease_slot (pool_leases p' ! x) = lease_slot (pool_leases p ! x)"
    "\<And>x. weight (pool_leases p' ! x) = weight (pool_leases p ! x)"
    "pool_streams p' = pool_streams p" "active_streams p' = active_streams p"
    "pool_closed p' = pool_closed p" "map backend_id (slots p') = map backend_id (slots p)"
    "map healthy (slots p') = map healthy (slots p)"
    using * by blast+
qed

section \<open>Health\<close>

lemma slot_index_Some:
  "slot_index b sls = Some i \<Longrightarrow> i < length sls \<and> backend_id (sls ! i) = b"
  by (induction b sls arbitrary: i rule: slot_index.induct) (auto split: if_splits)

lemma slot_index_ex: "b \<in> set (map backend_id sls) \<Longrightarrow> \<exists>i. slot_index b sls = Some i"
  by (induction b sls rule: slot_index.induct) auto

lemma slot_index_nth:
  assumes "distinct (map backend_id sls)" and "i < length sls"
  shows "slot_index (backend_id (sls ! i)) sls = Some i"
proof -
  obtain j where j: "slot_index (backend_id (sls ! i)) sls = Some j"
    using slot_index_ex [of "backend_id (sls ! i)" sls] assms(2) by auto
  then have "j < length sls" "backend_id (sls ! j) = backend_id (sls ! i)" by (auto dest: slot_index_Some)
  with assms have "j = i" by (metis length_map nth_eq_iff_index_eq nth_map)
  with j show ?thesis by simp
qed

text \<open>The part of the pool that health does not touch.\<close>

definition same_load :: "pool \<Rightarrow> pool \<Rightarrow> bool" where
  "same_load p p' \<longleftrightarrow> pool_leases p' = pool_leases p \<and> pool_streams p' = pool_streams p \<and>
     active_leases p' = active_leases p \<and> active_streams p' = active_streams p \<and> cursor p' = cursor p \<and>
     pool_closed p' = pool_closed p \<and> length (slots p') = length (slots p) \<and>
     (\<forall>i<length (slots p). backend_id (slots p' ! i) = backend_id (slots p ! i) \<and>
        slot_inflight (slots p' ! i) = slot_inflight (slots p ! i))"

lemma same_load_refl [simp]: "same_load p p"
  by (simp add: same_load_def)

lemma same_load_trans: "same_load p q \<Longrightarrow> same_load q u \<Longrightarrow> same_load p u"
  by (simp add: same_load_def)

lemma same_load_frames [simp]:
  "same_load p (pool_notify q) = same_load p q"
  "same_load p (observe_operation b op oc q) = same_load p q"
  by (simp_all add: same_load_def)

lemma same_load_ids: "same_load p p' \<Longrightarrow> map backend_id (slots p') = map backend_id (slots p)"
  by (auto intro!: nth_equalityI simp: same_load_def)

lemma same_load_live: "same_load p p' \<Longrightarrow> pool_live p' = pool_live p"
  by (simp add: same_load_def pool_live_def)

lemma same_load_inv:
  assumes "same_load p p'" and "pool_inv p"
  shows "pool_inv p'"
proof -
  have "slots p' \<noteq> []" using assms by (auto simp: same_load_def pool_inv_def)
  moreover have "streams_ok p'" using assms by (simp add: same_load_def pool_inv_def streams_ok_def)
  ultimately show ?thesis
    using assms same_load_ids [OF assms(1)] same_load_live [OF assms(1)]
    unfolding pool_inv_def same_load_def by auto
qed

lemma set_health_ok:
  assumes inv: "pool_inv p" and i: "i < length (slots p)"
  obtains p' where "set_health (backend_id (slots p ! i)) h p = (Inr (), p')" and "same_load p p'"
    and "\<And>j. j < length (slots p) \<Longrightarrow> healthy (slots p' ! j) =
        (if j = i \<and> \<not> pool_closed p then Some h else healthy (slots p ! j))"
proof (cases "pool_closed p")
  case True
  then show ?thesis using that [of p] by (simp add: set_health_def)
next
  case False
  let ?p = "pool_notify (p\<lparr>slots := (slots p)[i := (slots p ! i)\<lparr>healthy := Some h\<rparr>]\<rparr>)"
  have "slot_index (backend_id (slots p ! i)) (slots p) = Some i"
    by (rule slot_index_nth [OF pool_invD(2) [OF inv] i])
  then have "set_health (backend_id (slots p ! i)) h p = (Inr (), ?p)" using False by (simp add: set_health_def)
  moreover have "same_load p ?p" using i by (auto simp: same_load_def nth_list_update)
  moreover have "healthy (slots ?p ! j) = (if j = i \<and> \<not> pool_closed p then Some h else healthy (slots p ! j))"
    if "j < length (slots p)" for j
    using that False by (simp add: nth_list_update)
  ultimately show ?thesis using that by blast
qed

section \<open>Operations\<close>

text \<open>
  What ending an operation does to the pool: its lease is given back, its backend is marked
  unhealthy iff the leaf failed with a health-impacting error (and the pool is still open).
\<close>

definition settles :: "nat \<Rightarrow> bool \<Rightarrow> pool \<Rightarrow> pool \<Rightarrow> bool" where
  "settles l bad p p' \<longleftrightarrow> pool_inv p' \<and> pool_live p' = pool_live p - {l} \<and>
     length (pool_leases p') = length (pool_leases p) \<and>
     (\<forall>x. lease_slot (pool_leases p' ! x) = lease_slot (pool_leases p ! x) \<and>
          weight (pool_leases p' ! x) = weight (pool_leases p ! x)) \<and>
     pool_closed p' = pool_closed p \<and> length (slots p') = length (slots p) \<and>
     (\<forall>i<length (slots p). backend_id (slots p' ! i) = backend_id (slots p ! i) \<and>
        healthy (slots p' ! i) =
          (if i = lease_slot (pool_leases p ! l) \<and> bad \<and> \<not> pool_closed p then Some False else healthy (slots p ! i)))"

abbreviation bad_result :: "exn + 'r \<Rightarrow> bool" where
  "bad_result r \<equiv> (case r of Inl e \<Rightarrow> health_impacting e | Inr _ \<Rightarrow> False)"

lemma not_impacting_cancelled [simp]: "\<not> health_impacting CancelledError"
  by (simp add: health_impacting_def is_instance_def)

lemma settles_release:
  assumes load: "same_load p q" and inv: "pool_inv p" and l: "l < length (pool_leases p)"
    and h: "\<And>j. j < length (slots p) \<Longrightarrow> healthy (slots q ! j) =
        (if j = lease_slot (pool_leases p ! l) \<and> bad \<and> \<not> pool_closed p then Some False else healthy (slots p ! j))"
  shows "pool_release l q = (Inr (), pool_released l q)" and "settles l bad p (pool_released l q)"
    and "pool_streams (pool_released l q) = pool_streams p" and "active_streams (pool_released l q) = active_streams p"
proof -
  have inv': "pool_inv q" by (rule same_load_inv [OF load inv])
  have l': "l < length (pool_leases q)" using load l by (simp add: same_load_def)
  note r = pool_release_ok [OF inv' l']
  show "pool_release l q = (Inr (), pool_released l q)" by (rule r(1))
  have len: "length (slots (pool_released l q)) = length (slots p)"
    using arg_cong [OF r(10), of length] load by (simp add: same_load_def)
  have "backend_id (slots (pool_released l q) ! i) = backend_id (slots p ! i) \<and>
      healthy (slots (pool_released l q) ! i) = healthy (slots q ! i)" if "i < length (slots p)" for i
    using that len load arg_cong [OF r(10), of "\<lambda>xs. xs ! i"] arg_cong [OF r(11), of "\<lambda>xs. xs ! i"]
    by (simp add: same_load_def)
  then show "settles l bad p (pool_released l q)"
    using r len load h same_load_live [OF load] by (simp add: settles_def same_load_def)
  show "pool_streams (pool_released l q) = pool_streams p" "active_streams (pool_released l q) = active_streams p"
    using r(7,8) load by (simp_all add: same_load_def)
qed

lemma leaf_handlers_ok:
  assumes inv: "pool_inv p" and l: "l < length (pool_leases p)"
  obtains q where "leaf_handlers op (lease_backend p l) r p = (r, q)" and "same_load p q"
    and "\<And>j. j < length (slots p) \<Longrightarrow> healthy (slots q ! j) =
        (if j = lease_slot (pool_leases p ! l) \<and> bad_result r \<and> \<not> pool_closed p then Some False else healthy (slots p ! j))"
proof -
  have sl: "lease_slot (pool_leases p ! l) < length (slots p)" by (rule pool_invD(4) [OF inv l])
  show thesis
  proof (cases "bad_result r")
    case True
    then obtain e where e: "r = Inl e" "health_impacting e" by (auto split: sum.splits)
    then have nc: "e \<noteq> CancelledError" by auto
    obtain p' where p': "set_health (lease_backend p l) False p = (Inr (), p')" "same_load p p'"
      "\<And>j. j < length (slots p) \<Longrightarrow> healthy (slots p' ! j) =
        (if j = lease_slot (pool_leases p ! l) \<and> \<not> pool_closed p then Some False else healthy (slots p ! j))"
      using set_health_ok [OF inv sl, of False] by blast
    show thesis
      by (rule that [of "observe_operation (lease_backend p l) op Error p'"])
        (use e nc p' in \<open>simp_all add: leaf_handlers_def mark_unhealthy_def\<close>)
  next
    case False
    show thesis
    proof (cases r)
      case (Inl e)
      then show thesis
        using that [of "observe_operation (lease_backend p l) op (if e = CancelledError then Cancelled_op else Error) p"] False
        by (simp add: leaf_handlers_def)
    next
      case (Inr x)
      then show thesis
        using that [of "observe_operation (lease_backend p l) op Success p"] by (simp add: leaf_handlers_def)
    qed
  qed
qed

lemma generate_done_ok:
  assumes inv: "pool_inv p" and l: "l < length (pool_leases p)"
  obtains p' where "generate_done l r p = (r, p')" and "settles l (bad_result r) p p'"
    and "pool_streams p' = pool_streams p" and "active_streams p' = active_streams p"
proof -
  obtain q where q: "leaf_handlers Generate (lease_backend p l) r p = (r, q)" "same_load p q"
    "\<And>j. j < length (slots p) \<Longrightarrow> healthy (slots q ! j) =
        (if j = lease_slot (pool_leases p ! l) \<and> bad_result r \<and> \<not> pool_closed p then Some False else healthy (slots p ! j))"
    using leaf_handlers_ok [OF inv l] by metis
  note s = settles_release [OF q(2) inv l q(3)]
  show thesis by (rule that [OF _ s(2-4)]) (simp add: generate_done_def finally_release_def q(1) s(1))
qed

lemma generate_batch_done_ok:
  assumes inv: "pool_inv p" and l: "l < length (pool_leases p)"
  obtains p' where "generate_batch_done l r p = (r, p')" and "settles l (bad_result r) p p'"
    and "pool_streams p' = pool_streams p" and "active_streams p' = active_streams p"
proof -
  obtain q where q: "leaf_handlers Batch (lease_backend p l) r p = (r, q)" "same_load p q"
    "\<And>j. j < length (slots p) \<Longrightarrow> healthy (slots q ! j) =
        (if j = lease_slot (pool_leases p ! l) \<and> bad_result r \<and> \<not> pool_closed p then Some False else healthy (slots p ! j))"
    using leaf_handlers_ok [OF inv l] by metis
  note s = settles_release [OF q(2) inv l q(3)]
  show thesis by (rule that [OF _ s(2-4)]) (simp add: generate_batch_done_def finally_release_def q(1) s(1))
qed

lemma open_failed_ok:
  assumes inv: "pool_inv p" and l: "l < length (pool_leases p)"
  obtains p' where "open_failed l e p = (Inl e, p')" and "settles l (health_impacting e) p p'"
    and "pool_streams p' = pool_streams p" and "active_streams p' = active_streams p"
proof -
  have sl: "lease_slot (pool_leases p ! l) < length (slots p)" by (rule pool_invD(4) [OF inv l])
  let ?b = "lease_backend p l"
  have "\<exists>q. (if e = CancelledError then (Inr (), observe_operation ?b Stream Cancelled_op p)
         else if health_impacting e
         then and_then (mark_unhealthy ?b p) (\<lambda>_ p1. (Inr (), observe_operation ?b Stream Error p1))
         else (Inr (), observe_operation ?b Stream Error p)) = (Inr () :: exn + unit, q) \<and> same_load p q \<and>
      (\<forall>j<length (slots p). healthy (slots q ! j) =
        (if j = lease_slot (pool_leases p ! l) \<and> health_impacting e \<and> \<not> pool_closed p then Some False else healthy (slots p ! j)))"
  proof (cases "health_impacting e")
    case True
    then have nc: "e \<noteq> CancelledError" by auto
    obtain p' where "set_health ?b False p = (Inr (), p')" "same_load p p'"
      "\<And>j. j < length (slots p) \<Longrightarrow> healthy (slots p' ! j) =
        (if j = lease_slot (pool_leases p ! l) \<and> \<not> pool_closed p then Some False else healthy (slots p ! j))"
      using set_health_ok [OF inv sl, of False] by blast
    with True nc show ?thesis by (simp add: mark_unhealthy_def)
  qed simp
  then obtain q where q: "(if e = CancelledError then (Inr (), observe_operation ?b Stream Cancelled_op p)
         else if health_impacting e
         then and_then (mark_unhealthy ?b p) (\<lambda>_ p1. (Inr (), observe_operation ?b Stream Error p1))
         else (Inr (), observe_operation ?b Stream Error p)) = (Inr () :: exn + unit, q)" "same_load p q"
      "\<And>j. j < length (slots p) \<Longrightarrow> healthy (slots q ! j) =
        (if j = lease_slot (pool_leases p ! l) \<and> health_impacting e \<and> \<not> pool_closed p then Some False else healthy (slots p ! j))"
    by blast
  note s = settles_release [OF q(2) inv l q(3)]
  show thesis by (rule that [OF _ s(2-4)]) (simp add: open_failed_def Let_def q(1) s(1))
qed

section \<open>Streams\<close>

lemma finish_start_ok:
  fixes oc :: backend_outcome
  assumes inv: "pool_inv p" and x: "x < length (pool_streams p)"
  defines "p' \<equiv> finish_start x oc p"
  shows "pool_inv p'" and "pool_live p' = pool_live p" and "pool_leases p' = pool_leases p"
    and "pool_closed p' = pool_closed p" and "slots p' = slots p" and "active_streams p' = active_streams p"
    and "length (pool_streams p') = length (pool_streams p)"
    and "\<And>y. stream_lease (pool_streams p' ! y) = stream_lease (pool_streams p ! y)"
    and "\<And>y. stream_phase (pool_streams p' ! y) =
      (if y = x \<and> stream_phase (pool_streams p ! x) = Open then Closing oc else stream_phase (pool_streams p ! y))"
proof -
  show same: "pool_live p' = pool_live p" "pool_leases p' = pool_leases p" "pool_closed p' = pool_closed p"
    "slots p' = slots p" "active_streams p' = active_streams p"
    "length (pool_streams p') = length (pool_streams p)"
    by (simp_all add: p'_def finish_start_def pool_live_def)
  show ph: "stream_phase (pool_streams p' ! y) =
      (if y = x \<and> stream_phase (pool_streams p ! x) = Open then Closing oc else stream_phase (pool_streams p ! y))"
    and le: "stream_lease (pool_streams p' ! y) = stream_lease (pool_streams p ! y)" for y
    using x by (auto simp: p'_def finish_start_def nth_list_update)
  have "streams_ok p'"
    using pool_invD(8) [OF inv] by (auto simp: streams_ok_def same ph le)
  moreover have "cursor p' = cursor p" "active_leases p' = active_leases p" by (simp_all add: p'_def finish_start_def)
  ultimately show "pool_inv p'" using inv same by (simp add: pool_inv_def)
qed

lemma finish_done_ok:
  assumes inv: "pool_inv p" and x: "x < length (pool_streams p)"
    and ph: "stream_phase (pool_streams p ! x) = Closing oc"
  obtains p' where "finish_done x r p = (r, p')" and "settles (stream_lease (pool_streams p ! x)) False p p'"
    and "pool_streams p' = (pool_streams p)[x := (pool_streams p ! x)\<lparr>stream_phase := Shut\<rparr>]"
    and "active_streams p' = active_streams p - {x}"
proof -
  let ?l = "stream_lease (pool_streams p ! x)"
  have l: "?l < length (pool_leases p)" using pool_invD(8) [OF inv] x by (simp add: streams_ok_def)
  note r = pool_release_ok [OF inv l]
  define q where "q = p\<lparr>pool_streams := (pool_streams p)[x := (pool_streams p ! x)\<lparr>stream_phase := Shut\<rparr>]\<rparr>"
  have same: "pool_release ?l q = (fst (pool_release ?l p), (snd (pool_release ?l p))\<lparr>pool_streams := pool_streams q\<rparr> \<lparr>pool_events := pool_events (snd (pool_release ?l q))\<rparr>)"
    by (auto simp: pool_release_def Let_def q_def pool_notify_def backends_event_def)
  define u where "u = snd (pool_release ?l q)"
  have "fst (pool_release ?l q) = Inr ()" by (subst same) (simp add: r(1))
  then have rel: "pool_release ?l q = (Inr (), u)" unfolding u_def by (metis prod.collapse)
  have u: "slots u = slots (pool_released ?l p)" "cursor u = cursor (pool_released ?l p)"
    "active_leases u = active_leases (pool_released ?l p)" "pool_leases u = pool_leases (pool_released ?l p)"
    "pool_closed u = pool_closed (pool_released ?l p)" "active_streams u = active_streams p"
    "pool_streams u = (pool_streams p)[x := (pool_streams p ! x)\<lparr>stream_phase := Shut\<rparr>]"
    unfolding u_def using r(8) by (subst same; simp add: pool_released_def q_def)+
  define p' where "p' = observe_operation (lease_backend p ?l) Stream (final_outcome oc r) (unregister_stream x u)"
  have fin: "finish_done x r p = (r, p')"
    using rel by (simp add: finish_done_def ph Let_def q_def p'_def)
  have f: "slots p' = slots (pool_released ?l p)" "cursor p' = cursor (pool_released ?l p)"
    "active_leases p' = active_leases (pool_released ?l p)" "pool_leases p' = pool_leases (pool_released ?l p)"
    "pool_closed p' = pool_closed (pool_released ?l p)" "active_streams p' = active_streams p - {x}"
    "pool_streams p' = (pool_streams p)[x := (pool_streams p ! x)\<lparr>stream_phase := Shut\<rparr>]"
    using u by (simp_all add: p'_def unregister_stream_def)
  have "streams_ok p'"
    using pool_invD(8) [OF inv] x r(4) by (auto simp: streams_ok_def f nth_list_update)
  moreover have live: "pool_live p' = pool_live p - {?l}" using r(3) by (simp add: pool_live_def f)
  ultimately have inv': "pool_inv p'" using r(2,3) by (simp add: pool_inv_def f)
  have len: "length (slots p') = length (slots p)" using arg_cong [OF r(10), of length] by (simp add: f)
  have "backend_id (slots p' ! i) = backend_id (slots p ! i) \<and> healthy (slots p' ! i) = healthy (slots p ! i)"
    if "i < length (slots p)" for i
    using that len arg_cong [OF r(10), of "\<lambda>xs. xs ! i"] arg_cong [OF r(11), of "\<lambda>xs. xs ! i"] by (simp add: f)
  with inv' live len r(4,5,6,9) have "settles ?l False p p'" by (simp add: settles_def f)
  then show thesis using that fin f(6,7) by blast
qed

lemma iterate_end_ok:
  assumes inv: "pool_inv p" and x: "x < length (pool_streams p)"
  obtains q oc where "iterate_end x r p = (Inr (), finish_start x oc q)" and "same_load p q"
    and "\<And>j. j < length (slots p) \<Longrightarrow> healthy (slots q ! j) =
        (if j = lease_slot (pool_leases p ! stream_lease (pool_streams p ! x)) \<and> bad_result r \<and> \<not> pool_closed p
         then Some False else healthy (slots p ! j))"
proof -
  let ?l = "stream_lease (pool_streams p ! x)"
  have l: "?l < length (pool_leases p)" using pool_invD(8) [OF inv] x by (simp add: streams_ok_def)
  have sl: "lease_slot (pool_leases p ! ?l) < length (slots p)" by (rule pool_invD(4) [OF inv l])
  show thesis
  proof (cases "bad_result r")
    case True
    then obtain e where e: "r = Inl e" "health_impacting e" by (auto split: sum.splits)
    then have nc: "e \<noteq> CancelledError" by auto
    obtain p' where p': "set_health (lease_backend p ?l) False p = (Inr (), p')" "same_load p p'"
      "\<And>j. j < length (slots p) \<Longrightarrow> healthy (slots p' ! j) =
        (if j = lease_slot (pool_leases p ! ?l) \<and> \<not> pool_closed p then Some False else healthy (slots p ! j))"
      using set_health_ok [OF inv sl, of False] by blast
    then show thesis using that [of Error p'] e nc by (simp add: iterate_end_def mark_unhealthy_def)
  next
    case False
    show thesis
    proof (cases r)
      case (Inl e)
      then show thesis using that [of "if e = CancelledError then Cancelled_op else Error" p] False
        by (auto simp: iterate_end_def)
    next
      case (Inr y)
      then show thesis using that [of Success p] by (simp add: iterate_end_def)
    qed
  qed
qed

lemma open_done_ok:
  assumes inv: "pool_inv p" and l: "l < length (pool_leases p)" and eq: "open_done l p = (b, x, p')"
  shows "pool_inv p'" and "b = (\<not> pool_closed p)" and "x = length (pool_streams p)"
    and "pool_live p' = pool_live p" and "pool_leases p' = pool_leases p" and "pool_closed p' = pool_closed p"
    and "slots p' = slots p"
    and "pool_streams p' = pool_streams p @
      [\<lparr>stream_lease = l, stream_phase = if pool_closed p then Closing Error else Open\<rparr>]"
proof -
  show b: "b = (\<not> pool_closed p)" and x: "x = length (pool_streams p)"
    and "pool_live p' = pool_live p" and lp: "pool_leases p' = pool_leases p" and "pool_closed p' = pool_closed p"
    and "slots p' = slots p"
    and st: "pool_streams p' = pool_streams p @
      [\<lparr>stream_lease = l, stream_phase = if pool_closed p then Closing Error else Open\<rparr>]"
    using eq by (auto simp: open_done_def register_stream_def finish_start_def Let_def pool_live_def
        nth_append split: if_splits)
  have act: "active_streams p' = (if pool_closed p then active_streams p else insert x (active_streams p))"
    and same: "cursor p' = cursor p" "active_leases p' = active_leases p"
    using eq x by (auto simp: open_done_def register_stream_def finish_start_def Let_def split: if_splits)
  have "streams_ok p'"
    using pool_invD(8) [OF inv] l x by (auto simp: streams_ok_def st act lp nth_append less_Suc_eq)
  then show "pool_inv p'"
    using inv same \<open>pool_live p' = pool_live p\<close> lp \<open>slots p' = slots p\<close> by (simp add: pool_inv_def)
qed

section \<open>Closing\<close>

lemma release_all_ok:
  assumes "pool_inv p" and "\<forall>l\<in>set ls. l < length (pool_leases p)"
  obtains p' where "release_all ls p = (Inr (), p')" and "pool_inv p'" and "pool_live p' = pool_live p - set ls"
    and "length (pool_leases p') = length (pool_leases p)" and "pool_streams p' = pool_streams p"
    and "pool_closed p' = pool_closed p"
  using assms
proof (induction ls arbitrary: p thesis)
  case Nil
  then show ?case by simp
next
  case (Cons l ls)
  have l: "l < length (pool_leases p)" using Cons.prems(3) by simp
  note r = pool_release_ok [OF Cons.prems(2) l]
  have "\<forall>x\<in>set ls. x < length (pool_leases (pool_released l p))" using Cons.prems(3) r(4) by simp
  from Cons.IH [OF _ r(2) this] obtain p' where "release_all ls (pool_released l p) = (Inr (), p')" "pool_inv p'"
    "pool_live p' = pool_live (pool_released l p) - set ls"
    "length (pool_leases p') = length (pool_leases (pool_released l p))"
    "pool_streams p' = pool_streams (pool_released l p)" "pool_closed p' = pool_closed (pool_released l p)"
    by metis
  then show ?case using Cons.prems(1) [of p'] r by auto
qed

lemma close_end_ok:
  assumes "pool_inv p"
  shows "pool_inv (close_end p)" and "pool_live (close_end p) = pool_live p"
    and "\<forall>sl\<in>set (slots (close_end p)). healthy sl = Some False"
    and "pool_leases (close_end p) = pool_leases p" and "pool_streams (close_end p) = pool_streams p"
    and "pool_closed (close_end p) = pool_closed p"
    and "map slot_inflight (slots (close_end p)) = map slot_inflight (slots p)"
proof -
  have "same_load p (close_end p)" by (simp add: same_load_def close_end_def)
  then show "pool_inv (close_end p)" "pool_live (close_end p) = pool_live p"
    using same_load_inv same_load_live assms by blast+
  show "\<forall>sl\<in>set (slots (close_end p)). healthy sl = Some False" "pool_leases (close_end p) = pool_leases p"
    "pool_streams (close_end p) = pool_streams p" "pool_closed (close_end p) = pool_closed p"
    "map slot_inflight (slots (close_end p)) = map slot_inflight (slots p)"
    by (auto simp: close_end_def)
qed

end
