(* ===== verification/Gw_Pool_Sys.thy ===== *)
theory Gw_Pool_Sys
  imports Gw_Pool_Inv
begin

text \<open>
  Concurrent operations on one routing pool. Each operation suspends in the call of its leaf
  backend and resumes with an arbitrary outcome; streams are iterated and closed by their callers
  and by \<open>close\<close>; probes finish at any time; \<open>close\<close> is a sequence of sections separated by awaits.
  Each lease has exactly one owner: the operation that awaits its leaf call, or the routed stream.
\<close>

section \<open>Steps\<close>

datatype op_pc = Awaiting backend_operation nat | Ended

datatype close_pc = Serving | Closing_streams "nat list" "nat list" | Closing_slots | Closed

record pool_sys =
  pl :: pool
  ops :: "op_pc list"
  closing :: close_pc

abbreviation end_op :: "nat \<Rightarrow> pool \<Rightarrow> pool_sys \<Rightarrow> pool_sys" where
  "end_op k p y \<equiv> y\<lparr>pl := p, ops := (ops y)[k := Ended]\<rparr>"

inductive pool_step :: "pool_sys \<Rightarrow> pool_sys \<Rightarrow> bool" where
  begin_generate: "select 1 (pl y) = (Inr l, p) \<Longrightarrow>
    pool_step y (y\<lparr>pl := p, ops := ops y @ [Awaiting Generate l]\<rparr>)"
| begin_stream: "select 1 (pl y) = (Inr l, p) \<Longrightarrow>
    pool_step y (y\<lparr>pl := p, ops := ops y @ [Awaiting Stream l]\<rparr>)"
| begin_batch: "generate_batch_start n (pl y) = (Inr l, p) \<Longrightarrow>
    pool_step y (y\<lparr>pl := p, ops := ops y @ [Awaiting Batch l]\<rparr>)"
| generated: "k < length (ops y) \<Longrightarrow> ops y ! k = Awaiting Generate l \<Longrightarrow>
    pool_step y (end_op k (snd (generate_done l (r :: exn + unit) (pl y))) y)"
| batched: "k < length (ops y) \<Longrightarrow> ops y ! k = Awaiting Batch l \<Longrightarrow>
    pool_step y (end_op k (snd (generate_batch_done l (r :: exn + unit) (pl y))) y)"
| not_opened: "k < length (ops y) \<Longrightarrow> ops y ! k = Awaiting Stream l \<Longrightarrow>
    pool_step y (end_op k (snd (open_failed l e (pl y))) y)"
| opened: "k < length (ops y) \<Longrightarrow> ops y ! k = Awaiting Stream l \<Longrightarrow>
    open_done l (pl y) = (b, x, p) \<Longrightarrow> pool_step y (end_op k p y)"
| iterated: "x < length (pool_streams (pl y)) \<Longrightarrow>
    pool_step y (y\<lparr>pl := snd (iterate_end x r (pl y))\<rparr>)"
| aclose: "x < length (pool_streams (pl y)) \<Longrightarrow>
    pool_step y (y\<lparr>pl := finish_start x Cancelled_op (pl y)\<rparr>)"
| finished: "x < length (pool_streams (pl y)) \<Longrightarrow>
    pool_step y (y\<lparr>pl := snd (finish_done x r (pl y))\<rparr>)"
| probed: "i < length (slots (pl y)) \<Longrightarrow> pool_step y (y\<lparr>pl := snd (probe_done i r (pl y))\<rparr>)"
| started: "pool_step y (y\<lparr>pl := snd (pool_start (pl y))\<rparr>)"
| loop_started: "pool_step y (y\<lparr>pl := pool_start_loop (pl y)\<rparr>)"
| pool_observed: "pool_step y (y\<lparr>pl := pool_set_observer b (pl y)\<rparr>)"
| close_begins: "close_start (pl y) = (Some (ls, xs), p) \<Longrightarrow>
    pool_step y (y\<lparr>pl := p, closing := Closing_streams ls xs\<rparr>)"
| close_releases: "closing y = Closing_streams ls xs \<Longrightarrow>
    \<forall>x\<in>set xs. stream_phase (pool_streams (pl y) ! x) = Shut \<Longrightarrow>
    pool_step y (y\<lparr>pl := snd (release_all ls (pl y)), closing := Closing_slots\<rparr>)"
| close_ends: "closing y = Closing_slots \<Longrightarrow> pool_step y (y\<lparr>pl := close_end (pl y), closing := Closed\<rparr>)"

definition pool_init :: "pool_sys \<Rightarrow> bool" where
  "pool_init y \<longleftrightarrow> ops y = [] \<and> closing y = Serving \<and>
     (\<exists>backends interval timeout obs. BackendPool backends interval timeout obs = Inr (pl y))"

section \<open>Ownership\<close>

datatype owner = Op_owner nat | Stream_owner nat

fun own_of :: "op_pc list \<Rightarrow> routed_stream list \<Rightarrow> owner \<Rightarrow> nat option" where
  "own_of os xs (Op_owner k) = (if k < length os then (case os ! k of Awaiting _ l \<Rightarrow> Some l | Ended \<Rightarrow> None) else None)"
| "own_of os xs (Stream_owner x) =
     (if x < length xs \<and> stream_phase (xs ! x) \<noteq> Shut then Some (stream_lease (xs ! x)) else None)"

definition owned :: "(owner \<Rightarrow> nat option) \<Rightarrow> nat set \<Rightarrow> nat \<Rightarrow> bool \<Rightarrow> bool" where
  "owned own live n cl \<longleftrightarrow> (\<forall>o1 l. own o1 = Some l \<longrightarrow> l < n) \<and>
     (\<forall>o1 o2 l. own o1 = Some l \<longrightarrow> own o2 = Some l \<longrightarrow> o1 = o2) \<and>
     (\<forall>l\<in>live. l < n \<and> (\<exists>o1. own o1 = Some l)) \<and>
     (\<not> cl \<longrightarrow> (\<forall>o1 l. own o1 = Some l \<longrightarrow> l \<in> live))"

lemma ownedD:
  assumes "owned own live n cl"
  shows "\<And>o1 l. own o1 = Some l \<Longrightarrow> l < n"
    and "\<And>o1 o2 l. own o1 = Some l \<Longrightarrow> own o2 = Some l \<Longrightarrow> o1 = o2"
    and "\<And>l. l \<in> live \<Longrightarrow> l < n" and "\<And>l. l \<in> live \<Longrightarrow> \<exists>o1. own o1 = Some l"
    and "\<And>o1 l. \<not> cl \<Longrightarrow> own o1 = Some l \<Longrightarrow> l \<in> live"
  using assms unfolding owned_def by blast+

lemma ownedI:
  assumes "\<And>o1 l. own o1 = Some l \<Longrightarrow> l < n"
    and "\<And>o1 o2 l. own o1 = Some l \<Longrightarrow> own o2 = Some l \<Longrightarrow> o1 = o2"
    and "\<And>l. l \<in> live \<Longrightarrow> l < n" and "\<And>l. l \<in> live \<Longrightarrow> \<exists>o1. own o1 = Some l"
    and "\<And>o1 l. \<not> cl \<Longrightarrow> own o1 = Some l \<Longrightarrow> l \<in> live"
  shows "owned own live n cl"
  using assms unfolding owned_def by blast

lemma owned_new:
  assumes o: "owned own live n cl" and free: "own o1 = None"
  shows "owned (own(o1 \<mapsto> n)) (insert n live) (Suc n) cl"
proof (rule ownedI)
  note D = ownedD [OF o]
  show "l < Suc n" if "(own(o1 \<mapsto> n)) x = Some l" for x l
    using that D(1) [of x l] by (auto split: if_splits)
  show "x = y" if "(own(o1 \<mapsto> n)) x = Some l" "(own(o1 \<mapsto> n)) y = Some l" for x y l
    using that D(1) [of x l] D(1) [of y l] D(2) [of x l y] by (auto split: if_splits)
  show "l < Suc n" if "l \<in> insert n live" for l using that D(3) [of l] by auto
  show "\<exists>x. (own(o1 \<mapsto> n)) x = Some l" if l: "l \<in> insert n live" for l
  proof (cases "l = n")
    case False
    then obtain x where "own x = Some l" using D(4) l by blast
    then show ?thesis using free by (intro exI [of _ x]) auto
  qed auto
  show "l \<in> insert n live" if "\<not> cl" "(own(o1 \<mapsto> n)) x = Some l" for x l
    using that D(5) [of x l] by (auto split: if_splits)
qed

lemma owned_end:
  assumes o: "owned own live n cl" and own: "own o1 = Some l"
  shows "owned (own(o1 := None)) (live - {l}) n cl"
proof (rule ownedI)
  note D = ownedD [OF o]
  show "x < n" if "(own(o1 := None)) y = Some x" for x y using that D(1) by (auto split: if_splits)
  show "x = y" if "(own(o1 := None)) x = Some k" "(own(o1 := None)) y = Some k" for x y k
    using that D(2) [of x k y] by (auto split: if_splits)
  show "x < n" if "x \<in> live - {l}" for x using that D(3) by auto
  show "\<exists>y. (own(o1 := None)) y = Some x" if x: "x \<in> live - {l}" for x
  proof -
    obtain y where "own y = Some x" using D(4) x by blast
    then show ?thesis using own x by (intro exI [of _ y]) auto
  qed
  show "x \<in> live - {l}" if "\<not> cl" "(own(o1 := None)) y = Some x" for x y
  proof -
    have "y \<noteq> o1" "own y = Some x" using that(2) by (auto split: if_splits)
    then show ?thesis using D(5) [OF that(1)] D(2) own by blast
  qed
qed

lemma owned_move:
  assumes o: "owned own live n cl" and own: "own o1 = Some l" and free: "own o2 = None"
  shows "owned (own(o1 := None, o2 \<mapsto> l)) live n cl"
proof (rule ownedI)
  note D = ownedD [OF o]
  show "x < n" if "(own(o1 := None, o2 \<mapsto> l)) y = Some x" for x y
    using that D(1) own by (auto split: if_splits)
  show "x = y" if "(own(o1 := None, o2 \<mapsto> l)) x = Some k" "(own(o1 := None, o2 \<mapsto> l)) y = Some k" for x y k
  proof -
    have "x = o2 \<and> k = l \<or> x \<noteq> o1 \<and> own x = Some k" "y = o2 \<and> k = l \<or> y \<noteq> o1 \<and> own y = Some k"
      using that by (auto split: if_splits)
    then show ?thesis using D(2) own by metis
  qed
  show "x < n" if "x \<in> live" for x using that D(3) by auto
  show "\<exists>y. (own(o1 := None, o2 \<mapsto> l)) y = Some x" if x: "x \<in> live" for x
  proof (cases "x = l")
    case False
    obtain y where "own y = Some x" using D(4) x by blast
    then show ?thesis using own free False by (intro exI [of _ y]) auto
  qed auto
  show "x \<in> live" if "\<not> cl" "(own(o1 := None, o2 \<mapsto> l)) y = Some x" for x y
    using that D(5) own by (auto split: if_splits)
qed

lemma owned_close: "owned own live n cl \<Longrightarrow> owned own (live - L) n True"
  unfolding owned_def by auto

lemma own_append: "own_of (os @ [Awaiting op l]) xs = (own_of os xs)(Op_owner (length os) \<mapsto> l)"
proof
  show "own_of (os @ [Awaiting op l]) xs o1 = ((own_of os xs)(Op_owner (length os) \<mapsto> l)) o1" for o1
    by (cases o1) (auto simp: nth_append less_Suc_eq)
qed

lemma own_ended: "k < length os \<Longrightarrow> own_of (os[k := Ended]) xs = (own_of os xs)(Op_owner k := None)"
proof
  show "k < length os \<Longrightarrow> own_of (os[k := Ended]) xs o1 = ((own_of os xs)(Op_owner k := None)) o1" for o1
    by (cases o1) (auto simp: nth_list_update)
qed

lemma own_opened:
  assumes "stream_phase st \<noteq> Shut"
  shows "own_of os (xs @ [st]) = (own_of os xs)(Stream_owner (length xs) \<mapsto> stream_lease st)"
proof
  show "own_of os (xs @ [st]) o1 = ((own_of os xs)(Stream_owner (length xs) \<mapsto> stream_lease st)) o1" for o1
    using assms by (cases o1) (auto simp: nth_append less_Suc_eq)
qed

lemma own_shut: "x < length xs \<Longrightarrow> own_of os (xs[x := (xs ! x)\<lparr>stream_phase := Shut\<rparr>]) = (own_of os xs)(Stream_owner x := None)"
proof
  show "x < length xs \<Longrightarrow> own_of os (xs[x := (xs ! x)\<lparr>stream_phase := Shut\<rparr>]) o1 = ((own_of os xs)(Stream_owner x := None)) o1" for o1
    by (cases o1) (auto simp: nth_list_update)
qed

lemma own_cong:
  assumes "length ys = length xs" and "\<And>x. stream_lease (ys ! x) = stream_lease (xs ! x)"
    and "\<And>x. (stream_phase (ys ! x) = Shut) = (stream_phase (xs ! x) = Shut)"
  shows "own_of os ys = own_of os xs"
proof
  show "own_of os ys o1 = own_of os xs o1" for o1 using assms by (cases o1) auto
qed

section \<open>The invariant\<close>

fun closing_ok :: "close_pc \<Rightarrow> pool \<Rightarrow> bool" where
  "closing_ok Serving p = (\<not> pool_closed p)"
| "closing_ok (Closing_streams ls xs) p =
     (pool_closed p \<and> pool_live p \<subseteq> set ls \<and> (\<forall>l\<in>set ls. l < length (pool_leases p)))"
| "closing_ok Closing_slots p = (pool_closed p \<and> pool_live p = {})"
| "closing_ok Closed p = (pool_closed p \<and> pool_live p = {} \<and> (\<forall>i<length (slots p). healthy (slots p ! i) = Some False))"

definition psys_inv :: "pool_sys \<Rightarrow> bool" where
  "psys_inv y \<longleftrightarrow> pool_inv (pl y) \<and> closing_ok (closing y) (pl y) \<and>
     owned (own_of (ops y) (pool_streams (pl y))) (pool_live (pl y)) (length (pool_leases (pl y))) (pool_closed (pl y))"

lemma closing_closed: "closing_ok c p \<Longrightarrow> pool_closed p = (c \<noteq> Serving)"
  by (cases c) auto

text \<open>A change that leaves the load, the streams and, once closed, the health as they are.\<close>

lemma psys_same:
  assumes inv: "psys_inv y" and load: "same_load (pl y) p"
    and h: "pool_closed (pl y) \<Longrightarrow> map healthy (slots p) = map healthy (slots (pl y))"
  shows "psys_inv (y\<lparr>pl := p\<rparr>)"
proof -
  have live: "pool_live p = pool_live (pl y)" by (rule same_load_live [OF load])
  have "healthy (slots p ! i) = healthy (slots (pl y) ! i)" if "pool_closed (pl y)" "i < length (slots p)" for i
    using arg_cong [OF h [OF that(1)], of "\<lambda>xs. xs ! i"] that(2) load by (simp add: same_load_def)
  then have "closing_ok (closing y) p"
    using inv load live by (cases "closing y") (auto simp: psys_inv_def same_load_def)
  then show ?thesis
    using inv load live same_load_inv [OF load] by (simp add: psys_inv_def same_load_def)
qed

lemma psys_ended:
  assumes inv: "psys_inv y" and k: "k < length (ops y)" "ops y ! k = Awaiting op l"
    and s: "settles l bad (pl y) p" "pool_streams p = pool_streams (pl y)"
  shows "psys_inv (end_op k p y)"
proof -
  have own: "own_of (ops y) (pool_streams (pl y)) (Op_owner k) = Some l" using k by simp
  have "closing_ok (closing y) p"
    using inv s(1) by (cases "closing y") (auto simp: psys_inv_def settles_def)
  then show ?thesis
    using inv s owned_end [where own = "own_of (ops y) (pool_streams (pl y))", OF _ own]
    by (simp add: psys_inv_def settles_def own_ended [OF k(1)])
qed

lemma lease_in_range:
  assumes "psys_inv y" and "k < length (ops y)" and "ops y ! k = Awaiting op l"
  shows "l < length (pool_leases (pl y))"
proof -
  have "own_of (ops y) (pool_streams (pl y)) (Op_owner k) = Some l" using assms by simp
  then show ?thesis using assms(1) unfolding psys_inv_def owned_def by blast
qed

lemma psys_begun:
  assumes inv: "psys_inv y" and sel: "select w (pl y) = (Inr l, p)"
  shows "psys_inv (y\<lparr>pl := p, ops := ops y @ [Awaiting op l]\<rparr>)"
proof -
  have pi: "pool_inv (pl y)" and ne: "slots (pl y) \<noteq> []" using inv by (simp_all add: psys_inv_def pool_inv_def)
  from sel obtain i where i: "0 < w" "\<not> pool_closed (pl y)" "least_loaded (pl y) i"
    "l = length (pool_leases (pl y))" "p = assign_slot i w (pl y)"
    by (cases rule: select_cases [OF ne, where w = w]) auto
  have "pool_inv p" unfolding i(5) using i(1,3) by (intro pool_inv_assign [OF pi]) (auto simp: least_loaded_def)
  moreover have "pool_live p = insert l (pool_live (pl y))"
    by (auto simp: i(4,5) pool_live_def nth_append less_Suc_eq)
  moreover have "closing y = Serving" using inv i(2) closing_closed by (auto simp: psys_inv_def)
  moreover have "owned ((own_of (ops y) (pool_streams (pl y)))(Op_owner (length (ops y)) \<mapsto> l))
      (insert l (pool_live (pl y))) (Suc l) (pool_closed (pl y))"
    using inv unfolding i(4) by (intro owned_new) (simp_all add: psys_inv_def)
  ultimately show ?thesis using i(2,4,5) by (simp add: psys_inv_def own_append)
qed

lemma psys_phase:
  assumes inv: "psys_inv y" and x: "x < length (pool_streams (pl y))" and load: "same_load (pl y) q"
    and h: "pool_closed (pl y) \<Longrightarrow> map healthy (slots q) = map healthy (slots (pl y))"
  shows "psys_inv (y\<lparr>pl := finish_start x oc q\<rparr>)"
proof -
  have inv1: "psys_inv (y\<lparr>pl := q\<rparr>)" by (rule psys_same [OF inv load h])
  have x': "x < length (pool_streams q)" using x load by (simp add: same_load_def)
  have "pool_inv q" using inv1 by (simp add: psys_inv_def)
  note f = finish_start_ok [OF this x', of oc]
  have "own_of (ops y) (pool_streams (finish_start x oc q)) = own_of (ops y) (pool_streams q)"
    by (rule own_cong) (simp_all add: f(7,8,9))
  moreover have "closing_ok (closing y) (finish_start x oc q) = closing_ok (closing y) q"
    by (cases "closing y") (simp_all add: f(2-5))
  ultimately show ?thesis using inv1 f by (simp add: psys_inv_def)
qed

lemma psys_finished:
  assumes inv: "psys_inv y" and x: "x < length (pool_streams (pl y))"
  shows "psys_inv (y\<lparr>pl := snd (finish_done x r (pl y))\<rparr>)"
proof (cases "stream_phase (pool_streams (pl y) ! x)")
  case (Closing oc)
  have pi: "pool_inv (pl y)" using inv by (simp add: psys_inv_def)
  let ?l = "stream_lease (pool_streams (pl y) ! x)"
  obtain p where p: "finish_done x r (pl y) = (r, p)" "settles ?l False (pl y) p"
    "pool_streams p = (pool_streams (pl y))[x := (pool_streams (pl y) ! x)\<lparr>stream_phase := Shut\<rparr>]"
    using finish_done_ok [OF pi x Closing] by blast
  have own: "own_of (ops y) (pool_streams (pl y)) (Stream_owner x) = Some ?l" using x Closing by simp
  have "closing_ok (closing y) p"
    using inv p(2) by (cases "closing y") (auto simp: psys_inv_def settles_def)
  then show ?thesis
    using inv p owned_end [where own = "own_of (ops y) (pool_streams (pl y))", OF _ own]
    by (simp add: psys_inv_def settles_def own_shut [OF x])
qed (use inv in \<open>simp_all add: finish_done_def\<close>)

lemma psys_opened:
  assumes inv: "psys_inv y" and k: "k < length (ops y)" "ops y ! k = Awaiting op l"
    and eq: "open_done l (pl y) = (b, x, p)"
  shows "psys_inv (end_op k p y)"
proof -
  have pi: "pool_inv (pl y)" using inv by (simp add: psys_inv_def)
  note d = open_done_ok [OF pi lease_in_range [OF inv k] eq]
  let ?own = "own_of (ops y) (pool_streams (pl y))" and ?n = "length (pool_streams (pl y))"
  have "own_of ((ops y)[k := Ended]) (pool_streams p) = ?own(Op_owner k := None, Stream_owner ?n \<mapsto> l)"
    by (simp add: d(8) own_opened own_ended [OF k(1)] fun_upd_twist)
  moreover have "owned (?own(Op_owner k := None, Stream_owner ?n \<mapsto> l)) (pool_live (pl y))
      (length (pool_leases (pl y))) (pool_closed (pl y))"
    using inv k by (intro owned_move) (simp_all add: psys_inv_def)
  moreover have "closing_ok (closing y) p" using inv d by (cases "closing y") (simp_all add: psys_inv_def)
  ultimately show ?thesis using d by (simp add: psys_inv_def)
qed

lemma psys_close_begins:
  assumes inv: "psys_inv y" and eq: "close_start (pl y) = (Some (ls, xs), p)"
  shows "psys_inv (y\<lparr>pl := p, closing := Closing_streams ls xs\<rparr>)"
proof -
  have pi: "pool_inv (pl y)" using inv by (simp add: psys_inv_def)
  have e: "ls = filter (\<lambda>l. l \<in> active_leases (pl y)) [0..<length (pool_leases (pl y))]"
    "p = (pl y)\<lparr>pool_closed := True, stop_event := True\<rparr>"
    using eq by (auto simp: close_start_def split: if_splits)
  have "pool_live p \<subseteq> set ls \<and> (\<forall>l\<in>set ls. l < length (pool_leases p))"
    using pool_invD(7) [OF pi] by (auto simp: e pool_live_def)
  moreover have "pool_live p = pool_live (pl y)" by (simp add: e(2) pool_live_def)
  moreover have "owned (own_of (ops y) (pool_streams (pl y))) (pool_live (pl y)) (length (pool_leases (pl y))) True"
    using inv owned_close [where L = "{}"] unfolding psys_inv_def by fastforce
  ultimately show ?thesis using pi by (simp add: psys_inv_def e(2))
qed

lemma psys_inv_step: "psys_inv y \<Longrightarrow> pool_step y z \<Longrightarrow> psys_inv z"
proof -
  assume inv: "psys_inv y"
  then have pi: "pool_inv (pl y)" by (simp add: psys_inv_def)
  assume "pool_step y z"
  then show ?thesis
  proof cases
    case (begin_generate l p)
    then show ?thesis using psys_begun [OF inv] by simp
  next
    case (begin_stream l p)
    then show ?thesis using psys_begun [OF inv] by simp
  next
    case (begin_batch n l p)
    then have "select (int n) (pl y) = (Inr l, p)" by (simp add: generate_batch_start_def split: if_splits)
    then show ?thesis using psys_begun [OF inv] begin_batch(1) by simp
  next
    case (generated k l r)
    obtain p where "generate_done l r (pl y) = (r, p)" "settles l (bad_result r) (pl y) p"
      "pool_streams p = pool_streams (pl y)"
      using generate_done_ok [OF pi lease_in_range [OF inv generated(2,3)]] by metis
    then show ?thesis using psys_ended [OF inv generated(2,3)] generated(1) by simp
  next
    case (batched k l r)
    obtain p where "generate_batch_done l r (pl y) = (r, p)" "settles l (bad_result r) (pl y) p"
      "pool_streams p = pool_streams (pl y)"
      using generate_batch_done_ok [OF pi lease_in_range [OF inv batched(2,3)]] by metis
    then show ?thesis using psys_ended [OF inv batched(2,3)] batched(1) by simp
  next
    case (not_opened k l e)
    obtain p where "open_failed l e (pl y) = (Inl e, p)" "settles l (health_impacting e) (pl y) p"
      "pool_streams p = pool_streams (pl y)"
      using open_failed_ok [OF pi lease_in_range [OF inv not_opened(2,3)]] by metis
    then show ?thesis using psys_ended [OF inv not_opened(2,3)] not_opened(1) by simp
  next
    case (opened k l b x p)
    then show ?thesis using psys_opened [OF inv opened(2,3,4)] by simp
  next
    case (iterated x r)
    obtain q oc where q: "iterate_end x r (pl y) = (Inr (), finish_start x oc q)" "same_load (pl y) q"
      "\<And>j. j < length (slots (pl y)) \<Longrightarrow> healthy (slots q ! j) =
        (if j = lease_slot (pool_leases (pl y) ! stream_lease (pool_streams (pl y) ! x)) \<and> bad_result r \<and> \<not> pool_closed (pl y)
         then Some False else healthy (slots (pl y) ! j))"
      using iterate_end_ok [OF pi iterated(2)] by metis
    have "map healthy (slots q) = map healthy (slots (pl y))" if "pool_closed (pl y)"
      using q(2,3) that by (auto intro!: nth_equalityI simp: same_load_def)
    then show ?thesis using psys_phase [OF inv iterated(2) q(2)] iterated(1) q(1) by simp
  next
    case (aclose x)
    then show ?thesis using psys_phase [OF inv aclose(2), of "pl y"] by simp
  next
    case (finished x r)
    then show ?thesis using psys_finished [OF inv finished(2)] by simp
  next
    case (probed i r)
    obtain p where p: "set_health (backend_id (slots (pl y) ! i)) (probe_outcome r) (pl y) = (Inr (), p)" "same_load (pl y) p"
      "\<And>j. j < length (slots (pl y)) \<Longrightarrow> healthy (slots p ! j) =
        (if j = i \<and> \<not> pool_closed (pl y) then Some (probe_outcome r) else healthy (slots (pl y) ! j))"
      using set_health_ok [OF pi probed(2)] by metis
    have "map healthy (slots p) = map healthy (slots (pl y))" if "pool_closed (pl y)"
      using p(2,3) that by (auto intro!: nth_equalityI simp: same_load_def)
    then have "psys_inv (y\<lparr>pl := p\<rparr>)" by (rule psys_same [OF inv p(2)])
    then show ?thesis using probed(1) p(1) inv by (simp add: probe_done_def)
  next
    case started
    have "same_load (pl y) (snd (pool_start (pl y)))" "map healthy (slots (snd (pool_start (pl y)))) = map healthy (slots (pl y))"
      by (simp_all add: pool_start_def same_load_def)
    then show ?thesis using psys_same [OF inv] started by simp
  next
    case loop_started
    have "same_load (pl y) (pool_start_loop (pl y))" "map healthy (slots (pool_start_loop (pl y))) = map healthy (slots (pl y))"
      by (simp_all add: pool_start_loop_def same_load_def)
    then show ?thesis using psys_same [OF inv] loop_started by simp
  next
    case (pool_observed b)
    have "same_load (pl y) (pool_set_observer b (pl y))" "map healthy (slots (pool_set_observer b (pl y))) = map healthy (slots (pl y))"
      by (simp_all add: pool_set_observer_def same_load_def)
    then show ?thesis using psys_same [OF inv] pool_observed by simp
  next
    case (close_begins ls xs p)
    then show ?thesis using psys_close_begins [OF inv close_begins(2)] by simp
  next
    case (close_releases ls xs)
    have c: "closing_ok (Closing_streams ls xs) (pl y)" using inv close_releases(2) by (simp add: psys_inv_def)
    then obtain p where p: "release_all ls (pl y) = (Inr (), p)" "pool_inv p" "pool_live p = pool_live (pl y) - set ls"
      "length (pool_leases p) = length (pool_leases (pl y))" "pool_streams p = pool_streams (pl y)"
      "pool_closed p = pool_closed (pl y)"
      using release_all_ok [OF pi, of ls] by auto
    have "pool_live p = {}" using c p(3) by auto
    moreover have "owned (own_of (ops y) (pool_streams (pl y))) (pool_live (pl y) - set ls) (length (pool_leases (pl y))) True"
      using inv owned_close unfolding psys_inv_def by blast
    ultimately show ?thesis using p c close_releases(1) by (simp add: psys_inv_def)
  next
    case close_ends
    note e = close_end_ok [OF pi]
    have c: "closing_ok Closing_slots (pl y)" using inv close_ends(2) by (simp add: psys_inv_def)
    then show ?thesis using e close_ends(1) inv by (simp add: psys_inv_def)
  qed
qed

lemma psys_inv_init: "pool_init y \<Longrightarrow> psys_inv y"
proof -
  assume "pool_init y"
  then obtain backends interval timeout obs where y: "ops y = []" "closing y = Serving"
    "BackendPool backends interval timeout obs = Inr (pl y)"
    unfolding pool_init_def by blast
  note b = BackendPool_ok [OF y(3)]
  have "owned (own_of [] []) (pool_live (pl y)) 0 False"
  proof (rule ownedI)
    show "l < 0" if "own_of [] [] o1 = Some l" for o1 l using that by (cases o1) auto
    show "o1 = o2" if "own_of [] [] o1 = Some l" for o1 o2 l using that by (cases o1) auto
    show "l \<in> pool_live (pl y)" if "own_of [] [] o1 = Some l" for o1 l using that by (cases o1) auto
  qed (simp_all add: pool_live_def b(3))
  then show ?thesis using b y by (simp add: psys_inv_def)
qed

interpretation pool_system: inv_system pool_init pool_step psys_inv
  by unfold_locales (auto intro: psys_inv_init psys_inv_step)

abbreviation pool_reachable :: "pool_sys \<Rightarrow> bool" where
  "pool_reachable y \<equiv> \<exists>y0. pool_init y0 \<and> pool_step\<^sup>*\<^sup>* y0 y"

lemma reachable_psys_inv: "pool_reachable y \<Longrightarrow> psys_inv y"
  using pool_system.reachable_inv by blast

section \<open>The lease ledger\<close>

definition total_inflight :: "pool \<Rightarrow> int" where
  "total_inflight p = (\<Sum>sl\<leftarrow>slots p. slot_inflight sl)"

definition pool_release_once :: "nat \<Rightarrow> pool \<Rightarrow> pool" where
  "pool_release_once l p = (if l < length (pool_leases p) then snd (pool_release l p) else p)"

interpretation pool_ledger: lease_ledger pool_inv pool_live
    "\<lambda>p l. if l < length (pool_leases p) then weight (pool_leases p ! l) else 0" total_inflight pool_release_once
proof unfold_locales
  fix p l
  assume inv: "pool_inv p"
  show "finite (pool_live p)" by (simp add: pool_live_def)
  have "pool_inv (pool_release_once l p) \<and> pool_live (pool_release_once l p) = pool_live p - {l} \<and>
     total_inflight (pool_release_once l p) = total_inflight p -
       (if l \<in> pool_live p then if l < length (pool_leases p) then weight (pool_leases p ! l) else 0 else 0) \<and>
     (\<lambda>la. if la < length (pool_leases (pool_release_once l p)) then weight (pool_leases (pool_release_once l p) ! la) else 0) =
       (\<lambda>l. if l < length (pool_leases p) then weight (pool_leases p ! l) else 0)"
  proof (cases "l < length (pool_leases p)")
    case True
    note r = pool_release_ok [OF inv True]
    have eq: "pool_release_once l p = pool_released l p" using True by (simp add: pool_release_once_def pool_released_def)
    have "total_inflight (pool_released l p) = total_inflight p - (if l \<in> pool_live p then weight (pool_leases p ! l) else 0)"
    proof (cases "l \<in> pool_live p")
      case live: True
      have sl: "lease_slot (pool_leases p ! l) < length (slots p)" by (rule pool_invD(4) [OF inv True])
      show ?thesis
        using live sum_list_update_int [OF sl, of slot_inflight]
        by (simp add: pool_released_def pool_release_live(1) [OF inv live] total_inflight_def)
    next
      case dead: False
      then show ?thesis using True by (simp add: pool_released_def pool_release_def Let_def pool_live_def)
    qed
    then show ?thesis using r(2,3,4,6) True by (simp add: eq fun_eq_iff)
  next
    case False
    then show ?thesis using inv by (auto simp: pool_release_once_def pool_live_def)
  qed
  then show "pool_inv (pool_release_once l p)" "pool_live (pool_release_once l p) = pool_live p - {l}"
    "total_inflight (pool_release_once l p) = total_inflight p -
       (if l \<in> pool_live p then if l < length (pool_leases p) then weight (pool_leases p ! l) else 0 else 0)"
    "(\<lambda>la. if la < length (pool_leases (pool_release_once l p)) then weight (pool_leases (pool_release_once l p) ! la) else 0) =
       (\<lambda>l. if l < length (pool_leases p) then weight (pool_leases p ! l) else 0)"
    by blast+
qed

end
