(* ===== verification/Gw_Pool_Claims.thy ===== *)
theory Gw_Pool_Claims
  imports Gw_Pool_Sys
begin

text \<open>
  What the routing pool guarantees. The witness is a pool of two healthy backends, of which the
  first serves one request.
\<close>

section \<open>A run\<close>

definition example_pool0 :: pool_sys where
  "example_pool0 = \<lparr>pl = (case BackendPool [''x'', ''y''] 1 1 True of Inr p \<Rightarrow> p | Inl _ \<Rightarrow> undefined),
     ops = [], closing = Serving\<rparr>"

definition example_pool1 :: pool_sys where
  "example_pool1 = example_pool0\<lparr>pl := snd (probe_done 1 (Inr True) (snd (probe_done 0 (Inr True) (pl example_pool0))))\<rparr>"

definition example_pool2 :: pool_sys where
  "example_pool2 = example_pool1\<lparr>pl := snd (select 1 (pl example_pool1)), ops := [Awaiting Generate 0]\<rparr>"

definition example_pool3 :: pool_sys where
  "example_pool3 = end_op 0 (snd (generate_done 0 (Inl (raised BackendTimeoutError) :: exn + unit) (pl example_pool2))) example_pool2"

definition example_pool4 :: pool_sys where
  "example_pool4 = (let p1 = snd (close_start (pl example_pool3))
     in example_pool3\<lparr>pl := close_end (snd (release_all [] p1)), closing := Closed\<rparr>)"

lemma example_pool0_init: "pool_init example_pool0"
proof -
  have b: "py_strip ''x'' \<noteq> []" "py_strip ''y'' \<noteq> []" by code_simp+
  have "BackendPool [''x'', ''y''] 1 1 True = Inr (pl example_pool0)"
    using b by (simp add: example_pool0_def BackendPool_def)
  then have "\<exists>backends interval timeout obs. BackendPool backends interval timeout obs = Inr (pl example_pool0)" by blast
  then show ?thesis by (simp add: pool_init_def example_pool0_def)
qed

lemma example_pool1_reachable: "pool_reachable example_pool1"
proof -
  have l: "0 < length (slots (pl example_pool0))" by code_simp
  let ?y = "example_pool0\<lparr>pl := snd (probe_done 0 (Inr True) (pl example_pool0))\<rparr>"
  have l': "1 < length (slots (pl ?y))" by code_simp
  have "pool_step example_pool0 ?y" by (rule pool_step.probed [OF l])
  moreover have "pool_step ?y example_pool1"
    using pool_step.probed [OF l', of "Inr True"] by (simp add: example_pool1_def)
  ultimately show ?thesis using example_pool0_init by (meson rtranclp.rtrancl_into_rtrancl rtranclp.rtrancl_refl)
qed

lemma example_pool2_reachable: "pool_reachable example_pool2"
proof -
  have "fst (select 1 (pl example_pool1)) = Inr 0" "ops example_pool1 = []" by code_simp+
  then have "pool_step example_pool1 example_pool2"
    using pool_step.begin_generate [of example_pool1 0 "snd (select 1 (pl example_pool1))"]
    by (metis append_Nil example_pool2_def prod.collapse)
  then show ?thesis using example_pool1_reachable by (meson rtranclp.rtrancl_into_rtrancl)
qed

lemma example_pool3_reachable: "pool_reachable example_pool3"
proof -
  have "ops example_pool2 = [Awaiting Generate 0]" by code_simp
  then have "pool_step example_pool2 example_pool3"
    unfolding example_pool3_def by (intro pool_step.generated) simp_all
  then show ?thesis using example_pool2_reachable by (meson rtranclp.rtrancl_into_rtrancl)
qed

lemma example_pool4_reachable: "pool_reachable example_pool4"
proof -
  let ?p1 = "snd (close_start (pl example_pool3))"
  let ?y1 = "example_pool3\<lparr>pl := ?p1, closing := Closing_streams [] []\<rparr>"
  let ?y2 = "?y1\<lparr>pl := snd (release_all [] ?p1), closing := Closing_slots\<rparr>"
  have "fst (close_start (pl example_pool3)) = Some ([], [])" by code_simp
  then have "close_start (pl example_pool3) = (Some ([], []), ?p1)" by (metis prod.collapse)
  then have s1: "pool_step example_pool3 ?y1" by (rule pool_step.close_begins)
  have s2: "pool_step ?y1 ?y2"
    using pool_step.close_releases [of ?y1 "[]" "[]"] by simp
  have "pool_step ?y2 (?y2\<lparr>pl := close_end (pl ?y2), closing := Closed\<rparr>)"
    by (rule pool_step.close_ends) simp
  then have s3: "pool_step ?y2 example_pool4" by (simp add: example_pool4_def Let_def)
  from s1 s2 s3 show ?thesis using example_pool3_reachable by (meson rtranclp.rtrancl_into_rtrancl)
qed

section \<open>Properties\<close>

lemma no_live_no_load: "pool_live p = {} \<Longrightarrow> slot_load i (pool_leases p) = 0"
proof -
  assume "pool_live p = {}"
  then have "lease_released l" if "l \<in> set (pool_leases p)" for l
    using that by (auto simp: pool_live_def in_set_conv_nth)
  then show ?thesis
    unfolding slot_load_def by (subst sum_list_cong_set [of _ _ "\<lambda>_. 0"]) (simp_all add: lease_load_def)
qed

text \<open>
  C13. The inflight count of every backend is exactly the total weight of the leases on it that
  are not yet released, whatever operations, failures, probes, stream closes and pool closes
  interleave. While the pool is open a lease is unreleased iff an operation awaiting its leaf or a
  stream not yet closed owns it, and no lease has two owners.
\<close>

theorem pool_accounting:
  assumes "pool_reachable y"
  shows "(\<forall>i<length (slots (pl y)). slot_inflight (slots (pl y) ! i) =
      (\<Sum>l\<leftarrow>pool_leases (pl y). if lease_slot l = i \<and> \<not> lease_released l then weight l else 0) \<and>
      0 \<le> slot_inflight (slots (pl y) ! i)) \<and>
    (\<forall>o1 o2 l. own_of (ops y) (pool_streams (pl y)) o1 = Some l \<longrightarrow>
       own_of (ops y) (pool_streams (pl y)) o2 = Some l \<longrightarrow> o1 = o2) \<and>
    (\<not> pool_closed (pl y) \<longrightarrow>
       (\<forall>l. l \<in> pool_live (pl y) \<longleftrightarrow> (\<exists>o1. own_of (ops y) (pool_streams (pl y)) o1 = Some l)))"
proof -
  have inv: "pool_inv (pl y)" and own: "owned (own_of (ops y) (pool_streams (pl y))) (pool_live (pl y))
      (length (pool_leases (pl y))) (pool_closed (pl y))"
    using reachable_psys_inv [OF assms] by (simp_all add: psys_inv_def)
  have "0 \<le> slot_load i (pool_leases (pl y))" for i
    unfolding slot_load_def
    by (rule sum_list_nonneg_int) (use inv in \<open>auto simp: lease_load_def pool_inv_def less_imp_le\<close>)
  then show ?thesis
    using pool_invD(6) [OF inv] ownedD(2,4,5) [OF own] by (auto simp: slot_load_def lease_load_def)
qed

theorem pool_accounting_witness:
  "pool_reachable example_pool2 \<and> slot_inflight (slots (pl example_pool2) ! 0) = 1 \<and>
   0 \<in> pool_live (pl example_pool2)"
proof -
  have c: "\<not> pool_closed (pl example_pool2)" "own_of (ops example_pool2) (pool_streams (pl example_pool2)) (Op_owner 0) = Some 0"
    "slot_inflight (slots (pl example_pool2) ! 0) = 1"
    by code_simp+
  then show ?thesis using pool_accounting [OF example_pool2_reachable] example_pool2_reachable by blast
qed

text \<open>
  C14. Selection in full: a non-positive weight is a \<open>ValueError\<close>; a closed pool or one without a
  healthy backend is \<open>NoHealthyBackendError\<close> and nothing changes; otherwise the lease is on a
  healthy backend with the least inflight of all healthy ones, the first such one from the cursor
  on, whose inflight grows by the weight, and the cursor moves just behind it.
\<close>

theorem select_least_inflight:
  assumes "slots p \<noteq> []"
  shows "if w \<le> 0 then select w p = (Inl (ValueError ''backend assignment weight must be positive''), p)
    else if \<not> is_routable p then select w p = (Inl (raised NoHealthyBackendError), p)
    else \<exists>off<length (slots p). \<exists>p'. let i = (cursor p + off) mod length (slots p) in
      select w p = (Inr (length (pool_leases p)), p') \<and>
      healthy (slots p ! i) = Some True \<and>
      (\<forall>j<length (slots p). healthy (slots p ! j) = Some True \<longrightarrow> slot_inflight (slots p ! i) \<le> slot_inflight (slots p ! j)) \<and>
      (\<forall>off'<off. \<not> least_loaded p ((cursor p + off') mod length (slots p))) \<and>
      slots p' = (slots p)[i := (slots p ! i)\<lparr>slot_inflight := slot_inflight (slots p ! i) + w\<rparr>] \<and>
      cursor p' = (i + 1) mod length (slots p) \<and>
      pool_leases p' = pool_leases p @ [\<lparr>lease_slot = i, weight = w, lease_released = False\<rparr>]"
proof -
  have rt: "is_routable p \<longleftrightarrow> \<not> (pool_closed p \<or> healthy_indices p = [])"
    by (auto simp: is_routable_def healthy_indices_def filter_empty_conv list_ex_length)
  from assms show ?thesis
  proof (cases rule: select_cases [where w = w])
    case weight
    then show ?thesis by simp
  next
    case none
    then show ?thesis using rt by simp
  next
    case (chosen k)
    have "find (least_loaded p) (rotation p) = Some k" using chosen(3) by (simp add: next_backend_def)
    then obtain off where off: "off < length (rotation p)" "least_loaded p (rotation p ! off)"
      "k = rotation p ! off" "\<forall>j<off. \<not> least_loaded p (rotation p ! j)"
      by (auto simp: find_Some_iff)
    have n: "length (rotation p) = length (slots p)" by (simp add: rotation_def)
    have nth: "rotation p ! j = (cursor p + j) mod length (slots p)" if "j < length (slots p)" for j
      using that by (simp add: rotation_def)
    have "healthy_indices p \<noteq> []"
      using chosen(4) by (auto simp: least_loaded_def healthy_indices_def filter_empty_conv)
    then have "is_routable p" using rt chosen(2) by simp
    moreover have "\<exists>off<length (slots p). \<exists>p'. let i = (cursor p + off) mod length (slots p) in
      select w p = (Inr (length (pool_leases p)), p') \<and>
      healthy (slots p ! i) = Some True \<and>
      (\<forall>j<length (slots p). healthy (slots p ! j) = Some True \<longrightarrow> slot_inflight (slots p ! i) \<le> slot_inflight (slots p ! j)) \<and>
      (\<forall>off'<off. \<not> least_loaded p ((cursor p + off') mod length (slots p))) \<and>
      slots p' = (slots p)[i := (slots p ! i)\<lparr>slot_inflight := slot_inflight (slots p ! i) + w\<rparr>] \<and>
      cursor p' = (i + 1) mod length (slots p) \<and>
      pool_leases p' = pool_leases p @ [\<lparr>lease_slot = i, weight = w, lease_released = False\<rparr>]"
    proof (intro exI [of _ off] conjI exI [of _ "assign_slot k w p"])
      show "off < length (slots p)" using off(1) n by simp
      have i: "(cursor p + off) mod length (slots p) = k" using off n nth by simp
      have "\<forall>off'<off. \<not> least_loaded p ((cursor p + off') mod length (slots p))" using off n nth by simp
      then show "let i = (cursor p + off) mod length (slots p) in
        select w p = (Inr (length (pool_leases p)), assign_slot k w p) \<and>
        healthy (slots p ! i) = Some True \<and>
        (\<forall>j<length (slots p). healthy (slots p ! j) = Some True \<longrightarrow> slot_inflight (slots p ! i) \<le> slot_inflight (slots p ! j)) \<and>
        (\<forall>off'<off. \<not> least_loaded p ((cursor p + off') mod length (slots p))) \<and>
        slots (assign_slot k w p) = (slots p)[i := (slots p ! i)\<lparr>slot_inflight := slot_inflight (slots p ! i) + w\<rparr>] \<and>
        cursor (assign_slot k w p) = (i + 1) mod length (slots p) \<and>
        pool_leases (assign_slot k w p) = pool_leases p @ [\<lparr>lease_slot = i, weight = w, lease_released = False\<rparr>]"
        using chosen(4,5) unfolding i Let_def by (simp add: least_loaded_def)
    qed
    ultimately show ?thesis using chosen(1) by simp
  qed
qed

theorem select_least_inflight_witness:
  "slots (pl example_pool1) \<noteq> [] \<and> is_routable (pl example_pool1) \<and>
   fst (select 2 (pl example_pool1)) = Inr 0 \<and> fst (select 0 (pl example_pool1)) = Inl (ValueError ''backend assignment weight must be positive'')"
proof -
  have c: "slots (pl example_pool1) \<noteq> []" "is_routable (pl example_pool1)" "length (pool_leases (pl example_pool1)) = 0"
    by code_simp+
  then show ?thesis
    using select_least_inflight [OF c(1), of 2] select_least_inflight [OF c(1), of 0] by (auto simp: Let_def)
qed



text \<open>
  Nothing leaks: in every reachable state, closed or not, in which no operation awaits a leaf
  and every stream has been shut, every backend has inflight zero.
\<close>

theorem pool_quiescent:
  assumes "pool_reachable y" and "\<forall>k<length (ops y). ops y ! k = Ended"
    and "\<forall>x<length (pool_streams (pl y)). stream_phase (pool_streams (pl y) ! x) = Shut"
  shows "pool_live (pl y) = {} \<and> (\<forall>i<length (slots (pl y)). slot_inflight (slots (pl y) ! i) = 0)"
proof -
  have inv: "pool_inv (pl y)" and own: "owned (own_of (ops y) (pool_streams (pl y))) (pool_live (pl y))
      (length (pool_leases (pl y))) (pool_closed (pl y))"
    using reachable_psys_inv [OF assms(1)] by (simp_all add: psys_inv_def)
  have "own_of (ops y) (pool_streams (pl y)) o1 = None" for o1 using assms(2,3) by (cases o1) auto
  then have live: "pool_live (pl y) = {}" using ownedD(4) [OF own] by fastforce
  then show ?thesis using pool_invD(6) [OF inv] no_live_no_load by simp
qed

theorem pool_quiescent_witness:
  "pool_reachable example_pool3 \<and> slot_inflight (slots (pl example_pool3) ! 0) = 0"
proof -
  have c: "ops example_pool3 = [Ended]" "pool_streams (pl example_pool3) = []" "0 < length (slots (pl example_pool3))"
    by code_simp+
  then show ?thesis using pool_quiescent [OF example_pool3_reachable] example_pool3_reachable by simp
qed

text \<open>
  When \<open>close\<close> has run to its end, every lease has been released (those of operations still in
  progress included), every inflight count is zero, no backend is healthy, nothing can be selected
  any more, and this holds in every state reachable from there.
\<close>

theorem close_complete:
  assumes "pool_reachable y" and "closing y = Closed"
  shows "pool_live (pl y) = {} \<and> \<not> is_routable (pl y) \<and>
    (\<forall>i<length (slots (pl y)). slot_inflight (slots (pl y) ! i) = 0 \<and> healthy (slots (pl y) ! i) = Some False) \<and>
    (\<forall>w>0. select w (pl y) = (Inl (raised NoHealthyBackendError), pl y)) \<and>
    (\<forall>z. pool_step\<^sup>*\<^sup>* y z \<longrightarrow> pool_live (pl z) = {} \<and> \<not> is_routable (pl z))"
proof -
  have stay: "closing z = Closed \<and> psys_inv z" if "pool_step\<^sup>*\<^sup>* y z" for z
    using that
  proof (induction rule: rtranclp_induct)
    case base
    show ?case using reachable_psys_inv [OF assms(1)] assms(2) by simp
  next
    case (step u z)
    from step(2) have "closing z = Closed"
    proof cases
      case (close_begins ls xs p)
      have "pool_closed (pl u)" using step(3) by (auto simp: psys_inv_def)
      with close_begins(2) show ?thesis by (simp add: close_start_def)
    qed (use step(3) in simp_all)
    then show ?case using psys_inv_step step(2,3) by blast
  qed
  have cl: "closing_ok Closed (pl z)" "pool_inv (pl z)" if "pool_step\<^sup>*\<^sup>* y z" for z
    using stay [OF that] unfolding psys_inv_def by metis+
  have "\<not> is_routable (pl z) \<and> pool_live (pl z) = {}" if "pool_step\<^sup>*\<^sup>* y z" for z
    using cl(1) [OF that] by (simp add: is_routable_def)
  moreover have "slot_inflight (slots (pl y) ! i) = 0" if "i < length (slots (pl y))" for i
    using pool_invD(6) [OF cl(2) that] no_live_no_load cl(1) by simp
  moreover have "select w (pl y) = (Inl (raised NoHealthyBackendError), pl y)" if "0 < w" for w
    using that cl(1) [of y] by (simp add: select_def)
  ultimately show ?thesis using cl(1) [of y] by auto
qed

theorem close_complete_witness:
  "pool_reachable example_pool4 \<and> closing example_pool4 = Closed \<and> \<not> is_routable (pl example_pool4)"
proof -
  have "closing example_pool4 = Closed" by code_simp
  then show ?thesis using close_complete [OF example_pool4_reachable] example_pool4_reachable by simp
qed

definition balanced :: "pool \<Rightarrow> bool" where
  "balanced p \<longleftrightarrow> (\<forall>i<length (slots p). \<forall>j<length (slots p). healthy (slots p ! i) = Some True \<longrightarrow>
     healthy (slots p ! j) = Some True \<longrightarrow> slot_inflight (slots p ! i) \<le> slot_inflight (slots p ! j) + 1)"

text \<open>
  Selecting keeps the load even: if the inflight counts of the healthy backends differ by at
  most one, they still do after another single request has been assigned.
\<close>

theorem select_keeps_balance:
  assumes "slots p \<noteq> []" and "balanced p" and "select 1 p = (r, p')"
  shows "balanced p'"
  using assms(1)
proof (cases rule: select_cases [where w = 1])
  case (chosen k)
  have k: "k < length (slots p)" "\<And>j. j < length (slots p) \<Longrightarrow> healthy (slots p ! j) = Some True \<Longrightarrow>
      slot_inflight (slots p ! k) \<le> slot_inflight (slots p ! j)"
    using chosen(4) by (simp_all add: least_loaded_def)
  have "slots p' = (slots p)[k := (slots p ! k)\<lparr>slot_inflight := slot_inflight (slots p ! k) + 1\<rparr>]"
    using assms(3) chosen(5) by auto
  then show ?thesis
    using assms(2) k by (fastforce simp: balanced_def nth_list_update)
qed (use assms in auto)

theorem select_keeps_balance_witness:
  "balanced (snd (select 1 (pl example_pool1))) \<and> \<not> balanced (assign_slot 0 2 (pl example_pool1))"
proof -
  have c: "slots (pl example_pool1) \<noteq> []" by code_simp
  have b: "balanced (pl example_pool1)" "\<not> balanced (assign_slot 0 2 (pl example_pool1))"
    unfolding balanced_def by code_simp+
  then show ?thesis
    using select_keeps_balance [OF c b(1), of "fst (select 1 (pl example_pool1))" "snd (select 1 (pl example_pool1))"] by simp
qed

end
