(* ===== verification/Gw_Canonical.thy ===== *)
theory Gw_Canonical
  imports Gw_Json
begin

text \<open>
  \<open>json.dumps\<close> as \<open>gateway/batching/dynamic.py\<close> uses it for its keys: compact separators, non-ASCII
  characters unescaped, keys sorted on request. The text of a floating-point number is a
  parameter, of which the documented behaviour of \<open>float.__repr__\<close> is used: it is made of the characters of
  a number, is not that of an integer, and differs for different floats. The main result is that
  the text determines the value: \<open>text_inject\<close> of the locale \<open>json_text\<close>.
\<close>

section \<open>Numbers\<close>

definition digit :: "nat \<Rightarrow> char" where
  "digit n = char_of (48 + n)"

fun nat_str :: "nat \<Rightarrow> string" where
  "nat_str n = (if n < 10 then [digit n] else nat_str (n div 10) @ [digit (n mod 10)])"

declare nat_str.simps [simp del]

definition int_str :: "int \<Rightarrow> string" where
  "int_str i = (if i < 0 then CHR ''-'' # nat_str (nat (- i)) else nat_str (nat i))"

lemma of_char_digit: "n < 10 \<Longrightarrow> (of_char (digit n) :: nat) = 48 + n"
  unfolding digit_def of_char_of by (rule mod_less) simp

lemma digit_inj: "m < 10 \<Longrightarrow> n < 10 \<Longrightarrow> digit m = digit n \<Longrightarrow> m = n"
  using of_char_digit by (metis add_left_cancel)

definition is_digit :: "char \<Rightarrow> bool" where
  "is_digit c \<longleftrightarrow> 48 \<le> (of_char c :: nat) \<and> (of_char c :: nat) \<le> 57"

lemma is_digit_digit: "n < 10 \<Longrightarrow> is_digit (digit n)"
  by (simp add: is_digit_def of_char_digit)

lemma nat_str_digits: "\<forall>c\<in>set (nat_str n). is_digit c"
proof (induction n rule: nat_str.induct)
  case (1 n)
  then show ?case by (subst nat_str.simps) (auto simp: is_digit_digit)
qed

lemma nat_str_not_Nil: "nat_str n \<noteq> []"
  by (subst nat_str.simps) simp

lemma nat_str_inject: "nat_str m = nat_str n \<Longrightarrow> m = n"
proof (induction m arbitrary: n rule: nat_str.induct)
  case (1 m)
  show ?case
  proof (cases "m < 10"; cases "n < 10")
    assume "m < 10" "n < 10"
    then show ?thesis using "1.prems" by (auto simp: nat_str.simps [of m] nat_str.simps [of n] digit_inj)
  next
    assume "m < 10" "\<not> n < 10"
    then show ?thesis using "1.prems" nat_str_not_Nil [of "n div 10"]
      by (simp add: nat_str.simps [of m] nat_str.simps [of n])
  next
    assume "\<not> m < 10" "n < 10"
    then show ?thesis using "1.prems" nat_str_not_Nil [of "m div 10"]
      by (simp add: nat_str.simps [of m] nat_str.simps [of n])
  next
    assume big: "\<not> m < 10" "\<not> n < 10"
    then have "nat_str (m div 10) = nat_str (n div 10)" "digit (m mod 10) = digit (n mod 10)"
      using "1.prems" by (simp_all add: nat_str.simps [of m] nat_str.simps [of n])
    then have "m div 10 = n div 10" "m mod 10 = n mod 10"
      using "1.IH" [OF big(1)] digit_inj [of "m mod 10" "n mod 10"] by simp_all
    then show ?thesis by (metis div_mult_mod_eq)
  qed
qed

lemma not_is_digit_minus: "\<not> is_digit CHR ''-''"
  by (simp add: is_digit_def)

lemma int_str_inject: "int_str i = int_str j \<Longrightarrow> i = j"
proof -
  assume eq: "int_str i = int_str j"
  have "hd (nat_str n) \<noteq> CHR ''-''" for n
    using nat_str_digits [of n] nat_str_not_Nil [of n] not_is_digit_minus by (metis list.set_sel(1))
  then have head: "CHR ''-'' # xs \<noteq> nat_str n" for xs n by (metis list.sel(1))
  show "i = j"
    using eq nat_str_inject [of "nat i" "nat j"] nat_str_inject [of "nat (- i)" "nat (- j)"] head
    by (auto simp: int_str_def split: if_splits) (metis head)
qed

section \<open>Strings\<close>

definition hex_digit :: "nat \<Rightarrow> char" where
  "hex_digit n = (if n < 10 then char_of (48 + n) else char_of (87 + n))"

definition short_escape :: "char \<Rightarrow> char option" where
  "short_escape = map_of [(CHR 0x22, CHR 0x22), (CHR 0x5C, CHR 0x5C), (CHR 0x0A, CHR ''n''), (CHR 0x0D, CHR ''r''),
     (CHR 0x09, CHR ''t''), (CHR 0x0C, CHR ''f''), (CHR 0x08, CHR ''b'')]"

definition json_escape :: "char \<Rightarrow> string" where
  "json_escape c = (case short_escape c of
      Some x \<Rightarrow> [CHR 0x5C, x]
    | None \<Rightarrow>
       (if code_point c < 32
        then [CHR 0x5C, CHR ''u'', CHR ''0'', CHR ''0'', hex_digit (code_point c div 16), hex_digit (code_point c mod 16)]
        else [c]))"

text \<open>With \<open>ensure_ascii\<close>, the default, everything outside the printable ASCII range is escaped.\<close>

definition ascii_escape :: "char \<Rightarrow> string" where
  "ascii_escape c =
     (if code_point c \<le> 126 then json_escape c
      else [CHR 0x5C, CHR ''u'', CHR ''0'', CHR ''0'', hex_digit (code_point c div 16), hex_digit (code_point c mod 16)])"

definition quoted :: "(char \<Rightarrow> string) \<Rightarrow> string \<Rightarrow> string" where
  "quoted esc s = CHR 0x22 # concat (map esc s) @ [CHR 0x22]"

abbreviation json_string :: "string \<Rightarrow> string" where
  "json_string \<equiv> quoted json_escape"

text \<open>Escaping is a prefix code whose words never start with a quote.\<close>

lemma short_inject: "short_escape c = Some x \<Longrightarrow> short_escape d = Some x \<Longrightarrow> c = d"
  unfolding short_escape_def by (auto split: if_splits)

lemma short_not_u: "short_escape c \<noteq> Some CHR ''u''"
  unfolding short_escape_def by (auto split: if_splits)

lemma short_quote: "short_escape CHR 0x22 = Some CHR 0x22"
  unfolding short_escape_def by simp

lemma short_backslash: "short_escape CHR 0x5C = Some CHR 0x5C"
  unfolding short_escape_def by simp

lemma code_point_inject: "code_point c = code_point d \<longleftrightarrow> c = d"
  by (simp add: code_point_def)

lemma hex_digit_inject:
  assumes mn: "m < 16" "n < 16" and eq: "hex_digit m = hex_digit n"
  shows "m = n"
proof -
  have v: "(of_char (hex_digit k) :: nat) = (if k < 10 then 48 + k else 87 + k)" if "k < 16" for k
  proof -
    have "(48 + k) mod 256 = 48 + k" "(87 + k) mod 256 = 87 + k" using that by (simp_all add: mod_less)
    then show ?thesis unfolding hex_digit_def by (metis of_char_of)
  qed
  from v [OF mn(1)] v [OF mn(2)] eq have "(if m < 10 then 48 + m else 87 + m) = (if n < 10 then 48 + n else 87 + n)"
    by simp
  then show ?thesis using mn by (cases "m < 10"; cases "n < 10") simp_all
qed

lemma escape_cases:
  obtains (short) x where "short_escape c = Some x" and "json_escape c = [CHR 0x5C, x]" and "x \<noteq> CHR ''u''"
    | (control) "code_point c < 32" and "json_escape c =
        [CHR 0x5C, CHR ''u'', CHR ''0'', CHR ''0'', hex_digit (code_point c div 16), hex_digit (code_point c mod 16)]"
    | (plain) "json_escape c = [c]" and "c \<noteq> CHR 0x5C" and "c \<noteq> CHR 0x22"
proof (cases "short_escape c")
  case None
  then have ne: "c \<noteq> CHR 0x5C" "c \<noteq> CHR 0x22" using short_quote short_backslash by auto
  show thesis
  proof (cases "code_point c < 32")
    case True
    with None show thesis by (intro control) (simp_all add: json_escape_def)
  next
    case False
    with None ne show thesis by (intro plain) (simp_all add: json_escape_def)
  qed
next
  case (Some x)
  then show thesis using short_not_u [of c] by (intro short [of x]) (auto simp: json_escape_def)
qed

lemma escape_head: "json_escape c \<noteq> [] \<and> hd (json_escape c) \<noteq> CHR 0x22"
  by (cases rule: escape_cases [of c]) auto

lemma hex_pair_inject:
  assumes "hex_digit (code_point c div 16) = hex_digit (code_point d div 16)"
    and "hex_digit (code_point c mod 16) = hex_digit (code_point d mod 16)"
  shows "c = d"
proof -
  have "code_point c < 256" "code_point d < 256" by (simp_all add: code_point_def)
  then have "code_point c div 16 = code_point d div 16" using assms(1) by (intro hex_digit_inject) simp_all
  moreover have "code_point c mod 16 = code_point d mod 16" using assms(2) by (intro hex_digit_inject) simp_all
  ultimately have "code_point c = code_point d" by (metis div_mult_mod_eq)
  then show ?thesis by (simp add: code_point_inject)
qed

lemma escape_prefix:
  assumes "json_escape c @ u = json_escape d @ v"
  shows "c = d \<and> u = v"
proof (cases rule: escape_cases [of c])
  case c: (short x)
  show ?thesis
  proof (cases rule: escape_cases [of d])
    case (short y)
    then show ?thesis using assms c short_inject [of c x d] by simp
  qed (use assms c in auto)
next
  case c: control
  show ?thesis
  proof (cases rule: escape_cases [of d])
    case control
    then show ?thesis using assms c(2) hex_pair_inject [of c d] by simp
  qed (use assms c in auto)
next
  case c: plain
  show ?thesis by (cases rule: escape_cases [of d]) (use assms c in auto)
qed

lemma ascii_escape_cases:
  obtains (same) "ascii_escape c = json_escape c" "code_point c \<le> 126"
    | (high) "126 < code_point c" "ascii_escape c =
        [CHR 0x5C, CHR ''u'', CHR ''0'', CHR ''0'', hex_digit (code_point c div 16), hex_digit (code_point c mod 16)]"
  by (cases "code_point c \<le> 126") (auto simp: ascii_escape_def)

lemma escape_high:
  assumes "126 < code_point d"
    and "json_escape c @ u =
      CHR 0x5C # CHR ''u'' # CHR ''0'' # CHR ''0'' # hex_digit (code_point d div 16) # hex_digit (code_point d mod 16) # v"
  shows "c = d"
proof (cases rule: escape_cases [of c])
  case control
  then show ?thesis using assms(2) hex_pair_inject [of c d] by simp
qed (use assms in auto)

lemma ascii_escape_prefix:
  assumes "ascii_escape c @ u = ascii_escape d @ v"
  shows "c = d \<and> u = v"
proof (cases rule: ascii_escape_cases [of c])
  case c: same
  show ?thesis
  proof (cases rule: ascii_escape_cases [of d])
    case same
    then show ?thesis using assms c escape_prefix [of c u d v] by simp
  next
    case high
    then have "c = d" using assms c escape_high [of d c u v] by simp
    with high(1) c(2) show ?thesis by simp
  qed
next
  case c: high
  show ?thesis
  proof (cases rule: ascii_escape_cases [of d])
    case same
    then have "d = c" using assms c escape_high [of c d v u] by simp
    with c(1) same(2) show ?thesis by simp
  next
    case high
    then show ?thesis using assms c hex_pair_inject [of c d] by simp
  qed
qed

lemma ascii_escape_head: "ascii_escape c \<noteq> [] \<and> hd (ascii_escape c) \<noteq> CHR 0x22"
  using escape_head [of c] by (auto simp: ascii_escape_def)

text \<open>What both escapes are: a prefix code whose words never start with a quote.\<close>

locale escape_code =
  fixes esc :: "char \<Rightarrow> string"
  assumes esc_prefix: "esc c @ u = esc d @ v \<Longrightarrow> c = d \<and> u = v"
    and esc_head: "esc c \<noteq> [] \<and> hd (esc c) \<noteq> CHR 0x22"
begin

lemma escapes_prefix:
  "concat (map esc s) @ CHR 0x22 # u = concat (map esc t) @ CHR 0x22 # v \<Longrightarrow> s = t \<and> u = v"
proof (induction s arbitrary: t)
  case Nil
  then show ?case
  proof (cases t)
    case (Cons d ds)
    obtain a as where "esc d = a # as" using esc_head by (cases "esc d") auto
    with Nil Cons esc_head [of d] show ?thesis by auto
  qed simp
next
  case (Cons c cs)
  show ?case
  proof (cases t)
    case Nil
    obtain a as where "esc c = a # as" using esc_head by (cases "esc c") auto
    with Cons.prems Nil esc_head [of c] show ?thesis by auto
  next
    case (Cons d ds)
    with Cons.prems have "esc c @ (concat (map esc cs) @ CHR 0x22 # u) = esc d @ (concat (map esc ds) @ CHR 0x22 # v)" by simp
    from esc_prefix [OF this] Cons.IH Cons show ?thesis by auto
  qed
qed

lemma quoted_prefix: "quoted esc s @ u = quoted esc t @ v \<Longrightarrow> s = t \<and> u = v"
  using escapes_prefix [of s u t v] by (simp add: quoted_def)

end

section \<open>Values\<close>

text \<open>\<open>sort_keys\<close> sorts a dictionary's items by key; keys are distinct, so this is all of the order.\<close>

fun string_le :: "string \<Rightarrow> string \<Rightarrow> bool" where
  "string_le [] t = True"
| "string_le (c # cs) [] = False"
| "string_le (c # cs) (d # ds) = (code_point c < code_point d \<or> c = d \<and> string_le cs ds)"

fun insert_item :: "string \<times> 'v \<Rightarrow> (string \<times> 'v) list \<Rightarrow> (string \<times> 'v) list" where
  "insert_item kv [] = [kv]"
| "insert_item kv (x # xs) = (if string_le (fst kv) (fst x) then kv # x # xs else x # insert_item kv xs)"

definition sort_items :: "(string \<times> 'v) list \<Rightarrow> (string \<times> 'v) list" where
  "sort_items kvs = foldr insert_item kvs []"

fun join :: "string \<Rightarrow> string list \<Rightarrow> string" where
  "join sep [] = []"
| "join sep [x] = x"
| "join sep (x # y # ys) = x @ sep @ join sep (y # ys)"

text \<open>The text of a value whose dictionaries are already in the order they are to be written in.\<close>

fun dumps_with :: "(string \<Rightarrow> string) \<Rightarrow> (real \<Rightarrow> string) \<Rightarrow> json \<Rightarrow> string" where
  "dumps_with str fr JNull = ''null''"
| "dumps_with str fr (JBool b) = (if b then ''true'' else ''false'')"
| "dumps_with str fr (JInt i) = int_str i"
| "dumps_with str fr (JFloat x) = fr x"
| "dumps_with str fr (JStr s) = str s"
| "dumps_with str fr (JList xs) = ''['' @ join '','' (map (dumps_with str fr) xs) @ '']''"
| "dumps_with str fr (JObj kvs) = ''{'' @ join '','' (map (\<lambda>kv. str (fst kv) @ '':'' @ dumps_with str fr (snd kv)) kvs) @ ''}''"

abbreviation dumps :: "(real \<Rightarrow> string) \<Rightarrow> json \<Rightarrow> string" where
  "dumps \<equiv> dumps_with json_string"

fun json_floats :: "json \<Rightarrow> real set" where
  "json_floats (JFloat x) = {x}"
| "json_floats (JList xs) = (\<Union>x\<in>set xs. json_floats x)"
| "json_floats (JObj kvs) = (\<Union>kv\<in>set kvs. json_floats (snd kv))"
| "json_floats _ = {}"

definition is_delim :: "char \<Rightarrow> bool" where
  "is_delim c \<longleftrightarrow> c = CHR '','' \<or> c = CHR '']'' \<or> c = CHR ''}''"

definition number_char :: "char \<Rightarrow> bool" where
  "number_char c \<longleftrightarrow> is_digit c \<or> c = CHR ''-'' \<or> c = CHR ''+'' \<or> c = CHR ''.'' \<or> c = CHR ''e''"

text \<open>What is used of \<open>float.__repr__\<close> on the floats \<open>F\<close>.\<close>

definition float_repr_ok :: "(real \<Rightarrow> string) \<Rightarrow> real set \<Rightarrow> bool" where
  "float_repr_ok fr F \<longleftrightarrow> inj_on fr F \<and> (\<forall>x\<in>F. fr x \<noteq> [] \<and> (\<forall>c\<in>set (fr x). number_char c) \<and>
     (\<exists>c\<in>set (fr x). c = CHR ''.'' \<or> c = CHR ''e'') \<and> hd (fr x) \<noteq> CHR ''e'')"

definition stops :: "string \<Rightarrow> bool" where
  "stops r \<longleftrightarrow> r = [] \<or> is_delim (hd r)"

lemma number_not_delim: "number_char c \<Longrightarrow> \<not> is_delim c"
  by (auto simp: number_char_def is_delim_def is_digit_def)

lemma int_str_chars: "\<forall>c\<in>set (int_str i). is_digit c \<or> c = CHR ''-''"
  using nat_str_digits by (auto simp: int_str_def)

lemma int_str_not_Nil: "int_str i \<noteq> []"
  using nat_str_not_Nil by (simp add: int_str_def)

lemma split_at_delim:
  assumes "a @ r = b @ r'" and "\<forall>c\<in>set a. \<not> is_delim c" and "\<forall>c\<in>set b. \<not> is_delim c" and "stops r" and "stops r'"
  shows "a = b \<and> r = r'"
proof -
  have tk: "takeWhile (\<lambda>c. \<not> is_delim c) (x @ y) = x" if "\<forall>c\<in>set x. \<not> is_delim c" "stops y" for x y
    using that by (cases y) (auto simp: stops_def)
  have "a = b" using tk [OF assms(2,4)] tk [OF assms(3,5)] assms(1) by metis
  with assms(1) show ?thesis by simp
qed

text \<open>The first character tells the kinds of values apart, numbers excepted.\<close>

datatype kind = KNull | KTrue | KFalse | KNumber | KString | KList | KObj

fun kind_of :: "json \<Rightarrow> kind" where
  "kind_of JNull = KNull" | "kind_of (JBool b) = (if b then KTrue else KFalse)" | "kind_of (JInt _) = KNumber"
| "kind_of (JFloat _) = KNumber" | "kind_of (JStr _) = KString" | "kind_of (JList _) = KList" | "kind_of (JObj _) = KObj"

definition kind_char :: "char \<Rightarrow> kind" where
  "kind_char c = (if c = CHR ''n'' then KNull else if c = CHR ''t'' then KTrue else if c = CHR ''f'' then KFalse
     else if c = CHR 0x22 then KString else if c = CHR ''['' then KList else if c = CHR ''{'' then KObj else KNumber)"

lemma kind_number: "number_char c \<Longrightarrow> kind_char c = KNumber"
  by (auto simp: number_char_def kind_char_def is_digit_def)

lemma join_Cons: "join sep (x # xs) = x @ (if xs = [] then [] else sep @ join sep xs)"
  by (cases xs) auto

lemma join_prefix:
  assumes "\<And>x y s s'. x \<in> set xs \<Longrightarrow> y \<in> set ys \<Longrightarrow> f x @ s = f y @ s' \<Longrightarrow> stops s \<Longrightarrow> stops s' \<Longrightarrow> x = y \<and> s = s'"
    and "\<And>x. x \<in> set xs \<union> set ys \<Longrightarrow> f x \<noteq> [] \<and> \<not> is_delim (hd (f x))"
    and "is_delim e" and "e \<noteq> CHR '',''"
    and "join '','' (map f xs) @ e # r = join '','' (map f ys) @ e # r'"
  shows "xs = ys \<and> r = r'"
  using assms(1,2,5)
proof (induction xs arbitrary: ys)
  case Nil
  show ?case
  proof (cases ys)
    case (Cons y ys')
    then have "hd (f y) = e" using Nil.prems(2) [of y] Nil.prems(3) by (auto simp: join_Cons hd_append dest: arg_cong [of _ _ hd])
    with Nil.prems(2) [of y] Cons assms(3) show ?thesis by auto
  qed (use Nil in simp)
next
  case (Cons x xs)
  show ?case
  proof (cases ys)
    case Nil
    then have "hd (f x) = e" using Cons.prems(2) [of x] Cons.prems(3) by (auto simp: join_Cons hd_append dest: arg_cong [of _ _ hd])
    with Cons.prems(2) [of x] assms(3) show ?thesis by auto
  next
    case ys: (Cons y ys')
    let ?s = "(if xs = [] then [] else '','' @ join '','' (map f xs)) @ e # r"
    let ?s' = "(if ys' = [] then [] else '','' @ join '','' (map f ys')) @ e # r'"
    have st: "stops ?s" "stops ?s'" using assms(3) by (auto simp: stops_def is_delim_def)
    have "f x @ ?s = f y @ ?s'" using Cons.prems(3) ys by (simp add: join_Cons)
    then have eq: "x = y" "?s = ?s'" using Cons.prems(1) [of x y ?s ?s'] st ys by simp_all
    show ?thesis
    proof (cases "xs = []"; cases "ys' = []")
      assume ne: "xs \<noteq> []" "ys' \<noteq> []"
      have "xs = ys' \<and> r = r'"
      proof (rule Cons.IH)
        show "a = b \<and> s = s'" if "a \<in> set xs" "b \<in> set ys'" "f a @ s = f b @ s'" "stops s" "stops s'" for a b s s'
          using Cons.prems(1) [of a b s s'] that ys by simp
        show "f a \<noteq> [] \<and> \<not> is_delim (hd (f a))" if "a \<in> set xs \<union> set ys'" for a
          using Cons.prems(2) [of a] that ys by auto
        show "join '','' (map f xs) @ e # r = join '','' (map f ys') @ e # r'" using eq(2) ne by simp
      qed
      with eq(1) ys show ?thesis by simp
    qed (use eq ys assms(4) in auto)
  qed
qed

lemma float_repr_ok_mono: "float_repr_ok fr F \<Longrightarrow> G \<subseteq> F \<Longrightarrow> float_repr_ok fr G"
  by (auto simp: float_repr_ok_def intro: inj_on_subset)

lemma kind_not_delim: "kind_char c \<noteq> KNumber \<Longrightarrow> \<not> is_delim c"
  by (auto simp: kind_char_def is_delim_def)

text \<open>
  The two ways of writing a string, with and without escapes for the characters beyond ASCII, have in common
  what makes the text of a value unambiguous: a string starts with a quote and tells where it ends.
\<close>

locale json_text =
  fixes str :: "string \<Rightarrow> string"
  assumes str_prefix: "str s @ u = str t @ v \<Longrightarrow> s = t \<and> u = v"
    and str_quote: "str s \<noteq> [] \<and> hd (str s) = CHR 0x22"
begin

lemma text_head:
  assumes "float_repr_ok fr (json_floats x)"
  shows "dumps_with str fr x \<noteq> [] \<and> kind_char (hd (dumps_with str fr x)) = kind_of x"
proof (cases x)
  case (JInt i)
  have "number_char (hd (int_str i))" using int_str_chars [of i] int_str_not_Nil [of i]
    by (auto simp: number_char_def)
  then show ?thesis using JInt int_str_not_Nil [of i] by (simp add: kind_number)
next
  case (JFloat r)
  then have "fr r \<noteq> []" "number_char (hd (fr r))" using assms by (auto simp: float_repr_ok_def)
  then show ?thesis using JFloat by (simp add: kind_number)
qed (simp_all add: kind_char_def str_quote)

lemma text_not_delim:
  assumes "float_repr_ok fr (json_floats x)"
  shows "\<not> is_delim (hd (dumps_with str fr x))"
proof (cases "kind_of x = KNumber")
  case False
  then show ?thesis using text_head [OF assms] kind_not_delim by metis
next
  case True
  then consider i where "x = JInt i" | r where "x = JFloat r" by (cases x) (auto split: if_splits)
  then show ?thesis
  proof cases
    case 1
    then show ?thesis using int_str_chars [of i] int_str_not_Nil [of i]
      by (intro number_not_delim) (auto simp: number_char_def)
  next
    case 2
    then show ?thesis using assms by (intro number_not_delim) (auto simp: float_repr_ok_def)
  qed
qed

lemma number_prefix:
  assumes ok: "float_repr_ok fr (json_floats x \<union> json_floats y)" and k: "kind_of x = KNumber" "kind_of y = KNumber"
    and eq: "dumps_with str fr x @ r = dumps_with str fr y @ r'" and st: "stops r" "stops r'"
  shows "x = y \<and> r = r'"
proof -
  have chars: "\<forall>c\<in>set (dumps_with str fr v). \<not> is_delim c" if "kind_of v = KNumber" "float_repr_ok fr (json_floats v)" for v
    using that int_str_chars number_not_delim
    by (cases v) (auto simp: float_repr_ok_def number_char_def split: if_splits)
  have ox: "float_repr_ok fr (json_floats x)" and oy: "float_repr_ok fr (json_floats y)"
    using ok float_repr_ok_mono by blast+
  have split: "dumps_with str fr x = dumps_with str fr y" "r = r'"
    using split_at_delim [OF eq chars [OF k(1) ox] chars [OF k(2) oy] st] by blast+
  have mixed: "int_str i \<noteq> fr z" if fz: "float_repr_ok fr {z}" for i z
  proof
    assume e: "int_str i = fr z"
    obtain c where "c \<in> set (fr z)" "c = CHR ''.'' \<or> c = CHR ''e''" using fz by (auto simp: float_repr_ok_def)
    with e int_str_chars [of i] show False by (auto simp: is_digit_def)
  qed
  have "x = y"
  proof (cases x)
    case (JInt i)
    then show ?thesis using split k(2) oy mixed int_str_inject by (cases y) (auto split: if_splits)
  next
    case (JFloat a)
    show ?thesis
    proof (cases y)
      case (JInt j)
      then show ?thesis using split JFloat ox mixed by (metis dumps_with.simps(3,4) json_floats.simps(1))
    next
      case (JFloat b)
      then show ?thesis using split \<open>x = JFloat a\<close> ok by (auto simp: float_repr_ok_def)
    qed (use k in \<open>auto split: if_splits\<close>)
  qed (use k in \<open>auto split: if_splits\<close>)
  with split show ?thesis by simp
qed

lemma same_kind:
  assumes ok: "float_repr_ok fr (json_floats x \<union> json_floats y)" and eq: "dumps_with str fr x @ r = dumps_with str fr y @ r'"
  shows "kind_of y = kind_of x"
proof -
  have "float_repr_ok fr (json_floats x)" "float_repr_ok fr (json_floats y)" using ok float_repr_ok_mono by blast+
  then show ?thesis using text_head arg_cong [OF eq, of hd] by (metis hd_append)
qed

lemma text_prefix:
  "float_repr_ok fr (json_floats x \<union> json_floats y) \<Longrightarrow> dumps_with str fr x @ r = dumps_with str fr y @ r' \<Longrightarrow> stops r \<Longrightarrow> stops r' \<Longrightarrow>
   x = y \<and> r = r'"
proof (induction x arbitrary: y r r')
  case (JList xs)
  have "kind_of y = KList" using same_kind [OF JList.prems(1,2)] by simp
  then obtain ys where y: "y = JList ys" by (cases y) (auto split: if_splits)
  have "xs = ys \<and> r = r'"
  proof (rule join_prefix [where f = "dumps_with str fr" and e = "CHR '']''"])
    show "a = b \<and> s = s'" if ab: "a \<in> set xs" "b \<in> set ys" "dumps_with str fr a @ s = dumps_with str fr b @ s'" "stops s" "stops s'" for a b s s'
    proof -
      have "float_repr_ok fr (json_floats a \<union> json_floats b)"
        by (rule float_repr_ok_mono [OF JList.prems(1)]) (use ab(1,2) y in auto)
      then show ?thesis by (rule JList.IH [OF ab(1) _ ab(3-5)])
    qed
    show "dumps_with str fr a \<noteq> [] \<and> \<not> is_delim (hd (dumps_with str fr a))" if "a \<in> set xs \<union> set ys" for a
    proof -
      have "float_repr_ok fr (json_floats a)"
        using float_repr_ok_mono [OF JList.prems(1), of "json_floats a"] that y by auto
      then show ?thesis using text_head text_not_delim by blast
    qed
    show "join '','' (map (dumps_with str fr) xs) @ CHR '']'' # r = join '','' (map (dumps_with str fr) ys) @ CHR '']'' # r'"
      using JList.prems(2) y by simp
  qed (simp_all add: is_delim_def)
  then show ?case using y by simp
next
  case (JObj kvs)
  have "kind_of y = KObj" using same_kind [OF JObj.prems(1,2)] by simp
  then obtain ys where y: "y = JObj ys" by (cases y) (auto split: if_splits)
  let ?f = "\<lambda>kv. str (fst kv) @ '':'' @ dumps_with str fr (snd kv)"
  have "kvs = ys \<and> r = r'"
  proof (rule join_prefix [where f = ?f and e = "CHR ''}''"])
    show "a = b \<and> s = s'" if ab: "a \<in> set kvs" "b \<in> set ys" "?f a @ s = ?f b @ s'" "stops s" "stops s'" for a b s s'
    proof -
      have k: "fst a = fst b" "dumps_with str fr (snd a) @ s = dumps_with str fr (snd b) @ s'"
        using str_prefix [of "fst a" "'':'' @ dumps_with str fr (snd a) @ s" "fst b" "'':'' @ dumps_with str fr (snd b) @ s'"] ab(3)
        by simp_all
      have "float_repr_ok fr (json_floats (snd a) \<union> json_floats (snd b))"
        by (rule float_repr_ok_mono [OF JObj.prems(1)]) (use ab(1,2) y in auto)
      moreover have "snd a \<in> Basic_BNFs.snds a" by (cases a) (simp add: prod_set_simps)
      ultimately have "snd a = snd b \<and> s = s'" by (intro JObj.IH [OF ab(1) _ _ k(2) ab(4,5)])
      with k(1) show ?thesis by (simp add: prod_eq_iff)
    qed
    show "?f a \<noteq> [] \<and> \<not> is_delim (hd (?f a))" for a
      by (simp add: str_quote is_delim_def hd_append)
    show "join '','' (map ?f kvs) @ CHR ''}'' # r = join '','' (map ?f ys) @ CHR ''}'' # r'"
      using JObj.prems(2) y by simp
  qed (simp_all add: is_delim_def)
  then show ?case using y by simp
next
  case (JStr t)
  have "kind_of y = KString" using same_kind [OF JStr.prems(1,2)] by simp
  then obtain u where "y = JStr u" by (cases y) (auto split: if_splits)
  then show ?case using JStr.prems(2) str_prefix [of t r u r'] by simp
next
  case JNull
  have "kind_of y = KNull" using same_kind [OF JNull.prems(1,2)] by simp
  then show ?case using JNull.prems(2) by (cases y) (auto split: if_splits)
next
  case (JBool b)
  have "kind_of y = (if b then KTrue else KFalse)" using same_kind [OF JBool.prems(1,2)] by simp
  then show ?case using JBool.prems(2) by (cases y) (auto split: if_splits)
next
  case (JInt i)
  have "kind_of y = KNumber" using same_kind [OF JInt.prems(1,2)] by simp
  then show ?case using number_prefix [OF JInt.prems(1) _ _ JInt.prems(2-4)] by simp
next
  case (JFloat a)
  have "kind_of y = KNumber" using same_kind [OF JFloat.prems(1,2)] by simp
  then show ?case using number_prefix [OF JFloat.prems(1) _ _ JFloat.prems(2-4)] by simp
qed

lemma text_inject:
  "float_repr_ok fr (json_floats x \<union> json_floats y) \<Longrightarrow> dumps_with str fr x = dumps_with str fr y \<longleftrightarrow> x = y"
  using text_prefix [of fr x y "[]" "[]"] by (auto simp: stops_def)

end

sublocale escape_code \<subseteq> json_text "quoted esc"
proof
  show "s = t \<and> u = v" if "quoted esc s @ u = quoted esc t @ v" for s u t v
    using that by (rule quoted_prefix)
qed (simp add: quoted_def)

interpretation plain_text: escape_code json_escape
proof
  show "c = d \<and> u = v" if "json_escape c @ u = json_escape d @ v" for c u d v
    using that by (rule escape_prefix)
qed (rule escape_head)

interpretation ascii_text: escape_code ascii_escape
proof
  show "c = d \<and> u = v" if "ascii_escape c @ u = ascii_escape d @ v" for c u d v
    using that by (rule ascii_escape_prefix)
qed (rule ascii_escape_head)

end
