(* ===== verification/Gw_Schema.thy ===== *)
theory Gw_Schema
  imports Gw_Errors Gw_Canonical
begin

text \<open>
  \<open>gateway/schemas/chat.py\<close> and \<open>gateway/batching/eligibility.py\<close>: the supported request, its
  declared constraints and validators, the payload sent upstream, and the decision whether a
  request may be batched. A field is \<open>None\<close> when the client did not set it; a nullable field set to
  JSON null is \<open>Some None\<close>. The strict type checks of the pydantic library have already passed.
\<close>

datatype role = Role_system | Role_user | Role_assistant

record chat_message =
  msg_role :: role
  msg_content :: string

record stream_options =
  include_usage :: "bool option"

datatype stop_value = Stop_str string | Stop_list "string list"

record chat_request =
  req_model :: string
  req_messages :: "chat_message list"
  req_temperature :: "real option"
  req_top_p :: "real option"
  req_max_tokens :: "int option option"
  req_stop :: "stop_value option option"
  req_seed :: "int option option"
  req_n :: "int option"
  req_stream :: "bool option"
  req_stream_options :: "stream_options option option"

section \<open>Validation\<close>

definition valid_message :: "chat_message \<Rightarrow> bool" where
  "valid_message m \<longleftrightarrow> 1 \<le> length (msg_content m) \<and> py_strip (msg_content m) \<noteq> []"

definition valid_stop :: "stop_value option \<Rightarrow> bool" where
  "valid_stop v = (case v of None \<Rightarrow> True
    | Some sv \<Rightarrow>
       (let vs = (case sv of Stop_str s \<Rightarrow> [s] | Stop_list ss \<Rightarrow> ss)
        in \<not> (vs = [] \<or> list_ex (\<lambda>s. py_strip s = []) vs)))"

definition opt_all :: "('a \<Rightarrow> bool) \<Rightarrow> 'a option \<Rightarrow> bool" where
  "opt_all P v = (case v of None \<Rightarrow> True | Some x \<Rightarrow> P x)"

definition stream_on :: "chat_request \<Rightarrow> bool" where
  "stream_on r = (case req_stream r of Some b \<Rightarrow> b | None \<Rightarrow> False)"

definition n_of :: "chat_request \<Rightarrow> int" where
  "n_of r = (case req_n r of Some n \<Rightarrow> n | None \<Rightarrow> 1)"

definition stream_options_of :: "chat_request \<Rightarrow> stream_options option" where
  "stream_options_of r = (case req_stream_options r of Some v \<Rightarrow> v | None \<Rightarrow> None)"

definition valid_fields :: "chat_request \<Rightarrow> bool" where
  "valid_fields r \<longleftrightarrow> 1 \<le> length (req_model r) \<and> py_strip (req_model r) \<noteq> [] \<and>
     1 \<le> length (req_messages r) \<and> list_all valid_message (req_messages r) \<and>
     opt_all (\<lambda>t. 0 \<le> t \<and> t \<le> 2) (req_temperature r) \<and>
     opt_all (\<lambda>t. 0 \<le> t \<and> t \<le> 1) (req_top_p r) \<and>
     opt_all (opt_all (\<lambda>m. 0 < m)) (req_max_tokens r) \<and>
     opt_all valid_stop (req_stop r) \<and> opt_all (\<lambda>n. 0 < n) (req_n r)"

definition validate_request :: "chat_request \<Rightarrow> exn + chat_request" where
  "validate_request r =
     (if \<not> valid_fields r then Inl RequestValidationError
      else if stream_options_of r \<noteq> None \<and> \<not> stream_on r then Inl RequestValidationError
      else Inr r)"

section \<open>Payloads\<close>

fun role_str :: "role \<Rightarrow> string" where
  "role_str Role_system = ''system''"
| "role_str Role_user = ''user''"
| "role_str Role_assistant = ''assistant''"

definition message_json :: "chat_message \<Rightarrow> json" where
  "message_json m = JObj [(''role'', JStr (role_str (msg_role m))), (''content'', JStr (msg_content m))]"

fun stop_json :: "stop_value \<Rightarrow> json" where
  "stop_json (Stop_str s) = JStr s"
| "stop_json (Stop_list ss) = JList (map JStr ss)"

definition stream_options_json :: "stream_options \<Rightarrow> json" where
  "stream_options_json o1 = JObj (case include_usage o1 of Some b \<Rightarrow> [(''include_usage'', JBool b)] | None \<Rightarrow> [])"

text \<open>\<open>exclude_unset\<close> drops fields the client did not set, \<open>exclude_none\<close> those set to null.\<close>

definition set_field :: "string \<Rightarrow> ('a \<Rightarrow> json) \<Rightarrow> 'a option \<Rightarrow> json_dict" where
  "set_field k f v = (case v of Some x \<Rightarrow> [(k, f x)] | None \<Rightarrow> [])"

definition set_nullable :: "string \<Rightarrow> ('a \<Rightarrow> json) \<Rightarrow> 'a option option \<Rightarrow> json_dict" where
  "set_nullable k f v = (case v of Some (Some x) \<Rightarrow> [(k, f x)] | _ \<Rightarrow> [])"

definition to_upstream_payload :: "chat_request \<Rightarrow> json_dict" where
  "to_upstream_payload r =
     [(''model'', JStr (req_model r)), (''messages'', JList (map message_json (req_messages r)))] @
     set_field ''temperature'' JFloat (req_temperature r) @
     set_field ''top_p'' JFloat (req_top_p r) @
     set_nullable ''max_tokens'' JInt (req_max_tokens r) @
     set_nullable ''stop'' stop_json (req_stop r) @
     set_nullable ''seed'' JInt (req_seed r) @
     set_field ''n'' JInt (req_n r) @
     set_field ''stream'' JBool (req_stream r) @
     set_nullable ''stream_options'' stream_options_json (req_stream_options r)"

definition dict_pop :: "string \<Rightarrow> json_dict \<Rightarrow> json_dict" where
  "dict_pop k d = filter (\<lambda>kv. fst kv \<noteq> k) d"

definition to_batch_shared_payload :: "chat_request \<Rightarrow> json_dict" where
  "to_batch_shared_payload r =
     dict_pop ''n'' (dict_pop ''stream_options'' (dict_pop ''stream'' (dict_pop ''messages'' (to_upstream_payload r))))"

lemma shared_payload_eq:
  "to_batch_shared_payload r =
     [(''model'', JStr (req_model r))] @ set_field ''temperature'' JFloat (req_temperature r) @
     set_field ''top_p'' JFloat (req_top_p r) @ set_nullable ''max_tokens'' JInt (req_max_tokens r) @
     set_nullable ''stop'' stop_json (req_stop r) @ set_nullable ''seed'' JInt (req_seed r)"
  by (auto simp: to_batch_shared_payload_def to_upstream_payload_def dict_pop_def set_field_def set_nullable_def
      split: option.split)

lemma field_keys:
  "distinct (map fst (set_field k f v))" "distinct (map fst (set_nullable k f w))"
  "k' \<in> fst ` set (set_field k f v) \<longleftrightarrow> k' = k \<and> v \<noteq> None"
  "k' \<in> fst ` set (set_nullable k f w) \<longleftrightarrow> k' = k \<and> w \<noteq> None \<and> w \<noteq> Some None"
proof -
  show "distinct (map fst (set_field k f v))" "k' \<in> fst ` set (set_field k f v) \<longleftrightarrow> k' = k \<and> v \<noteq> None"
    by (cases v; simp add: set_field_def)+
  show "distinct (map fst (set_nullable k f w))"
    "k' \<in> fst ` set (set_nullable k f w) \<longleftrightarrow> k' = k \<and> w \<noteq> None \<and> w \<noteq> Some None"
    by (cases w; cases "the w"; simp add: set_nullable_def)+
qed

lemma field_disjoint:
  "fst ` set (set_field k f v) \<inter> A = {} \<longleftrightarrow> v = None \<or> k \<notin> A"
  "fst ` set (set_nullable k f w) \<inter> A = {} \<longleftrightarrow> w = None \<or> w = Some None \<or> k \<notin> A"
proof -
  show "fst ` set (set_field k f v) \<inter> A = {} \<longleftrightarrow> v = None \<or> k \<notin> A"
    by (cases v; simp add: set_field_def)
  show "fst ` set (set_nullable k f w) \<inter> A = {} \<longleftrightarrow> w = None \<or> w = Some None \<or> k \<notin> A"
    by (cases w; cases "the w"; simp add: set_nullable_def)
qed

lemma payload_keys_distinct: "distinct (map fst (to_upstream_payload r))"
  unfolding to_upstream_payload_def
  by (simp add: field_keys field_disjoint image_Un)

lemma map_JStr_inject: "map JStr ss = map JStr ts \<longleftrightarrow> ss = ts"
  by (rule inj_map_eq_map) (rule injI, erule json.inject(4) [THEN iffD1])

lemma stop_json_inject: "stop_json a = stop_json b \<Longrightarrow> a = b"
proof (cases a; cases b)
  fix ss ts
  assume "stop_json a = stop_json b" and a: "a = Stop_list ss" and b: "b = Stop_list ts"
  then have "map JStr ss = map JStr ts" by (simp only: stop_json.simps json.inject)
  then show "a = b" unfolding a b map_JStr_inject by simp
qed auto

section \<open>Eligibility\<close>

datatype batch_decision = Eligible | Bypass

datatype eligibility_reason = Reason_eligible | Reason_disabled | Reason_streaming | Reason_n_gt_1

definition batching_eligibility :: "chat_request \<Rightarrow> bool \<Rightarrow> batch_decision \<times> eligibility_reason" where
  "batching_eligibility r enabled =
     (if \<not> enabled then (Bypass, Reason_disabled)
      else if stream_on r then (Bypass, Reason_streaming)
      else if n_of r > 1 then (Bypass, Reason_n_gt_1)
      else (Eligible, Reason_eligible))"

lemma eligible_iff:
  "fst (batching_eligibility r enabled) = Eligible \<longleftrightarrow> enabled \<and> \<not> stream_on r \<and> n_of r \<le> 1"
  by (simp add: batching_eligibility_def not_less)

text \<open>
  What the batch endpoint leaves out of an eligible request's payload is what it implies: the
  fields popped are the messages (sent per member) and fields at their default value.
\<close>

lemma eligible_dropped:
  assumes v: "validate_request r = Inr r" and e: "fst (batching_eligibility r enabled) = Eligible"
  shows "n_of r = 1 \<and> \<not> stream_on r \<and> stream_options_of r = None"
proof -
  have "0 < n_of r" using v by (auto simp: validate_request_def valid_fields_def n_of_def opt_all_def split: if_splits option.splits)
  moreover have "enabled" "\<not> stream_on r" "n_of r \<le> 1" using e eligible_iff by blast+
  moreover have "stream_options_of r = None" using v \<open>\<not> stream_on r\<close> by (auto simp: validate_request_def split: if_splits)
  ultimately show ?thesis by simp
qed

end
