(* ===== verification/Gw_Batch_Key.thy ===== *)
theory Gw_Batch_Key
  imports Gw_Schema
begin

text \<open>
  \<open>compatibility_key\<close> of \<open>gateway/batching/dynamic.py\<close>. Requests are put into one upstream batch
  exactly when their keys are equal, so the isolation of tenants and the meaning of every shared
  parameter rest on the key being injective. The text of a float is the argument \<open>fr\<close>
  (\<open>float.__repr__\<close>), used only under \<^const>\<open>float_repr_ok\<close> for the floats that occur.
\<close>

definition compatibility_key :: "(real \<Rightarrow> string) \<Rightarrow> string \<Rightarrow> chat_request \<Rightarrow> string" where
  "compatibility_key fr tenant_id r =
     (let canonical_shared = dumps fr (JObj (sort_items (to_batch_shared_payload r)))
      in dumps fr (JList [JStr tenant_id, JStr canonical_shared]))"

text \<open>The floats whose text a key contains.\<close>

definition shared_floats :: "chat_request \<Rightarrow> real set" where
  "shared_floats r = json_floats (JObj (to_batch_shared_payload r))"

text \<open>Two requests that agree in every field a batch shares.\<close>

definition same_shared :: "chat_request \<Rightarrow> chat_request \<Rightarrow> bool" where
  "same_shared r r' \<longleftrightarrow> req_model r = req_model r' \<and> req_temperature r = req_temperature r' \<and>
     req_top_p r = req_top_p r' \<and> Option.bind (req_max_tokens r) id = Option.bind (req_max_tokens r') id \<and>
     Option.bind (req_stop r) id = Option.bind (req_stop r') id \<and>
     Option.bind (req_seed r) id = Option.bind (req_seed r') id"

section \<open>Sorting keeps the dictionary\<close>

lemma set_insert_item: "set (insert_item kv xs) = insert kv (set xs)"
  by (induction kv xs rule: insert_item.induct) auto

lemma set_sort_items: "set (sort_items kvs) = set kvs"
  unfolding sort_items_def by (induction kvs) (simp_all add: set_insert_item)

lemma json_floats_sort: "json_floats (JObj (sort_items kvs)) = json_floats (JObj kvs)"
  by (simp add: set_sort_items)

section \<open>The fields of the shared payload\<close>

lemma map_of_fields:
  "map_of (set_field k f v) k' = (if k' = k then map_option f v else None)"
  "map_of (set_nullable k f w) k' = (if k' = k then map_option f (Option.bind w id) else None)"
proof -
  show "map_of (set_field k f v) k' = (if k' = k then map_option f v else None)"
    by (cases v; simp add: set_field_def)
  show "map_of (set_nullable k f w) k' = (if k' = k then map_option f (Option.bind w id) else None)"
    by (cases w; cases "the w"; simp add: set_nullable_def)
qed

lemma shared_lookups:
  "map_of (to_batch_shared_payload r) ''model'' = Some (JStr (req_model r))"
  "map_of (to_batch_shared_payload r) ''temperature'' = map_option JFloat (req_temperature r)"
  "map_of (to_batch_shared_payload r) ''top_p'' = map_option JFloat (req_top_p r)"
  "map_of (to_batch_shared_payload r) ''max_tokens'' = map_option JInt (Option.bind (req_max_tokens r) id)"
  "map_of (to_batch_shared_payload r) ''stop'' = map_option stop_json (Option.bind (req_stop r) id)"
  "map_of (to_batch_shared_payload r) ''seed'' = map_option JInt (Option.bind (req_seed r) id)"
  by (simp_all add: shared_payload_eq map_add_def map_of_fields split: option.split)

lemma set_nullable_bind: "set_nullable k f w = set_field k f (Option.bind w id)"
  by (cases w; cases "the w"; simp add: set_nullable_def set_field_def)

lemma same_shared_payload: "same_shared r r' \<Longrightarrow> to_batch_shared_payload r = to_batch_shared_payload r'"
  unfolding same_shared_def shared_payload_eq set_nullable_bind by simp

lemma shared_keys_distinct: "distinct (map fst (to_batch_shared_payload r))"
proof -
  have "distinct (map fst xs) \<Longrightarrow> distinct (map fst (dict_pop k xs))" for k and xs :: json_dict
    unfolding dict_pop_def by (rule distinct_map_filter)
  then show ?thesis unfolding to_batch_shared_payload_def using payload_keys_distinct by blast
qed

lemma shared_set_eq:
  assumes "set (to_batch_shared_payload r) = set (to_batch_shared_payload r')"
  shows "same_shared r r'"
proof -
  have m: "map_of (to_batch_shared_payload r) k = map_of (to_batch_shared_payload r') k" for k
    using map_of_inject_set [OF shared_keys_distinct shared_keys_distinct] assms by metis
  have map_inj: "map_option f a = map_option f b \<longleftrightarrow> a = b" if "\<And>x y. f x = f y \<Longrightarrow> x = y" for f :: "'x \<Rightarrow> json" and a b
    by (cases a; cases b) (auto dest: that)
  have eqs: "map_option JFloat a = map_option JFloat b \<longleftrightarrow> a = b" "map_option JInt c = map_option JInt d \<longleftrightarrow> c = d"
    "map_option stop_json e = map_option stop_json f \<longleftrightarrow> e = f" for a b c d e f
    by (rule map_inj; simp add: stop_json_inject)+
  show ?thesis
    unfolding same_shared_def
    using m [of "''model''"] m [of "''temperature''"] m [of "''top_p''"] m [of "''max_tokens''"]
      m [of "''stop''"] m [of "''seed''"]
    unfolding shared_lookups eqs by simp
qed

lemma float_repr_ok_empty: "float_repr_ok fr {}"
  by (simp add: float_repr_ok_def)

lemma compatibility_key_inject:
  assumes "float_repr_ok fr (shared_floats r \<union> shared_floats r')"
  shows "compatibility_key fr t r = compatibility_key fr t' r' \<longleftrightarrow> t = t' \<and> same_shared r r'"
proof -
  let ?shared = "\<lambda>r. JObj (sort_items (to_batch_shared_payload r))"
  have outer: "compatibility_key fr t r = compatibility_key fr t' r' \<longleftrightarrow>
      t = t' \<and> dumps fr (?shared r) = dumps fr (?shared r')"
    unfolding compatibility_key_def Let_def by (subst plain_text.text_inject) (auto simp: float_repr_ok_empty)
  have "float_repr_ok fr (json_floats (?shared r) \<union> json_floats (?shared r'))"
    using assms unfolding shared_floats_def json_floats_sort .
  then have inner: "dumps fr (?shared r) = dumps fr (?shared r') \<longleftrightarrow>
      sort_items (to_batch_shared_payload r) = sort_items (to_batch_shared_payload r')"
    by (subst plain_text.text_inject) simp_all
  have "sort_items (to_batch_shared_payload r) = sort_items (to_batch_shared_payload r') \<longleftrightarrow> same_shared r r'"
    using shared_set_eq same_shared_payload set_sort_items by metis
  with outer inner show ?thesis by simp
qed

text \<open>
  C21. Two requests get the same compatibility key exactly when they come from the same tenant and
  agree in the model and in every sampling parameter the batch sends once for all its members:
  \<open>json.dumps\<close> of the tenant and of the sorted shared payload never confuses two of them.
\<close>

theorem compatibility_key_exact:
  assumes "float_repr_ok fr (shared_floats r \<union> shared_floats r')"
  shows "compatibility_key fr t r = compatibility_key fr t' r' \<longleftrightarrow>
    t = t' \<and> req_model r = req_model r' \<and> req_temperature r = req_temperature r' \<and>
    req_top_p r = req_top_p r' \<and> Option.bind (req_max_tokens r) id = Option.bind (req_max_tokens r') id \<and>
    Option.bind (req_stop r) id = Option.bind (req_stop r') id \<and>
    Option.bind (req_seed r) id = Option.bind (req_seed r') id"
  using compatibility_key_inject [OF assms] unfolding same_shared_def .

definition sample_request :: "real option \<Rightarrow> stop_value option option \<Rightarrow> chat_request" where
  "sample_request temp stop = \<lparr>req_model = ''m'', req_messages = [\<lparr>msg_role = Role_user, msg_content = ''hi''\<rparr>],
     req_temperature = temp, req_top_p = None, req_max_tokens = Some (Some 8), req_stop = stop,
     req_seed = None, req_n = None, req_stream = None, req_stream_options = None\<rparr>"

definition half_repr :: "real \<Rightarrow> string" where
  "half_repr x = (if x = 0 then ''0.0'' else ''0.5'')"

lemma half_repr_ok: "float_repr_ok half_repr {0, 1 / 2}"
  by (simp add: float_repr_ok_def half_repr_def number_char_def is_digit_def)

theorem compatibility_key_exact_witness:
  "float_repr_ok half_repr (shared_floats (sample_request (Some 0) None) \<union> shared_floats (sample_request (Some (1 / 2)) None)) \<and>
   compatibility_key half_repr ''a'' (sample_request (Some 0) None) \<noteq>
     compatibility_key half_repr ''a'' (sample_request (Some (1 / 2)) None) \<and>
   compatibility_key half_repr ''a'' (sample_request (Some 0) None) \<noteq>
     compatibility_key half_repr ''b'' (sample_request (Some 0) None) \<and>
   compatibility_key half_repr ''a'' (sample_request (Some 0) None) =
     compatibility_key half_repr ''a'' (sample_request (Some 0) (Some None))"
proof -
  have f: "shared_floats (sample_request (Some x) stop) = {x}" if "stop = None \<or> stop = Some None" for x stop
    using that by (auto simp: shared_floats_def shared_payload_eq sample_request_def set_field_def set_nullable_def)
  have ok: "float_repr_ok half_repr (shared_floats (sample_request (Some x) stop) \<union> shared_floats (sample_request (Some y) stop'))"
    if "x \<in> {0, 1 / 2}" "y \<in> {0, 1 / 2}" "stop = None \<or> stop = Some None" "stop' = None \<or> stop' = Some None" for x y stop stop'
    by (rule float_repr_ok_mono [OF half_repr_ok]) (use that in \<open>auto simp: f\<close>)
  show ?thesis
    using ok [of 0 "1 / 2" None None]
      compatibility_key_exact [OF ok [of 0 "1 / 2" None None], of "''a''" "''a''"]
      compatibility_key_exact [OF ok [of 0 0 None None], of "''a''" "''b''"]
      compatibility_key_exact [OF ok [of 0 0 None "Some None"], of "''a''" "''a''"]
    by (auto simp: sample_request_def)
qed

end
