(* ===== verification/Gw_Batcher.thy ===== *)
theory Gw_Batcher
  imports Gw_Batch_Key
begin

text \<open>
  \<open>gateway/batching/dynamic.py\<close>: aggregation of compatible requests into bounded upstream batches.

  Items, timer tasks and flush tasks are heap objects addressed by their index. A pending batch is
  created together with its timer task, and the index of the timer is the identity of both; a batch
  is changed only while \<open>_groups\<close> holds it, so it lives in that dictionary. The item created by a
  \<open>submit\<close> call and the frame of the call have the same index. No section under \<open>self._lock\<close>
  contains a suspension point, so the lock is always free when it is asked for, and every
  section is one function. The coroutines suspend in \<open>asyncio.shield(item.future)\<close>, in the timer's
  \<open>sleep\<close>, in \<open>generate_batch\<close> and in the two \<open>gather\<close> calls of \<open>shutdown\<close>; what each of those
  yields is an argument of the function that resumes the coroutine. The readings of the clock are
  arguments too.
\<close>

section \<open>State\<close>

datatype flush_reason = Flush_size | Flush_timeout

datatype batch_outcome = Batch_success | Batch_error | Batch_cancelled

datatype item_state = Pending | Dispatched | Completed | Cancelled

text \<open>The future of an item; a result is the response in a \<open>BatchItemResult\<close>.\<close>

datatype item_future = Unresolved | Result_set json_dict | Exception_set exn | Future_cancelled

record batch_item =
  item_request :: chat_request
  item_future :: item_future
  submitted_at :: real
  item_state :: item_state

record pending_batch =
  batch_key :: string
  batch_items :: "nat list"
  timer_task :: nat

record flush_operation =
  op_items :: "nat list"
  op_flush_reason :: flush_reason
  op_started :: bool

text \<open>
  Tasks. A cancellation is requested at once and delivered when the task next runs;
  \<open>timer_tracked\<close>, \<open>flush_tracked\<close> and \<open>flush_registered\<close> say whether the task is in \<open>_timer_tasks\<close>,
  \<open>_flush_tasks\<close> and a key of \<open>_flush_operations\<close>, which its done callbacks leave one after the other.
\<close>

record timer =
  timer_key :: string
  timer_cancelling :: bool
  timer_done :: bool
  timer_tracked :: bool

datatype flush_phase = Created | Awaiting | Finished

record flush_task = flush_operation +
  flush_phase :: flush_phase
  flush_cancelling :: bool
  flush_tracked :: bool
  flush_registered :: bool

text \<open>The frame of a \<open>submit\<close> call: its key, and how it ended.\<close>

record submission =
  sub_tenant :: string
  sub_key :: string
  sub_outcome :: "(exn + json_dict) option"

datatype batch_event =
    Batch_state_changed int int
  | Batch_dispatched flush_reason nat "real list"
  | Batch_completed flush_reason batch_outcome
  | Batch_usage usage_result "int option" nat

record batcher =
  max_size :: int
  groups :: "(string \<times> pending_batch) list"
  items :: "batch_item list"
  subs :: "submission list"
  timers :: "timer list"
  flushes :: "flush_task list"
  pending :: int
  inflight :: int
  batcher_closed :: bool
  batcher_observer :: bool
  batch_events :: "batch_event list"

section \<open>Observations\<close>

definition notify_event :: "batch_event \<Rightarrow> batcher \<Rightarrow> batcher" where
  "notify_event ev s = (if batcher_observer s then s\<lparr>batch_events := batch_events s @ [ev]\<rparr> else s)"

definition notify_state :: "batcher \<Rightarrow> batcher" where
  "notify_state s = notify_event (Batch_state_changed (pending s) (inflight s)) s"

definition observe_dispatched :: "flush_reason \<Rightarrow> nat \<Rightarrow> real list \<Rightarrow> batcher \<Rightarrow> batcher" where
  "observe_dispatched reason n waits = notify_event (Batch_dispatched reason n waits)"

definition observe_completed :: "flush_reason \<Rightarrow> batch_outcome \<Rightarrow> batcher \<Rightarrow> batcher" where
  "observe_completed reason oc = notify_event (Batch_completed reason oc)"

definition observe_usage :: "usage_result \<Rightarrow> int option \<Rightarrow> nat \<Rightarrow> batcher \<Rightarrow> batcher" where
  "observe_usage u tokens members = notify_event (Batch_usage u tokens members)"

definition DynamicBatcher :: "int \<Rightarrow> real \<Rightarrow> bool \<Rightarrow> exn + batcher" where
  "DynamicBatcher max_sz wait_seconds obs =
     (if \<not> (2 \<le> max_sz \<and> max_sz \<le> 64) then Inl (ValueError ''dynamic batch max size must be between 2 and 64'')
      else if \<not> (0 < wait_seconds \<and> wait_seconds \<le> 1) then Inl (ValueError ''dynamic batch max wait must be in (0, 1]'')
      else Inr (notify_state
        \<lparr>max_size = max_sz, groups = [], items = [], subs = [], timers = [], flushes = [], pending = 0, inflight = 0,
         batcher_closed = False, batcher_observer = obs, batch_events = []\<rparr>))"

section \<open>Updates of heap objects\<close>

definition set_item :: "nat \<Rightarrow> (batch_item \<Rightarrow> batch_item) \<Rightarrow> batcher \<Rightarrow> batcher" where
  "set_item i f s = s\<lparr>items := (items s)[i := f (items s ! i)]\<rparr>"

definition set_timer :: "nat \<Rightarrow> (timer \<Rightarrow> timer) \<Rightarrow> batcher \<Rightarrow> batcher" where
  "set_timer t f s = s\<lparr>timers := (timers s)[t := f (timers s ! t)]\<rparr>"

definition set_flush :: "nat \<Rightarrow> (flush_task \<Rightarrow> flush_task) \<Rightarrow> batcher \<Rightarrow> batcher" where
  "set_flush k f s = s\<lparr>flushes := (flushes s)[k := f (flushes s ! k)]\<rparr>"

text \<open>\<open>task.cancel()\<close> does nothing to a finished task.\<close>

definition cancel_timer :: "nat \<Rightarrow> batcher \<Rightarrow> batcher" where
  "cancel_timer t s = (if timer_done (timers s ! t) then s else set_timer t (timer_cancelling_update (\<lambda>_. True)) s)"

definition cancel_flush :: "nat \<Rightarrow> batcher \<Rightarrow> batcher" where
  "cancel_flush k s =
     (if flush_phase (flushes s ! k) = Finished then s else set_flush k (flush_cancelling_update (\<lambda>_. True)) s)"

text \<open>Completing an item: its state, and its future unless that is already done.\<close>

definition set_future :: "item_future \<Rightarrow> batch_item \<Rightarrow> batch_item" where
  "set_future f it = (if item_future it = Unresolved then it\<lparr>item_future := f\<rparr> else it)"

definition complete_item :: "item_future \<Rightarrow> batch_item \<Rightarrow> batch_item" where
  "complete_item f it = set_future f (it\<lparr>item_state := Completed\<rparr>)"

definition sub_finish :: "nat \<Rightarrow> exn + json_dict \<Rightarrow> batcher \<Rightarrow> batcher" where
  "sub_finish i r s = s\<lparr>subs := (subs s)[i := (subs s ! i)\<lparr>sub_outcome := Some r\<rparr>]\<rparr>"

abbreviation inconsistent_state :: exn where
  "inconsistent_state \<equiv> RuntimeError ''dynamic batch item state became inconsistent''"

abbreviation inconsistent_inflight :: exn where
  "inconsistent_inflight \<equiv> RuntimeError ''dynamic batch inflight accounting became inconsistent''"

section \<open>Detaching a batch\<close>

fun mark_dispatched :: "nat list \<Rightarrow> batcher \<Rightarrow> (exn + unit) \<times> batcher" where
  "mark_dispatched [] s = (Inr (), s)"
| "mark_dispatched (i # is) s =
     (if item_state (items s ! i) \<noteq> Pending then (Inl inconsistent_state, s)
      else mark_dispatched is (set_item i (item_state_update (\<lambda>_. Dispatched)) s))"

definition new_flush :: "nat list \<Rightarrow> flush_reason \<Rightarrow> flush_task" where
  "new_flush is reason = \<lparr>op_items = is, op_flush_reason = reason, op_started = False,
     flush_phase = Created, flush_cancelling = False, flush_tracked = True, flush_registered = True\<rparr>"

text \<open>
  \<open>_detach_locked\<close> for the batch with key \<open>k\<close> and identity \<open>t\<close>; \<open>own\<close> says that the current task is
  the batch's timer.
\<close>

definition detach_locked :: "string \<Rightarrow> nat \<Rightarrow> flush_reason \<Rightarrow> bool \<Rightarrow> real \<Rightarrow> batcher \<Rightarrow> (exn + unit) \<times> batcher" where
  "detach_locked k t reason own dispatched_at s = (case map_of (groups s) k of
      None \<Rightarrow> (Inr (), s)
    | Some b \<Rightarrow>
       (if timer_task b \<noteq> t \<or> batch_items b = [] then (Inr (), s)
        else
          let s1 = s\<lparr>groups := AList.delete k (groups s)\<rparr>;
              s2 = (if own then s1 else cancel_timer t s1)
          in and_then (mark_dispatched (batch_items b) s2) (\<lambda>_ s3.
            let n = length (batch_items b);
                s4 = notify_state (s3\<lparr>pending := pending s3 - int n, inflight := inflight s3 + 1\<rparr>);
                waits = map (\<lambda>i. max 0 (dispatched_at - submitted_at (items s4 ! i))) (batch_items b);
                s5 = observe_dispatched reason n waits s4
            in (Inr (), s5\<lparr>flushes := flushes s5 @ [new_flush (batch_items b) reason]\<rparr>))))"

section \<open>Submitting\<close>

definition new_item :: "chat_request \<Rightarrow> real \<Rightarrow> batch_item" where
  "new_item r now = \<lparr>item_request = r, item_future = Unresolved, submitted_at = now, item_state = Pending\<rparr>"

definition new_timer :: "string \<Rightarrow> timer" where
  "new_timer k = \<lparr>timer_key = k, timer_cancelling = False, timer_done = False, timer_tracked = True\<rparr>"

text \<open>\<open>submit\<close> up to its await; \<open>submitted\<close> and \<open>now\<close> are the two readings of the clock.\<close>

definition enqueue :: "string \<Rightarrow> string \<Rightarrow> chat_request \<Rightarrow> real \<Rightarrow> batcher \<Rightarrow> batcher" where
  "enqueue key tenant_id r submitted s =
     (let i = length (items s);
          (b, ts) = (case map_of (groups s) key of
              Some b \<Rightarrow> (b, timers s)
            | None \<Rightarrow> (\<lparr>batch_key = key, batch_items = [], timer_task = length (timers s)\<rparr>, timers s @ [new_timer key]))
      in notify_state
        (s\<lparr>items := items s @ [new_item r submitted],
           subs := subs s @ [\<lparr>sub_tenant = tenant_id, sub_key = key, sub_outcome = None\<rparr>],
           timers := ts,
           groups := AList.update key (b\<lparr>batch_items := batch_items b @ [i]\<rparr>) (groups s),
           pending := pending s + 1\<rparr>))"

definition flush_if_full :: "string \<Rightarrow> real \<Rightarrow> batcher \<Rightarrow> (exn + unit) \<times> batcher" where
  "flush_if_full key now s = (case map_of (groups s) key of
      Some b \<Rightarrow>
       (if int (length (batch_items b)) \<ge> max_size s
        then detach_locked key (timer_task b) Flush_size False now s else (Inr (), s))
    | None \<Rightarrow> (Inr (), s))"

definition submit ::
  "(real \<Rightarrow> string) \<Rightarrow> string \<Rightarrow> chat_request \<Rightarrow> real \<Rightarrow> real \<Rightarrow> batcher \<Rightarrow> (exn + nat) \<times> batcher" where
  "submit fr tenant_id r submitted now s =
     (if batcher_closed s then (Inl (raised BatchingUnavailableError), s)
      else
        let i = length (items s);
            key = compatibility_key fr tenant_id r
        in (case flush_if_full key now (enqueue key tenant_id r submitted s) of
             (Inl e, s1) \<Rightarrow> (Inl e, sub_finish i (Inl e) s1)
           | (Inr _, s1) \<Rightarrow> (Inr i, s1)))"

definition remove_pending :: "nat \<Rightarrow> string \<Rightarrow> batcher \<Rightarrow> batcher" where
  "remove_pending i key s = (case map_of (groups s) key of
      None \<Rightarrow> s
    | Some b \<Rightarrow>
       (if i \<notin> set (batch_items b) then s
        else
          let left = remove1 i (batch_items b);
              s1 = s\<lparr>pending := pending s - 1\<rparr>
          in notify_state
            (if left = [] then cancel_timer (timer_task b) (s1\<lparr>groups := AList.delete key (groups s1)\<rparr>)
             else s1\<lparr>groups := AList.update key (b\<lparr>batch_items := left\<rparr>) (groups s1)\<rparr>)))"

definition cancel_item :: "nat \<Rightarrow> string \<Rightarrow> batcher \<Rightarrow> batcher" where
  "cancel_item i key s =
     (let s1 = (case item_state (items s ! i) of
            Pending \<Rightarrow> set_item i (item_state_update (\<lambda>_. Cancelled)) (remove_pending i key s)
          | Dispatched \<Rightarrow> set_item i (item_state_update (\<lambda>_. Cancelled)) s
          | _ \<Rightarrow> s)
      in set_item i (set_future Future_cancelled) s1)"

definition submit_cancelled :: "nat \<Rightarrow> batcher \<Rightarrow> batcher" where
  "submit_cancelled i s = sub_finish i (Inl CancelledError) (cancel_item i (sub_key (subs s ! i)) s)"

text \<open>\<open>submit\<close> from the end of its await on, when the item's future is done.\<close>

definition submit_resumed :: "nat \<Rightarrow> batcher \<Rightarrow> batcher" where
  "submit_resumed i s = (case item_future (items s ! i) of
      Result_set r \<Rightarrow> sub_finish i (Inr r) s
    | Exception_set e \<Rightarrow> sub_finish i (Inl e) s
    | Future_cancelled \<Rightarrow> submit_cancelled i s
    | Unresolved \<Rightarrow> s)"

section \<open>Timers\<close>

text \<open>\<open>_timer_expired\<close> from the end of its sleep on.\<close>

definition timer_expired :: "nat \<Rightarrow> real \<Rightarrow> batcher \<Rightarrow> (exn + unit) \<times> batcher" where
  "timer_expired t now s = (case detach_locked (timer_key (timers s ! t)) t Flush_timeout True now s of
     (r, s1) \<Rightarrow> (r, set_timer t (timer_done_update (\<lambda>_. True)) s1))"

section \<open>Executing a batch\<close>

text \<open>What \<open>generate_batch\<close> returns: a \<open>BackendBatchResult\<close>, or a value that is none.\<close>

datatype batch_return =
    BackendBatchResult (batch_responses: "json_dict list") (batch_usage: usage_result) (batch_tokens: "int option")
  | Other_value

definition execute_start :: "nat \<Rightarrow> batcher \<Rightarrow> batcher" where
  "execute_start k = set_flush k (\<lambda>fl. fl\<lparr>op_started := True, flush_phase := Awaiting\<rparr>)"

fun complete_success :: "nat list \<Rightarrow> json_dict list \<Rightarrow> nat \<Rightarrow> batcher \<Rightarrow> (exn + nat) \<times> batcher" where
  "complete_success [] [] delivered s = (Inr delivered, s)"
| "complete_success (i # is) (r # rs) delivered s =
     (if item_state (items s ! i) = Cancelled then complete_success is rs delivered s
      else if item_state (items s ! i) \<noteq> Dispatched then (Inl inconsistent_state, s)
      else complete_success is rs
             (if item_future (items s ! i) = Unresolved then delivered + 1 else delivered)
             (set_item i (complete_item (Result_set r)) s))"
| "complete_success _ _ delivered s = (Inl (ValueError ''zip() arguments have different lengths''), s)"

fun fail_items :: "nat list \<Rightarrow> exn \<Rightarrow> batcher \<Rightarrow> (exn + unit) \<times> batcher" where
  "fail_items [] e s = (Inr (), s)"
| "fail_items (i # is) e s =
     (if item_state (items s ! i) = Cancelled then fail_items is e s
      else if item_state (items s ! i) \<noteq> Dispatched then (Inl inconsistent_state, s)
      else fail_items is e (set_item i (complete_item (Exception_set e)) s))"

text \<open>The body of the \<open>try\<close> statement once \<open>generate_batch\<close> has returned or raised.\<close>

definition execute_body :: "nat list \<Rightarrow> exn + batch_return \<Rightarrow> batcher \<Rightarrow> (exn + unit) \<times> batcher" where
  "execute_body is r s = (case r of
      Inl e \<Rightarrow> (Inl e, s)
    | Inr Other_value \<Rightarrow> (Inl (raised BackendProtocolError), s)
    | Inr (BackendBatchResult rs u tokens) \<Rightarrow>
       (if length rs \<noteq> length is then (Inl (raised BackendProtocolError), s)
        else and_then (complete_success is rs 0 s) (\<lambda>delivered s1. (Inr (), observe_usage u tokens delivered s1))))"

text \<open>Its two \<open>except\<close> clauses, with the outcome the statement reports.\<close>

definition execute_handlers :: "nat list \<Rightarrow> (exn + unit) \<times> batcher \<Rightarrow> ((exn + unit) \<times> batcher) \<times> batch_outcome" where
  "execute_handlers is rs = (case rs of
      (Inr _, s) \<Rightarrow> ((Inr (), s), Batch_success)
    | (Inl e, s) \<Rightarrow>
       (if e = CancelledError
        then (and_then (fail_items is (raised BatchingUnavailableError) s) (\<lambda>_ s1. (Inl CancelledError, s1)), Batch_cancelled)
        else (fail_items is e s, Batch_error)))"

text \<open>Its \<open>finally\<close> clause.\<close>

definition execute_finally ::
  "flush_reason \<Rightarrow> ((exn + unit) \<times> batcher) \<times> batch_outcome \<Rightarrow> (exn + unit) \<times> batcher" where
  "execute_finally reason x = (case x of ((r, s), oc) \<Rightarrow>
     (if inflight s \<le> 0 then (Inl inconsistent_inflight, s)
      else (r, observe_completed reason oc (notify_state (s\<lparr>inflight := inflight s - 1\<rparr>)))))"

definition execute_done :: "nat \<Rightarrow> exn + batch_return \<Rightarrow> batcher \<Rightarrow> (exn + unit) \<times> batcher" where
  "execute_done k r s =
     (let op = flushes s ! k
      in case execute_finally (op_flush_reason op) (execute_handlers (op_items op) (execute_body (op_items op) r s)) of
           (res, s1) \<Rightarrow> (res, set_flush k (flush_phase_update (\<lambda>_. Finished)) s1))"

section \<open>Shutting down\<close>

fun settle_pending :: "nat list \<Rightarrow> batcher \<Rightarrow> batcher" where
  "settle_pending [] s = s"
| "settle_pending (i # is) s = settle_pending is
     (if item_state (items s ! i) = Pending
      then (set_item i (complete_item (Exception_set (raised BatchingUnavailableError))) s)\<lparr>pending := pending s - 1\<rparr>
      else s)"

fun settle_batches :: "pending_batch list \<Rightarrow> batcher \<Rightarrow> batcher" where
  "settle_batches [] s = s"
| "settle_batches (b # bs) s = settle_batches bs (settle_pending (batch_items b) (cancel_timer (timer_task b) s))"

fun settle_dispatched :: "nat list \<Rightarrow> batcher \<Rightarrow> batcher" where
  "settle_dispatched [] s = s"
| "settle_dispatched (i # is) s = settle_dispatched is
     (if item_state (items s ! i) = Dispatched
      then set_item i (complete_item (Exception_set (raised BatchingUnavailableError))) s else s)"

text \<open>The loop over the flush tasks, with the flush reasons of the operations that never started.\<close>

fun cancel_flushes :: "nat list \<Rightarrow> flush_reason list \<Rightarrow> batcher \<Rightarrow> (exn + flush_reason list) \<times> batcher" where
  "cancel_flushes [] reasons s = (Inr reasons, s)"
| "cancel_flushes (k # ks) reasons s =
     (let s1 = cancel_flush k s; op = flushes s1 ! k
      in if \<not> flush_registered op \<or> op_started op then cancel_flushes ks reasons s1
         else
           let s2 = settle_dispatched (op_items op) s1
           in if inflight s2 \<le> 0 then (Inl inconsistent_inflight, s2)
              else cancel_flushes ks (reasons @ [op_flush_reason op]) (s2\<lparr>inflight := inflight s2 - 1\<rparr>))"

text \<open>\<open>shutdown\<close> up to its \<open>gather\<close> calls; the result is the tasks those wait for.\<close>

definition shutdown :: "batcher \<Rightarrow> (exn + (nat list \<times> nat list) option) \<times> batcher" where
  "shutdown s =
     (if batcher_closed s then (Inr None, s)
      else
        let s1 = settle_batches (map snd (groups s)) (s\<lparr>batcher_closed := True, groups := []\<rparr>);
            flush_tasks = filter (\<lambda>k. flush_tracked (flushes s1 ! k)) [0..<length (flushes s1)]
        in and_then (cancel_flushes flush_tasks [] s1) (\<lambda>never_started s2.
          let timer_tasks = filter (\<lambda>t. timer_tracked (timers s2 ! t)) [0..<length (timers s2)];
              s3 = fold (\<lambda>reason. observe_completed reason Batch_cancelled) never_started (notify_state s2)
          in (Inr (Some (timer_tasks, flush_tasks)), s3)))"

definition gathered :: "nat list \<times> nat list \<Rightarrow> batcher \<Rightarrow> bool" where
  "gathered tfs s \<longleftrightarrow> list_all (\<lambda>t. timer_done (timers s ! t)) (fst tfs) \<and>
     list_all (\<lambda>k. flush_phase (flushes s ! k) = Finished) (snd tfs)"

definition snapshot :: "batcher \<Rightarrow> int \<times> int" where
  "snapshot s = (pending s, inflight s)"

section \<open>Steps\<close>

text \<open>
  One run of the event loop: a coroutine runs from one suspension point to the next. What the backend
  answers is unconstrained: a result, any exception, a cancellation even when none was requested.
\<close>

inductive bat_step :: "(real \<Rightarrow> string) \<Rightarrow> batcher \<Rightarrow> batcher \<Rightarrow> bool" for fr :: "real \<Rightarrow> string" where
  step_submit: "bat_step fr s (snd (submit fr tenant r submitted now s))"
| step_resume: "i < length (subs s) \<Longrightarrow> sub_outcome (subs s ! i) = None \<Longrightarrow> item_future (items s ! i) \<noteq> Unresolved \<Longrightarrow>
    bat_step fr s (submit_resumed i s)"
| step_cancel: "i < length (subs s) \<Longrightarrow> sub_outcome (subs s ! i) = None \<Longrightarrow> bat_step fr s (submit_cancelled i s)"
| step_timer: "t < length (timers s) \<Longrightarrow> \<not> timer_done (timers s ! t) \<Longrightarrow> \<not> timer_cancelling (timers s ! t) \<Longrightarrow>
    bat_step fr s (snd (timer_expired t now s))"
| step_timer_cancelled: "t < length (timers s) \<Longrightarrow> \<not> timer_done (timers s ! t) \<Longrightarrow> timer_cancelling (timers s ! t) \<Longrightarrow>
    bat_step fr s (set_timer t (timer_done_update (\<lambda>_. True)) s)"
| step_timer_callback: "t < length (timers s) \<Longrightarrow> timer_done (timers s ! t) \<Longrightarrow>
    bat_step fr s (set_timer t (timer_tracked_update (\<lambda>_. False)) s)"
| step_flush_start: "k < length (flushes s) \<Longrightarrow> flush_phase (flushes s ! k) = Created \<Longrightarrow> \<not> flush_cancelling (flushes s ! k) \<Longrightarrow>
    bat_step fr s (execute_start k s)"
| step_flush_never: "k < length (flushes s) \<Longrightarrow> flush_phase (flushes s ! k) = Created \<Longrightarrow> flush_cancelling (flushes s ! k) \<Longrightarrow>
    bat_step fr s (set_flush k (flush_phase_update (\<lambda>_. Finished)) s)"
| step_flush_done: "k < length (flushes s) \<Longrightarrow> flush_phase (flushes s ! k) = Awaiting \<Longrightarrow>
    bat_step fr s (snd (execute_done k r s))"
| step_flush_callback: "k < length (flushes s) \<Longrightarrow> flush_phase (flushes s ! k) = Finished \<Longrightarrow>
    bat_step fr s (set_flush k (flush_tracked_update (\<lambda>_. False)) s)"
| step_flush_pop: "k < length (flushes s) \<Longrightarrow> flush_phase (flushes s ! k) = Finished \<Longrightarrow> \<not> flush_tracked (flushes s ! k) \<Longrightarrow>
    bat_step fr s (set_flush k (flush_registered_update (\<lambda>_. False)) s)"
| step_shutdown: "bat_step fr s (snd (shutdown s))"

definition bat_start :: "batcher \<Rightarrow> bool" where
  "bat_start s \<longleftrightarrow> (\<exists>max_sz wait_seconds obs. DynamicBatcher max_sz wait_seconds obs = Inr s)"

abbreviation bat_reachable :: "(real \<Rightarrow> string) \<Rightarrow> batcher \<Rightarrow> bool" where
  "bat_reachable fr s \<equiv> \<exists>s0. bat_start s0 \<and> (bat_step fr)\<^sup>*\<^sup>* s0 s"

end
