(* ===== verification/Gw_Batcher_Inv.thy ===== *)
theory Gw_Batcher_Inv
  imports Gw_Batcher
begin

text \<open>
  The invariant of the batcher. It is stated over the components of the state: every item of an
  unsettled submission is in exactly one place (the queue of one pending batch, or one flush operation
  that is still live), its future is unresolved there and nowhere else, every pending batch has a
  live timer, and the two counters count the places.
\<close>

lemma nth_upd: "j < length xs \<Longrightarrow> xs[i := v] ! j = (if i = j then v else xs ! j)"
  by (simp add: nth_list_update)

section \<open>The effect of the loops over items\<close>

definition items_upd :: "(nat \<Rightarrow> batch_item \<Rightarrow> batch_item) \<Rightarrow> nat list \<Rightarrow> batch_item list \<Rightarrow> batch_item list" where
  "items_upd f is xs = map (\<lambda>i. if i \<in> set is then f i (xs ! i) else xs ! i) [0..<length xs]"

lemma length_items_upd [simp]: "length (items_upd f is xs) = length xs"
  by (simp add: items_upd_def)

lemma nth_items_upd [simp]:
  "i < length xs \<Longrightarrow> items_upd f is xs ! i = (if i \<in> set is then f i (xs ! i) else xs ! i)"
  by (simp add: items_upd_def)

lemma items_upd_Nil [simp]: "items_upd f [] xs = xs"
  by (simp add: items_upd_def map_nth)

lemma items_upd_Cons:
  assumes "i \<notin> set is" and "i < length xs"
  shows "items_upd f is (xs[i := f i (xs ! i)]) = items_upd f (i # is) xs"
  using assms by (intro nth_equalityI) (auto simp: nth_list_update)

lemma items_upd_skip:
  assumes "i < length xs" and "f i (xs ! i) = xs ! i"
  shows "items_upd f is xs = items_upd f (i # is) xs"
  using assms by (intro nth_equalityI) auto

lemma items_upd_cong:
  assumes "\<And>i. i \<in> set is \<Longrightarrow> i < length xs \<Longrightarrow> f i (xs ! i) = g i (xs ! i)"
  shows "items_upd f is xs = items_upd g is xs"
  using assms by (intro nth_equalityI) auto

lemma length_set_item [simp]: "length (items (set_item i f s)) = length (items s)"
  by (simp add: set_item_def)

lemma nth_set_item_other: "i \<notin> A \<Longrightarrow> j \<in> A \<Longrightarrow> items (set_item i f s) ! j = items s ! j"
  by (cases "i = j") (simp_all add: set_item_def)

lemma set_item_others:
  "i \<notin> set is \<Longrightarrow> \<forall>j\<in>set is. j < length (items s) \<and> P (items s ! j) \<Longrightarrow>
   \<forall>j\<in>set is. j < length (items (set_item i f s)) \<and> P (items (set_item i f s) ! j)"
  by (simp add: nth_set_item_other)

lemma items_upd_set_item:
  "i \<notin> set is \<Longrightarrow> i < length (items s) \<Longrightarrow> f = g i \<Longrightarrow>
   items_upd g is (items (set_item i f s)) = items_upd g (i # is) (items s)"
  by (simp add: set_item_def items_upd_Cons)

lemma set_item_items [simp]: "(set_item i f s)\<lparr>items := xs\<rparr> = s\<lparr>items := xs\<rparr>"
  by (simp add: set_item_def)

lemma mark_dispatched_eq:
  assumes "distinct is" and "\<forall>i\<in>set is. i < length (items s) \<and> item_state (items s ! i) = Pending"
  shows "mark_dispatched is s = (Inr (), s\<lparr>items := items_upd (\<lambda>_. item_state_update (\<lambda>_. Dispatched)) is (items s)\<rparr>)"
  using assms
proof (induction "is" s rule: mark_dispatched.induct)
  case (2 i "is" s)
  then show ?case
    using set_item_others [of i "is" s "\<lambda>it. item_state it = Pending"] by (simp add: items_upd_set_item)
qed simp

definition fail_item :: "item_future \<Rightarrow> batch_item \<Rightarrow> batch_item" where
  "fail_item f it = (if item_state it = Cancelled then it else complete_item f it)"

text \<open>What a live flush operation may find of its members.\<close>

definition member_ok :: "batch_item \<Rightarrow> bool" where
  "member_ok it \<longleftrightarrow> item_state it = Dispatched \<and> item_future it = Unresolved \<or> item_state it = Cancelled"

lemma member_cases:
  assumes "member_ok it"
  obtains (cancelled) "item_state it = Cancelled" "\<And>f. fail_item f it = it"
    | (open_member) "item_state it = Dispatched" "item_future it = Unresolved" "\<And>f. fail_item f it = complete_item f it"
  using assms by (auto simp: member_ok_def fail_item_def)

lemma set_item_fail: "item_state (items s ! i) = Dispatched \<Longrightarrow> set_item i (complete_item f) s = set_item i (fail_item f) s"
  by (simp add: set_item_def fail_item_def)

lemma fail_items_eq:
  assumes "distinct is" and "\<forall>i\<in>set is. i < length (items s) \<and> member_ok (items s ! i)"
  shows "fail_items is e s = (Inr (), s\<lparr>items := items_upd (\<lambda>_. fail_item (Exception_set e)) is (items s)\<rparr>)"
  using assms
proof (induction "is" e s rule: fail_items.induct)
  case (2 i "is" e s)
  have i: "i \<notin> set is" "i < length (items s)" "member_ok (items s ! i)" using "2.prems" by auto
  from i(3) show ?case
  proof (cases rule: member_cases)
    case cancelled
    with 2 show ?thesis
      using items_upd_skip [of i "items s" "\<lambda>_. fail_item (Exception_set e)" "is"] by simp
  next
    case open_member
    with 2 show ?thesis
      using set_item_others [of i "is" s member_ok] set_item_fail [of s i] by (simp add: items_upd_set_item)
  qed
qed simp

definition response_of :: "nat list \<Rightarrow> json_dict list \<Rightarrow> nat \<Rightarrow> json_dict" where
  "response_of is rs i = the (map_of (zip is rs) i)"

lemma response_of_nth: "distinct is \<Longrightarrow> length rs = length is \<Longrightarrow> k < length is \<Longrightarrow> response_of is rs (is ! k) = rs ! k"
  by (simp add: response_of_def map_of_zip_nth)

lemma complete_success_eq:
  assumes "distinct is" and "length rs = length is" and "\<forall>i\<in>set is. i < length (items s) \<and> member_ok (items s ! i)"
  shows "complete_success is rs n s =
    (Inr (n + length (filter (\<lambda>i. item_state (items s ! i) = Dispatched) is)),
     s\<lparr>items := items_upd (\<lambda>i. fail_item (Result_set (response_of is rs i))) is (items s)\<rparr>)"
  using assms
proof (induction "is" rs n s rule: complete_success.induct)
  case (2 i "is" r rs n s)
  let ?f = "\<lambda>js qs i. fail_item (Result_set (response_of js qs i))"
  have i: "i \<notin> set is" "i < length (items s)" "member_ok (items s ! i)" using "2.prems" by auto
  have tail: "items_upd (?f is rs) is xs = items_upd (?f (i # is) (r # rs)) is xs" for xs
    using i(1) by (intro items_upd_cong) (auto simp: response_of_def)
  have r: "response_of (i # is) (r # rs) i = r" by (simp add: response_of_def)
  from i(3) show ?case
  proof (cases rule: member_cases)
    case cancelled
    with 2 show ?thesis using items_upd_skip [of i "items s" "?f (i # is) (r # rs)" "is"] tail by simp
  next
    case open_member
    have same: "filter (\<lambda>j. item_state (items (set_item i f s) ! j) = Dispatched) is =
        filter (\<lambda>j. item_state (items s ! j) = Dispatched) is" for f
      using i(1) by (intro filter_cong) (simp_all add: nth_set_item_other)
    from open_member 2 i show ?thesis
      using set_item_others [of i "is" s member_ok] set_item_fail [of s i]
        items_upd_set_item [OF i(1,2), of "fail_item (Result_set r)" "?f (i # is) (r # rs)"] r
      by (simp add: tail same)
  qed
qed auto

lemma settle_pending_eq:
  assumes "distinct is" and "\<forall>i\<in>set is. i < length (items s) \<and> item_state (items s ! i) = Pending"
  shows "settle_pending is s =
    s\<lparr>items := items_upd (\<lambda>_. complete_item (Exception_set (raised BatchingUnavailableError))) is (items s),
      pending := pending s - int (length is)\<rparr>"
  using assms
proof (induction "is" s rule: settle_pending.induct)
  case (2 i "is" s)
  let ?f = "complete_item (Exception_set (raised BatchingUnavailableError))"
  have "pending (set_item i ?f s) = pending s" by (simp add: set_item_def)
  with 2 show ?case
    using set_item_others [of i "is" s "\<lambda>it. item_state it = Pending" ?f] items_upd_set_item [of i "is" s ?f "\<lambda>_. ?f"]
    by (simp add: set_item_def)
qed simp

lemma settle_dispatched_eq:
  assumes "distinct is" and "\<forall>i\<in>set is. i < length (items s) \<and> member_ok (items s ! i)"
  shows "settle_dispatched is s =
    s\<lparr>items := items_upd (\<lambda>_. fail_item (Exception_set (raised BatchingUnavailableError))) is (items s)\<rparr>"
  using assms
proof (induction "is" s rule: settle_dispatched.induct)
  case (2 i "is" s)
  let ?f = "\<lambda>_. fail_item (Exception_set (raised BatchingUnavailableError))"
  have i: "i \<notin> set is" "i < length (items s)" "member_ok (items s ! i)" using "2.prems" by auto
  from i(3) show ?case
  proof (cases rule: member_cases)
    case cancelled
    with 2 show ?thesis using items_upd_skip [of i "items s" ?f "is"] by simp
  next
    case open_member
    with 2 show ?thesis
      using set_item_others [of i "is" s member_ok] set_item_fail [of s i] by (simp add: items_upd_set_item)
  qed
qed simp

section \<open>The invariant\<close>

definition queue_of :: "(string \<times> pending_batch) list \<Rightarrow> nat list" where
  "queue_of G = concat (map (\<lambda>kb. batch_items (snd kb)) G)"

definition flown_of :: "flush_task list \<Rightarrow> nat list" where
  "flown_of F = concat (map op_items F)"

text \<open>A flush operation still counts as inflight until its \<open>finally\<close> clause or \<open>shutdown\<close> has settled it.\<close>

definition live_op :: "flush_task \<Rightarrow> bool" where
  "live_op fl \<longleftrightarrow> flush_phase fl = Awaiting \<or> flush_phase fl = Created \<and> \<not> flush_cancelling fl"

definition one_key :: "submission list \<Rightarrow> string \<Rightarrow> nat list \<Rightarrow> bool" where
  "one_key S k is \<longleftrightarrow> (\<forall>i\<in>set is. i < length S \<and> sub_key (S ! i) = k)"

definition batch_ok :: "int \<Rightarrow> submission list \<Rightarrow> timer list \<Rightarrow> string \<Rightarrow> pending_batch \<Rightarrow> bool" where
  "batch_ok M S T k b \<longleftrightarrow> batch_key b = k \<and> batch_items b \<noteq> [] \<and> int (length (batch_items b)) \<le> M \<and>
     one_key S k (batch_items b) \<and> timer_task b < length T \<and> timer_key (T ! timer_task b) = k \<and>
     \<not> timer_done (T ! timer_task b) \<and> \<not> timer_cancelling (T ! timer_task b)"

definition timer_ok :: "(string \<times> pending_batch) list \<Rightarrow> nat \<Rightarrow> timer \<Rightarrow> bool" where
  "timer_ok G t tm \<longleftrightarrow> (timer_tracked tm \<or> timer_done tm) \<and>
     (timer_done tm \<or> timer_cancelling tm \<or> (\<exists>b. map_of G (timer_key tm) = Some b \<and> timer_task b = t))"

definition phase_ok :: "flush_task \<Rightarrow> bool" where
  "phase_ok fl \<longleftrightarrow> (flush_phase fl = Created \<longrightarrow> \<not> op_started fl) \<and> (flush_phase fl = Awaiting \<longrightarrow> op_started fl) \<and>
     (flush_phase fl = Finished \<longrightarrow> op_started fl \<or> flush_cancelling fl) \<and>
     (flush_tracked fl \<or> flush_phase fl = Finished) \<and> (flush_registered fl \<or> \<not> flush_tracked fl)"

definition flush_ok :: "int \<Rightarrow> batch_item list \<Rightarrow> submission list \<Rightarrow> flush_task \<Rightarrow> bool" where
  "flush_ok M I S fl \<longleftrightarrow> op_items fl \<noteq> [] \<and> int (length (op_items fl)) \<le> M \<and> (\<exists>k. one_key S k (op_items fl)) \<and>
     phase_ok fl \<and>
     (\<forall>i\<in>set (op_items fl). item_state (I ! i) = Cancelled \<or> item_state (I ! i) = (if live_op fl then Dispatched else Completed))"

definition item_ok :: "batch_item \<Rightarrow> submission \<Rightarrow> bool" where
  "item_ok it sb \<longleftrightarrow> (item_future it = Unresolved \<longleftrightarrow> item_state it = Pending \<or> item_state it = Dispatched) \<and>
     (item_future it = Future_cancelled \<longleftrightarrow> item_state it = Cancelled) \<and>
     (item_state it = Cancelled \<longrightarrow> sub_outcome sb = Some (Inl CancelledError)) \<and>
     (sub_outcome sb = None \<or> sub_outcome sb = Some (Inl CancelledError) \<and> item_future it \<noteq> Unresolved \<or>
      (\<exists>r. sub_outcome sb = Some (Inr r) \<and> item_future it = Result_set r) \<or>
      (\<exists>e. sub_outcome sb = Some (Inl e) \<and> item_future it = Exception_set e))"

definition core_of :: "int \<Rightarrow> (string \<times> pending_batch) list \<Rightarrow> batch_item list \<Rightarrow> submission list \<Rightarrow> timer list \<Rightarrow>
    flush_task list \<Rightarrow> int \<Rightarrow> int \<Rightarrow> bool" where
  "core_of M G I S T F p n \<longleftrightarrow> length S = length I \<and> distinct (map fst G) \<and>
     (\<forall>k b. map_of G k = Some b \<longrightarrow> batch_ok M S T k b) \<and> (\<forall>t<length T. timer_ok G t (T ! t)) \<and>
     (\<forall>fl\<in>set F. flush_ok M I S fl) \<and> (\<forall>i<length I. item_ok (I ! i) (S ! i)) \<and>
     distinct (queue_of G @ flown_of F) \<and>
     (\<forall>i<length I. item_state (I ! i) = Pending \<longleftrightarrow> i \<in> set (queue_of G)) \<and>
     (\<forall>i<length I. item_state (I ! i) = Dispatched \<longrightarrow> i \<in> set (flown_of F)) \<and>
     p = int (length (queue_of G)) \<and> n = int (length (filter live_op F))"

lemma coreD:
  assumes "core_of M G I S T F p n"
  shows "length S = length I" and "distinct (map fst G)"
    and "\<And>k b. map_of G k = Some b \<Longrightarrow> batch_ok M S T k b"
    and "\<And>t. t < length T \<Longrightarrow> timer_ok G t (T ! t)"
    and "\<And>fl. fl \<in> set F \<Longrightarrow> flush_ok M I S fl"
    and "\<And>i. i < length I \<Longrightarrow> item_ok (I ! i) (S ! i)"
    and "distinct (queue_of G @ flown_of F)"
    and "\<And>i. i < length I \<Longrightarrow> item_state (I ! i) = Pending \<longleftrightarrow> i \<in> set (queue_of G)"
    and "\<And>i. i < length I \<Longrightarrow> item_state (I ! i) = Dispatched \<Longrightarrow> i \<in> set (flown_of F)"
    and "p = int (length (queue_of G))" and "n = int (length (filter live_op F))"
  using assms unfolding core_of_def by blast+

lemma coreI:
  assumes "length S = length I" and "distinct (map fst G)"
    and "\<And>k b. map_of G k = Some b \<Longrightarrow> batch_ok M S T k b"
    and "\<And>t. t < length T \<Longrightarrow> timer_ok G t (T ! t)"
    and "\<And>fl. fl \<in> set F \<Longrightarrow> flush_ok M I S fl"
    and "\<And>i. i < length I \<Longrightarrow> item_ok (I ! i) (S ! i)"
    and "distinct (queue_of G @ flown_of F)"
    and "\<And>i. i < length I \<Longrightarrow> item_state (I ! i) = Pending \<longleftrightarrow> i \<in> set (queue_of G)"
    and "\<And>i. i < length I \<Longrightarrow> item_state (I ! i) = Dispatched \<Longrightarrow> i \<in> set (flown_of F)"
    and "p = int (length (queue_of G))" and "n = int (length (filter live_op F))"
  shows "core_of M G I S T F p n"
  using assms unfolding core_of_def by blast

abbreviation bat_core :: "batcher \<Rightarrow> bool" where
  "bat_core s \<equiv> core_of (max_size s) (groups s) (items s) (subs s) (timers s) (flushes s) (pending s) (inflight s)"

text \<open>Between two sections no pending batch is full.\<close>

definition none_full :: "int \<Rightarrow> (string \<times> pending_batch) list \<Rightarrow> bool" where
  "none_full M G \<longleftrightarrow> (\<forall>k b. map_of G k = Some b \<longrightarrow> int (length (batch_items b)) < M)"

text \<open>Shutting down requests the cancellation of every flush task, and nothing else does.\<close>

definition closed_ok :: "batcher \<Rightarrow> bool" where
  "closed_ok s \<longleftrightarrow> (if batcher_closed s then groups s = [] \<and> (\<forall>fl\<in>set (flushes s). flush_phase fl = Finished \<or> flush_cancelling fl)
     else (\<forall>fl\<in>set (flushes s). \<not> flush_cancelling fl))"

definition bat_inv :: "batcher \<Rightarrow> bool" where
  "bat_inv s \<longleftrightarrow> 2 \<le> max_size s \<and> bat_core s \<and> none_full (max_size s) (groups s) \<and> closed_ok s"

lemma notify_fields [simp]:
  "max_size (notify_event ev s) = max_size s" "groups (notify_event ev s) = groups s"
  "items (notify_event ev s) = items s" "subs (notify_event ev s) = subs s" "timers (notify_event ev s) = timers s"
  "flushes (notify_event ev s) = flushes s" "pending (notify_event ev s) = pending s"
  "inflight (notify_event ev s) = inflight s" "batcher_closed (notify_event ev s) = batcher_closed s"
  "batcher_observer (notify_event ev s) = batcher_observer s"
  by (simp_all add: notify_event_def)

lemmas notify_defs = notify_state_def observe_dispatched_def observe_completed_def observe_usage_def

section \<open>Places\<close>

lemma queue_simps [simp]:
  "queue_of [] = []" "queue_of ((k, b) # G) = batch_items b @ queue_of G" "queue_of (G @ H) = queue_of G @ queue_of H"
  by (simp_all add: queue_of_def)

lemma flown_simps [simp]:
  "flown_of [] = []" "flown_of (fl # F) = op_items fl @ flown_of F" "flown_of (F @ F') = flown_of F @ flown_of F'"
  by (simp_all add: flown_of_def)

lemma group_split:
  assumes "distinct (map fst G)" and "map_of G k = Some b"
  obtains G1 G2 where "G = G1 @ (k, b) # G2" and "AList.delete k G = G1 @ G2"
    and "\<And>b'. AList.update k b' G = G1 @ (k, b') # G2"
proof -
  obtain G1 G2 where G: "G = G1 @ (k, b) # G2" using map_of_SomeD [OF assms(2)] by (auto dest: split_list)
  have k: "k \<notin> fst ` set G1" "k \<notin> fst ` set G2" using assms(1) G by auto
  have "AList.delete k G = G1 @ G2" unfolding G using k by (induction G1) auto
  moreover have "AList.update k b' G = G1 @ (k, b') # G2" for b'
    unfolding G using k(1) by (induction G1) auto
  ultimately show ?thesis using G that by blast
qed

lemma queued_iff:
  "i \<in> set (queue_of G) \<longleftrightarrow> (\<exists>k b. (k, b) \<in> set G \<and> i \<in> set (batch_items b))"
  by (force simp: queue_of_def)

lemma flown_iff: "i \<in> set (flown_of F) \<longleftrightarrow> (\<exists>fl\<in>set F. i \<in> set (op_items fl))"
  by (auto simp: flown_of_def)

lemma flown_update [simp]: "op_items fl = op_items (F ! k) \<Longrightarrow> flown_of (F[k := fl]) = flown_of F"
  unfolding flown_of_def by (metis list_update_beyond list_update_id map_update not_less)

lemma flush_bounds:
  assumes "flush_ok M I S fl" and "length S = length I" and "i \<in> set (op_items fl)"
  shows "i < length I"
  using assms by (auto simp: flush_ok_def one_key_def)

lemma batch_bounds:
  assumes "batch_ok M S T k b" and "length S = length I" and "i \<in> set (batch_items b)"
  shows "i < length I"
  using assms by (auto simp: batch_ok_def one_key_def)

lemma places_bounds:
  assumes "core_of M G I S T F p n" and "i \<in> set (queue_of G @ flown_of F)"
  shows "i < length I"
proof -
  note D = coreD [OF assms(1)]
  have "i < length I" if "(k, b) \<in> set G" "i \<in> set (batch_items b)" for k b
    using batch_bounds [OF D(3) D(1)] that D(2) by (metis map_of_eq_Some_iff)
  moreover have "i < length I" if "fl \<in> set F" "i \<in> set (op_items fl)" for fl
    using flush_bounds [OF D(5) D(1)] that by blast
  ultimately show ?thesis using assms(2) by (auto simp: queued_iff flown_iff)
qed

lemma batch_pending:
  assumes "core_of M G I S T F p n" and "map_of G k = Some b" and "i \<in> set (batch_items b)"
  shows "i < length I \<and> item_state (I ! i) = Pending \<and> item_future (I ! i) = Unresolved"
proof -
  note D = coreD [OF assms(1)]
  have q: "i \<in> set (queue_of G)" using assms(2,3) by (auto simp: queued_iff dest: map_of_SomeD)
  then have "i < length I" using places_bounds [OF assms(1)] by simp
  then show ?thesis using D(6) [of i] D(8) [of i] q by (auto simp: item_ok_def)
qed

lemma batch_distinct:
  assumes "core_of M G I S T F p n" and "map_of G k = Some b"
  shows "distinct (batch_items b)"
proof -
  note D = coreD [OF assms(1)]
  obtain G1 G2 where "G = G1 @ (k, b) # G2" using group_split [OF D(2) assms(2)] by metis
  then show ?thesis using D(7) by simp
qed

lemma op_distinct:
  assumes "core_of M G I S T F p n" and "fl \<in> set F"
  shows "distinct (op_items fl)"
proof -
  obtain F1 F2 where "F = F1 @ fl # F2" using assms(2) by (auto dest: split_list)
  then show ?thesis using coreD(7) [OF assms(1)] by simp
qed

lemma live_members:
  assumes "core_of M G I S T F p n" and "fl \<in> set F" and "live_op fl" and "i \<in> set (op_items fl)"
  shows "i < length I \<and> member_ok (I ! i)"
proof -
  note D = coreD [OF assms(1)]
  have "i < length I" using flush_bounds [OF D(5) [OF assms(2)] D(1) assms(4)] .
  moreover have "item_state (I ! i) = Cancelled \<or> item_state (I ! i) = Dispatched"
    using D(5) [OF assms(2)] assms(3,4) by (simp add: flush_ok_def)
  ultimately show ?thesis using D(6) [of i] by (auto simp: member_ok_def item_ok_def)
qed

text \<open>Two operations share no member.\<close>

lemma op_members_differ:
  assumes d: "distinct (flown_of F)" and "j < length F" and "k < length F" and "i \<in> set (op_items (F ! j))" and "i \<in> set (op_items (F ! k))"
  shows "j = k"
  using assms
proof (induction F arbitrary: j k)
  case (Cons fl F)
  have out: "i \<notin> set (op_items (F ! l))" if "i \<in> set (op_items fl)" "l < length F" for l
    using Cons.prems(1) that(1) nth_mem [OF that(2)] flown_iff [of i F] by auto
  show ?case
  proof (cases j; cases k)
    fix j' k' assume "j = Suc j'" "k = Suc k'"
    with Cons show ?thesis by auto
  qed (use Cons.prems out in auto)
qed simp

section \<open>Steps on the components\<close>

text \<open>A batch leaves the queue and becomes a flush operation.\<close>

lemma core_detach:
  assumes c: "core_of M G I S T F p n" and b: "map_of G k = Some b"
    and tm: "timer_done tm \<or> timer_cancelling tm" "timer_tracked tm"
  shows "core_of M (AList.delete k G) (items_upd (\<lambda>_. item_state_update (\<lambda>_. Dispatched)) (batch_items b) I) S
    (T[timer_task b := tm]) (F @ [new_flush (batch_items b) reason]) (p - int (length (batch_items b))) (n + 1)"
proof -
  note D = coreD [OF c]
  obtain G1 G2 where G: "G = G1 @ (k, b) # G2" "AList.delete k G = G1 @ G2"
    using group_split [OF D(2) b] by metis
  have bok: "batch_ok M S T k b" by (rule D(3) [OF b])
  have other: "timer_task b' \<noteq> timer_task b" if "map_of G k' = Some b'" "k' \<noteq> k" for k' b'
    using D(3) [OF that(1)] bok that(2) by (auto simp: batch_ok_def)
  have out: "i \<notin> set (batch_items b)" if "fl \<in> set F" "i \<in> set (op_items fl)" for fl i
    using D(7) that G(1) by (auto simp: flown_iff)
  show ?thesis
  proof (rule coreI)
    show "batch_ok M S (T[timer_task b := tm]) k' b'" if "map_of (AList.delete k G) k' = Some b'" for k' b'
    proof -
      have "map_of G k' = Some b'" "k' \<noteq> k" using that by (auto simp: delete_conv' split: if_splits)
      then show ?thesis using D(3) [of k' b'] other [of k' b'] by (simp add: batch_ok_def)
    qed
    show "timer_ok (AList.delete k G) t (T[timer_task b := tm] ! t)" if "t < length (T[timer_task b := tm])" for t
      using D(4) [of t] that tm b bok
      by (auto simp: timer_ok_def nth_list_update delete_conv' batch_ok_def)
    show "flush_ok M (items_upd (\<lambda>_. item_state_update (\<lambda>_. Dispatched)) (batch_items b) I) S fl"
      if "fl \<in> set (F @ [new_flush (batch_items b) reason])" for fl
    proof (cases "fl \<in> set F")
      case True
      then show ?thesis
        using D(5) [OF True] out flush_bounds [OF D(5) [OF True] D(1)] by (auto simp: flush_ok_def)
    next
      case False
      then have "fl = new_flush (batch_items b) reason" using that by simp
      then show ?thesis
        using bok batch_bounds [OF bok D(1)] by (auto simp: flush_ok_def new_flush_def batch_ok_def live_op_def phase_ok_def)
    qed
    show "item_ok (items_upd (\<lambda>_. item_state_update (\<lambda>_. Dispatched)) (batch_items b) I ! i) (S ! i)"
      if "i < length (items_upd (\<lambda>_. item_state_update (\<lambda>_. Dispatched)) (batch_items b) I)" for i
      using D(6) [of i] that batch_pending [OF c b, of i] by (auto simp: item_ok_def)
    show "item_state (items_upd (\<lambda>_. item_state_update (\<lambda>_. Dispatched)) (batch_items b) I ! i) = Pending \<longleftrightarrow>
        i \<in> set (queue_of (AList.delete k G))"
      if "i < length (items_upd (\<lambda>_. item_state_update (\<lambda>_. Dispatched)) (batch_items b) I)" for i
      using D(8) [of i] D(7) that G by auto
    show "i \<in> set (flown_of (F @ [new_flush (batch_items b) reason]))"
      if "i < length (items_upd (\<lambda>_. item_state_update (\<lambda>_. Dispatched)) (batch_items b) I)"
        "item_state (items_upd (\<lambda>_. item_state_update (\<lambda>_. Dispatched)) (batch_items b) I ! i) = Dispatched" for i
      using D(9) [of i] that by (auto simp: new_flush_def split: if_splits)
  qed (use D G in \<open>auto simp: new_flush_def live_op_def\<close>)
qed

text \<open>A new item joins a pending batch, or founds one.\<close>

lemma core_enqueue:
  assumes c: "core_of M G I S T F p n"
    and b: "map_of G key = Some b \<and> T' = T \<or>
      map_of G key = None \<and> b = \<lparr>batch_key = key, batch_items = [], timer_task = length T\<rparr> \<and> T' = T @ [new_timer key]"
    and room: "int (length (batch_items b)) < M"
  shows "core_of M (AList.update key (b\<lparr>batch_items := batch_items b @ [length I]\<rparr>) G) (I @ [new_item r now])
    (S @ [\<lparr>sub_tenant = tenant, sub_key = key, sub_outcome = None\<rparr>]) T' F (p + 1) n"
proof -
  note D = coreD [OF c]
  let ?b = "b\<lparr>batch_items := batch_items b @ [length I]\<rparr>"
  let ?S = "S @ [\<lparr>sub_tenant = tenant, sub_key = key, sub_outcome = None\<rparr>]"
  have grow: "one_key S k is \<Longrightarrow> one_key ?S k is" for k "is" by (auto simp: one_key_def nth_append)
  have fresh: "length I \<notin> set (queue_of G @ flown_of F)" using places_bounds [OF c] by blast
  have perm: "set (queue_of (AList.update key ?b G)) = insert (length I) (set (queue_of G)) \<and>
      length (queue_of (AList.update key ?b G)) = Suc (length (queue_of G)) \<and>
      (distinct (queue_of (AList.update key ?b G) @ flown_of F) \<longleftrightarrow> distinct (length I # queue_of G @ flown_of F))"
  proof (cases "map_of G key")
    case None
    then have "AList.update key ?b G = G @ [(key, ?b)]" by (intro dict_update_fresh) (simp add: map_of_eq_None_iff)
    then show ?thesis using b None by auto
  next
    case (Some b0)
    then obtain G1 G2 where "G = G1 @ (key, b) # G2" "AList.update key ?b G = G1 @ (key, ?b) # G2"
      using b group_split [OF D(2), of key b] by (metis option.distinct(1))
    then show ?thesis by auto
  qed
  have new: "batch_ok M ?S T' key ?b"
  proof (cases "map_of G key")
    case None
    then show ?thesis using b room D(1) by (auto simp: batch_ok_def new_timer_def one_key_def nth_append)
  next
    case (Some b0)
    then have "batch_ok M S T' key b" using b D(3) by auto
    then show ?thesis using room D(1) grow [of key "batch_items b"]
      by (auto simp: batch_ok_def one_key_def nth_append split: if_splits)
  qed
  have ext: "T' ! t = T ! t" "t < length T'" if "t < length T" for t using b that by (auto simp: nth_append)
  show ?thesis
  proof (rule coreI)
    show "batch_ok M ?S T' k' b'" if "map_of (AList.update key ?b G) k' = Some b'" for k' b'
    proof (cases "k' = key")
      case True
      then show ?thesis using new that by (simp add: update_conv')
    next
      case False
      then have "batch_ok M S T k' b'" using D(3) that by (simp add: update_conv')
      then show ?thesis using grow ext by (auto simp: batch_ok_def)
    qed
    show "timer_ok (AList.update key ?b G) t (T' ! t)" if "t < length T'" for t
    proof (cases "t < length T")
      case True
      then show ?thesis using D(4) [OF True] ext(1) [OF True] b by (auto simp: timer_ok_def update_conv')
    next
      case False
      then show ?thesis using b that by (auto simp: timer_ok_def update_conv' new_timer_def nth_append)
    qed
    show "flush_ok M (I @ [new_item r now]) ?S fl" if "fl \<in> set F" for fl
      using D(5) [OF that] grow flush_bounds [OF D(5) [OF that] D(1)]
      by (auto simp: flush_ok_def nth_append)
    show "item_ok ((I @ [new_item r now]) ! i) (?S ! i)" if "i < length (I @ [new_item r now])" for i
      using D(6) [of i] D(1) that by (auto simp: nth_append item_ok_def new_item_def less_Suc_eq)
    show "item_state ((I @ [new_item r now]) ! i) = Pending \<longleftrightarrow> i \<in> set (queue_of (AList.update key ?b G))"
      if "i < length (I @ [new_item r now])" for i
      using D(8) [of i] that perm by (auto simp: nth_append new_item_def less_Suc_eq)
    show "i \<in> set (flown_of F)" if "i < length (I @ [new_item r now])" "item_state ((I @ [new_item r now]) ! i) = Dispatched" for i
      using D(9) [of i] that by (auto simp: nth_append new_item_def less_Suc_eq split: if_splits)
  qed (use D perm fresh in \<open>auto simp: distinct_update\<close>)
qed

lemma sub_key_outcome: "sub_key (S[i := (S ! i)\<lparr>sub_outcome := x\<rparr>] ! j) = sub_key (S ! j)"
  by (cases "i = j"; cases "j < length S") (simp_all add: list_update_beyond)

lemma one_key_outcome: "one_key (S[i := (S ! i)\<lparr>sub_outcome := x\<rparr>]) k is = one_key S k is"
  by (simp add: one_key_def sub_key_outcome)

text \<open>The outcome of a submission is recorded once its future is resolved.\<close>

lemma core_outcome:
  assumes c: "core_of M G I S T F p n" and i: "i < length I" and none: "sub_outcome (S ! i) = None"
    and r: "r = Inl CancelledError \<and> item_future (I ! i) \<noteq> Unresolved \<or> (\<exists>x. r = Inr x \<and> item_future (I ! i) = Result_set x) \<or>
      (\<exists>e. r = Inl e \<and> item_future (I ! i) = Exception_set e)"
  shows "core_of M G I (S[i := (S ! i)\<lparr>sub_outcome := Some r\<rparr>]) T F p n"
proof -
  note D = coreD [OF c]
  let ?S = "S[i := (S ! i)\<lparr>sub_outcome := Some r\<rparr>]"
  have keys: "one_key S k is \<Longrightarrow> one_key ?S k is" for k "is"
    by (simp add: one_key_outcome)
  have "item_ok (I ! i) (S ! i)" by (rule D(6) [OF i])
  then have new: "item_ok (I ! i) ((S ! i)\<lparr>sub_outcome := Some r\<rparr>)" using none r by (auto simp: item_ok_def)
  show ?thesis
  proof (rule coreI)
    show "batch_ok M ?S T k b" if "map_of G k = Some b" for k b
      using D(3) [OF that] keys by (auto simp: batch_ok_def)
    show "flush_ok M I ?S fl" if "fl \<in> set F" for fl
      using D(5) [OF that] keys unfolding flush_ok_def by blast
    show "item_ok (I ! j) (?S ! j)" if "j < length I" for j
      using D(6) [OF that] new D(1) that by (auto simp: nth_upd)
  qed (use D in auto)
qed

abbreviation cancelled_item :: "batch_item \<Rightarrow> batch_item" where
  "cancelled_item it \<equiv> it\<lparr>item_state := Cancelled, item_future := Future_cancelled\<rparr>"

abbreviation cancelled_sub :: "submission \<Rightarrow> submission" where
  "cancelled_sub sb \<equiv> sb\<lparr>sub_outcome := Some (Inl CancelledError)\<rparr>"

lemma flush_ok_cancelled:
  assumes "flush_ok M I S fl" and "length S = length I"
  shows "flush_ok M (I[i := cancelled_item (I ! i)]) (S[i := cancelled_sub (S ! i)]) fl"
  using assms flush_bounds [OF assms] by (auto simp: flush_ok_def one_key_outcome nth_upd)

lemma item_ok_cancelled:
  assumes "core_of M G I S T F p n" and "j < length I"
  shows "item_ok (I[i := cancelled_item (I ! i)] ! j) (S[i := cancelled_sub (S ! i)] ! j)"
  using coreD(6) [OF assms] coreD(1) [OF assms(1)] assms(2) by (auto simp: nth_upd item_ok_def)

text \<open>A dispatched member is cancelled: it stays in its operation.\<close>

lemma core_cancel_dispatched:
  assumes c: "core_of M G I S T F p n" and i: "i < length I" and d: "item_state (I ! i) = Dispatched"
  shows "core_of M G (I[i := cancelled_item (I ! i)]) (S[i := cancelled_sub (S ! i)]) T F p n"
proof -
  note D = coreD [OF c]
  show ?thesis
  proof (rule coreI)
    show "batch_ok M (S[i := cancelled_sub (S ! i)]) T k b" if "map_of G k = Some b" for k b
      using D(3) [OF that] by (simp add: batch_ok_def one_key_outcome)
    show "flush_ok M (I[i := cancelled_item (I ! i)]) (S[i := cancelled_sub (S ! i)]) fl" if "fl \<in> set F" for fl
      by (rule flush_ok_cancelled [OF D(5) [OF that] D(1)])
    show "item_ok (I[i := cancelled_item (I ! i)] ! j) (S[i := cancelled_sub (S ! i)] ! j)"
      if "j < length (I[i := cancelled_item (I ! i)])" for j
      using item_ok_cancelled [OF c] that by simp
  qed (use D i d in \<open>auto simp: nth_upd split: if_splits\<close>)
qed

text \<open>A pending member is cancelled: it leaves its batch, and the last one dissolves the batch.\<close>

lemma core_cancel_pending:
  assumes c: "core_of M G I S T F p n" and b: "map_of G k = Some b" and i: "i \<in> set (batch_items b)"
    and left: "left = remove1 i (batch_items b)"
    and tm: "timer_cancelling tm" "timer_tracked tm"
    and GT: "left = [] \<and> G' = AList.delete k G \<and> T' = T[timer_task b := tm] \<or>
      left \<noteq> [] \<and> G' = AList.update k (b\<lparr>batch_items := left\<rparr>) G \<and> T' = T"
  shows "core_of M G' (I[i := cancelled_item (I ! i)]) (S[i := cancelled_sub (S ! i)]) T' F (p - 1) n"
proof -
  note D = coreD [OF c]
  let ?b = "b\<lparr>batch_items := left\<rparr>"
  have bok: "batch_ok M S T k b" by (rule D(3) [OF b])
  obtain G1 G2 where G: "G = G1 @ (k, b) # G2" "AList.delete k G = G1 @ G2" "AList.update k ?b G = G1 @ (k, ?b) # G2"
    using group_split [OF D(2) b] by metis
  have dist: "distinct (batch_items b)" by (rule batch_distinct [OF c b])
  have left_set: "set left = set (batch_items b) - {i}" "distinct left" "length (batch_items b) = Suc (length left)"
    using dist i left by (auto simp: length_remove1 in_set_conv_nth length_pos_if_in_set)
  have il: "i < length I" using batch_pending [OF c b i] by simp
  have one: "set (batch_items b) = {i}" "batch_items b = [i]" if "left = []"
  proof -
    show "set (batch_items b) = {i}" using left_set(1) i that by auto
    show "batch_items b = [i]" using left_set(3) i that by (cases "batch_items b") auto
  qed
  have queue: "set (queue_of G') = set (queue_of G) - {i} \<and> length (queue_of G) = Suc (length (queue_of G')) \<and>
      distinct (queue_of G' @ flown_of F)"
  proof (cases "left = []")
    case True
    then show ?thesis using GT D(7) G one by auto
  next
    case False
    then have "queue_of G' = queue_of G1 @ left @ queue_of G2" using GT G by simp
    moreover have "queue_of G = queue_of G1 @ batch_items b @ queue_of G2" using G by simp
    ultimately show ?thesis using D(7) left_set i by auto
  qed
  have other: "timer_task b' \<noteq> timer_task b" if "map_of G k' = Some b'" "k' \<noteq> k" for k' b'
    using D(3) [OF that(1)] bok that(2) by (auto simp: batch_ok_def)
  show ?thesis
  proof (rule coreI)
    show "batch_ok M (S[i := cancelled_sub (S ! i)]) T' k' b'" if "map_of G' k' = Some b'" for k' b'
    proof (cases "k' = k")
      case True
      then have "left \<noteq> []" "b' = ?b" "T' = T" using GT that by (auto simp: update_conv' delete_conv')
      then show ?thesis using bok True left_set(1,3)
        by (auto simp: batch_ok_def one_key_outcome one_key_def)
    next
      case False
      then have "map_of G k' = Some b'" using GT that by (auto simp: update_conv' delete_conv')
      then show ?thesis using D(3) [of k' b'] other [of k' b'] False GT by (auto simp: batch_ok_def one_key_outcome)
    qed
    show "timer_ok G' t (T' ! t)" if "t < length T'" for t
    proof (cases "left = []")
      case True
      then have GT': "G' = AList.delete k G" "T' = T[timer_task b := tm]" using GT by auto
      show ?thesis
      proof (cases "t = timer_task b")
        case True
        then show ?thesis using tm that by (simp add: timer_ok_def GT'(2) nth_upd)
      next
        case False
        then show ?thesis using D(4) [of t] that b by (auto simp: timer_ok_def GT' nth_upd delete_conv')
      qed
    next
      case False
      then have GT': "G' = AList.update k ?b G" "T' = T" using GT by auto
      then show ?thesis using D(4) [of t] that b by (auto simp: timer_ok_def update_conv')
    qed
    show "flush_ok M (I[i := cancelled_item (I ! i)]) (S[i := cancelled_sub (S ! i)]) fl" if "fl \<in> set F" for fl
      by (rule flush_ok_cancelled [OF D(5) [OF that] D(1)])
    show "item_ok (I[i := cancelled_item (I ! i)] ! j) (S[i := cancelled_sub (S ! i)] ! j)"
      if "j < length (I[i := cancelled_item (I ! i)])" for j
      using item_ok_cancelled [OF c] that by simp
    show "item_state (I[i := cancelled_item (I ! i)] ! j) = Pending \<longleftrightarrow> j \<in> set (queue_of G')"
      if "j < length (I[i := cancelled_item (I ! i)])" for j
      using D(8) [of j] that queue il by (auto simp: nth_upd)
    show "j \<in> set (flown_of F)" if "j < length (I[i := cancelled_item (I ! i)])"
      "item_state (I[i := cancelled_item (I ! i)] ! j) = Dispatched" for j
      using D(9) [of j] that by (auto simp: nth_upd split: if_splits)
    show "distinct (map fst G')" using D(2) GT by (auto simp: distinct_update distinct_delete)
    show "distinct (queue_of G' @ flown_of F)" using queue by blast
    show "p - 1 = int (length (queue_of G'))" using queue D(10) by simp
  qed (use D(1,11) in simp_all)
qed

text \<open>The members of a live operation are settled, and the operation is live no more.\<close>

lemma length_filter_upd:
  assumes "k < length F"
  shows "length (filter P (F[k := fl])) + (if P (F ! k) then 1 else 0) = length (filter P F) + (if P fl then 1 else 0)"
  using arg_cong [OF id_take_nth_drop [OF assms], of "\<lambda>F. length (filter P F)"]
  unfolding upd_conv_take_nth_drop [OF assms] by simp

lemma core_settle:
  assumes c: "core_of M G I S T F p n" and k: "k < length F" and live: "live_op (F ! k)"
    and fl: "\<not> live_op fl" "op_items fl = op_items (F ! k)" "phase_ok fl"
    and f: "\<And>i. f i \<noteq> Unresolved" "\<And>i. f i \<noteq> Future_cancelled"
  shows "core_of M G (items_upd (\<lambda>i. fail_item (f i)) (op_items fl) I) S T (F[k := fl]) p (n - 1)"
proof -
  note D = coreD [OF c]
  let ?I = "items_upd (\<lambda>i. fail_item (f i)) (op_items fl) I"
  have mem: "F ! k \<in> set F" using k by simp
  have members: "i < length I \<and> member_ok (I ! i)" if "i \<in> set (op_items fl)" for i
    using live_members [OF c mem live] that fl(2) by simp
  have others: "j = k" if "j < length F" "i \<in> set (op_items (F ! j))" "i \<in> set (op_items fl)" for i j
    using op_members_differ [of F j k i] D(7) that k fl(2) by simp
  have st: "item_state (fail_item g it) = (if item_state it = Cancelled then Cancelled else Completed)" for g it
    by (simp add: fail_item_def complete_item_def set_future_def)
  show ?thesis
  proof (rule coreI)
    show "flush_ok M ?I S fl'" if "fl' \<in> set (F[k := fl])" for fl'
    proof -
      obtain j where j: "j < length F" "F[k := fl] ! j = fl'" using \<open>fl' \<in> set (F[k := fl])\<close> by (metis in_set_conv_nth length_list_update)
      show ?thesis
      proof (cases "j = k")
        case True
        then have "fl' = fl" using j by simp
        then show ?thesis using D(5) [OF mem] fl members st by (auto simp: flush_ok_def)
      next
        case False
        then have "fl' = F ! j" using j by simp
        moreover have "flush_ok M I S (F ! j)" using D(5) j(1) by simp
        moreover have "i \<notin> set (op_items fl)" if "i \<in> set (op_items (F ! j))" for i using others j(1) that False by blast
        ultimately show ?thesis using flush_bounds [OF _ D(1)] by (auto simp: flush_ok_def)
      qed
    qed
    show "item_ok (?I ! i) (S ! i)" if "i < length ?I" for i
    proof (cases "i \<in> set (op_items fl)")
      case True
      then have "member_ok (I ! i)" "item_ok (I ! i) (S ! i)" using members D(6) that by auto
      then show ?thesis
        using True that f by (auto simp: item_ok_def member_ok_def fail_item_def complete_item_def set_future_def)
    qed (use D(6) that in simp)
    show "item_state (?I ! i) = Pending \<longleftrightarrow> i \<in> set (queue_of G)" if "i < length ?I" for i
      using D(8) [of i] that members [of i] st by (auto simp: member_ok_def)
    show "i \<in> set (flown_of (F[k := fl]))" if "i < length ?I" "item_state (?I ! i) = Dispatched" for i
      using D(9) [of i] that st fl(2) by (auto split: if_splits)
    show "n - 1 = int (length (filter live_op (F[k := fl])))"
      using D(11) length_filter_upd [OF k, of live_op fl] live fl(1) by simp
  qed (use D fl(2) in auto)
qed

text \<open>A change of the task that settles nothing.\<close>

lemma core_flush:
  assumes c: "core_of M G I S T F p n" and k: "k < length F" and live: "live_op fl = live_op (F ! k)"
    and fl: "op_items fl = op_items (F ! k)" "phase_ok fl"
  shows "core_of M G I S T (F[k := fl]) p n"
proof -
  note D = coreD [OF c]
  have "flush_ok M I S (F ! k)" using D(5) k by simp
  then have new: "flush_ok M I S fl" using live fl by (simp add: flush_ok_def)
  show ?thesis
  proof (rule coreI)
    show "flush_ok M I S fl'" if "fl' \<in> set (F[k := fl])" for fl'
      using that D(5) new set_update_subset_insert [of F k fl] by blast
    show "n = int (length (filter live_op (F[k := fl])))"
      using D(11) length_filter_upd [OF k, of live_op fl] live by simp
  qed (use D fl(1) in auto)
qed

lemma core_timer:
  assumes c: "core_of M G I S T F p n" and t: "t < length T" "timer_done (T ! t) \<or> timer_cancelling (T ! t)"
    and tm: "timer_done tm \<or> timer_cancelling tm" "timer_tracked tm \<or> timer_done tm"
  shows "core_of M G I S (T[t := tm]) F p n"
proof -
  note D = coreD [OF c]
  have off: "timer_task b \<noteq> t" if "map_of G k = Some b" for k b using D(3) [OF that] t by (auto simp: batch_ok_def)
  show ?thesis
  proof (rule coreI)
    show "batch_ok M S (T[t := tm]) k b" if "map_of G k = Some b" for k b
      using D(3) [OF that] off [OF that] by (simp add: batch_ok_def)
    show "timer_ok G t' (T[t := tm] ! t')" if "t' < length (T[t := tm])" for t'
      using D(4) [of t'] that tm by (auto simp: timer_ok_def nth_upd)
  qed (use D in auto)
qed

text \<open>Shutting down settles the first pending batch.\<close>

lemma core_settle_batch:
  assumes c: "core_of M ((k, b) # G) I S T F p n" and tm: "timer_cancelling tm" "timer_tracked tm"
    and f: "f \<noteq> Unresolved" "f \<noteq> Future_cancelled"
  shows "core_of M G (items_upd (\<lambda>_. complete_item f) (batch_items b) I) S (T[timer_task b := tm]) F (p - int (length (batch_items b))) n"
proof -
  note D = coreD [OF c]
  let ?I = "items_upd (\<lambda>_. complete_item f) (batch_items b) I"
  have bok: "batch_ok M S T k b" using D(3) [of k b] by simp
  have "map_of G k = None" using D(2) by (simp add: map_of_eq_None_iff)
  then have sub: "map_of ((k, b) # G) k' = Some b'" "k' \<noteq> k" if "map_of G k' = Some b'" for k' b'
    using that by (cases "k' = k"; simp)+
  have other: "timer_task b' \<noteq> timer_task b" if "map_of G k' = Some b'" for k' b'
    using D(3) [OF sub(1) [OF that]] bok sub(2) [OF that] by (auto simp: batch_ok_def)
  have pend: "i < length I \<and> item_state (I ! i) = Pending \<and> item_future (I ! i) = Unresolved" if "i \<in> set (batch_items b)" for i
    using batch_pending [OF c _ that, of k] by simp
  have out: "i \<notin> set (batch_items b)" if "fl \<in> set F" "i \<in> set (op_items fl)" for fl i
    using D(7) that by (auto simp: flown_iff)
  have st: "item_state (complete_item f it) = Completed" for it by (simp add: complete_item_def set_future_def)
  show ?thesis
  proof (rule coreI)
    show "batch_ok M S (T[timer_task b := tm]) k' b'" if "map_of G k' = Some b'" for k' b'
      using D(3) [OF sub(1) [OF that]] other [OF that] by (simp add: batch_ok_def)
    show "timer_ok G t (T[timer_task b := tm] ! t)" if "t < length (T[timer_task b := tm])" for t
      using D(4) [of t] that tm by (auto simp: timer_ok_def nth_upd split: if_splits)
    show "flush_ok M ?I S fl" if "fl \<in> set F" for fl
      using D(5) [OF that] out [OF that] flush_bounds [OF D(5) [OF that] D(1)] by (auto simp: flush_ok_def)
    show "item_ok (?I ! i) (S ! i)" if "i < length ?I" for i
      using D(6) [of i] that pend [of i] f by (auto simp: item_ok_def complete_item_def set_future_def)
    show "item_state (?I ! i) = Pending \<longleftrightarrow> i \<in> set (queue_of G)" if "i < length ?I" for i
      using D(8) [of i] D(7) that st by auto
    show "i \<in> set (flown_of F)" if "i < length ?I" "item_state (?I ! i) = Dispatched" for i
      using D(9) [of i] that st by (auto split: if_splits)
  qed (use D in auto)
qed

end
