(* ===== verification/Gw_Batcher_Sys.thy ===== *)
theory Gw_Batcher_Sys
  imports Gw_Batcher_Inv
begin

text \<open>
  Every section of the batcher keeps the invariant and raises none of its internal errors, so both
  hold in every state reachable by any interleaving of the coroutines.
\<close>

section \<open>Detaching and submitting\<close>

lemma detach_locked_eq:
  assumes core: "bat_core s" and b: "map_of (groups s) k = Some b" and t: "timer_task b = t"
  shows "\<exists>s'. detach_locked k t reason own now s = (Inr (), s') \<and> max_size s' = max_size s \<and>
    groups s' = AList.delete k (groups s) \<and> subs s' = subs s \<and> batcher_closed s' = batcher_closed s \<and>
    items s' = items_upd (\<lambda>_. item_state_update (\<lambda>_. Dispatched)) (batch_items b) (items s) \<and>
    timers s' = (if own then timers s else (timers s)[t := (timers s ! t)\<lparr>timer_cancelling := True\<rparr>]) \<and>
    flushes s' = flushes s @ [new_flush (batch_items b) reason] \<and>
    pending s' = pending s - int (length (batch_items b)) \<and> inflight s' = inflight s + 1"
proof -
  have bok: "batch_ok (max_size s) (subs s) (timers s) k b" by (rule coreD(3) [OF core b])
  have d: "distinct (batch_items b)" by (rule batch_distinct [OF core b])
  have pend: "\<forall>i\<in>set (batch_items b). i < length (items s) \<and> item_state (items s ! i) = Pending"
    using batch_pending [OF core b] by blast
  have m: "mark_dispatched (batch_items b) s2 = (Inr (), s2\<lparr>items := items_upd (\<lambda>_. item_state_update (\<lambda>_. Dispatched)) (batch_items b) (items s)\<rparr>)"
    if "items s2 = items s" for s2
    using mark_dispatched_eq [OF d, of s2] pend that by simp
  have ne: "batch_items b \<noteq> []" "\<not> timer_done (timers s ! t)" using bok t by (simp_all add: batch_ok_def)
  show ?thesis
    unfolding detach_locked_def by (simp add: b t ne cancel_timer_def set_timer_def m notify_defs Let_def)
qed

lemma timer_tracked_live:
  assumes "bat_core s" and "map_of (groups s) k = Some b"
  shows "timer_tracked (timers s ! timer_task b)"
  using coreD(3) [OF assms] coreD(4) [OF assms(1), of "timer_task b"] by (auto simp: batch_ok_def timer_ok_def)

lemma none_full_delete: "none_full M G \<Longrightarrow> none_full M (AList.delete k G)"
  by (auto simp: none_full_def delete_conv' split: if_splits)

lemma enqueue_fields:
  assumes inv: "bat_inv s"
  shows "bat_core (enqueue key tenant r now s)" and "max_size (enqueue key tenant r now s) = max_size s"
    and "batcher_closed (enqueue key tenant r now s) = batcher_closed s"
    and "flushes (enqueue key tenant r now s) = flushes s"
    and "\<exists>b. map_of (groups (enqueue key tenant r now s)) key = Some b"
    and "\<And>k b. map_of (groups (enqueue key tenant r now s)) k = Some b \<Longrightarrow> k \<noteq> key \<Longrightarrow> map_of (groups s) k = Some b"
proof -
  have core: "bat_core s" and full: "none_full (max_size s) (groups s)" and M: "2 \<le> max_size s"
    using inv by (simp_all add: bat_inv_def)
  show "bat_core (enqueue key tenant r now s)"
  proof (cases "map_of (groups s) key")
    case None
    then show ?thesis
      using core_enqueue [OF core, of key "\<lparr>batch_key = key, batch_items = [], timer_task = length (timers s)\<rparr>"
          "timers s @ [new_timer key]" r now tenant] M
      by (simp add: enqueue_def Let_def notify_defs)
  next
    case (Some b)
    then have "int (length (batch_items b)) < max_size s" using full by (simp add: none_full_def)
    with Some show ?thesis
      using core_enqueue [OF core, of key b "timers s" r now tenant] by (simp add: enqueue_def Let_def notify_defs)
  qed
qed (auto simp: enqueue_def Let_def notify_defs update_conv' split: prod.splits option.splits if_splits)

lemma submit_ok:
  assumes inv: "bat_inv s"
  shows "bat_inv (snd (submit fr tenant r t1 t2 s)) \<and>
    fst (submit fr tenant r t1 t2 s) = (if batcher_closed s then Inl (raised BatchingUnavailableError) else Inr (length (items s)))"
proof (cases "batcher_closed s")
  case True
  then show ?thesis using inv by (simp add: submit_def)
next
  case False
  define key where "key = compatibility_key fr tenant r"
  define s1 where "s1 = enqueue key tenant r t1 s"
  note E = enqueue_fields [OF inv, of key tenant r t1, folded s1_def]
  obtain b where b: "map_of (groups s1) key = Some b" using E(5) by blast
  have M: "2 \<le> max_size s" and full: "none_full (max_size s) (groups s)" and cl: "closed_ok s"
    using inv by (simp_all add: bat_inv_def)
  have sub: "submit fr tenant r t1 t2 s = (case flush_if_full key t2 s1 of
      (Inl e, s1) \<Rightarrow> (Inl e, sub_finish (length (items s)) (Inl e) s1) | (Inr _, s1) \<Rightarrow> (Inr (length (items s)), s1))"
    using False by (simp add: submit_def Let_def key_def s1_def)
  show ?thesis
  proof (cases "int (length (batch_items b)) \<ge> max_size s1")
    case True
    obtain s2 where s2: "detach_locked key (timer_task b) Flush_size False t2 s1 = (Inr (), s2)" "max_size s2 = max_size s1"
      "groups s2 = AList.delete key (groups s1)" "subs s2 = subs s1" "batcher_closed s2 = batcher_closed s1"
      "items s2 = items_upd (\<lambda>_. item_state_update (\<lambda>_. Dispatched)) (batch_items b) (items s1)"
      "timers s2 = (timers s1)[timer_task b := (timers s1 ! timer_task b)\<lparr>timer_cancelling := True\<rparr>]"
      "flushes s2 = flushes s1 @ [new_flush (batch_items b) Flush_size]"
      "pending s2 = pending s1 - int (length (batch_items b))" "inflight s2 = inflight s1 + 1"
      using detach_locked_eq [OF E(1) b refl, of Flush_size False t2] by auto
    have "bat_core s2" unfolding s2(2-)
      by (rule core_detach [OF E(1) b]) (use timer_tracked_live [OF E(1) b] in simp_all)
    moreover have "none_full (max_size s2) (groups s2)"
      using full E(2,6) unfolding s2(2,3) by (auto simp: none_full_def delete_conv' split: if_splits)
    moreover have "closed_ok s2" using cl False E(3,4) s2(5,8) by (auto simp: closed_ok_def new_flush_def)
    moreover have "submit fr tenant r t1 t2 s = (Inr (length (items s)), s2)"
      unfolding sub using b True s2(1) by (simp add: flush_if_full_def)
    ultimately show ?thesis using M E(2) s2(2) False by (simp add: bat_inv_def)
  next
    case small: False
    have "none_full (max_size s1) (groups s1)"
      unfolding none_full_def
    proof (intro allI impI)
      fix k b' assume "map_of (groups s1) k = Some b'"
      then show "int (length (batch_items b')) < max_size s1"
        using b small E(2) E(6) [of k b'] full by (cases "k = key") (auto simp: none_full_def)
    qed
    moreover have "closed_ok s1" using cl False E(3,4) by (simp add: closed_ok_def)
    moreover have "submit fr tenant r t1 t2 s = (Inr (length (items s)), s1)"
      unfolding sub using b small by (simp add: flush_if_full_def)
    ultimately show ?thesis using M E(1,2) False by (simp add: bat_inv_def)
  qed
qed

section \<open>The end of a submission\<close>

lemma closed_ok_cong:
  "closed_ok s \<Longrightarrow> batcher_closed s' = batcher_closed s \<Longrightarrow> flushes s' = flushes s \<Longrightarrow>
   (groups s = [] \<Longrightarrow> groups s' = []) \<Longrightarrow> closed_ok s'"
  by (auto simp: closed_ok_def)

lemma sub_finish_fields [simp]:
  "max_size (sub_finish i r s) = max_size s" "groups (sub_finish i r s) = groups s" "items (sub_finish i r s) = items s"
  "timers (sub_finish i r s) = timers s" "flushes (sub_finish i r s) = flushes s" "pending (sub_finish i r s) = pending s"
  "inflight (sub_finish i r s) = inflight s" "batcher_closed (sub_finish i r s) = batcher_closed s"
  "subs (sub_finish i r s) = (subs s)[i := (subs s ! i)\<lparr>sub_outcome := Some r\<rparr>]"
  by (simp_all add: sub_finish_def)

lemma bat_inv_outcome:
  assumes inv: "bat_inv s" and i: "i < length (subs s)" "sub_outcome (subs s ! i) = None"
    and r: "r = Inl CancelledError \<and> item_future (items s ! i) \<noteq> Unresolved \<or>
      (\<exists>x. r = Inr x \<and> item_future (items s ! i) = Result_set x) \<or> (\<exists>e. r = Inl e \<and> item_future (items s ! i) = Exception_set e)"
  shows "bat_inv (sub_finish i r s)"
proof -
  have core: "bat_core s" using inv by (simp add: bat_inv_def)
  have "core_of (max_size s) (groups s) (items s) ((subs s)[i := (subs s ! i)\<lparr>sub_outcome := Some r\<rparr>]) (timers s) (flushes s)
      (pending s) (inflight s)"
    by (rule core_outcome [OF core _ i(2) r]) (use i(1) coreD(1) [OF core] in simp)
  then show ?thesis using inv closed_ok_cong [of s "sub_finish i r s"] by (simp add: bat_inv_def)
qed

text \<open>Every item that still is pending is in the batch its key names.\<close>

lemma pending_in_batch:
  assumes core: "bat_core s" and i: "i < length (items s)" "item_state (items s ! i) = Pending"
  obtains b where "map_of (groups s) (sub_key (subs s ! i)) = Some b" and "i \<in> set (batch_items b)"
proof -
  note D = coreD [OF core]
  obtain k b where kb: "(k, b) \<in> set (groups s)" "i \<in> set (batch_items b)"
    using D(8) [OF i(1)] i(2) by (auto simp: queued_iff)
  then have m: "map_of (groups s) k = Some b" using D(2) by simp
  have "sub_key (subs s ! i) = k" using D(3) [OF m] kb(2) by (auto simp: batch_ok_def one_key_def)
  then show ?thesis using m kb(2) that by blast
qed

lemma submit_cancelled_ok:
  assumes inv: "bat_inv s" and i: "i < length (subs s)" "sub_outcome (subs s ! i) = None"
  shows "bat_inv (submit_cancelled i s)"
proof -
  have core: "bat_core s" and M: "2 \<le> max_size s" and full: "none_full (max_size s) (groups s)" and cl: "closed_ok s"
    using inv by (simp_all add: bat_inv_def)
  note D = coreD [OF core]
  have il: "i < length (items s)" using i(1) D(1) by simp
  have ok: "item_ok (items s ! i) (subs s ! i)" by (rule D(6) [OF il])
  show ?thesis
  proof (cases "item_state (items s ! i)")
    case Pending
    obtain b where b: "map_of (groups s) (sub_key (subs s ! i)) = Some b" "i \<in> set (batch_items b)"
      using pending_in_batch [OF core il Pending] .
    let ?k = "sub_key (subs s ! i)" and ?tm = "(timers s ! timer_task b)\<lparr>timer_cancelling := True\<rparr>"
    define left where "left = remove1 i (batch_items b)"
    define G where "G = (if left = [] then AList.delete ?k (groups s) else AList.update ?k (b\<lparr>batch_items := left\<rparr>) (groups s))"
    define T where "T = (if left = [] then (timers s)[timer_task b := ?tm] else timers s)"
    have bok: "batch_ok (max_size s) (subs s) (timers s) ?k b" by (rule D(3) [OF b(1)])
    have fut: "item_future (items s ! i) = Unresolved" using ok Pending by (simp add: item_ok_def)
    have fields: "max_size (submit_cancelled i s) = max_size s" "groups (submit_cancelled i s) = G" "timers (submit_cancelled i s) = T"
      "items (submit_cancelled i s) = (items s)[i := cancelled_item (items s ! i)]"
      "subs (submit_cancelled i s) = (subs s)[i := cancelled_sub (subs s ! i)]"
      "flushes (submit_cancelled i s) = flushes s" "pending (submit_cancelled i s) = pending s - 1"
      "inflight (submit_cancelled i s) = inflight s" "batcher_closed (submit_cancelled i s) = batcher_closed s"
      using Pending b fut bok il
      by (simp_all add: submit_cancelled_def cancel_item_def remove_pending_def left_def [symmetric] G_def T_def set_item_def
          set_future_def cancel_timer_def set_timer_def notify_defs Let_def batch_ok_def)
    have "bat_core (submit_cancelled i s)"
      unfolding fields
      by (rule core_cancel_pending [OF core b left_def, of ?tm])
        (use timer_tracked_live [OF core b(1)] in \<open>auto simp: G_def T_def\<close>)
    moreover have "none_full (max_size s) G"
    proof -
      have "length left \<le> length (batch_items b)" unfolding left_def by (simp add: length_remove1)
      moreover have "int (length (batch_items b)) < max_size s" using full b(1) by (simp add: none_full_def)
      ultimately show ?thesis using full by (auto simp: none_full_def G_def delete_conv' update_conv' split: if_splits)
    qed
    moreover have "closed_ok (submit_cancelled i s)"
      by (rule closed_ok_cong [OF cl]) (use fields b(1) in auto)
    ultimately show ?thesis using M fields(1,2) by (simp add: bat_inv_def)
  next
    case Dispatched
    have fut: "item_future (items s ! i) = Unresolved" using ok Dispatched by (simp add: item_ok_def)
    have s': "submit_cancelled i s = sub_finish i (Inl CancelledError) (s\<lparr>items := (items s)[i := cancelled_item (items s ! i)]\<rparr>)"
      using Dispatched fut il by (simp add: submit_cancelled_def cancel_item_def set_item_def set_future_def)
    show ?thesis
      using core_cancel_dispatched [OF core il Dispatched] M full closed_ok_cong [OF cl, of "submit_cancelled i s"]
      by (simp add: bat_inv_def s')
  next
    case Completed
    then have fut: "item_future (items s ! i) \<noteq> Unresolved" using ok by (simp add: item_ok_def)
    then have "submit_cancelled i s = sub_finish i (Inl CancelledError) s"
      using Completed il by (simp add: submit_cancelled_def cancel_item_def set_item_def set_future_def)
    then show ?thesis using bat_inv_outcome [OF inv i] fut by simp
  next
    case Cancelled
    then show ?thesis using ok i(2) by (simp add: item_ok_def)
  qed
qed

lemma submit_resumed_ok:
  assumes inv: "bat_inv s" and i: "i < length (subs s)" "sub_outcome (subs s ! i) = None"
  shows "bat_inv (submit_resumed i s)"
  using inv bat_inv_outcome [OF inv i] submit_cancelled_ok [OF inv i]
  by (auto simp: submit_resumed_def split: item_future.split)

section \<open>Timers\<close>

lemma timer_expired_ok:
  assumes inv: "bat_inv s" and t: "t < length (timers s)" "\<not> timer_done (timers s ! t)" "\<not> timer_cancelling (timers s ! t)"
  shows "bat_inv (snd (timer_expired t now s)) \<and> fst (timer_expired t now s) = Inr ()"
proof -
  have core: "bat_core s" and M: "2 \<le> max_size s" and full: "none_full (max_size s) (groups s)" and cl: "closed_ok s"
    using inv by (simp_all add: bat_inv_def)
  obtain b where b: "map_of (groups s) (timer_key (timers s ! t)) = Some b" "timer_task b = t"
    using coreD(4) [OF core t(1)] t by (auto simp: timer_ok_def)
  obtain s1 where s1: "detach_locked (timer_key (timers s ! t)) t Flush_timeout True now s = (Inr (), s1)" "max_size s1 = max_size s"
    "groups s1 = AList.delete (timer_key (timers s ! t)) (groups s)" "subs s1 = subs s" "batcher_closed s1 = batcher_closed s"
    "items s1 = items_upd (\<lambda>_. item_state_update (\<lambda>_. Dispatched)) (batch_items b) (items s)"
    "timers s1 = timers s" "flushes s1 = flushes s @ [new_flush (batch_items b) Flush_timeout]"
    "pending s1 = pending s - int (length (batch_items b))" "inflight s1 = inflight s + 1"
    using detach_locked_eq [OF core b, of Flush_timeout True now] by auto
  have "core_of (max_size s1) (groups s1) (items s1) (subs s1) ((timers s)[t := (timers s ! t)\<lparr>timer_done := True\<rparr>]) (flushes s1) (pending s1) (inflight s1)"
    using core_detach [OF core b(1), of "(timers s ! t)\<lparr>timer_done := True\<rparr>" Flush_timeout] timer_tracked_live [OF core b(1)]
    unfolding s1(2-) b(2) by simp
  moreover have "none_full (max_size s1) (groups s1)" using none_full_delete [OF full] s1(2,3) by simp
  moreover have "\<not> batcher_closed s" using cl b(1) by (auto simp: closed_ok_def)
  then have "closed_ok s1" using cl s1(5,8) by (auto simp: closed_ok_def new_flush_def)
  then have "closed_ok (set_timer t (timer_done_update (\<lambda>_. True)) s1)" by (rule closed_ok_cong) (simp_all add: set_timer_def)
  ultimately show ?thesis
    using M s1 by (simp add: timer_expired_def set_timer_def bat_inv_def)
qed

lemma set_timer_ok:
  assumes inv: "bat_inv s" and t: "t < length (timers s)" "timer_done (timers s ! t) \<or> timer_cancelling (timers s ! t)"
    and tm: "timer_done (f (timers s ! t)) \<or> timer_cancelling (f (timers s ! t))"
      "timer_tracked (f (timers s ! t)) \<or> timer_done (f (timers s ! t))"
  shows "bat_inv (set_timer t f s)"
  using inv core_timer [OF _ t tm] closed_ok_cong [of s "set_timer t f s"] by (simp add: bat_inv_def set_timer_def)

section \<open>Flush tasks\<close>

lemma set_flush_ok:
  assumes inv: "bat_inv s" and k: "k < length (flushes s)"
    and fl: "op_items (f (flushes s ! k)) = op_items (flushes s ! k)" "phase_ok (f (flushes s ! k))"
      "live_op (f (flushes s ! k)) = live_op (flushes s ! k)" "flush_cancelling (f (flushes s ! k)) = flush_cancelling (flushes s ! k)"
      "flush_phase (flushes s ! k) = Finished \<Longrightarrow> flush_phase (f (flushes s ! k)) = Finished"
  shows "bat_inv (set_flush k f s)"
proof -
  have "closed_ok (set_flush k f s)"
    using inv k fl(4,5) set_update_subset_insert [of "flushes s" k "f (flushes s ! k)"]
    by (fastforce simp: bat_inv_def closed_ok_def set_flush_def)
  then show ?thesis using inv core_flush [OF _ k fl(3,1,2)] by (simp add: bat_inv_def set_flush_def)
qed

lemma flush_phase_ok:
  assumes "bat_inv s" and "k < length (flushes s)"
  shows "phase_ok (flushes s ! k)"
  using coreD(5) [of "max_size s"] assms by (auto simp: bat_inv_def flush_ok_def)

lemma flush_steps_ok:
  assumes inv: "bat_inv s" and k: "k < length (flushes s)"
  shows "flush_phase (flushes s ! k) = Created \<Longrightarrow> \<not> flush_cancelling (flushes s ! k) \<Longrightarrow> bat_inv (execute_start k s)"
    and "flush_phase (flushes s ! k) = Created \<Longrightarrow> flush_cancelling (flushes s ! k) \<Longrightarrow>
      bat_inv (set_flush k (flush_phase_update (\<lambda>_. Finished)) s)"
    and "flush_phase (flushes s ! k) = Finished \<Longrightarrow> bat_inv (set_flush k (flush_tracked_update (\<lambda>_. False)) s)"
    and "flush_phase (flushes s ! k) = Finished \<Longrightarrow> \<not> flush_tracked (flushes s ! k) \<Longrightarrow>
      bat_inv (set_flush k (flush_registered_update (\<lambda>_. False)) s)"
  using flush_phase_ok [OF inv k] unfolding execute_start_def
  by (auto intro!: set_flush_ok [OF inv k] simp: phase_ok_def live_op_def)

text \<open>What \<open>_execute_batch\<close> resolves the future of its member \<open>i\<close> with.\<close>

definition delivery :: "nat list \<Rightarrow> exn + batch_return \<Rightarrow> nat \<Rightarrow> item_future" where
  "delivery is r i = (case r of
      Inr (BackendBatchResult rs u tk) \<Rightarrow>
       (if length rs = length is then Result_set (response_of is rs i) else Exception_set (raised BackendProtocolError))
    | Inr Other_value \<Rightarrow> Exception_set (raised BackendProtocolError)
    | Inl e \<Rightarrow> Exception_set (if e = CancelledError then raised BatchingUnavailableError else e))"

definition outcome_of :: "nat list \<Rightarrow> exn + batch_return \<Rightarrow> batch_outcome" where
  "outcome_of is r = (case r of
      Inr (BackendBatchResult rs u tk) \<Rightarrow> (if length rs = length is then Batch_success else Batch_error)
    | Inr Other_value \<Rightarrow> Batch_error
    | Inl e \<Rightarrow> if e = CancelledError then Batch_cancelled else Batch_error)"

lemma handlers_eq:
  assumes d: "distinct is" and m: "\<forall>i\<in>set is. i < length (items s) \<and> member_ok (items s ! i)"
  shows "\<exists>evs. execute_handlers is (execute_body is r s) =
    ((if r = Inl CancelledError then Inl CancelledError else Inr (),
      s\<lparr>items := items_upd (\<lambda>i. fail_item (delivery is r i)) is (items s), batch_events := evs\<rparr>), outcome_of is r)"
proof -
  note F = fail_items_eq [OF d m]
  show ?thesis
  proof (cases r)
    case (Inl e)
    then show ?thesis
      by (intro exI [of _ "batch_events s"]) (simp add: execute_body_def execute_handlers_def F delivery_def outcome_of_def)
  next
    case (Inr x)
    show ?thesis
    proof (cases x)
      case Other_value
      with Inr show ?thesis
        by (intro exI [of _ "batch_events s"]) (simp add: execute_body_def execute_handlers_def F delivery_def outcome_of_def)
    next
      case (BackendBatchResult rs u tk)
      show ?thesis
      proof (cases "length rs = length is")
        case True
        then show ?thesis
          using Inr BackendBatchResult complete_success_eq [OF d True m, of 0]
          by (auto simp: execute_body_def execute_handlers_def delivery_def outcome_of_def observe_usage_def notify_event_def
              intro: exI [of _ "batch_events s"])
      next
        case False
        with Inr BackendBatchResult show ?thesis
          by (intro exI [of _ "batch_events s"]) (simp add: execute_body_def execute_handlers_def F delivery_def outcome_of_def)
      qed
    qed
  qed
qed

lemma execute_done_eq:
  assumes inv: "bat_inv s" and k: "k < length (flushes s)" "flush_phase (flushes s ! k) = Awaiting"
  shows "\<exists>s'. execute_done k r s = (if r = Inl CancelledError then Inl CancelledError else Inr (), s') \<and>
    max_size s' = max_size s \<and> groups s' = groups s \<and> subs s' = subs s \<and> timers s' = timers s \<and>
    batcher_closed s' = batcher_closed s \<and> pending s' = pending s \<and> inflight s' = inflight s - 1 \<and>
    items s' = items_upd (\<lambda>i. fail_item (delivery (op_items (flushes s ! k)) r i)) (op_items (flushes s ! k)) (items s) \<and>
    flushes s' = (flushes s)[k := (flushes s ! k)\<lparr>flush_phase := Finished\<rparr>]"
proof -
  have core: "bat_core s" using inv by (simp add: bat_inv_def)
  let ?is = "op_items (flushes s ! k)"
  have mem: "flushes s ! k \<in> set (flushes s)" and live: "live_op (flushes s ! k)" using k by (simp_all add: live_op_def)
  have "filter live_op (flushes s) \<noteq> []" using mem live by (auto simp: filter_empty_conv)
  then have pos: "0 < inflight s" using coreD(11) [OF core] by simp
  obtain evs where "execute_handlers ?is (execute_body ?is r s) =
    ((if r = Inl CancelledError then Inl CancelledError else Inr (),
      s\<lparr>items := items_upd (\<lambda>i. fail_item (delivery ?is r i)) ?is (items s), batch_events := evs\<rparr>), outcome_of ?is r)"
    using handlers_eq [OF op_distinct [OF core mem], of s r] live_members [OF core mem live] by blast
  then show ?thesis
    using pos k(1) by (simp add: execute_done_def Let_def execute_finally_def notify_defs set_flush_def)
qed

lemma delivery_resolves: "delivery is r i \<noteq> Unresolved" "delivery is r i \<noteq> Future_cancelled"
  by (auto simp: delivery_def split: sum.split batch_return.split)

lemma execute_done_ok:
  assumes inv: "bat_inv s" and k: "k < length (flushes s)" "flush_phase (flushes s ! k) = Awaiting"
  shows "bat_inv (snd (execute_done k r s))"
proof -
  have core: "bat_core s" and cl: "closed_ok s" using inv by (simp_all add: bat_inv_def)
  let ?fl = "(flushes s ! k)\<lparr>flush_phase := Finished\<rparr>"
  obtain s' where s': "snd (execute_done k r s) = s'" "max_size s' = max_size s" "groups s' = groups s" "subs s' = subs s"
    "timers s' = timers s" "batcher_closed s' = batcher_closed s" "pending s' = pending s" "inflight s' = inflight s - 1"
    "items s' = items_upd (\<lambda>i. fail_item (delivery (op_items (flushes s ! k)) r i)) (op_items ?fl) (items s)"
    "flushes s' = (flushes s)[k := ?fl]"
    using execute_done_eq [OF inv k, of r] by auto
  have "bat_core s'" unfolding s'(2-)
    by (rule core_settle [OF core k(1)])
      (use k flush_phase_ok [OF inv k(1)] delivery_resolves in \<open>auto simp: live_op_def phase_ok_def\<close>)
  moreover have "closed_ok s'"
    using cl s'(3,6,10) k(1) set_update_subset_insert [of "flushes s" k ?fl]
    by (fastforce simp: closed_ok_def)
  ultimately show ?thesis using inv s' by (simp add: bat_inv_def)
qed

section \<open>Shutting down\<close>

lemma settle_batches_ok:
  assumes "core_of M bs (items s) (subs s) (timers s) (flushes s) (pending s) (inflight s)"
  shows "\<exists>I T p. settle_batches (map snd bs) s = s\<lparr>items := I, timers := T, pending := p\<rparr> \<and>
    core_of M [] I (subs s) T (flushes s) p (inflight s)"
  using assms
proof (induction bs arbitrary: s)
  case Nil
  then show ?case by (intro exI [of _ "items s"] exI [of _ "timers s"] exI [of _ "pending s"]) simp
next
  case (Cons kb bs)
  obtain k b where kb: "kb = (k, b)" by (cases kb)
  note c = Cons.prems [unfolded kb]
  let ?tm = "(timers s ! timer_task b)\<lparr>timer_cancelling := True\<rparr>"
  let ?f = "Exception_set (raised BatchingUnavailableError)"
  define I where "I = items_upd (\<lambda>_. complete_item ?f) (batch_items b) (items s)"
  define s1 where "s1 = s\<lparr>items := I, timers := (timers s)[timer_task b := ?tm], pending := pending s - int (length (batch_items b))\<rparr>"
  have b: "map_of ((k, b) # bs) k = Some b" by simp
  have bok: "batch_ok M (subs s) (timers s) k b" by (rule coreD(3) [OF c b])
  have "timer_tracked (timers s ! timer_task b)"
    using bok coreD(4) [OF c, of "timer_task b"] by (auto simp: batch_ok_def timer_ok_def)
  then have "core_of M bs I (subs s) ((timers s)[timer_task b := ?tm]) (flushes s) (pending s - int (length (batch_items b))) (inflight s)"
    unfolding I_def by (intro core_settle_batch [OF c]) simp_all
  then have c1: "core_of M bs (items s1) (subs s1) (timers s1) (flushes s1) (pending s1) (inflight s1)" by (simp add: s1_def)
  have "cancel_timer (timer_task b) s = s\<lparr>timers := (timers s)[timer_task b := ?tm]\<rparr>"
    using bok by (simp add: cancel_timer_def set_timer_def batch_ok_def)
  moreover have "settle_pending (batch_items b) (s\<lparr>timers := (timers s)[timer_task b := ?tm]\<rparr>) = s1"
    unfolding s1_def I_def
    using batch_pending [OF c b] by (subst settle_pending_eq [OF batch_distinct [OF c b]]) simp_all
  ultimately have "settle_batches (map snd (kb # bs)) s = settle_batches (map snd bs) s1" by (simp add: kb)
  with Cons.IH [OF c1] show ?case by (auto simp: s1_def)
qed

lemma cancel_flushes_ok:
  assumes "core_of M G (items s) (subs s) (timers s) (flushes s) (pending s) (inflight s)" and "distinct ks"
    and "\<forall>k\<in>set ks. k < length (flushes s) \<and> \<not> flush_cancelling (flushes s ! k) \<and> flush_tracked (flushes s ! k)"
  shows "\<exists>rs I F n. cancel_flushes ks reasons s = (Inr rs, s\<lparr>items := I, flushes := F, inflight := n\<rparr>) \<and>
    core_of M G I (subs s) (timers s) F (pending s) n \<and> length F = length (flushes s) \<and>
    (\<forall>j<length F. F ! j = (if j \<in> set ks \<and> flush_phase (flushes s ! j) \<noteq> Finished
       then (flushes s ! j)\<lparr>flush_cancelling := True\<rparr> else flushes s ! j))"
  using assms
proof (induction ks arbitrary: s reasons)
  case Nil
  then show ?case
    by (intro exI [of _ reasons] exI [of _ "items s"] exI [of _ "flushes s"] exI [of _ "inflight s"]) simp
next
  case (Cons k ks)
  note c = Cons.prems(1)
  let ?fl = "flushes s ! k" and ?e = "Exception_set (raised BatchingUnavailableError)"
  have k: "k < length (flushes s)" "\<not> flush_cancelling ?fl" "flush_tracked ?fl" "k \<notin> set ks" "distinct ks"
    using Cons.prems by auto
  have mem: "?fl \<in> set (flushes s)" using k(1) by simp
  have ph: "phase_ok ?fl" using coreD(5) [OF c mem] by (simp add: flush_ok_def)
  define F where "F = (if flush_phase ?fl = Finished then flushes s else (flushes s)[k := ?fl\<lparr>flush_cancelling := True\<rparr>])"
  define I where "I = (if flush_phase ?fl = Created then items_upd (\<lambda>_. fail_item ?e) (op_items ?fl) (items s) else items s)"
  define n where "n = (if flush_phase ?fl = Created then inflight s - 1 else inflight s)"
  define s1 where "s1 = s\<lparr>items := I, flushes := F, inflight := n\<rparr>"
  have cancel: "cancel_flush k s = s\<lparr>flushes := F\<rparr>" by (simp add: cancel_flush_def set_flush_def F_def)
  have Fk: "F ! k = (if flush_phase ?fl = Finished then ?fl else ?fl\<lparr>flush_cancelling := True\<rparr>)" using k(1) by (simp add: F_def)
  have step: "\<exists>rs. cancel_flushes (k # ks) reasons s = cancel_flushes ks rs s1"
  proof (cases "flush_phase ?fl = Created")
    case True
    have live: "live_op ?fl" using True k(2) by (simp add: live_op_def)
    have "filter live_op (flushes s) \<noteq> []" using mem live by (auto simp: filter_empty_conv)
    then have pos: "0 < inflight s" using coreD(11) [OF c] by simp
    have settle: "settle_dispatched (op_items ?fl) (s\<lparr>flushes := F\<rparr>) = s\<lparr>items := I, flushes := F\<rparr>"
      using live_members [OF c mem live] True by (subst settle_dispatched_eq [OF op_distinct [OF c mem]]) (auto simp: I_def)
    have "\<not> op_started ?fl" "flush_registered ?fl" using ph True k(3) by (auto simp: phase_ok_def)
    then show ?thesis
      using pos True by (simp add: cancel Fk Let_def settle s1_def n_def) blast
  next
    case False
    then have "op_started ?fl" using ph k(2) by (cases "flush_phase ?fl") (auto simp: phase_ok_def)
    then show ?thesis using False by (simp add: cancel Fk Let_def s1_def n_def I_def) blast
  qed
  have c1: "core_of M G I (subs s) (timers s) F (pending s) n"
  proof (cases "flush_phase ?fl")
    case Created
    have "core_of M G (items_upd (\<lambda>_. fail_item ?e) (op_items (?fl\<lparr>flush_cancelling := True\<rparr>)) (items s)) (subs s) (timers s)
        ((flushes s)[k := ?fl\<lparr>flush_cancelling := True\<rparr>]) (pending s) (inflight s - 1)"
      by (rule core_settle [OF c k(1)]) (use Created k(2) ph in \<open>auto simp: live_op_def phase_ok_def\<close>)
    then show ?thesis using Created by (simp add: F_def I_def n_def)
  next
    case Awaiting
    have "core_of M G (items s) (subs s) (timers s) ((flushes s)[k := ?fl\<lparr>flush_cancelling := True\<rparr>]) (pending s) (inflight s)"
      by (rule core_flush [OF c k(1)]) (use Awaiting ph in \<open>auto simp: live_op_def phase_ok_def\<close>)
    then show ?thesis using Awaiting by (simp add: F_def I_def n_def)
  next
    case Finished
    then show ?thesis using c by (simp add: F_def I_def n_def)
  qed
  have other: "F ! j = flushes s ! j" if "j \<noteq> k" for j using that by (simp add: F_def)
  have pre: "\<forall>j\<in>set ks. j < length (flushes s1) \<and> \<not> flush_cancelling (flushes s1 ! j) \<and> flush_tracked (flushes s1 ! j)"
  proof
    fix j assume j: "j \<in> set ks"
    then have "j \<noteq> k" using k(4) by blast
    then have "F ! j = flushes s ! j" by (rule other)
    then show "j < length (flushes s1) \<and> \<not> flush_cancelling (flushes s1 ! j) \<and> flush_tracked (flushes s1 ! j)"
      using Cons.prems(3) j by (simp add: s1_def F_def)
  qed
  obtain rs where rs: "cancel_flushes (k # ks) reasons s = cancel_flushes ks rs s1" using step by blast
  have "core_of M G (items s1) (subs s1) (timers s1) (flushes s1) (pending s1) (inflight s1)" using c1 by (simp add: s1_def)
  then obtain rs' I' F' n' where r: "cancel_flushes ks rs s1 = (Inr rs', s1\<lparr>items := I', flushes := F', inflight := n'\<rparr>)"
    "core_of M G I' (subs s1) (timers s1) F' (pending s1) n'" "length F' = length (flushes s1)"
    "\<And>j. j < length F' \<Longrightarrow> F' ! j = (if j \<in> set ks \<and> flush_phase (flushes s1 ! j) \<noteq> Finished
       then (flushes s1 ! j)\<lparr>flush_cancelling := True\<rparr> else flushes s1 ! j)"
    using Cons.IH [OF _ k(5) pre, of rs] by blast
  have "F' ! j = (if j \<in> set (k # ks) \<and> flush_phase (flushes s ! j) \<noteq> Finished
       then (flushes s ! j)\<lparr>flush_cancelling := True\<rparr> else flushes s ! j)" if "j < length F'" for j
    using r(4) [OF that] other [of j] Fk k(4) by (cases "j = k") (simp_all add: s1_def)
  moreover have "length F' = length (flushes s)" using r(3) by (simp add: s1_def F_def)
  moreover have "cancel_flushes (k # ks) reasons s = (Inr rs', s\<lparr>items := I', flushes := F', inflight := n'\<rparr>)"
    using rs r(1) by (simp add: s1_def del: cancel_flushes.simps)
  moreover have "core_of M G I' (subs s) (timers s) F' (pending s) n'" using r(2) by (simp add: s1_def)
  ultimately show ?case by blast
qed

lemma fold_completed_fields:
  "max_size (fold (\<lambda>reason. observe_completed reason oc) rs s) = max_size s"
  "groups (fold (\<lambda>reason. observe_completed reason oc) rs s) = groups s"
  "items (fold (\<lambda>reason. observe_completed reason oc) rs s) = items s"
  "subs (fold (\<lambda>reason. observe_completed reason oc) rs s) = subs s"
  "timers (fold (\<lambda>reason. observe_completed reason oc) rs s) = timers s"
  "flushes (fold (\<lambda>reason. observe_completed reason oc) rs s) = flushes s"
  "pending (fold (\<lambda>reason. observe_completed reason oc) rs s) = pending s"
  "inflight (fold (\<lambda>reason. observe_completed reason oc) rs s) = inflight s"
  "batcher_closed (fold (\<lambda>reason. observe_completed reason oc) rs s) = batcher_closed s"
  by (induction rs arbitrary: s) (simp_all add: observe_completed_def)

lemma shutdown_ok:
  assumes inv: "bat_inv s" and run: "\<not> batcher_closed s"
  shows "\<exists>s'. shutdown s = (Inr (Some (filter (\<lambda>t. timer_tracked (timers s' ! t)) [0..<length (timers s')],
      filter (\<lambda>k. flush_tracked (flushes s ! k)) [0..<length (flushes s)])), s') \<and>
    bat_inv s' \<and> batcher_closed s' \<and> length (flushes s') = length (flushes s) \<and>
    (\<forall>k<length (flushes s). flush_phase (flushes s' ! k) = flush_phase (flushes s ! k))"
proof -
  have core: "bat_core s" and M: "2 \<le> max_size s" and cl: "closed_ok s" using inv by (simp_all add: bat_inv_def)
  define s0 where "s0 = s\<lparr>batcher_closed := True, groups := []\<rparr>"
  have "core_of (max_size s) (groups s) (items s0) (subs s0) (timers s0) (flushes s0) (pending s0) (inflight s0)"
    using core by (simp add: s0_def)
  then obtain I T p where b: "settle_batches (map snd (groups s)) s0 = s0\<lparr>items := I, timers := T, pending := p\<rparr>"
    "core_of (max_size s) [] I (subs s0) T (flushes s0) p (inflight s0)"
    using settle_batches_ok by blast
  define s1 where "s1 = s0\<lparr>items := I, timers := T, pending := p\<rparr>"
  define ks where "ks = filter (\<lambda>k. flush_tracked (flushes s ! k)) [0..<length (flushes s)]"
  have nc: "\<not> flush_cancelling (flushes s ! k)" if "k < length (flushes s)" for k using cl run that by (simp add: closed_ok_def)
  have "core_of (max_size s) [] (items s1) (subs s1) (timers s1) (flushes s1) (pending s1) (inflight s1)" "distinct ks"
    "\<forall>k\<in>set ks. k < length (flushes s1) \<and> \<not> flush_cancelling (flushes s1 ! k) \<and> flush_tracked (flushes s1 ! k)"
    using b(2) nc by (auto simp: s1_def s0_def ks_def)
  from cancel_flushes_ok [OF this, of "[]"] obtain rs I' F n where
    f: "cancel_flushes ks [] s1 = (Inr rs, s1\<lparr>items := I', flushes := F, inflight := n\<rparr>)"
    "core_of (max_size s) [] I' (subs s1) (timers s1) F (pending s1) n" "length F = length (flushes s1)"
    "\<And>j. j < length F \<Longrightarrow> F ! j = (if j \<in> set ks \<and> flush_phase (flushes s1 ! j) \<noteq> Finished
       then (flushes s1 ! j)\<lparr>flush_cancelling := True\<rparr> else flushes s1 ! j)" by blast
  define s2 where "s2 = s1\<lparr>items := I', flushes := F, inflight := n\<rparr>"
  define s3 where "s3 = fold (\<lambda>reason. observe_completed reason Batch_cancelled) rs (notify_state s2)"
  have s3: "max_size s3 = max_size s" "groups s3 = []" "items s3 = I'" "subs s3 = subs s1" "timers s3 = timers s1" "flushes s3 = F"
    "pending s3 = pending s1" "inflight s3 = n" "batcher_closed s3"
    by (simp_all add: s3_def fold_completed_fields notify_state_def s2_def s1_def s0_def)
  have "flush_phase (F ! j) = Finished \<or> flush_cancelling (F ! j)" if "j < length F" for j
  proof -
    have j: "j < length (flushes s)" using that f(3) by (simp add: s1_def s0_def)
    have "flush_tracked (flushes s ! j) \<or> flush_phase (flushes s ! j) = Finished"
      using flush_phase_ok [OF inv j] by (simp add: phase_ok_def)
    then show ?thesis using f(4) [OF that] j by (auto simp: s1_def s0_def ks_def)
  qed
  then have "closed_ok s3" using s3(2,6,9) by (simp add: closed_ok_def all_set_conv_all_nth)
  then have "bat_inv s3" using M f(2) s3 by (simp add: bat_inv_def none_full_def)
  moreover have "shutdown s = (Inr (Some (filter (\<lambda>t. timer_tracked (timers s3 ! t)) [0..<length (timers s3)], ks)), s3)"
    unfolding shutdown_def
    using run b(1) f(1) s3(5)
    by (simp add: s0_def [symmetric] s1_def [symmetric] Let_def) (simp add: s1_def s0_def ks_def s2_def s3_def)
  moreover have "flush_phase (flushes s3 ! k) = flush_phase (flushes s ! k)" if "k < length (flushes s)" for k
    using f(4) [of k] f(3) that by (simp add: s3(6) s1_def s0_def)
  ultimately show ?thesis using s3(6,9) f(3) by (auto simp: ks_def s1_def s0_def)
qed



section \<open>Every reachable state\<close>

lemma shutdown_closed: "batcher_closed s \<Longrightarrow> shutdown s = (Inr None, s)"
  by (simp add: shutdown_def)

lemma bat_inv_step:
  assumes inv: "bat_inv s" and step: "bat_step fr s s'"
  shows "bat_inv s'"
  using step
proof (cases rule: bat_step.cases)
  case (step_submit tenant r t1 t2)
  then show ?thesis using submit_ok [OF inv] by blast
next
  case (step_resume i)
  then show ?thesis using submit_resumed_ok [OF inv] by simp
next
  case (step_cancel i)
  then show ?thesis using submit_cancelled_ok [OF inv] by simp
next
  case (step_timer t now)
  then show ?thesis using timer_expired_ok [OF inv] by simp
next
  case (step_timer_cancelled t)
  then show ?thesis using set_timer_ok [OF inv, of t] by simp
next
  case (step_timer_callback t)
  then show ?thesis using set_timer_ok [OF inv, of t] by simp
next
  case (step_flush_start k)
  then show ?thesis using flush_steps_ok(1) [OF inv] by simp
next
  case (step_flush_never k)
  then show ?thesis using flush_steps_ok(2) [OF inv] by simp
next
  case (step_flush_done k r)
  then show ?thesis using execute_done_ok [OF inv] by simp
next
  case (step_flush_callback k)
  then show ?thesis using flush_steps_ok(3) [OF inv] by simp
next
  case (step_flush_pop k)
  then show ?thesis using flush_steps_ok(4) [OF inv] by simp
next
  case step_shutdown
  then show ?thesis
    using inv shutdown_ok [OF inv] shutdown_closed [of s] by (cases "batcher_closed s") auto
qed

lemma bat_inv_start: "bat_start s \<Longrightarrow> bat_inv s"
  by (auto simp: bat_start_def DynamicBatcher_def bat_inv_def core_of_def none_full_def closed_ok_def notify_state_def
      split: if_splits)

interpretation bat: inv_system bat_start "bat_step fr" bat_inv for fr
  by unfold_locales (auto intro: bat_inv_start bat_inv_step)

lemma reachable_bat_inv: "bat_reachable fr s \<Longrightarrow> bat_inv s"
  using bat.reachable_inv by blast

lemma steps_bat_inv: "bat_inv s \<Longrightarrow> (bat_step fr)\<^sup>*\<^sup>* s t \<Longrightarrow> bat_inv t"
  using bat.steps_inv by blast

end
