(* ===== verification/Gw_Batcher_Claims.thy ===== *)
theory Gw_Batcher_Claims
  imports Gw_Batcher_Sys
begin

text \<open>
  The properties of the batcher: accounting, delivery of each response to its own request, isolation
  of tenants inside a batch, no lost submission, cancellation, and shutting down.
\<close>

section \<open>The key of a submission\<close>

definition labels :: "batcher \<Rightarrow> chat_request list \<times> (string \<times> string) list" where
  "labels s = (map item_request (items s), map (\<lambda>sb. (sub_tenant sb, sub_key sb)) (subs s))"

definition keys_ok :: "(real \<Rightarrow> string) \<Rightarrow> batcher \<Rightarrow> bool" where
  "keys_ok fr s \<longleftrightarrow> length (subs s) = length (items s) \<and>
     (\<forall>i<length (items s). sub_key (subs s ! i) = compatibility_key fr (sub_tenant (subs s ! i)) (item_request (items s ! i)))"

lemma map_upd_same: "f v = f (xs ! i) \<Longrightarrow> map f (xs[i := v]) = map f xs"
  by (cases "i < length xs") (simp_all add: map_update list_update_same_conv list_update_beyond)

lemma labels_set_item: "(\<And>it. item_request (f it) = item_request it) \<Longrightarrow> labels (set_item i f s) = labels s"
  by (simp add: labels_def set_item_def map_upd_same)

lemma request_updates [simp]: "item_request (complete_item f it) = item_request it" "item_request (set_future f it) = item_request it"
  by (simp_all add: complete_item_def set_future_def)

lemma labels_cong: "items s' = items s \<Longrightarrow> subs s' = subs s \<Longrightarrow> labels s' = labels s"
  by (simp add: labels_def)

lemma labels_settle_pending: "labels (settle_pending is s) = labels s"
proof (induction "is" s rule: settle_pending.induct)
  case (2 i "is" s)
  have "labels ((set_item i (complete_item f) s)\<lparr>pending := p\<rparr>) = labels s" for f p
    using labels_set_item [of "complete_item f" i s] by (simp add: labels_def)
  with 2 show ?case by simp
qed simp

lemma labels_settle_dispatched: "labels (settle_dispatched is s) = labels s"
  by (induction "is" s rule: settle_dispatched.induct) (simp_all add: labels_set_item)

lemma labels_settle_batches: "labels (settle_batches bs s) = labels s"
proof (induction bs arbitrary: s)
  case (Cons b bs)
  have "labels (cancel_timer t s) = labels s" for t by (simp add: cancel_timer_def set_timer_def labels_def)
  with Cons show ?case by (simp add: labels_settle_pending)
qed simp

lemma labels_cancel_flushes: "labels (snd (cancel_flushes ks rs s)) = labels s"
proof (induction ks rs s rule: cancel_flushes.induct)
  case (2 k ks rs s)
  have c: "labels (cancel_flush k s) = labels s" by (simp add: cancel_flush_def set_flush_def labels_def)
  have d: "labels (settle_dispatched is (cancel_flush k s)\<lparr>inflight := n\<rparr>) = labels s" for "is" n
    using labels_settle_dispatched [of "is" "cancel_flush k s"] c by (simp add: labels_def)
  show ?case
    using 2 [OF refl refl] c d by (simp add: Let_def labels_settle_dispatched)
qed simp

lemma labels_notify [simp]: "labels (notify_event ev s) = labels s"
  by (simp add: labels_def)

lemma labels_fold: "labels (fold (\<lambda>reason. observe_completed reason oc) rs s) = labels s"
  by (simp add: labels_def fold_completed_fields)

lemma labels_items_upd:
  "(\<And>i it. item_request (f i it) = item_request it) \<Longrightarrow> items s' = items_upd f is (items s) \<Longrightarrow> subs s' = subs s \<Longrightarrow> labels s' = labels s"
  unfolding labels_def by (simp add: list_eq_iff_nth_eq)

lemma labels_detach:
  assumes "bat_core s" and "map_of (groups s) k = Some b" and "timer_task b = t"
  shows "labels (snd (detach_locked k t reason own now s)) = labels s"
proof -
  obtain s' where "detach_locked k t reason own now s = (Inr (), s')" "subs s' = subs s"
    "items s' = items_upd (\<lambda>_. item_state_update (\<lambda>_. Dispatched)) (batch_items b) (items s)"
    using detach_locked_eq [OF assms, of reason own now] by blast
  then show ?thesis using labels_items_upd [of "\<lambda>_. item_state_update (\<lambda>_. Dispatched)" s' "batch_items b" s] by simp
qed

lemma labels_flush_if_full: "bat_core s \<Longrightarrow> labels (snd (flush_if_full key now s)) = labels s"
  by (auto simp: flush_if_full_def intro!: labels_detach split: option.split)

lemma labels_sub_finish: "labels (sub_finish i r s) = labels s"
  by (simp add: labels_def sub_finish_def map_upd_same)

lemma labels_cancelled: "labels (submit_cancelled i s) = labels s"
proof -
  have "labels (remove_pending i k s) = labels s" for k
    by (auto simp: remove_pending_def Let_def notify_defs labels_def cancel_timer_def set_timer_def split: option.split)
  then have "labels (cancel_item i k s) = labels s" for k
    by (simp add: cancel_item_def Let_def labels_set_item split: item_state.split)
  then show ?thesis by (simp add: submit_cancelled_def labels_sub_finish)
qed

lemma labels_execute_done:
  assumes "bat_inv s" and "k < length (flushes s)" and "flush_phase (flushes s ! k) = Awaiting"
  shows "labels (snd (execute_done k r s)) = labels s"
proof -
  let ?f = "\<lambda>i. fail_item (delivery (op_items (flushes s ! k)) r i)"
  obtain s' where "snd (execute_done k r s) = s'" "subs s' = subs s" "items s' = items_upd ?f (op_items (flushes s ! k)) (items s)"
    using execute_done_eq [OF assms, of r] by auto
  then show ?thesis using labels_items_upd [of ?f s' "op_items (flushes s ! k)" s] by (simp add: fail_item_def)
qed

lemma labels_shutdown: "labels (snd (shutdown s)) = labels s"
proof (cases "batcher_closed s")
  case False
  let ?s1 = "settle_batches (map snd (groups s)) (s\<lparr>batcher_closed := True, groups := []\<rparr>)"
  have "labels ?s1 = labels s" unfolding labels_settle_batches by (simp add: labels_def)
  then have l: "labels (snd (cancel_flushes ks rs ?s1)) = labels s" for ks rs by (simp add: labels_cancel_flushes)
  show ?thesis
  proof (cases "cancel_flushes (filter (\<lambda>k. flush_tracked (flushes ?s1 ! k)) [0..<length (flushes ?s1)]) [] ?s1")
    case (Pair x s2)
    then have "labels s2 = labels s" using l by (metis snd_conv)
    then show ?thesis using False Pair by (cases x) (simp_all add: shutdown_def Let_def labels_fold notify_state_def)
  qed
qed (simp add: shutdown_closed)

lemma keys_ok_labels:
  assumes l: "labels s' = labels s" and k: "keys_ok fr s"
  shows "keys_ok fr s'"
proof -
  have items: "map item_request (items s') = map item_request (items s)"
    and subs: "map (\<lambda>sb. (sub_tenant sb, sub_key sb)) (subs s') = map (\<lambda>sb. (sub_tenant sb, sub_key sb)) (subs s)"
    using l by (simp_all add: labels_def)
  have len: "length (items s') = length (items s)" "length (subs s') = length (subs s)"
    using map_eq_imp_length_eq [OF items] map_eq_imp_length_eq [OF subs] by simp_all
  have "item_request (items s' ! i) = item_request (items s ! i)" if "i < length (items s)" for i
    using arg_cong [OF items, of "\<lambda>xs. xs ! i"] that len by simp
  moreover have "sub_tenant (subs s' ! i) = sub_tenant (subs s ! i) \<and> sub_key (subs s' ! i) = sub_key (subs s ! i)"
    if "i < length (subs s)" for i
    using arg_cong [OF subs, of "\<lambda>xs. xs ! i"] that len by simp
  ultimately show ?thesis using k len by (simp add: keys_ok_def)
qed

lemma keys_ok_submit:
  assumes inv: "bat_inv s" and k: "keys_ok fr s"
  shows "keys_ok fr (snd (submit fr tenant r t1 t2 s))"
proof (cases "batcher_closed s")
  case False
  define key where "key = compatibility_key fr tenant r"
  define s1 where "s1 = enqueue key tenant r t1 s"
  have "bat_core s1" unfolding s1_def by (rule enqueue_fields(1) [OF inv])
  then have l: "labels (snd (flush_if_full key t2 s1)) = labels s1" by (rule labels_flush_if_full)
  have "items s1 = items s @ [new_item r t1]" "subs s1 = subs s @ [\<lparr>sub_tenant = tenant, sub_key = key, sub_outcome = None\<rparr>]"
    by (auto simp: s1_def enqueue_def Let_def notify_state_def split: prod.split)
  then have "keys_ok fr s1" using k by (auto simp: keys_ok_def nth_append less_Suc_eq new_item_def key_def)
  then have k2: "keys_ok fr (snd (flush_if_full key t2 s1))" using l keys_ok_labels by blast
  moreover have "keys_ok fr (sub_finish i x (snd (flush_if_full key t2 s1)))" for i x
    using k2 labels_sub_finish keys_ok_labels by blast
  ultimately show ?thesis
    using False by (auto simp: submit_def Let_def key_def [symmetric] s1_def [symmetric] split: prod.split sum.split)
qed (use k in \<open>simp add: submit_def\<close>)

lemma keys_ok_step:
  assumes inv: "bat_inv s" and k: "keys_ok fr s" and step: "bat_step fr s s'"
  shows "keys_ok fr s'"
  using step
proof (cases rule: bat_step.cases)
  case (step_submit tenant r t1 t2)
  then show ?thesis using keys_ok_submit [OF inv k] by blast
next
  case (step_timer t now)
  have "bat_core s" using inv by (simp add: bat_inv_def)
  then obtain b where b: "map_of (groups s) (timer_key (timers s ! t)) = Some b" "timer_task b = t"
    using coreD(4) [of "max_size s" "groups s" "items s" "subs s" "timers s" "flushes s" "pending s" "inflight s" t] step_timer
    by (auto simp: timer_ok_def)
  have "labels (snd (timer_expired t now s)) = labels s"
    using labels_detach [OF \<open>bat_core s\<close> b, of Flush_timeout True now]
    by (auto simp: timer_expired_def set_timer_def labels_def split: prod.split)
  then show ?thesis using step_timer keys_ok_labels [OF _ k] by simp
next
  case (step_flush_done j r)
  then show ?thesis using labels_execute_done [OF inv] keys_ok_labels [OF _ k] by blast
next
  case (step_resume i)
  have "labels (submit_resumed i s) = labels s"
    by (simp add: submit_resumed_def labels_cancelled labels_sub_finish split: item_future.split)
  then show ?thesis using step_resume keys_ok_labels [OF _ k] by simp
next
  case (step_cancel i)
  then show ?thesis using labels_cancelled keys_ok_labels [OF _ k] by simp
next
  case step_shutdown
  then show ?thesis using labels_shutdown keys_ok_labels [OF _ k] by simp
qed (use k in \<open>auto simp: set_timer_def set_flush_def execute_start_def keys_ok_def\<close>)

interpretation bat_keys: inv_system bat_start "bat_step fr" "\<lambda>s. bat_inv s \<and> keys_ok fr s" for fr
proof
  show "bat_inv s \<and> keys_ok fr s" if "bat_start s" for s
    using that bat_inv_start [OF that] by (auto simp: bat_start_def DynamicBatcher_def keys_ok_def notify_state_def split: if_splits)
qed (blast intro: bat_inv_step keys_ok_step)

lemma reachable_keys_ok: "bat_reachable fr s \<Longrightarrow> keys_ok fr s"
  using bat_keys.reachable_inv by blast

section \<open>After shutting down\<close>

text \<open>In a closed batcher tasks only finish.\<close>

definition winds_down :: "batcher \<Rightarrow> batcher \<Rightarrow> bool" where
  "winds_down s s' \<longleftrightarrow> batcher_closed s' \<and> length (timers s') = length (timers s) \<and> length (flushes s') = length (flushes s) \<and>
     (\<forall>t<length (timers s). timer_done (timers s ! t) \<longrightarrow> timer_done (timers s' ! t)) \<and>
     (\<forall>k<length (flushes s). flush_phase (flushes s ! k) = Finished \<longrightarrow> flush_phase (flushes s' ! k) = Finished)"

lemma winds_down_trans: "winds_down s t \<Longrightarrow> winds_down t u \<Longrightarrow> winds_down s u"
  by (simp add: winds_down_def)

lemma cancel_timers_same:
  "groups s = [] \<Longrightarrow> timers (submit_cancelled i s) = timers s"
  "flushes (submit_cancelled i s) = flushes s" "batcher_closed (submit_cancelled i s) = batcher_closed s"
  by (simp_all add: submit_cancelled_def cancel_item_def remove_pending_def set_item_def cancel_timer_def set_timer_def
      notify_defs Let_def split: item_state.split option.split)

lemma winds_down_step:
  assumes inv: "bat_inv s" and cl: "batcher_closed s" and step: "bat_step fr s s'"
  shows "winds_down s s'"
  using step
proof (cases rule: bat_step.cases)
  case (step_submit tenant r t1 t2)
  then show ?thesis using cl by (simp add: winds_down_def submit_def)
next
  case (step_resume i)
  have "groups s = []" using inv cl by (simp add: bat_inv_def closed_ok_def)
  then show ?thesis
    using step_resume cl cancel_timers_same by (simp add: winds_down_def submit_resumed_def split: item_future.split)
next
  case (step_cancel i)
  have "groups s = []" using inv cl by (simp add: bat_inv_def closed_ok_def)
  then show ?thesis using step_cancel cl cancel_timers_same by (simp add: winds_down_def)
next
  case (step_timer t now)
  have "bat_core s" using inv unfolding bat_inv_def by blast
  have "groups s = []" using inv cl by (simp add: bat_inv_def closed_ok_def)
  then show ?thesis using coreD(4) [OF \<open>bat_core s\<close>, of t] step_timer by (simp add: timer_ok_def)
next
  case (step_flush_done k r)
  obtain u where u: "snd (execute_done k r s) = u" "timers u = timers s" "batcher_closed u = batcher_closed s"
    "flushes u = (flushes s)[k := (flushes s ! k)\<lparr>flush_phase := Finished\<rparr>]"
    using execute_done_eq [OF inv step_flush_done(2,3), of r] by auto
  then show ?thesis using step_flush_done(1) cl by (simp add: winds_down_def nth_upd)
next
  case step_shutdown
  then show ?thesis using cl by (simp add: winds_down_def shutdown_closed)
qed (use cl in \<open>auto simp: winds_down_def set_timer_def set_flush_def execute_start_def nth_upd\<close>)

lemma winds_down_steps:
  assumes "(bat_step fr)\<^sup>*\<^sup>* s s'" and "bat_inv s" and "batcher_closed s"
  shows "winds_down s s' \<and> bat_inv s'"
  using assms(1)
proof (induction rule: rtranclp_induct)
  case base
  show ?case using assms(2,3) by (simp add: winds_down_def)
next
  case (step u v)
  then have "winds_down u v" using winds_down_step [of u fr v] by (simp add: winds_down_def)
  then show ?case using step winds_down_trans bat_inv_step by blast
qed

text \<open>The tasks that were finished before stay so.\<close>

lemma shutdown_flush_phase:
  assumes inv: "bat_inv s" and run: "\<not> batcher_closed s" and k: "k < length (flushes s)" "flush_phase (flushes s ! k) = Finished"
  shows "flush_phase (flushes (snd (shutdown s)) ! k) = Finished"
  using shutdown_ok [OF inv run] k by auto

section \<open>An example run\<close>

text \<open>Two requests of one tenant fill a batch of two; a third of another tenant waits on its own.\<close>

definition plain_request :: "string \<Rightarrow> chat_request" where
  "plain_request txt = \<lparr>req_model = ''m'', req_messages = [\<lparr>msg_role = Role_user, msg_content = txt\<rparr>],
     req_temperature = None, req_top_p = None, req_max_tokens = Some (Some 8), req_stop = None,
     req_seed = None, req_n = None, req_stream = None, req_stream_options = None\<rparr>"

definition no_floats :: "real \<Rightarrow> string" where
  "no_floats x = ''0.0''"

definition run0 :: batcher where
  "run0 = (case DynamicBatcher 2 (1 / 2) True of Inr s \<Rightarrow> s | Inl _ \<Rightarrow> undefined)"

definition run1 :: batcher where
  "run1 = snd (submit no_floats ''a'' (plain_request ''one'') 0 0 run0)"

definition run2 :: batcher where
  "run2 = snd (submit no_floats ''b'' (plain_request ''two'') 0 0 run1)"

definition run3 :: batcher where
  "run3 = snd (submit no_floats ''a'' (plain_request ''three'') 1 2 run2)"

definition run4 :: batcher where
  "run4 = execute_start 0 run3"

definition run5 :: batcher where
  "run5 = snd (execute_done 0 (Inr (BackendBatchResult [[(''r'', JInt 1)], [(''r'', JInt 2)]] Missing None)) run4)"

definition run6 :: batcher where
  "run6 = snd (shutdown run4)"

definition run7 :: batcher where
  "run7 = set_timer 1 (timer_done_update (\<lambda>_. True)) (set_timer 0 (timer_done_update (\<lambda>_. True)) (snd (execute_done 0 (Inl CancelledError) run6)))"

lemma run0_start: "bat_start run0"
  unfolding bat_start_def run0_def by (intro exI [of _ 2] exI [of _ "1 / 2"] exI [of _ True]) (simp add: DynamicBatcher_def)

lemma run3_reachable: "bat_reachable no_floats run3"
proof -
  have "(bat_step no_floats)\<^sup>*\<^sup>* run0 run3"
    unfolding run3_def run2_def run1_def by (blast intro: rtranclp.rtrancl_into_rtrancl step_submit)
  then show ?thesis using run0_start by blast
qed

text \<open>What the examples look at, evaluated once per state.\<close>

definition view :: "batcher \<Rightarrow> (nat list \<times> flush_phase \<times> bool) list \<times> (item_state \<times> item_future) list \<times>
    (string \<times> (exn + json_dict) option) list \<times> nat \<times> int \<times> int \<times> bool" where
  "view s = (map (\<lambda>fl. (op_items fl, flush_phase fl, flush_cancelling fl)) (flushes s),
     map (\<lambda>it. (item_state it, item_future it)) (items s), map (\<lambda>sb. (sub_tenant sb, sub_outcome sb)) (subs s),
     length (timers s), pending s, inflight s, batcher_closed s)"

definition phases :: "batcher \<Rightarrow> (bool \<times> bool) list \<times> flush_phase list \<times> nat" where
  "phases s = (map (\<lambda>tm. (timer_done tm, timer_cancelling tm)) (timers s), map flush_phase (flushes s), length (items s))"

lemma run3_view:
  "view run3 = ([([0, 2], Created, False)], [(Dispatched, Unresolved), (Pending, Unresolved), (Dispatched, Unresolved)],
     [(''a'', None), (''b'', None), (''a'', None)], 2, 1, 1, False)"
  by code_simp

lemma run3_state:
  "length (flushes run3) = 1" "flush_phase (flushes run3 ! 0) = Created" "\<not> flush_cancelling (flushes run3 ! 0)"
  "op_items (flushes run3 ! 0) = [0, 2]" "length (items run3) = 3" "length (subs run3) = 3" "length (timers run3) = 2"
  "item_future (items run3 ! 1) = Unresolved" "sub_outcome (subs run3 ! 1) = None" "pending run3 = 1" "inflight run3 = 1"
  using run3_view by (auto simp: view_def map_eq_Cons_conv)

lemma run3_requests: "map item_request (items run3) = [plain_request ''one'', plain_request ''two'', plain_request ''three'']"
  by code_simp

lemma run4_view:
  "view run4 = ([([0, 2], Awaiting, False)], [(Dispatched, Unresolved), (Pending, Unresolved), (Dispatched, Unresolved)],
     [(''a'', None), (''b'', None), (''a'', None)], 2, 1, 1, False)"
proof -
  obtain fl where "flushes run3 = [fl]" "op_items fl = [0, 2]" using run3_view by (auto simp: view_def map_eq_Cons_conv)
  then show ?thesis using run3_view by (simp add: view_def run4_def execute_start_def set_flush_def run3_state)
qed

lemma run4_reachable: "bat_reachable no_floats run4"
proof -
  have "bat_step no_floats run3 run4" unfolding run4_def by (rule step_flush_start) (simp_all add: run3_state)
  then show ?thesis using run3_reachable by (meson rtranclp.rtrancl_into_rtrancl)
qed

lemma run4_state:
  "length (flushes run4) = 1" "flush_phase (flushes run4 ! 0) = Awaiting" "op_items (flushes run4 ! 0) = [0, 2]"
  "length (items run4) = 3" "length (subs run4) = 3" "item_state (items run4 ! 0) = Dispatched" "item_state (items run4 ! 1) = Pending"
  "item_state (items run4 ! 2) = Dispatched" "sub_outcome (subs run4 ! 1) = None" "\<not> batcher_closed run4"
  using run4_view by (auto simp: view_def map_eq_Cons_conv)

section \<open>Accounting\<close>

text \<open>
  C18. The two counters are exact in every reachable state: \<open>_pending\<close> is the number of items that are
  pending and \<open>_inflight\<close> the number of flush operations that are neither finished nor settled by a
  shutdown. Every pending batch holds at least one and fewer than \<open>max_size\<close> requests, and every batch
  sent upstream between one and \<open>max_size\<close>, no request occurring twice.
\<close>

theorem batcher_accounting:
  assumes "bat_reachable fr s"
  shows "pending s = int (card {i. i < length (items s) \<and> item_state (items s ! i) = Pending}) \<and>
    inflight s = int (length (filter (\<lambda>fl. flush_phase fl = Awaiting \<or> flush_phase fl = Created \<and> \<not> flush_cancelling fl) (flushes s))) \<and>
    (\<forall>(k, b)\<in>set (groups s). 0 < length (batch_items b) \<and> int (length (batch_items b)) < max_size s) \<and>
    (\<forall>fl\<in>set (flushes s). 0 < length (op_items fl) \<and> int (length (op_items fl)) \<le> max_size s \<and> distinct (op_items fl))"
proof -
  have inv: "bat_inv s" by (rule reachable_bat_inv [OF assms])
  have core: "bat_core s" and full: "none_full (max_size s) (groups s)" using inv unfolding bat_inv_def by blast+
  note D = coreD [OF core]
  have "{i. i < length (items s) \<and> item_state (items s ! i) = Pending} = set (queue_of (groups s))"
    using D(8) places_bounds [OF core] by auto
  then have "pending s = int (card {i. i < length (items s) \<and> item_state (items s ! i) = Pending})"
    using D(7,10) distinct_card [of "queue_of (groups s)"] by simp
  moreover have "0 < length (batch_items b) \<and> int (length (batch_items b)) < max_size s" if "(k, b) \<in> set (groups s)" for k b
  proof -
    have "map_of (groups s) k = Some b" using D(2) that by simp
    then show ?thesis using D(3) [of k b] full by (simp add: batch_ok_def none_full_def)
  qed
  moreover have "0 < length (op_items fl) \<and> int (length (op_items fl)) \<le> max_size s \<and> distinct (op_items fl)" if "fl \<in> set (flushes s)" for fl
    using D(5) [OF that] op_distinct [OF core that] by (simp add: flush_ok_def)
  ultimately show ?thesis using D(11) by (auto simp: live_op_def [abs_def])
qed

theorem batcher_accounting_witness: "bat_reachable no_floats run3 \<and> pending run3 = 1 \<and> inflight run3 = 1 \<and> distinct (op_items (flushes run3 ! 0))"
proof -
  have "flushes run3 ! 0 \<in> set (flushes run3)" using run3_state(1) by simp
  then show ?thesis using batcher_accounting [OF run3_reachable] run3_reachable run3_state(10,11) by blast
qed

section \<open>Delivery\<close>

lemma execute_done_futures:
  assumes inv: "bat_inv s" and k: "k < length (flushes s)" "flush_phase (flushes s ! k) = Awaiting"
    and is_eq: "is = op_items (flushes s ! k)" and s': "s' = snd (execute_done k r s)"
  shows "distinct is" and "items s' = items_upd (\<lambda>i. fail_item (delivery is r i)) is (items s)"
    and "j < length is \<Longrightarrow> item_future (items s' ! (is ! j)) =
      (if item_state (items s ! (is ! j)) = Cancelled then Future_cancelled else delivery is r (is ! j))"
proof -
  have core: "bat_core s" using inv unfolding bat_inv_def by blast
  have mem: "flushes s ! k \<in> set (flushes s)" and live: "live_op (flushes s ! k)" using k by (simp_all add: live_op_def)
  show "distinct is" using op_distinct [OF core mem] is_eq by simp
  show its: "items s' = items_upd (\<lambda>i. fail_item (delivery is r i)) is (items s)"
    using execute_done_eq [OF inv k, of r] is_eq s' by auto
  assume "j < length is"
  then have i: "is ! j \<in> set is" by simp
  have m: "is ! j < length (items s)" "member_ok (items s ! (is ! j))" using live_members [OF core mem live] i is_eq by blast+
  have "item_ok (items s ! (is ! j)) (subs s ! (is ! j))" using coreD(6) [OF core] m by blast
  then show "item_future (items s' ! (is ! j)) =
      (if item_state (items s ! (is ! j)) = Cancelled then Future_cancelled else delivery is r (is ! j))"
    using m i by (auto simp: its member_ok_def item_ok_def fail_item_def complete_item_def set_future_def)
qed

lemma delivery_nth:
  "distinct is \<Longrightarrow> j < length is \<Longrightarrow> delivery is r (is ! j) = (case r of
      Inl e \<Rightarrow> Exception_set (if e = CancelledError then raised BatchingUnavailableError else e)
    | Inr Other_value \<Rightarrow> Exception_set (raised BackendProtocolError)
    | Inr (BackendBatchResult rs u tk) \<Rightarrow>
       (if length rs = length is then Result_set (rs ! j) else Exception_set (raised BackendProtocolError)))"
  by (simp add: delivery_def response_of_nth split: sum.split batch_return.split)

text \<open>
  C16. When \<open>generate_batch\<close> has returned for a flush operation, each member that was not cancelled gets
  the response at its own position, or, if the call failed, the error: \<open>BatchingUnavailableError\<close> after a
  cancellation, \<open>BackendProtocolError\<close> for a result of the wrong type or length, the raised exception
  otherwise. A cancelled member and every request outside of the operation are left as they are.
\<close>

theorem batch_delivery:
  assumes reach: "bat_reachable fr s" and k: "k < length (flushes s)" "flush_phase (flushes s ! k) = Awaiting"
    and is_eq: "is = op_items (flushes s ! k)" and s': "s' = snd (execute_done k r s)"
  shows "(\<forall>j<length is. item_future (items s' ! (is ! j)) =
      (if item_state (items s ! (is ! j)) = Cancelled then Future_cancelled
       else case r of
           Inl e \<Rightarrow> Exception_set (if e = CancelledError then raised BatchingUnavailableError else e)
         | Inr Other_value \<Rightarrow> Exception_set (raised BackendProtocolError)
         | Inr (BackendBatchResult rs u tk) \<Rightarrow>
            (if length rs = length is then Result_set (rs ! j) else Exception_set (raised BackendProtocolError)))) \<and>
    length (items s') = length (items s) \<and> (\<forall>i<length (items s). i \<notin> set is \<longrightarrow> items s' ! i = items s ! i)"
proof -
  note D = execute_done_futures [OF reachable_bat_inv [OF reach] k is_eq s']
  show ?thesis using D(2,3) delivery_nth [OF D(1), of _ r] by simp
qed

theorem batch_delivery_witness:
  "bat_reachable no_floats run4 \<and> item_future (items run5 ! 0) = Result_set [(''r'', JInt 1)] \<and>
   item_future (items run5 ! 2) = Result_set [(''r'', JInt 2)] \<and> items run5 ! 1 = items run4 ! 1"
proof -
  note c = run4_state
  have k: "0 < length (flushes run4)" using c(1) by simp
  show ?thesis
    using batch_delivery [OF run4_reachable k c(2) refl run5_def] run4_reachable c(3,4,6,8) by (auto simp: numeral_2_eq_2 less_Suc_eq all_conj_distrib)
qed

section \<open>Isolation\<close>

lemma batch_members_agree:
  assumes reach: "bat_reachable fr s" and fl: "fl \<in> set (flushes s)" and i: "i \<in> set (op_items fl)" and j: "j \<in> set (op_items fl)"
    and fr: "float_repr_ok fr (shared_floats (item_request (items s ! i)) \<union> shared_floats (item_request (items s ! j)))"
  shows "sub_tenant (subs s ! i) = sub_tenant (subs s ! j)"
    and "to_batch_shared_payload (item_request (items s ! i)) = to_batch_shared_payload (item_request (items s ! j))"
proof -
  have core: "bat_core s" using reachable_bat_inv [OF reach] unfolding bat_inv_def by blast
  note D = coreD [OF core]
  have "i < length (items s)" "j < length (items s)" using flush_bounds [OF D(5) [OF fl] D(1)] i j by blast+
  moreover have "sub_key (subs s ! i) = sub_key (subs s ! j)" using D(5) [OF fl] i j by (auto simp: flush_ok_def one_key_def)
  ultimately have "compatibility_key fr (sub_tenant (subs s ! i)) (item_request (items s ! i)) =
      compatibility_key fr (sub_tenant (subs s ! j)) (item_request (items s ! j))"
    using reachable_keys_ok [OF reach] by (simp add: keys_ok_def)
  then show "sub_tenant (subs s ! i) = sub_tenant (subs s ! j)"
    "to_batch_shared_payload (item_request (items s ! i)) = to_batch_shared_payload (item_request (items s ! j))"
    using compatibility_key_inject [OF fr] same_shared_payload by blast+
qed

text \<open>
  C17. All members of a batch sent upstream come from one tenant and agree in the model and in every
  sampling parameter of the shared payload, however many tenants submit concurrently.
\<close>

theorem batch_isolation:
  assumes reach: "bat_reachable fr s" and fl: "fl \<in> set (flushes s)" and i: "i \<in> set (op_items fl)" and j: "j \<in> set (op_items fl)"
    and fr: "float_repr_ok fr (shared_floats (item_request (items s ! i)) \<union> shared_floats (item_request (items s ! j)))"
  shows "sub_tenant (subs s ! i) = sub_tenant (subs s ! j) \<and>
    to_batch_shared_payload (item_request (items s ! i)) = to_batch_shared_payload (item_request (items s ! j))"
  using batch_members_agree [OF assms] by blast

lemma plain_floats: "shared_floats (plain_request t) = {}"
  by (simp add: shared_floats_def shared_payload_eq plain_request_def set_field_def set_nullable_def)

theorem batch_isolation_witness:
  "bat_reachable no_floats run3 \<and> sub_tenant (subs run3 ! 0) = sub_tenant (subs run3 ! 2) \<and> sub_tenant (subs run3 ! 1) \<noteq> sub_tenant (subs run3 ! 0)"
proof -
  have r: "item_request (items run3 ! 0) = plain_request ''one''" "item_request (items run3 ! 2) = plain_request ''three''"
    "sub_tenant (subs run3 ! 1) \<noteq> sub_tenant (subs run3 ! 0)"
    using run3_requests run3_view by (auto simp: view_def map_eq_Cons_conv)
  have fl: "flushes run3 ! 0 \<in> set (flushes run3)" using run3_state(1) by simp
  have mem: "0 \<in> set (op_items (flushes run3 ! 0))" "2 \<in> set (op_items (flushes run3 ! 0))" by (simp_all add: run3_state)
  have "float_repr_ok no_floats (shared_floats (item_request (items run3 ! 0)) \<union> shared_floats (item_request (items run3 ! 2)))"
    unfolding r plain_floats by (simp add: float_repr_ok_empty)
  from batch_isolation [OF run3_reachable fl mem this] show ?thesis using run3_reachable r(3) by blast
qed

section \<open>No submission is lost\<close>

text \<open>
  C19. A submission that has not returned always has something that will resolve it: its future is
  already resolved, or it is in a pending batch whose timer is running and will flush it, or it is in a
  flush operation that has not finished. A submission that returned a response returned the one its
  future was resolved with.
\<close>

theorem submission_not_lost:
  assumes reach: "bat_reachable fr s" and i: "i < length (subs s)"
  shows "(sub_outcome (subs s ! i) = None \<longrightarrow> item_future (items s ! i) \<noteq> Unresolved \<or>
      (\<exists>b. map_of (groups s) (sub_key (subs s ! i)) = Some b \<and> i \<in> set (batch_items b) \<and> timer_task b < length (timers s) \<and>
         \<not> timer_done (timers s ! timer_task b) \<and> \<not> timer_cancelling (timers s ! timer_task b)) \<or>
      (\<exists>fl\<in>set (flushes s). i \<in> set (op_items fl) \<and>
         (flush_phase fl = Awaiting \<or> flush_phase fl = Created \<and> \<not> flush_cancelling fl))) \<and>
    (\<forall>r. sub_outcome (subs s ! i) = Some (Inr r) \<longrightarrow> item_future (items s ! i) = Result_set r)"
proof -
  have core: "bat_core s" using reachable_bat_inv [OF reach] unfolding bat_inv_def by blast
  note D = coreD [OF core]
  have il: "i < length (items s)" using i D(1) by simp
  have ok: "item_ok (items s ! i) (subs s ! i)" by (rule D(6) [OF il])
  have "(\<exists>b. map_of (groups s) (sub_key (subs s ! i)) = Some b \<and> i \<in> set (batch_items b) \<and> timer_task b < length (timers s) \<and>
         \<not> timer_done (timers s ! timer_task b) \<and> \<not> timer_cancelling (timers s ! timer_task b))"
    if pend: "item_state (items s ! i) = Pending"
  proof -
    obtain b where b: "map_of (groups s) (sub_key (subs s ! i)) = Some b" "i \<in> set (batch_items b)"
      using pending_in_batch [OF core il pend] .
    then show ?thesis using D(3) [OF b(1)] by (auto simp: batch_ok_def)
  qed
  moreover have "\<exists>fl\<in>set (flushes s). i \<in> set (op_items fl) \<and> live_op fl" if d: "item_state (items s ! i) = Dispatched"
  proof -
    obtain fl where fl: "fl \<in> set (flushes s)" "i \<in> set (op_items fl)" using D(9) [OF il d] by (auto simp: flown_iff)
    then have "live_op fl" using D(5) [OF fl(1)] d by (auto simp: flush_ok_def split: if_splits)
    then show ?thesis using fl by blast
  qed
  ultimately show ?thesis using ok by (auto simp: item_ok_def live_op_def)
qed

theorem submission_not_lost_witness:
  "bat_reachable no_floats run3 \<and> (\<exists>b. map_of (groups run3) (sub_key (subs run3 ! 1)) = Some b \<and> 1 \<in> set (batch_items b))"
proof -
  have c: "(1::nat) < length (subs run3)" "sub_outcome (subs run3 ! 1) = None" "item_future (items run3 ! 1) = Unresolved"
    "\<forall>fl\<in>set (flushes run3). 1 \<notin> set (op_items fl)"
    using run3_view by (auto simp: view_def map_eq_Cons_conv)
  then show ?thesis using submission_not_lost [OF run3_reachable c(1)] run3_reachable by blast
qed

section \<open>Errors\<close>

text \<open>
  In every reachable state the sections raise only what they are meant to: \<open>submit\<close> raises
  \<open>BatchingUnavailableError\<close> iff the batcher is closed, a timer that fires raises nothing, a flush task
  raises only the cancellation it received, \<open>shutdown\<close> raises nothing. The internal consistency errors
  of the source never occur.
\<close>

theorem batcher_errors:
  assumes reach: "bat_reachable fr s"
  shows "fst (submit fr tenant r t1 t2 s) =
      (if batcher_closed s then Inl (raised BatchingUnavailableError) else Inr (length (items s))) \<and>
    (\<forall>t<length (timers s). \<not> timer_done (timers s ! t) \<longrightarrow> \<not> timer_cancelling (timers s ! t) \<longrightarrow> fst (timer_expired t t1 s) = Inr ()) \<and>
    (\<forall>k<length (flushes s). flush_phase (flushes s ! k) = Awaiting \<longrightarrow>
       fst (execute_done k x s) = (if x = Inl CancelledError then Inl CancelledError else Inr ())) \<and>
    (\<exists>tasks. fst (shutdown s) = Inr tasks)"
proof -
  have inv: "bat_inv s" by (rule reachable_bat_inv [OF reach])
  have "fst (execute_done k x s) = (if x = Inl CancelledError then Inl CancelledError else Inr ())"
    if "k < length (flushes s)" "flush_phase (flushes s ! k) = Awaiting" for k
    using execute_done_eq [OF inv that, of x] by auto
  moreover have "\<exists>tasks. fst (shutdown s) = Inr tasks"
    using shutdown_ok [OF inv] shutdown_closed [of s] by (cases "batcher_closed s") auto
  ultimately show ?thesis using submit_ok [OF inv] timer_expired_ok [OF inv] by blast
qed

theorem batcher_errors_witness:
  "bat_reachable no_floats run4 \<and> fst (execute_done 0 (Inl TimeoutError) run4) = Inr () \<and> fst (submit no_floats ''a'' (plain_request ''x'') 3 3 run4) = Inr 3"
proof -
  have "0 < length (flushes run4)" using run4_state(1) by simp
  then show ?thesis
    using batcher_errors [OF run4_reachable, of "''a''" "plain_request ''x''" 3 3 "Inl TimeoutError"] run4_reachable run4_state by simp
qed

section \<open>Cancellation\<close>

text \<open>
  Cancelling one waiting submission concerns nobody else: no other item and no other submission
  changes, and the counter drops by one iff the item was still pending, in which case it is in no batch
  any more. Unless the future was already resolved it is cancelled, and the caller sees the
  cancellation in any case.
\<close>

theorem cancel_isolated:
  assumes reach: "bat_reachable fr s" and i: "i < length (subs s)" "sub_outcome (subs s ! i) = None"
    and s': "s' = submit_cancelled i s"
  shows "(\<forall>j<length (items s). j \<noteq> i \<longrightarrow> items s' ! j = items s ! j \<and> subs s' ! j = subs s ! j) \<and>
    sub_outcome (subs s' ! i) = Some (Inl CancelledError) \<and>
    item_future (items s' ! i) = (if item_future (items s ! i) = Unresolved then Future_cancelled else item_future (items s ! i)) \<and>
    pending s' = pending s - (if item_state (items s ! i) = Pending then 1 else 0) \<and>
    inflight s' = inflight s \<and> flushes s' = flushes s \<and> (\<forall>(k, b)\<in>set (groups s'). i \<notin> set (batch_items b))"
proof -
  have inv: "bat_inv s" by (rule reachable_bat_inv [OF reach])
  have core: "bat_core s" using inv unfolding bat_inv_def by blast
  note D = coreD [OF core]
  have il: "i < length (items s)" using i(1) D(1) by simp
  have inv': "bat_inv s'" unfolding s' by (rule submit_cancelled_ok [OF inv i])
  have core': "bat_core s'" using inv' unfolding bat_inv_def by blast
  have rem: "items (remove_pending i k s) = items s" "subs (remove_pending i k s) = subs s" "inflight (remove_pending i k s) = inflight s"
    "flushes (remove_pending i k s) = flushes s" for k
    by (simp_all add: remove_pending_def Let_def notify_defs cancel_timer_def set_timer_def split: option.split)
  have fields: "subs s' = (subs s)[i := cancelled_sub (subs s ! i)]" "flushes s' = flushes s" "inflight s' = inflight s"
    "length (items s') = length (items s)" "\<And>j. j \<noteq> i \<Longrightarrow> items s' ! j = items s ! j"
    "item_future (items s' ! i) = (if item_future (items s ! i) = Unresolved then Future_cancelled else item_future (items s ! i))"
    "item_state (items s' ! i) \<noteq> Pending"
    using il by (auto simp: s' submit_cancelled_def cancel_item_def Let_def set_item_def rem set_future_def split: item_state.split)
  have pend: "pending s' = pending s - (if item_state (items s ! i) = Pending then 1 else 0)"
  proof (cases "item_state (items s ! i) = Pending")
    case True
    obtain b where "map_of (groups s) (sub_key (subs s ! i)) = Some b" "i \<in> set (batch_items b)"
      using pending_in_batch [OF core il True] .
    then show ?thesis
      using True by (simp add: s' submit_cancelled_def cancel_item_def Let_def set_item_def remove_pending_def notify_defs cancel_timer_def set_timer_def)
  next
    case False
    then show ?thesis by (cases "item_state (items s ! i)") (simp_all add: s' submit_cancelled_def cancel_item_def Let_def set_item_def)
  qed
  have "i \<notin> set (queue_of (groups s'))" using coreD(8) [OF core', of i] fields(4,7) il by simp
  then show ?thesis using fields pend i(1) by (auto simp: queued_iff)
qed

theorem cancel_isolated_witness:
  "bat_reachable no_floats run4 \<and> pending (submit_cancelled 1 run4) = pending run4 - 1 \<and> items (submit_cancelled 1 run4) ! 0 = items run4 ! 0"
proof -
  have c: "(1::nat) < length (subs run4)" "sub_outcome (subs run4 ! 1) = None" "item_state (items run4 ! 1) = Pending" "(0::nat) < length (items run4)"
    using run4_state by simp_all
  then show ?thesis using cancel_isolated [OF run4_reachable c(1,2) refl] run4_reachable by simp
qed

section \<open>Shutting down\<close>

lemma drained_resolved:
  assumes core: "bat_core s" and g: "groups s = []" and none: "filter live_op (flushes s) = []" and i: "i < length (items s)"
  shows "item_future (items s ! i) \<noteq> Unresolved"
proof
  assume u: "item_future (items s ! i) = Unresolved"
  then have "item_state (items s ! i) = Pending \<or> item_state (items s ! i) = Dispatched"
    using coreD(6) [OF core i] by (simp add: item_ok_def)
  moreover have "item_state (items s ! i) \<noteq> Pending" using coreD(8) [OF core i] g by simp
  ultimately have "i \<in> set (flown_of (flushes s))" "item_state (items s ! i) = Dispatched" using coreD(9) [OF core i] by blast+
  then obtain fl where fl: "fl \<in> set (flushes s)" "i \<in> set (op_items fl)" "item_state (items s ! i) = Dispatched" by (auto simp: flown_iff)
  then have "live_op fl" using coreD(5) [OF core fl(1)] by (auto simp: flush_ok_def split: if_splits)
  then show False using none fl(1) by (auto simp: filter_empty_conv)
qed

text \<open>
  C20. \<open>shutdown\<close> leaves nothing behind. The tasks it waits for are exactly those not yet finished, and
  each of them is finished or has been asked to stop; once they have all finished, whatever else ran
  in between, both counters are zero, the future of every submission is resolved, every timer and
  flush task is done, and later submissions are refused.
\<close>

theorem shutdown_resolves_all:
  assumes reach: "bat_reachable fr s" and down: "shutdown s = (Inr (Some (ts, fs)), s1)"
    and later: "(bat_step fr)\<^sup>*\<^sup>* s1 s2" and gath: "gathered (ts, fs) s2"
  shows "(\<forall>t\<in>set ts. timer_done (timers s1 ! t) \<or> timer_cancelling (timers s1 ! t)) \<and>
    (\<forall>k\<in>set fs. flush_phase (flushes s1 ! k) = Finished \<or> flush_cancelling (flushes s1 ! k)) \<and>
    pending s2 = 0 \<and> inflight s2 = 0 \<and> (\<forall>it\<in>set (items s2). item_future it \<noteq> Unresolved) \<and>
    (\<forall>tm\<in>set (timers s2). timer_done tm) \<and> (\<forall>fl\<in>set (flushes s2). flush_phase fl = Finished) \<and>
    (\<forall>tenant r t1 t2. submit fr tenant r t1 t2 s2 = (Inl (raised BatchingUnavailableError), s2))"
proof -
  have inv: "bat_inv s" by (rule reachable_bat_inv [OF reach])
  have run: "\<not> batcher_closed s" using down shutdown_closed by fastforce
  have s1: "ts = filter (\<lambda>t. timer_tracked (timers s1 ! t)) [0..<length (timers s1)]"
    "fs = filter (\<lambda>k. flush_tracked (flushes s ! k)) [0..<length (flushes s)]" "bat_inv s1" "batcher_closed s1"
    "length (flushes s1) = length (flushes s)"
    using shutdown_ok [OF inv run] down by auto
  have w: "winds_down s1 s2" "bat_inv s2" using winds_down_steps [OF later s1(3,4)] by blast+
  have core1: "bat_core s1" and core: "bat_core s2" using s1(3) w(2) unfolding bat_inv_def by blast+
  have g1: "groups s1 = []" "\<forall>fl\<in>set (flushes s1). flush_phase fl = Finished \<or> flush_cancelling fl"
    using s1(3,4) by (simp_all add: bat_inv_def closed_ok_def)
  have tm1: "timer_done (timers s1 ! t) \<or> timer_cancelling (timers s1 ! t)" "timer_tracked (timers s1 ! t) \<or> timer_done (timers s1 ! t)"
    if "t < length (timers s1)" for t
    using coreD(4) [OF core1 that] g1(1) by (auto simp: timer_ok_def)
  have cf: "flush_phase (flushes s1 ! k) = Finished \<or> flush_cancelling (flushes s1 ! k)" if "k < length (flushes s1)" for k
    using g1(2) nth_mem [OF that] by blast
  have tm2: "timer_done (timers s2 ! t)" if "t < length (timers s2)" for t
  proof (cases "t \<in> set ts")
    case True
    then show ?thesis using gath by (auto simp: gathered_def list_all_iff)
  next
    case False
    then show ?thesis using tm1(2) [of t] w(1) that s1(1) by (auto simp: winds_down_def)
  qed
  have fl1: "flush_tracked (flushes s ! k) \<or> flush_phase (flushes s1 ! k) = Finished" if "k < length (flushes s1)" for k
  proof (cases "flush_tracked (flushes s ! k)")
    case False
    then have "flush_phase (flushes s ! k) = Finished" using flush_phase_ok [OF inv] that s1(5) by (auto simp: phase_ok_def)
    then show ?thesis using shutdown_flush_phase [OF inv run] that s1(5) down by simp
  qed simp
  have fl2: "flush_phase (flushes s2 ! k) = Finished" if "k < length (flushes s2)" for k
  proof (cases "k \<in> set fs")
    case True
    then show ?thesis using gath by (auto simp: gathered_def list_all_iff)
  next
    case False
    then show ?thesis using fl1 [of k] w(1) that s1(2,5) by (auto simp: winds_down_def)
  qed
  have closed: "batcher_closed s2" "groups s2 = []"
    using w by (simp_all add: winds_down_def bat_inv_def closed_ok_def)
  have none: "filter live_op (flushes s2) = []" using fl2 by (auto simp: filter_empty_conv live_op_def in_set_conv_nth)
  have "item_future (items s2 ! i) \<noteq> Unresolved" if "i < length (items s2)" for i
    by (rule drained_resolved [OF core closed(2) none that])
  then show ?thesis
    using coreD(10,11) [OF core] closed none tm1(1) tm2 fl2 cf s1(1,2,5)
    by (auto simp: in_set_conv_nth submit_def)
qed

theorem shutdown_resolves_all_witness:
  "bat_reachable no_floats run4 \<and> fst (shutdown run4) = Inr (Some ([0, 1], [0])) \<and> pending run7 = 0 \<and> inflight run7 = 0 \<and>
   item_future (items run7 ! 1) \<noteq> Unresolved"
proof -
  let ?a = "snd (execute_done 0 (Inl CancelledError) run6)"
  let ?b = "set_timer 0 (timer_done_update (\<lambda>_. True)) ?a"
  have f: "fst (shutdown run4) = Inr (Some ([0, 1], [0]))" by code_simp
  then have down: "shutdown run4 = (Inr (Some ([0, 1], [0])), run6)" by (simp add: run6_def prod_eq_iff)
  have p6: "phases run6 = ([(False, True), (False, True)], [Awaiting], 3)" by code_simp
  have pa: "phases ?a = ([(False, True), (False, True)], [Finished], 3)" by code_simp
  then have pb: "phases ?b = ([(True, True), (False, True)], [Finished], 3)"
    and p7: "phases run7 = ([(True, True), (True, True)], [Finished], 3)"
    by (auto simp: phases_def run7_def set_timer_def map_eq_Cons_conv)
  have s1: "bat_step no_floats run6 ?a"
    by (rule step_flush_done) (use p6 in \<open>auto simp: phases_def map_eq_Cons_conv\<close>)
  have s2: "bat_step no_floats ?a ?b"
    by (rule step_timer_cancelled) (use pa in \<open>auto simp: phases_def map_eq_Cons_conv\<close>)
  have s3: "bat_step no_floats ?b run7"
    unfolding run7_def by (rule step_timer_cancelled) (use pb in \<open>auto simp: phases_def map_eq_Cons_conv\<close>)
  have "(bat_step no_floats)\<^sup>*\<^sup>* run6 run7" using s1 s2 s3 by (meson rtranclp.rtrancl_into_rtrancl rtranclp.rtrancl_refl)
  moreover have "gathered ([0, 1], [0]) run7" using p7 by (auto simp: phases_def gathered_def map_eq_Cons_conv)
  moreover have "items run7 ! 1 \<in> set (items run7)" using p7 by (simp add: phases_def)
  ultimately show ?thesis using shutdown_resolves_all [OF run4_reachable down] run4_reachable f by blast
qed

end
