(* ===== verification/Gw_Vllm.thy ===== *)
theory Gw_Vllm
  imports Gw_Batcher_Claims
begin

text \<open>
  \<open>gateway/backends/vllm.py\<close> and the contracts of \<open>gateway/backends/base.py\<close>: the client of one vLLM
  server. The HTTP client is a third-party library: what a call of it yields, a response or one of the
  exceptions the source distinguishes, is an argument of the function that goes on from there.
\<close>

section \<open>The HTTP client\<close>

text \<open>
  \<open>TimeoutException\<close> and \<open>ConnectError\<close> are \<open>RequestError\<close>s, caught by their own clauses first;
  \<open>Raised\<close> is any exception that is none of these.
\<close>

datatype 'a http_call =
    Timeout_exception
  | Connect_error
  | Request_error
  | Runtime_error
  | Raised exn
  | Response 'a

record http_reply =
  reply_status :: int
  reply_content_type :: "string option"
  reply_json :: "json option"

text \<open>The \<open>except\<close> clauses around a request; only \<open>stream\<close> has the one for \<open>RuntimeError\<close>.\<close>

definition transport_result :: "bool \<Rightarrow> 'a http_call \<Rightarrow> exn + 'a" where
  "transport_result catch_runtime c = (case c of
      Timeout_exception \<Rightarrow> Inl (raised BackendTimeoutError)
    | Connect_error \<Rightarrow> Inl (raised BackendUnavailableError)
    | Request_error \<Rightarrow> Inl (raised BackendUnavailableError)
    | Runtime_error \<Rightarrow> Inl (if catch_runtime then raised BackendUnavailableError else RuntimeError ''client closed'')
    | Raised e \<Rightarrow> Inl e
    | Response r \<Rightarrow> Inr r)"

definition raise_for_upstream_status :: "int \<Rightarrow> exn + unit" where
  "raise_for_upstream_status st =
     (if 200 \<le> st \<and> st < 300 then Inr ()
      else if st \<in> {400, 404, 422} then Inl (Gateway (mk_error BackendRequestRejectedError None None (Some st)))
      else if st \<in> {401, 403} then Inl (raised BackendConfigurationError)
      else Inl (raised BackendHTTPError))"

text \<open>\<open>response.json()\<close>, which must give an object.\<close>

definition json_object :: "http_reply \<Rightarrow> exn + json_dict" where
  "json_object r = (case reply_json r of Some (JObj d) \<Rightarrow> Inr d | _ \<Rightarrow> Inl (raised BackendProtocolError))"

definition then_do :: "'e + 'a \<Rightarrow> ('a \<Rightarrow> 'e + 'b) \<Rightarrow> 'e + 'b" where
  "then_do r f = (case r of Inl e \<Rightarrow> Inl e | Inr x \<Rightarrow> f x)"

lemma then_do_simps [simp]: "then_do (Inl e) f = Inl e" "then_do (Inr x) f = f x"
  by (simp_all add: then_do_def)

lemma then_do_Inr: "then_do r f = Inr y \<longleftrightarrow> (\<exists>x. r = Inr x \<and> f x = Inr y)"
  by (cases r) auto

section \<open>Requests\<close>

definition vllm_headers :: "string option \<Rightarrow> (string \<times> string) list" where
  "vllm_headers api_key = [(''Content-Type'', ''application/json'')] @
     (case api_key of Some k \<Rightarrow> if k = [] then [] else [(''Authorization'', ''Bearer '' @ k)] | None \<Rightarrow> [])"

definition vllm_generate :: "http_reply http_call \<Rightarrow> exn + json_dict" where
  "vllm_generate c = then_do (transport_result False c) (\<lambda>r.
     then_do (raise_for_upstream_status (reply_status r)) (\<lambda>_. json_object r))"

definition incompatible :: "json_dict \<Rightarrow> json_dict \<Rightarrow> bool" where
  "incompatible d d' \<longleftrightarrow> set d \<noteq> set d'"

definition batch_payload :: "chat_request list \<Rightarrow> exn + json_dict" where
  "batch_payload requests =
     (if requests = []
      then Inl (Gateway (mk_error BackendCapabilityError (Some ''Batch generation requires chat completion requests'') None None))
      else if list_ex (\<lambda>r. stream_on r \<or> n_of r \<noteq> 1) requests
      then Inl (Gateway (mk_error BackendCapabilityError (Some ''Batch generation requires stream=false and n=1'') None None))
      else
        let shared_payload = to_batch_shared_payload (hd requests)
        in if list_ex (\<lambda>r. incompatible (to_batch_shared_payload r) shared_payload) (tl requests)
           then Inl (Gateway (mk_error BackendCapabilityError (Some ''Batch generation requires compatible shared fields'') None None))
           else Inr (AList.update ''messages''
             (JList (map (\<lambda>r. dict_get (to_upstream_payload r) ''messages'') requests)) shared_payload))"

fun collect_choices :: "nat \<Rightarrow> json list \<Rightarrow> (int \<times> json_dict) list \<Rightarrow> exn + (int \<times> json_dict) list" where
  "collect_choices n [] by_index = Inr by_index"
| "collect_choices n (c # cs) by_index = (case c of
      JObj choice \<Rightarrow>
       (case dict_get choice ''index'' of
          JInt i \<Rightarrow>
           (if i < 0 \<or> i \<ge> int n \<or> i \<in> fst ` set by_index then Inl (raised BackendProtocolError)
            else collect_choices n cs (AList.update i choice by_index))
        | _ \<Rightarrow> Inl (raised BackendProtocolError))
    | _ \<Rightarrow> Inl (raised BackendProtocolError))"

definition safe_batch_fields :: "json_dict \<Rightarrow> json_dict" where
  "safe_batch_fields payload = map (\<lambda>k. (k, dict_get payload k))
     (filter (\<lambda>k. has_key k payload) [''id'', ''object'', ''created'', ''model'', ''system_fingerprint''])"

definition member_response :: "json_dict \<Rightarrow> json_dict \<Rightarrow> json_dict" where
  "member_response payload choice =
     safe_batch_fields payload @ [(''choices'', JList [JObj (AList.update ''index'' (JInt 0) choice)])]"

definition demultiplex_batch_response :: "json_dict \<Rightarrow> nat \<Rightarrow> exn + batch_return" where
  "demultiplex_batch_response payload batch_size = (case dict_get payload ''choices'' of
      JList choices \<Rightarrow>
       (if length choices \<noteq> batch_size then Inl (raised BackendProtocolError)
        else then_do (collect_choices batch_size choices []) (\<lambda>by_index.
          if fst ` set by_index \<noteq> int ` {0..<batch_size} then Inl (raised BackendProtocolError)
          else
            let responses = map (\<lambda>i. member_response payload (the (map_of by_index (int i)))) [0..<batch_size];
                (usage_result, tokens) = classify_usage payload
            in Inr (BackendBatchResult responses usage_result tokens)))
    | _ \<Rightarrow> Inl (raised BackendProtocolError))"

definition vllm_generate_batch :: "chat_request list \<Rightarrow> http_reply http_call \<Rightarrow> exn + batch_return" where
  "vllm_generate_batch requests c = then_do (batch_payload requests) (\<lambda>_.
     then_do (transport_result False c) (\<lambda>r.
     then_do (raise_for_upstream_status (reply_status r)) (\<lambda>_.
     then_do (json_object r) (\<lambda>payload. demultiplex_batch_response payload (length requests)))))"

text \<open>A failed probe counts as unhealthy; an exception that is no \<open>RequestError\<close> or \<open>RuntimeError\<close> propagates.\<close>

definition check_health :: "int http_call \<Rightarrow> exn + bool" where
  "check_health c = (case c of
      Response st \<Rightarrow> Inr (200 \<le> st \<and> st < 300)
    | Raised e \<Rightarrow> Inl e
    | _ \<Rightarrow> Inr False)"

section \<open>Streams\<close>

text \<open>\<open>responses_closed\<close> counts the calls of the HTTP response's \<open>aclose\<close>.\<close>

record vllm_stream =
  vs_closed :: bool
  responses_closed :: nat

record vllm =
  vllm_streams :: "vllm_stream list"
  vllm_active :: "nat set"
  client_closed :: bool

definition media_type_ok :: "string option \<Rightarrow> bool" where
  "media_type_ok ct =
     (map py_lower_char (py_strip (hd (py_split CHR '';'' (case ct of Some v \<Rightarrow> v | None \<Rightarrow> [])))) = ''text/event-stream'')"

text \<open>Opening a stream; the flag says that the response was closed again.\<close>

definition vllm_stream_open :: "http_reply http_call \<Rightarrow> vllm \<Rightarrow> (exn + nat) \<times> bool \<times> vllm" where
  "vllm_stream_open c v = (case transport_result True c of
      Inl e \<Rightarrow> (Inl e, False, v)
    | Inr r \<Rightarrow>
       (case raise_for_upstream_status (reply_status r) of
          Inl e \<Rightarrow> (Inl e, True, v)
        | Inr _ \<Rightarrow>
           (if \<not> media_type_ok (reply_content_type r) then (Inl (raised BackendProtocolError), True, v)
            else (Inr (length (vllm_streams v)), False,
              v\<lparr>vllm_streams := vllm_streams v @ [\<lparr>vs_closed = False, responses_closed = 0\<rparr>],
                vllm_active := insert (length (vllm_streams v)) (vllm_active v)\<rparr>))))"

text \<open>\<open>aclose\<close>; \<open>r\<close> is what the HTTP response's own \<open>aclose\<close> yields.\<close>

definition vstream_aclose :: "nat \<Rightarrow> exn + unit \<Rightarrow> vllm \<Rightarrow> (exn + unit) \<times> vllm" where
  "vstream_aclose x r v =
     (let st = vllm_streams v ! x in
      if vs_closed st then (Inr (), v)
      else (r, v\<lparr>vllm_streams := (vllm_streams v)[x := \<lparr>vs_closed = True, responses_closed = responses_closed st + 1\<rparr>],
                 vllm_active := vllm_active v - {x}\<rparr>))"

text \<open>The end of \<open>_iterate\<close>: the translated exception, replaced by one that \<open>aclose\<close> raises.\<close>

definition vstream_iterate_end :: "nat \<Rightarrow> unit http_call \<Rightarrow> exn + unit \<Rightarrow> vllm \<Rightarrow> (exn + unit) \<times> vllm" where
  "vstream_iterate_end x c r v = (case vstream_aclose x r v of
      (Inl e, v1) \<Rightarrow> (Inl e, v1)
    | (Inr _, v1) \<Rightarrow> (transport_result True c, v1))"

text \<open>\<open>close\<close> over the streams active when it began, with the outcomes of their responses.\<close>

fun close_streams :: "nat list \<Rightarrow> (nat \<Rightarrow> exn + unit) \<Rightarrow> vllm \<Rightarrow> (exn + unit) \<times> vllm" where
  "close_streams [] rs v = (Inr (), v)"
| "close_streams (x # xs) rs v = and_then (vstream_aclose x (rs x) v) (\<lambda>_ v1. close_streams xs rs v1)"

definition vllm_close :: "(nat \<Rightarrow> exn + unit) \<Rightarrow> vllm \<Rightarrow> (exn + unit) \<times> vllm" where
  "vllm_close rs v = and_then
     (close_streams (filter (\<lambda>x. x \<in> vllm_active v) [0..<length (vllm_streams v)]) rs v)
     (\<lambda>_ v1. (Inr (), v1\<lparr>client_closed := True\<rparr>))"

end
