(* ===== verification/Gw_Vllm_Claims.thy ===== *)
theory Gw_Vllm_Claims
  imports Gw_Vllm
begin

text \<open>
  The properties of the vLLM client: the demultiplexer accepts exactly the well-formed batch responses
  and routes every choice by its index, upstream status codes are classified, the batcher never hands
  the client a batch it refuses, and a stream's response is closed once.
\<close>

section \<open>Demultiplexing\<close>

text \<open>The accepted lists of choices, and the dictionary they are collected in.\<close>

definition indexed_choices :: "nat \<Rightarrow> json list \<Rightarrow> (int \<times> json_dict) list \<Rightarrow> (int \<times> json_dict) list \<Rightarrow> bool" where
  "indexed_choices n cs acc m \<longleftrightarrow> (\<exists>ds is. cs = map JObj ds \<and> map (\<lambda>d. dict_get d ''index'') ds = map JInt is \<and>
     set is \<subseteq> {0..<int n} \<and> distinct is \<and> set is \<inter> fst ` set acc = {} \<and> m = acc @ zip is ds)"

lemma indexed_choicesE:
  assumes "indexed_choices n cs acc m"
  obtains ds "is" where "cs = map JObj ds" and "map (\<lambda>d. dict_get d ''index'') ds = map JInt is"
    and "set is \<subseteq> {0..<int n}" and "distinct is" and "set is \<inter> fst ` set acc = {}" and "m = acc @ zip is ds"
  using assms unfolding indexed_choices_def by (elim exE conjE) (rule that)

lemma indexed_choices_Cons:
  assumes c: "dict_get d ''index'' = JInt i" "i \<in> {0..<int n}" "i \<notin> fst ` set acc"
  shows "indexed_choices n (JObj d # cs) acc m \<longleftrightarrow> indexed_choices n cs (acc @ [(i, d)]) m"
proof
  assume "indexed_choices n cs (acc @ [(i, d)]) m"
  then obtain ds "is" where "cs = map JObj ds" "map (\<lambda>d. dict_get d ''index'') ds = map JInt is" "set is \<subseteq> {0..<int n}"
    "distinct is" "set is \<inter> fst ` set (acc @ [(i, d)]) = {}" "m = (acc @ [(i, d)]) @ zip is ds"
    unfolding indexed_choices_def by blast
  then show "indexed_choices n (JObj d # cs) acc m"
    unfolding indexed_choices_def using c by (intro exI [of _ "d # ds"] exI [of _ "i # is"]) auto
next
  assume "indexed_choices n (JObj d # cs) acc m"
  then obtain ds' is' where r: "JObj d # cs = map JObj ds'" "map (\<lambda>d. dict_get d ''index'') ds' = map JInt is'"
    "set is' \<subseteq> {0..<int n}" "distinct is'" "set is' \<inter> fst ` set acc = {}" "m = acc @ zip is' ds'"
    by (rule indexed_choicesE)
  from r(1) obtain ds where ds: "ds' = d # ds" "cs = map JObj ds" by (cases ds') auto
  from r(2) ds(1) c(1) obtain "is" where "is' = i # is" "map (\<lambda>d. dict_get d ''index'') ds = map JInt is" by (cases is') auto
  then show "indexed_choices n cs (acc @ [(i, d)]) m"
    unfolding indexed_choices_def using r ds by (intro exI [of _ ds] exI [of _ "is"]) auto
qed

lemma collect_choices_iff: "collect_choices n cs acc = Inr m \<longleftrightarrow> indexed_choices n cs acc m"
proof (induction cs arbitrary: acc)
  case Nil
  then show ?case by (auto simp: indexed_choices_def)
next
  case (Cons c cs)
  show ?case
  proof (cases "\<exists>d i. c = JObj d \<and> dict_get d ''index'' = JInt i \<and> i \<in> {0..<int n} \<and> i \<notin> fst ` set acc")
    case True
    then obtain d i where c: "c = JObj d" "dict_get d ''index'' = JInt i" "i \<in> {0..<int n}" "i \<notin> fst ` set acc" by blast
    then have "collect_choices n (c # cs) acc = collect_choices n cs (acc @ [(i, d)])"
      by (simp add: dict_update_fresh)
    then show ?thesis using Cons.IH [of "acc @ [(i, d)]"] indexed_choices_Cons [OF c(2-4)] c(1) by simp
  next
    case False
    then have "collect_choices n (c # cs) acc = Inl (raised BackendProtocolError)"
      by (auto split: json.split)
    moreover have "\<not> indexed_choices n (c # cs) acc m"
    proof
      assume "indexed_choices n (c # cs) acc m"
      then obtain ds "is" where r: "c # cs = map JObj ds" "map (\<lambda>d. dict_get d ''index'') ds = map JInt is"
        "set is \<subseteq> {0..<int n}" "set is \<inter> fst ` set acc = {}" by (rule indexed_choicesE)
      then obtain d ds1 i is1 where "ds = d # ds1" "is = i # is1" by (cases ds; cases "is") auto
      then show False using r False by auto
    qed
    ultimately show ?thesis by simp
  qed
qed

lemma collect_choices_error: "collect_choices n cs acc = Inl e \<Longrightarrow> e = raised BackendProtocolError"
  by (induction n cs acc rule: collect_choices.induct) (auto split: json.splits if_splits)

lemma full_range:
  assumes "length is = n" and "set is \<subseteq> {0..<int n}" and "distinct is"
  shows "set is = int ` {0..<n}"
proof -
  have "card (set is) = card {0..<int n}" using assms distinct_card [OF assms(3)] by simp
  then have "set is = {0..<int n}" using assms(2) by (intro card_subset_eq) auto
  then show ?thesis by (simp add: image_int_atLeastLessThan)
qed

lemma demultiplex_ok:
  assumes ch: "map_of payload ''choices'' = Some (JList (map JObj ds))" and n: "length ds = n"
    and ix: "map (\<lambda>d. dict_get d ''index'') ds = map (\<lambda>i. JInt (int i)) is" and is_ok: "distinct is" "set is = {0..<n}"
  shows "\<exists>rs. demultiplex_batch_response payload n =
      Inr (BackendBatchResult rs (fst (classify_usage payload)) (snd (classify_usage payload))) \<and>
    length rs = n \<and> (\<forall>j<n. rs ! (is ! j) = member_response payload (ds ! j))"
proof -
  let ?m = "zip (map int is) ds"
  have len: "length is = n" using map_eq_imp_length_eq [OF ix] n by simp
  have "indexed_choices n (map JObj ds) [] ?m"
    unfolding indexed_choices_def
    by (intro exI [of _ ds] exI [of _ "map int is"]) (use ix is_ok in \<open>auto simp: distinct_map o_def\<close>)
  then have col: "collect_choices n (map JObj ds) [] = Inr ?m" by (simp add: collect_choices_iff)
  have keys: "fst ` set ?m = int ` {0..<n}"
    using len n is_ok(2) by (metis length_map list.set_map map_fst_zip)
  let ?rs = "map (\<lambda>i. member_response payload (the (map_of ?m (int i)))) [0..<n]"
  have "?rs ! (is ! j) = member_response payload (ds ! j)" if j: "j < n" for j
  proof -
    have "is ! j < n" using is_ok(2) j len by (metis atLeastLessThan_iff nth_mem)
    moreover have "map_of ?m (int (is ! j)) = Some (ds ! j)"
      using map_of_zip_nth [of "map int is" ds j] is_ok(1) len n j by (simp add: distinct_map)
    ultimately show ?thesis by simp
  qed
  then show ?thesis
    unfolding demultiplex_batch_response_def dict_get_def ch
    by (intro exI [of _ ?rs]) (simp add: col keys n case_prod_beta)
qed

lemma demultiplex_accepts:
  assumes "demultiplex_batch_response payload n = Inr x"
  shows "\<exists>ds is. map_of payload ''choices'' = Some (JList (map JObj ds)) \<and> length ds = n \<and>
    map (\<lambda>d. dict_get d ''index'') ds = map (\<lambda>i. JInt (int i)) is \<and> distinct is \<and> set is = {0..<n}"
proof -
  obtain cs where cs: "map_of payload ''choices'' = Some (JList cs)" "length cs = n" "\<exists>m. collect_choices n cs [] = Inr m"
    using assms by (auto simp: demultiplex_batch_response_def dict_get_def then_do_Inr split: json.splits option.splits if_splits)
  then obtain ds ks where r: "cs = map JObj ds" "map (\<lambda>d. dict_get d ''index'') ds = map JInt ks"
    "set ks \<subseteq> {0..<int n}" "distinct ks" by (auto simp: collect_choices_iff indexed_choices_def)
  have len: "length ks = n" using map_eq_imp_length_eq [OF r(2)] r(1) cs(2) by simp
  have ks: "ks = map int (map nat ks)" using r(3) by (auto simp: o_def intro!: map_idI [symmetric])
  have "set ks = int ` {0..<n}" by (rule full_range [OF len r(3,4)])
  then have "set (map nat ks) = {0..<n}" by force
  moreover have "distinct (map nat ks)" using r(4) ks by (metis distinct_map)
  moreover have "map (\<lambda>d. dict_get d ''index'') ds = map (\<lambda>i. JInt (int i)) (map nat ks)"
    unfolding r(2) by (subst ks) simp
  ultimately show ?thesis using cs r(1) by (intro exI [of _ ds] exI [of _ "map nat ks"]) auto
qed

lemma demultiplex_error: "demultiplex_batch_response payload n = Inl e \<Longrightarrow> e = raised BackendProtocolError"
  using collect_choices_error
  by (fastforce simp: demultiplex_batch_response_def then_do_def Let_def split: json.splits if_splits sum.splits prod.splits)

text \<open>
  C23. The demultiplexer accepts a response exactly when its choices are as many objects as the batch
  has members, with integer indices that are a permutation of their positions; then the choice with
  index \<open>i\<close>, wherever the server put it, becomes the only choice of response \<open>i\<close>, renumbered to \<open>0\<close>,
  together with the safe fields of the batch. Anything else is a \<open>BackendProtocolError\<close>.
\<close>

theorem demultiplex_exact:
  "case demultiplex_batch_response payload n of
     Inr x \<Rightarrow> \<exists>ds is rs. x = BackendBatchResult rs (fst (classify_usage payload)) (snd (classify_usage payload)) \<and>
       map_of payload ''choices'' = Some (JList (map JObj ds)) \<and> length ds = n \<and> length rs = n \<and>
       map (\<lambda>d. dict_get d ''index'') ds = map (\<lambda>i. JInt (int i)) is \<and> distinct is \<and> set is = {0..<n} \<and>
       (\<forall>j<n. rs ! (is ! j) = member_response payload (ds ! j))
   | Inl e \<Rightarrow> e = raised BackendProtocolError \<and>
       \<not> (\<exists>ds is. map_of payload ''choices'' = Some (JList (map JObj ds)) \<and> length ds = n \<and>
          map (\<lambda>d. dict_get d ''index'') ds = map (\<lambda>i. JInt (int i)) is \<and> distinct is \<and> set is = {0..<n})"
proof (cases "demultiplex_batch_response payload n")
  case (Inl e)
  then show ?thesis using demultiplex_error [OF Inl] demultiplex_ok [of payload _ n] by auto
next
  case (Inr x)
  obtain ds "is" where r: "map_of payload ''choices'' = Some (JList (map JObj ds))" "length ds = n"
    "map (\<lambda>d. dict_get d ''index'') ds = map (\<lambda>i. JInt (int i)) is" "distinct is" "set is = {0..<n}"
    using demultiplex_accepts [OF Inr] by blast
  then show ?thesis using demultiplex_ok [OF r] Inr by auto
qed

definition sample_batch :: json_dict where
  "sample_batch = [(''id'', JStr ''b''), (''choices'', JList [JObj [(''index'', JInt 1), (''t'', JStr ''x'')], JObj [(''index'', JInt 0)]])]"

theorem demultiplex_exact_witness:
  "demultiplex_batch_response sample_batch 2 = Inr (BackendBatchResult
     [[(''id'', JStr ''b''), (''choices'', JList [JObj [(''index'', JInt 0)]])],
      [(''id'', JStr ''b''), (''choices'', JList [JObj [(''index'', JInt 0), (''t'', JStr ''x'')]])]] Missing None) \<and>
   demultiplex_batch_response sample_batch 3 = Inl (raised BackendProtocolError)"
proof -
  have ok: "demultiplex_batch_response sample_batch 2 = Inr (BackendBatchResult
     [[(''id'', JStr ''b''), (''choices'', JList [JObj [(''index'', JInt 0)]])],
      [(''id'', JStr ''b''), (''choices'', JList [JObj [(''index'', JInt 0), (''t'', JStr ''x'')]])]] Missing None)"
    by code_simp
  have "\<exists>e. demultiplex_batch_response sample_batch 3 = Inl e"
    by (simp add: demultiplex_batch_response_def sample_batch_def dict_get_def)
  then show ?thesis using ok demultiplex_exact [of sample_batch 3] by auto
qed

section \<open>Batches\<close>

lemma shared_no_messages: "''messages'' \<notin> fst ` set (to_batch_shared_payload r)"
  by (simp add: to_batch_shared_payload_def dict_pop_def image_iff)

text \<open>
  C24. The batcher never hands the client a batch it refuses: if every request it holds was validated and
  eligible, then for each of its flush operations the client's own checks pass, and the one upstream
  payload is the shared fields of all members with the list of their messages, in order.
\<close>

theorem flushed_batch_accepted:
  assumes reach: "bat_reachable fr s" and fl: "fl \<in> set (flushes s)"
    and elig: "\<forall>i\<in>set (op_items fl). validate_request (item_request (items s ! i)) = Inr (item_request (items s ! i)) \<and>
      fst (batching_eligibility (item_request (items s ! i)) True) = Eligible"
    and fr: "\<forall>i\<in>set (op_items fl). \<forall>j\<in>set (op_items fl).
      float_repr_ok fr (shared_floats (item_request (items s ! i)) \<union> shared_floats (item_request (items s ! j)))"
    and rs: "rs = map (\<lambda>i. item_request (items s ! i)) (op_items fl)"
  shows "batch_payload rs = Inr (to_batch_shared_payload (hd rs) @
      [(''messages'', JList (map (\<lambda>r. JList (map message_json (req_messages r))) rs))]) \<and>
    (\<forall>r\<in>set rs. to_batch_shared_payload r = to_batch_shared_payload (hd rs))"
proof -
  have core: "bat_core s" using reachable_bat_inv [OF reach] unfolding bat_inv_def by blast
  have ne: "op_items fl \<noteq> []" using coreD(5) [OF core fl] by (simp add: flush_ok_def)
  then have hd: "hd rs = item_request (items s ! hd (op_items fl))" "hd (op_items fl) \<in> set (op_items fl)"
    by (simp_all add: rs hd_map)
  have same: "to_batch_shared_payload r = to_batch_shared_payload (hd rs)" if "r \<in> set rs" for r
  proof -
    obtain i where "i \<in> set (op_items fl)" "r = item_request (items s ! i)" using \<open>r \<in> set rs\<close> rs by auto
    then show ?thesis using batch_members_agree(2) [OF reach fl, of i "hd (op_items fl)"] fr hd by simp
  qed
  have one: "\<not> stream_on r \<and> n_of r = 1" if "r \<in> set rs" for r using eligible_dropped elig that rs by auto
  have msgs: "dict_get (to_upstream_payload r) ''messages'' = JList (map message_json (req_messages r))" for r
    by (simp add: dict_get_def to_upstream_payload_def)
  have "\<not> list_ex (\<lambda>r. incompatible (to_batch_shared_payload r) (to_batch_shared_payload (hd rs))) (tl rs)"
    using same list.set_sel(2) [of rs] by (auto simp: list_ex_iff incompatible_def) (metis list.set_sel(2) tl_Nil)+
  then show ?thesis
    using ne one same shared_no_messages by (auto simp: batch_payload_def Let_def list_ex_iff msgs dict_update_fresh rs)
qed

theorem flushed_batch_accepted_witness:
  "bat_reachable no_floats run3 \<and>
   batch_payload (map (\<lambda>i. item_request (items run3 ! i)) (op_items (flushes run3 ! 0))) =
     Inr [(''model'', JStr ''m''), (''max_tokens'', JInt 8),
       (''messages'', JList [JList [message_json \<lparr>msg_role = Role_user, msg_content = ''one''\<rparr>],
         JList [message_json \<lparr>msg_role = Role_user, msg_content = ''three''\<rparr>]])]"
proof -
  have r: "item_request (items run3 ! 0) = plain_request ''one''" "item_request (items run3 ! 2) = plain_request ''three''"
    using run3_requests by (auto simp: map_eq_Cons_conv)
  have fl: "flushes run3 ! 0 \<in> set (flushes run3)" using run3_state(1) by simp
  have v: "validate_request (plain_request ''one'') = Inr (plain_request ''one'')"
    "validate_request (plain_request ''three'') = Inr (plain_request ''three'')"
    "fst (batching_eligibility (plain_request ''one'') True) = Eligible" "fst (batching_eligibility (plain_request ''three'') True) = Eligible"
    by code_simp+
  have "\<forall>i\<in>set (op_items (flushes run3 ! 0)). validate_request (item_request (items run3 ! i)) = Inr (item_request (items run3 ! i)) \<and>
      fst (batching_eligibility (item_request (items run3 ! i)) True) = Eligible"
    "\<forall>i\<in>set (op_items (flushes run3 ! 0)). \<forall>j\<in>set (op_items (flushes run3 ! 0)).
      float_repr_ok no_floats (shared_floats (item_request (items run3 ! i)) \<union> shared_floats (item_request (items run3 ! j)))"
    using v r by (simp_all add: run3_state plain_floats float_repr_ok_empty)
  from flushed_batch_accepted [OF run3_reachable fl this refl] show ?thesis
    using run3_reachable r
    by (simp add: run3_state shared_payload_eq plain_request_def set_field_def set_nullable_def)
qed

section \<open>Streams\<close>

inductive vllm_step :: "vllm \<Rightarrow> vllm \<Rightarrow> bool" where
  opens: "vllm_step v (snd (snd (vllm_stream_open c v)))"
| acloses: "x < length (vllm_streams v) \<Longrightarrow> vllm_step v (snd (vstream_aclose x r v))"
| iterates: "x < length (vllm_streams v) \<Longrightarrow> vllm_step v (snd (vstream_iterate_end x c r v))"
| closes: "vllm_step v (snd (vllm_close rs v))"

definition vllm_start :: "vllm \<Rightarrow> bool" where
  "vllm_start v \<longleftrightarrow> v = \<lparr>vllm_streams = [], vllm_active = {}, client_closed = False\<rparr>"

definition vllm_inv :: "vllm \<Rightarrow> bool" where
  "vllm_inv v \<longleftrightarrow> vllm_active v = {x. x < length (vllm_streams v) \<and> \<not> vs_closed (vllm_streams v ! x)} \<and>
     (\<forall>st\<in>set (vllm_streams v). responses_closed st = (if vs_closed st then 1 else 0))"

lemma vllm_inv_aclose:
  assumes "vllm_inv v" and "x < length (vllm_streams v)"
  shows "vllm_inv (snd (vstream_aclose x r v))"
proof -
  have "responses_closed (vllm_streams v ! x) = (if vs_closed (vllm_streams v ! x) then 1 else 0)"
    using assms by (simp add: vllm_inv_def)
  then show ?thesis
    using assms unfolding vllm_inv_def vstream_aclose_def Let_def
    by (cases "vs_closed (vllm_streams v ! x)")
      (auto simp: nth_list_update split: if_splits dest!: set_update_subset_insert [THEN subsetD])
qed

lemma length_aclose [simp]: "length (vllm_streams (snd (vstream_aclose x r v))) = length (vllm_streams v)"
  by (simp add: vstream_aclose_def Let_def)

lemma close_streams_ok:
  "vllm_inv v \<Longrightarrow> \<forall>x\<in>set xs. x < length (vllm_streams v) \<Longrightarrow> close_streams xs rs v = (r, v') \<Longrightarrow>
   vllm_inv v' \<and> length (vllm_streams v') = length (vllm_streams v) \<and> client_closed v' = client_closed v \<and>
   (r = Inr () \<longrightarrow> vllm_active v' = vllm_active v - set xs)"
proof (induction xs rs v rule: close_streams.induct)
  case (2 x xs rs v)
  obtain r1 v1 where a: "vstream_aclose x (rs x) v = (r1, v1)" by fastforce
  have i1: "vllm_inv v1" "length (vllm_streams v1) = length (vllm_streams v)" "client_closed v1 = client_closed v"
    using vllm_inv_aclose [OF "2.prems"(1), of x "rs x"] length_aclose [of x "rs x" v] "2.prems"(2) a
    by (auto simp: vstream_aclose_def Let_def split: if_splits)
  have act: "vllm_active v1 = vllm_active v - {x}"
    using "2.prems"(1,2) a by (auto simp: vstream_aclose_def Let_def vllm_inv_def split: if_splits)
  show ?case
  proof (cases r1)
    case (Inl e)
    then show ?thesis using "2.prems"(3) a i1 by auto
  next
    case (Inr u)
    then have "close_streams xs rs v1 = (r, v')" using "2.prems"(3) a by simp
    from "2.IH" [OF i1(1) _ this] have "vllm_inv v' \<and> length (vllm_streams v') = length (vllm_streams v1) \<and>
      client_closed v' = client_closed v1 \<and> (r = Inr () \<longrightarrow> vllm_active v' = vllm_active v1 - set xs)"
      using "2.prems"(2) i1(2) by simp
    then show ?thesis using i1 act by auto
  qed
qed simp

lemma vllm_close_ok:
  assumes inv: "vllm_inv v" and c: "vllm_close rs v = (r, v')"
  shows "vllm_inv v' \<and> (r = Inr () \<longrightarrow> vllm_active v' = {} \<and> client_closed v')"
proof -
  let ?xs = "filter (\<lambda>x. x \<in> vllm_active v) [0..<length (vllm_streams v)]"
  obtain r1 v1 where a: "close_streams ?xs rs v = (r1, v1)" by fastforce
  have "vllm_inv v1 \<and> (r1 = Inr () \<longrightarrow> vllm_active v1 = vllm_active v - set ?xs)" using close_streams_ok [OF inv _ a] by auto
  moreover have "vllm_active v - set ?xs = {}" using inv by (auto simp: vllm_inv_def)
  ultimately show ?thesis using c a by (cases r1) (auto simp: vllm_close_def vllm_inv_def)
qed

lemma vllm_inv_step: "vllm_inv v \<Longrightarrow> vllm_step v w \<Longrightarrow> vllm_inv w"
proof (erule vllm_step.cases)
  fix v0 c assume "vllm_inv v" "v = v0" "w = snd (snd (vllm_stream_open c v0))"
  then show "vllm_inv w"
    by (auto simp: vllm_stream_open_def vllm_inv_def nth_append less_Suc_eq split: sum.split)
next
  fix x v0 c r assume "vllm_inv v" "v = v0" "w = snd (vstream_iterate_end x c r v0)" "x < length (vllm_streams v0)"
  then show "vllm_inv w" using vllm_inv_aclose [of v x r] by (auto simp: vstream_iterate_end_def split: prod.split sum.split)
next
  fix v0 rs assume "vllm_inv v" "v = v0" "w = snd (vllm_close rs v0)"
  then show "vllm_inv w" using vllm_close_ok [of v rs "fst (vllm_close rs v)" "snd (vllm_close rs v)"] by simp
qed (use vllm_inv_aclose in blast)

interpretation vllm_system: inv_system vllm_start vllm_step vllm_inv
proof
  show "vllm_inv v" if "vllm_start v" for v using that by (simp add: vllm_start_def vllm_inv_def)
qed (rule vllm_inv_step)

text \<open>
  However opening, iterating, closing and closing the whole client interleave, the HTTP response
  of a stream is closed at most once, and exactly when the stream is closed; the set of active
  streams is exactly the open ones. When \<open>close\<close> returns, no stream is open and the client is closed.
\<close>

theorem vllm_streams_closed_once:
  assumes "vllm_start v0" and "vllm_step\<^sup>*\<^sup>* v0 v"
  shows "(\<forall>x<length (vllm_streams v). responses_closed (vllm_streams v ! x) = (if vs_closed (vllm_streams v ! x) then 1 else 0)) \<and>
    vllm_active v = {x. x < length (vllm_streams v) \<and> \<not> vs_closed (vllm_streams v ! x)} \<and>
    (\<forall>rs v'. vllm_close rs v = (Inr (), v') \<longrightarrow> client_closed v' \<and> (\<forall>st\<in>set (vllm_streams v'). vs_closed st))"
proof -
  have inv: "vllm_inv v" by (rule vllm_system.reachable_inv [OF assms])
  have "client_closed v' \<and> (\<forall>st\<in>set (vllm_streams v'). vs_closed st)" if "vllm_close rs v = (Inr (), v')" for rs v'
    using vllm_close_ok [OF inv that] by (auto simp: vllm_inv_def in_set_conv_nth)
  then show ?thesis using inv by (simp add: vllm_inv_def)
qed

definition one_stream :: vllm where
  "one_stream = \<lparr>vllm_streams = [\<lparr>vs_closed = False, responses_closed = 0\<rparr>], vllm_active = {0}, client_closed = False\<rparr>"

definition event_stream_reply :: http_reply where
  "event_stream_reply = \<lparr>reply_status = 200, reply_content_type = Some ''Text/Event-Stream; charset=utf-8'', reply_json = None\<rparr>"

lemma one_stream_reachable:
  "vllm_start \<lparr>vllm_streams = [], vllm_active = {}, client_closed = False\<rparr>"
  "vllm_step\<^sup>*\<^sup>* \<lparr>vllm_streams = [], vllm_active = {}, client_closed = False\<rparr> one_stream"
proof -
  have m: "media_type_ok (reply_content_type event_stream_reply)" by code_simp
  have "snd (snd (vllm_stream_open (Response event_stream_reply) \<lparr>vllm_streams = [], vllm_active = {}, client_closed = False\<rparr>)) = one_stream"
    using m by (simp add: vllm_stream_open_def transport_result_def raise_for_upstream_status_def one_stream_def event_stream_reply_def)
  then show "vllm_step\<^sup>*\<^sup>* \<lparr>vllm_streams = [], vllm_active = {}, client_closed = False\<rparr> one_stream"
    using opens [of "\<lparr>vllm_streams = [], vllm_active = {}, client_closed = False\<rparr>" "Response event_stream_reply"] by auto
qed (simp add: vllm_start_def)

theorem vllm_streams_closed_once_witness:
  "vllm_active one_stream = {0} \<and> client_closed (snd (vllm_close (\<lambda>_. Inr ()) one_stream))"
proof -
  obtain v' where v': "vllm_close (\<lambda>_. Inr ()) one_stream = (Inr (), v')"
    by (simp add: vllm_close_def one_stream_def vstream_aclose_def)
  then have "client_closed v'" using vllm_streams_closed_once [OF one_stream_reachable] by blast
  then show ?thesis unfolding v' by (simp add: one_stream_def)
qed

lemma close_streams_fail:
  "x \<in> set xs \<Longrightarrow> distinct xs \<Longrightarrow> \<forall>y\<in>set xs. \<not> vs_closed (vllm_streams v ! y) \<Longrightarrow> rs x = Inl e \<Longrightarrow>
   \<forall>y\<in>set xs. y \<noteq> x \<longrightarrow> rs y = Inr () \<Longrightarrow>
   \<exists>v'. close_streams xs rs v = (Inl e, v') \<and> client_closed v' = client_closed v"
proof (induction xs arbitrary: v)
  case (Cons y ys)
  have y: "vstream_aclose y (rs y) v = (rs y, snd (vstream_aclose y (rs y) v))"
    "client_closed (snd (vstream_aclose y (rs y) v)) = client_closed v"
    using Cons.prems(3) by (simp_all add: vstream_aclose_def Let_def)
  show ?case
  proof (cases "y = x")
    case True
    then show ?thesis using y Cons.prems(4) by (metis and_then_simps(1) close_streams.simps(2))
  next
    case False
    let ?v = "snd (vstream_aclose y (rs y) v)"
    have "vllm_streams ?v ! z = vllm_streams v ! z" if "z \<in> set ys" for z
      using Cons.prems(2) that by (cases "z = y") (simp_all add: vstream_aclose_def Let_def)
    then have "\<exists>v'. close_streams ys rs ?v = (Inl e, v') \<and> client_closed v' = client_closed ?v"
      using Cons.prems False by (intro Cons.IH) auto
    moreover have "close_streams (y # ys) rs v = close_streams ys rs ?v"
      using y(1) Cons.prems(5) False by (metis and_then_simps(2) close_streams.simps(2) list.set_intros(1))
    ultimately show ?thesis using y(2) by simp
  qed
qed simp

text \<open>
  A response whose \<open>aclose\<close> fails stops \<open>close\<close>: the exception propagates and the pooled client is
  not closed, although every other response could be.
\<close>

theorem vllm_close_stops_at_failure:
  assumes "vllm_start v0" and "vllm_step\<^sup>*\<^sup>* v0 v" and "\<not> client_closed v" and "x \<in> vllm_active v"
    and "rs x = Inl e" and "\<forall>y\<in>vllm_active v. y \<noteq> x \<longrightarrow> rs y = Inr ()"
  shows "fst (vllm_close rs v) = Inl e \<and> \<not> client_closed (snd (vllm_close rs v))"
proof -
  have inv: "vllm_inv v" by (rule vllm_system.reachable_inv [OF assms(1,2)])
  let ?xs = "filter (\<lambda>x. x \<in> vllm_active v) [0..<length (vllm_streams v)]"
  obtain v' where "close_streams ?xs rs v = (Inl e, v')" "client_closed v' = client_closed v"
    using close_streams_fail [of x ?xs v rs e] assms(4-6) inv by (auto simp: vllm_inv_def)
  then show ?thesis using assms(3) by (simp add: vllm_close_def)
qed

theorem vllm_close_stops_at_failure_witness:
  "fst (vllm_close (\<lambda>_. Inl TimeoutError) one_stream) = Inl TimeoutError \<and>
   \<not> client_closed (snd (vllm_close (\<lambda>_. Inl TimeoutError) one_stream))"
  by (rule vllm_close_stops_at_failure [OF one_stream_reachable, of 0]) (simp_all add: one_stream_def)

end
