(* ===== verification/Gw_Metrics.thy ===== *)
theory Gw_Metrics
  imports Gw_Admission Gw_Pool Gw_Batcher
begin

text \<open>
  \<open>gateway/observability/metrics.py\<close>: the collectors of one application and their update methods. The
  collectors are those of the Prometheus client library: a counter adds to the value under its labels
  and refuses to decrease, a histogram takes an observation (kept here in order), a gauge holds the last
  value set. Every update method swallows exceptions; the only one the modelled methods can meet is the
  refusal of a counter, which ends the method at that point.
\<close>

datatype mode = Streaming | Non_streaming | Unknown_mode

datatype request_outcome = Request_completed | Request_cancelled | Request_error

datatype accounting_result = Acc_observed | Acc_missing | Acc_invalid | Acc_aggregate_only

record metrics =
  m_requests :: "mode \<times> string \<times> request_outcome \<Rightarrow> int"
  m_request_duration :: "mode \<times> request_outcome \<Rightarrow> real list"
  m_queue_wait :: "wait_outcome \<Rightarrow> real list"
  m_client_ttft :: "string \<Rightarrow> real list"
  m_backend_ttft :: "string \<Rightarrow> real list"
  m_ttft_observed :: int
  m_ttft_missing :: int
  m_output_tokens :: "mode \<Rightarrow> int"
  m_token_accounting :: "mode \<times> accounting_result \<Rightarrow> int"
  m_errors :: "string \<Rightarrow> int"
  m_admission_inflight :: int
  m_admission_queued :: int
  m_tenant_inflight :: "string \<Rightarrow> int option"
  m_tenant_queued :: "string \<Rightarrow> int option"
  m_backend_healthy :: "string \<Rightarrow> int option"
  m_backend_inflight :: "string \<Rightarrow> int option"
  m_backend_requests :: "string \<times> backend_operation \<times> backend_outcome \<Rightarrow> int"
  m_batch_eligibility :: "batch_decision \<times> eligibility_reason \<Rightarrow> int"
  m_batches :: "flush_reason \<times> batch_outcome \<Rightarrow> int"
  m_batch_size :: "nat list"
  m_batch_wait :: "real list"
  m_batch_pending :: int
  m_batch_inflight :: int

definition new_metrics :: metrics where
  "new_metrics = \<lparr>m_requests = \<lambda>_. 0, m_request_duration = \<lambda>_. [], m_queue_wait = \<lambda>_. [], m_client_ttft = \<lambda>_. [],
     m_backend_ttft = \<lambda>_. [], m_ttft_observed = 0, m_ttft_missing = 0, m_output_tokens = \<lambda>_. 0, m_token_accounting = \<lambda>_. 0,
     m_errors = \<lambda>_. 0, m_admission_inflight = 0, m_admission_queued = 0, m_tenant_inflight = \<lambda>_. None,
     m_tenant_queued = \<lambda>_. None, m_backend_healthy = \<lambda>_. None, m_backend_inflight = \<lambda>_. None,
     m_backend_requests = \<lambda>_. 0, m_batch_eligibility = \<lambda>_. 0, m_batches = \<lambda>_. 0, m_batch_size = [], m_batch_wait = [],
     m_batch_pending = 0, m_batch_inflight = 0\<rparr>"

text \<open>Counters and histograms.\<close>

definition inc :: "'l \<Rightarrow> ('l \<Rightarrow> int) \<Rightarrow> 'l \<Rightarrow> int" where
  "inc l c = c(l := c l + 1)"

definition inc_by :: "'l \<Rightarrow> int \<Rightarrow> ('l \<Rightarrow> int) \<Rightarrow> 'l \<Rightarrow> int" where
  "inc_by l n c = c(l := c l + n)"

definition observe :: "'l \<Rightarrow> real \<Rightarrow> ('l \<Rightarrow> real list) \<Rightarrow> 'l \<Rightarrow> real list" where
  "observe l x h = h(l := h l @ [max 0 x])"

section \<open>Requests and errors\<close>

definition record_request :: "mode \<Rightarrow> string \<Rightarrow> request_outcome \<Rightarrow> real \<Rightarrow> metrics \<Rightarrow> metrics" where
  "record_request md status oc duration m =
     m\<lparr>m_requests := inc (md, status, oc) (m_requests m), m_request_duration := observe (md, oc) duration (m_request_duration m)\<rparr>"

definition record_error :: "string \<Rightarrow> metrics \<Rightarrow> metrics" where
  "record_error cd m = m\<lparr>m_errors := inc cd (m_errors m)\<rparr>"

section \<open>Admission\<close>

definition admission_wait_observed :: "real \<Rightarrow> wait_outcome \<Rightarrow> metrics \<Rightarrow> metrics" where
  "admission_wait_observed duration oc m = m\<lparr>m_queue_wait := observe oc duration (m_queue_wait m)\<rparr>"

definition admission_state_changed :: "int \<Rightarrow> int \<Rightarrow> (string \<times> int \<times> int) list \<Rightarrow> metrics \<Rightarrow> metrics" where
  "admission_state_changed gi gq ts m =
     fold (\<lambda>(t, i, q) m. m\<lparr>m_tenant_inflight := (m_tenant_inflight m)(t := Some (max 0 i)),
                            m_tenant_queued := (m_tenant_queued m)(t := Some (max 0 q))\<rparr>)
       ts (m\<lparr>m_admission_inflight := max 0 gi, m_admission_queued := max 0 gq\<rparr>)"

fun admission_metric :: "admission_event \<Rightarrow> metrics \<Rightarrow> metrics" where
  "admission_metric (Wait_observed d oc) m = admission_wait_observed d oc m"
| "admission_metric (State_changed gi gq ts) m = admission_state_changed gi gq ts m"

section \<open>Routing\<close>

definition backend_state_changed :: "(string \<times> bool \<times> int) list \<Rightarrow> metrics \<Rightarrow> metrics" where
  "backend_state_changed bs m =
     fold (\<lambda>(b, h, i) m. m\<lparr>m_backend_healthy := (m_backend_healthy m)(b := Some (if h then 1 else 0)),
                            m_backend_inflight := (m_backend_inflight m)(b := Some (max 0 i))\<rparr>) bs m"

definition backend_operation_observed :: "string \<Rightarrow> backend_operation \<Rightarrow> backend_outcome \<Rightarrow> metrics \<Rightarrow> metrics" where
  "backend_operation_observed b op oc m = m\<lparr>m_backend_requests := inc (b, op, oc) (m_backend_requests m)\<rparr>"

fun pool_metric :: "pool_event \<Rightarrow> metrics \<Rightarrow> metrics" where
  "pool_metric (Backends_changed bs) m = backend_state_changed bs m"
| "pool_metric (Operation_observed b op oc) m = backend_operation_observed b op oc m"

section \<open>Time to first token, token accounting\<close>

text \<open>An empty backend id is falsy.\<close>

definition observe_ttft :: "string option \<Rightarrow> real \<Rightarrow> real option \<Rightarrow> metrics \<Rightarrow> metrics" where
  "observe_ttft b client_seconds backend_seconds m =
     (let safe = (case b of Some i \<Rightarrow> if i = [] then ''unknown'' else i | None \<Rightarrow> ''unknown'');
          m1 = m\<lparr>m_client_ttft := observe safe client_seconds (m_client_ttft m)\<rparr>;
          m2 = (case backend_seconds of Some x \<Rightarrow> m1\<lparr>m_backend_ttft := observe safe x (m_backend_ttft m1)\<rparr> | None \<Rightarrow> m1)
      in m2\<lparr>m_ttft_observed := m_ttft_observed m2 + 1\<rparr>)"

definition record_missing_ttft :: "metrics \<Rightarrow> metrics" where
  "record_missing_ttft m = m\<lparr>m_ttft_missing := m_ttft_missing m + 1\<rparr>"

definition record_token_accounting :: "mode \<Rightarrow> accounting_result \<Rightarrow> int option \<Rightarrow> metrics \<Rightarrow> metrics" where
  "record_token_accounting md r tokens m =
     (if r = Acc_observed \<and> tokens \<noteq> None \<and> the tokens < 0 then m
      else
        let m1 = (if r = Acc_observed \<and> tokens \<noteq> None then m\<lparr>m_output_tokens := inc_by md (the tokens) (m_output_tokens m)\<rparr> else m)
        in m1\<lparr>m_token_accounting := inc (md, r) (m_token_accounting m1)\<rparr>)"

definition observe_non_streaming_usage :: "json_dict \<Rightarrow> metrics \<Rightarrow> metrics" where
  "observe_non_streaming_usage response m =
     (if \<not> has_key ''usage'' response then record_token_accounting Non_streaming Acc_missing None m
      else case dict_get response ''usage'' of
        JObj usage \<Rightarrow>
          (if \<not> has_key ''completion_tokens'' usage then record_token_accounting Non_streaming Acc_invalid None m
           else case dict_get usage ''completion_tokens'' of
             JInt n \<Rightarrow>
               (if n < 0 then record_token_accounting Non_streaming Acc_invalid None m
                else record_token_accounting Non_streaming Acc_observed (Some n) m)
           | _ \<Rightarrow> record_token_accounting Non_streaming Acc_invalid None m)
      | _ \<Rightarrow> record_token_accounting Non_streaming Acc_invalid None m)"

section \<open>Batching\<close>

definition batch_eligibility_observed :: "batch_decision \<Rightarrow> eligibility_reason \<Rightarrow> metrics \<Rightarrow> metrics" where
  "batch_eligibility_observed d r m = m\<lparr>m_batch_eligibility := inc (d, r) (m_batch_eligibility m)\<rparr>"

definition batch_state_changed :: "int \<Rightarrow> int \<Rightarrow> metrics \<Rightarrow> metrics" where
  "batch_state_changed p n m = m\<lparr>m_batch_pending := max 0 p, m_batch_inflight := max 0 n\<rparr>"

definition batch_dispatched :: "nat \<Rightarrow> real list \<Rightarrow> metrics \<Rightarrow> metrics" where
  "batch_dispatched n waits m = m\<lparr>m_batch_size := m_batch_size m @ [n], m_batch_wait := m_batch_wait m @ map (max 0) waits\<rparr>"

definition batch_completed :: "flush_reason \<Rightarrow> batch_outcome \<Rightarrow> metrics \<Rightarrow> metrics" where
  "batch_completed r oc m = m\<lparr>m_batches := inc (r, oc) (m_batches m)\<rparr>"

fun accounting_of :: "usage_result \<Rightarrow> accounting_result" where
  "accounting_of Observed = Acc_observed"
| "accounting_of Missing = Acc_missing"
| "accounting_of Invalid = Acc_invalid"

definition observe_batch_usage :: "usage_result \<Rightarrow> int option \<Rightarrow> nat \<Rightarrow> metrics \<Rightarrow> metrics" where
  "observe_batch_usage u tokens members m =
     (if u = Observed \<and> tokens \<noteq> None
      then (if the tokens < 0 then m
            else m\<lparr>m_output_tokens := inc_by Non_streaming (the tokens) (m_output_tokens m),
                   m_token_accounting := inc_by (Non_streaming, Acc_aggregate_only) (int members) (m_token_accounting m)\<rparr>)
      else m\<lparr>m_token_accounting := inc_by (Non_streaming, accounting_of u) (int members) (m_token_accounting m)\<rparr>)"

fun batch_metric :: "batch_event \<Rightarrow> metrics \<Rightarrow> metrics" where
  "batch_metric (Batch_state_changed p n) m = batch_state_changed p n m"
| "batch_metric (Batch_dispatched r n waits) m = batch_dispatched n waits m"
| "batch_metric (Batch_completed r oc) m = batch_completed r oc m"
| "batch_metric (Batch_usage u tokens members) m = observe_batch_usage u tokens members m"

section \<open>Accounting\<close>

text \<open>How many requests of a mode have been accounted, under any result.\<close>

definition accounted :: "mode \<Rightarrow> metrics \<Rightarrow> int" where
  "accounted md m = m_token_accounting m (md, Acc_observed) + m_token_accounting m (md, Acc_missing) +
     m_token_accounting m (md, Acc_invalid) + m_token_accounting m (md, Acc_aggregate_only)"

lemma non_streaming_usage_eq:
  "observe_non_streaming_usage response m =
     record_token_accounting Non_streaming (accounting_of (fst (classify_usage response))) (snd (classify_usage response)) m"
  by (simp add: observe_non_streaming_usage_def classify_usage_def split: json.split)

lemma record_accounting_effect:
  assumes "r = Acc_observed \<longleftrightarrow> tokens \<noteq> None" and "tokens \<noteq> None \<Longrightarrow> 0 \<le> the tokens"
  shows "accounted md' (record_token_accounting md r tokens m) = accounted md' m + (if md' = md then 1 else 0)"
    and "m_output_tokens (record_token_accounting md r tokens m) md' =
      m_output_tokens m md' + (if md' = md then (case tokens of Some n \<Rightarrow> n | None \<Rightarrow> 0) else 0)"
  using assms
  by (cases r; cases tokens; auto simp: record_token_accounting_def accounted_def inc_def inc_by_def)+

text \<open>
  Token accounting is honest: for a JSON response that was not batched exactly one request is
  accounted, as observed iff its usage carries a non-negative integer of completion tokens, and the token
  counter grows by exactly that integer, or not at all. For a batch all members delivered are accounted
  at once, and the tokens of the whole batch are counted once.
\<close>

theorem token_accounting_exact:
  assumes "classify_usage response = (u, tokens)"
  shows "accounted Non_streaming (observe_non_streaming_usage response m) = accounted Non_streaming m + 1 \<and>
    m_output_tokens (observe_non_streaming_usage response m) Non_streaming =
      m_output_tokens m Non_streaming + (case tokens of Some n \<Rightarrow> n | None \<Rightarrow> 0) \<and>
    m_token_accounting (observe_non_streaming_usage response m) (Non_streaming, Acc_observed) =
      m_token_accounting m (Non_streaming, Acc_observed) + (if tokens \<noteq> None then 1 else 0) \<and>
    accounted Non_streaming (observe_batch_usage u tokens k m) = accounted Non_streaming m + int k \<and>
    m_output_tokens (observe_batch_usage u tokens k m) Non_streaming =
      m_output_tokens m Non_streaming + (case tokens of Some n \<Rightarrow> n | None \<Rightarrow> 0)"
proof -
  have t: "tokens \<noteq> None \<longleftrightarrow> u = Observed" "\<And>n. tokens = Some n \<Longrightarrow> 0 \<le> n" using classify_usage_tokens [OF assms] by auto
  have r: "accounting_of u = Acc_observed \<longleftrightarrow> tokens \<noteq> None" using t(1) by (cases u) auto
  have eq: "observe_non_streaming_usage response m = record_token_accounting Non_streaming (accounting_of u) tokens m"
    by (simp add: non_streaming_usage_eq assms)
  have "m_token_accounting (record_token_accounting Non_streaming (accounting_of u) tokens m) (Non_streaming, Acc_observed) =
      m_token_accounting m (Non_streaming, Acc_observed) + (if tokens \<noteq> None then 1 else 0)"
    using r t(2) by (cases tokens) (auto simp: record_token_accounting_def inc_def)
  moreover have "accounted Non_streaming (observe_batch_usage u tokens k m) = accounted Non_streaming m + int k"
    using t by (cases u; cases tokens) (auto simp: observe_batch_usage_def accounted_def inc_by_def)
  moreover have "m_output_tokens (observe_batch_usage u tokens k m) Non_streaming =
      m_output_tokens m Non_streaming + (case tokens of Some n \<Rightarrow> n | None \<Rightarrow> 0)"
    using t by (cases u; cases tokens) (auto simp: observe_batch_usage_def inc_by_def)
  ultimately show ?thesis
    unfolding eq using record_accounting_effect [OF r] t(2) by auto
qed

theorem token_accounting_exact_witness:
  "classify_usage [(''usage'', JObj [(''completion_tokens'', JInt 7)])] = (Observed, Some 7) \<and>
   m_output_tokens (observe_non_streaming_usage [(''usage'', JObj [(''completion_tokens'', JInt 7)])] new_metrics) Non_streaming = 7"
proof -
  have c: "classify_usage [(''usage'', JObj [(''completion_tokens'', JInt 7)])] = (Observed, Some 7)" by code_simp
  show ?thesis using token_accounting_exact [OF c, of new_metrics] c by (simp add: new_metrics_def)
qed

end
