(* ===== verification/Gw_Sse.thy ===== *)
theory Gw_Sse
  imports Gw_Metrics
begin

text \<open>
  \<open>gateway/observability/sse.py\<close>: the passive observer of a relayed event stream. Bytes are characters of
  the Latin-1 range. \<open>json.loads\<close> is the argument \<open>loads\<close>, \<open>None\<close> where it raises (any exception disables
  the observer, whichever handler catches it); the reading of the clock is the argument \<open>now\<close>.
\<close>

abbreviation CR :: char where "CR \<equiv> CHR 0x0D"
abbreviation LF :: char where "LF \<equiv> CHR 0x0A"

record sse_observer =
  max_event_bytes :: nat
  request_started_at :: real
  sse_backend_id :: "string option"
  upstream_started_at :: "real option"
  sse_buffer :: string
  first_content_seen :: bool
  sse_usage :: "usage_result option"
  sse_tokens :: "int option"
  sse_disabled :: bool
  sse_finalized :: bool
  sse_metrics :: metrics

definition SSEMetricsObserver :: "metrics \<Rightarrow> real \<Rightarrow> string option \<Rightarrow> real option \<Rightarrow> int \<Rightarrow> exn + sse_observer" where
  "SSEMetricsObserver m t0 b up max_bytes =
     (if max_bytes \<le> 0 then Inl (ValueError ''max_event_bytes must be positive'')
      else Inr \<lparr>max_event_bytes = nat max_bytes, request_started_at = t0, sse_backend_id = b, upstream_started_at = up,
        sse_buffer = [], first_content_seen = False, sse_usage = None, sse_tokens = None, sse_disabled = False,
        sse_finalized = False, sse_metrics = m\<rparr>)"

definition sse_disable :: "sse_observer \<Rightarrow> sse_observer" where
  "sse_disable o1 = (if sse_disabled o1 then o1 else o1\<lparr>sse_disabled := True, sse_buffer := []\<rparr>)"

section \<open>Events\<close>

text \<open>A match of \<open>\r?\n\r?\n\<close> at the front, as the rest of the buffer behind it.\<close>

fun boundary :: "string \<Rightarrow> string option" where
  "boundary (a # b # c # d # bs) =
     (if a = CR \<and> b = LF \<and> c = CR \<and> d = LF then Some bs
      else if a = CR \<and> b = LF \<and> c = LF then Some (d # bs)
      else if a = LF \<and> b = CR \<and> c = LF then Some (d # bs)
      else if a = LF \<and> b = LF then Some (c # d # bs)
      else None)"
| "boundary [a, b, c] =
     (if a = CR \<and> b = LF \<and> c = LF then Some [] else if a = LF \<and> b = CR \<and> c = LF then Some []
      else if a = LF \<and> b = LF then Some [c] else None)"
| "boundary [a, b] = (if a = LF \<and> b = LF then Some [] else None)"
| "boundary _ = None"

text \<open>\<open>_EVENT_BOUNDARY.search\<close>: the buffer before and after the leftmost match.\<close>

fun search_boundary :: "string \<Rightarrow> (string \<times> string) option" where
  "search_boundary [] = None"
| "search_boundary (b # bs) = (case boundary (b # bs) of
      Some rest \<Rightarrow> Some ([], rest)
    | None \<Rightarrow> (case search_boundary bs of Some (e, rest) \<Rightarrow> Some (b # e, rest) | None \<Rightarrow> None))"

text \<open>\<open>bytes.splitlines()\<close>\<close>

fun split_lines :: "string \<Rightarrow> string \<Rightarrow> string list" where
  "split_lines cur [] = (if cur = [] then [] else [cur])"
| "split_lines cur [b] = (if b = LF \<or> b = CR then [cur] else [cur @ [b]])"
| "split_lines cur (b # c # bs) =
     (if b = LF then cur # split_lines [] (c # bs)
      else if b = CR then (if c = LF then cur # split_lines [] bs else cur # split_lines [] (c # bs))
      else split_lines (cur @ [b]) (c # bs))"

definition starts_with :: "string \<Rightarrow> string \<Rightarrow> bool" where
  "starts_with p s = (take (length p) s = p)"

definition data_line :: "string \<Rightarrow> string list" where
  "data_line line =
     (if starts_with '':'' line then []
      else if line = ''data'' then [[]]
      else if starts_with ''data:'' line
      then [let v = drop 5 line in if starts_with '' '' v then drop 1 v else v]
      else [])"

definition bytes_space :: "char \<Rightarrow> bool" where
  "bytes_space c = (let n = code_point c in 9 \<le> n \<and> n \<le> 13 \<or> n = 32)"

definition bytes_strip :: "string \<Rightarrow> string" where
  "bytes_strip s = rev (dropWhile bytes_space (rev (dropWhile bytes_space s)))"

definition has_content :: "json \<Rightarrow> bool" where
  "has_content choice = (case choice of
      JObj ch \<Rightarrow> (case dict_get ch ''delta'' of
          JObj delta \<Rightarrow> (case dict_get delta ''content'' of JStr s \<Rightarrow> s \<noteq> [] | _ \<Rightarrow> False)
        | _ \<Rightarrow> False)
    | _ \<Rightarrow> False)"

definition observe_first_content :: "real \<Rightarrow> json_dict \<Rightarrow> sse_observer \<Rightarrow> sse_observer" where
  "observe_first_content now payload o1 =
     (if first_content_seen o1 then o1
      else case dict_get payload ''choices'' of
        JList choices \<Rightarrow>
          (if list_ex has_content choices
           then o1\<lparr>sse_metrics := observe_ttft (sse_backend_id o1) (now - request_started_at o1)
                    (map_option (\<lambda>t. now - t) (upstream_started_at o1)) (sse_metrics o1),
                   first_content_seen := True\<rparr>
           else o1)
      | _ \<Rightarrow> o1)"

definition sse_observe_usage :: "json_dict \<Rightarrow> sse_observer \<Rightarrow> sse_observer" where
  "sse_observe_usage payload o1 =
     (if sse_usage o1 \<noteq> None \<or> \<not> has_key ''usage'' payload then o1
      else case classify_usage payload of
        (Observed, tokens) \<Rightarrow> o1\<lparr>sse_usage := Some Observed, sse_tokens := tokens\<rparr>
      | _ \<Rightarrow> o1\<lparr>sse_usage := Some Invalid\<rparr>)"

definition observe_event :: "(string \<Rightarrow> json option) \<Rightarrow> real \<Rightarrow> string \<Rightarrow> sse_observer \<Rightarrow> sse_observer" where
  "observe_event loads now event o1 =
     (let data_lines = concat (map data_line (split_lines [] event));
          data = join [LF] data_lines
      in if data_lines = [] then o1
         else if bytes_strip data = ''[DONE]'' then o1
         else case loads data of
             None \<Rightarrow> sse_disable o1
           | Some (JObj payload) \<Rightarrow> sse_observe_usage payload (observe_first_content now payload o1)
           | Some _ \<Rightarrow> sse_disable o1)"

lemma length_boundary: "boundary bs = Some rest \<Longrightarrow> length rest + 2 \<le> length bs"
  by (induction bs rule: boundary.induct) (auto split: if_splits)

lemma length_search: "search_boundary bs = Some (e, rest) \<Longrightarrow> length e + length rest + 2 \<le> length bs"
proof (induction bs arbitrary: e)
  case (Cons b bs)
  then show ?case using length_boundary [of "b # bs"] by (fastforce split: option.splits)
qed simp

lemma observe_first_content_frame:
  "sse_buffer (observe_first_content now p o1) = sse_buffer o1" "sse_disabled (observe_first_content now p o1) = sse_disabled o1"
  "max_event_bytes (observe_first_content now p o1) = max_event_bytes o1" "sse_finalized (observe_first_content now p o1) = sse_finalized o1"
  by (simp_all add: observe_first_content_def split: json.split)

lemma sse_observe_usage_frame:
  "sse_buffer (sse_observe_usage p o1) = sse_buffer o1" "sse_disabled (sse_observe_usage p o1) = sse_disabled o1"
  "max_event_bytes (sse_observe_usage p o1) = max_event_bytes o1" "sse_finalized (sse_observe_usage p o1) = sse_finalized o1"
  by (simp_all add: sse_observe_usage_def split: prod.split usage_result.split)

lemma observe_event_frame:
  "sse_disabled (observe_event loads now e o1) \<or> sse_buffer (observe_event loads now e o1) = sse_buffer o1"
  "length (sse_buffer (observe_event loads now e o1)) \<le> length (sse_buffer o1)"
  "max_event_bytes (observe_event loads now e o1) = max_event_bytes o1"
  "sse_finalized (observe_event loads now e o1) = sse_finalized o1"
  by (auto simp: observe_event_def sse_disable_def Let_def observe_first_content_frame sse_observe_usage_frame
      split: option.split json.split)

function drain_events :: "(string \<Rightarrow> json option) \<Rightarrow> real \<Rightarrow> sse_observer \<Rightarrow> sse_observer" where
  "drain_events loads now o1 = (case search_boundary (sse_buffer o1) of
      None \<Rightarrow> o1
    | Some (event, rest) \<Rightarrow>
       (let o2 = o1\<lparr>sse_buffer := rest\<rparr>
        in if length event > max_event_bytes o2 then sse_disable o2
           else
             let o3 = observe_event loads now event o2
             in if sse_disabled o3 then o3 else drain_events loads now o3))"
  by pat_completeness auto
termination
proof (relation "measure (\<lambda>(_, _, o1). length (sse_buffer o1))")
  fix loads now o1 event rest
  fix x :: "string \<times> string" and o2 o3 :: sse_observer
  assume "search_boundary (sse_buffer o1) = Some x" "(event, rest) = x" "o2 = o1\<lparr>sse_buffer := rest\<rparr>"
    "o3 = observe_event loads now event o2"
  then show "((loads, now, o3), loads, now, o1) \<in> measure (\<lambda>(_, _, o1). length (sse_buffer o1))"
    using length_search [of "sse_buffer o1" event rest] observe_event_frame(2) [of loads now event o2] by auto
qed simp

declare drain_events.simps [simp del]

section \<open>Bytes\<close>

text \<open>The loop of \<open>observe_bytes\<close>, on the rest of the chunk from \<open>offset\<close> on.\<close>

lemma rest_shorter: "chunk \<noteq> [] \<Longrightarrow> \<not> m \<le> n \<Longrightarrow> length chunk + n - m < length chunk" for chunk :: string
  by (cases chunk) auto

function feed :: "(string \<Rightarrow> json option) \<Rightarrow> real \<Rightarrow> string \<Rightarrow> sse_observer \<Rightarrow> sse_observer" where
  "feed loads now chunk o1 =
     (if chunk = [] then o1
      else
        let available = max_event_bytes o1 - length (sse_buffer o1)
        in if available = 0 then sse_disable o1
           else
             let o2 = drain_events loads now (o1\<lparr>sse_buffer := sse_buffer o1 @ take available chunk\<rparr>)
             in if sse_disabled o2 then o2 else feed loads now (drop available chunk) o2)"
  by pat_completeness auto
termination
  by (relation "measure (\<lambda>(_, _, chunk, _). length chunk)") (auto simp: rest_shorter)

declare feed.simps [simp del]

definition observe_bytes :: "(string \<Rightarrow> json option) \<Rightarrow> real \<Rightarrow> string \<Rightarrow> sse_observer \<Rightarrow> sse_observer" where
  "observe_bytes loads now chunk o1 =
     (if sse_disabled o1 \<or> sse_finalized o1 \<or> chunk = [] then o1 else feed loads now chunk o1)"

definition sse_finalize :: "sse_observer \<Rightarrow> sse_observer" where
  "sse_finalize o1 =
     (if sse_finalized o1 then o1
      else
        let m1 = (if first_content_seen o1 then sse_metrics o1 else record_missing_ttft (sse_metrics o1));
            m2 = (if sse_usage o1 = Some Observed then record_token_accounting Streaming Acc_observed (sse_tokens o1) m1
                  else if sse_usage o1 = Some Invalid \<or> sse_disabled o1 then record_token_accounting Streaming Acc_invalid None m1
                  else record_token_accounting Streaming Acc_missing None m1)
        in o1\<lparr>sse_finalized := True, sse_metrics := m2, sse_buffer := []\<rparr>)"

end
