(* ===== verification/Gw_Sse_Claims.thy ===== *)
theory Gw_Sse_Claims
  imports Gw_Sse
begin

text \<open>
  The observer of \<open>gateway/observability/sse.py\<close> against a reference that takes the stream byte by byte:
  how the transport cuts the stream into chunks makes no difference, the buffer is bounded, and each
  stream is accounted exactly once.
\<close>

section \<open>Finding events\<close>

lemma boundary_append: "boundary xs = Some rest \<Longrightarrow> boundary (xs @ ys) = Some (rest @ ys)"
  by (cases xs rule: boundary.cases; cases ys; cases "tl ys") (auto split: if_splits)

lemma boundary_None_append:
  assumes "boundary (b # xs) = None" "search_boundary xs \<noteq> None"
  shows "boundary (b # xs @ ys) = None"
proof -
  obtain e rest where "search_boundary xs = Some (e, rest)" using assms(2) by auto
  then have n: "2 \<le> length xs" using length_search by fastforce
  then obtain c d zs where xs: "xs = c # d # zs" by (cases xs; cases "tl xs") auto
  show ?thesis using assms unfolding xs
    by (cases zs; cases ys) (auto split: if_splits)
qed

lemma search_boundary_append:
  "search_boundary xs = Some (e, rest) \<Longrightarrow> search_boundary (xs @ ys) = Some (e, rest @ ys)"
proof (induction xs arbitrary: e)
  case (Cons b bs)
  show ?case
  proof (cases "boundary (b # bs)")
    case (Some r)
    then show ?thesis using Cons.prems boundary_append [OF Some, of ys] by simp
  next
    case None
    then obtain e1 where e1: "search_boundary bs = Some (e1, rest)" "e = b # e1"
      using Cons.prems by (auto split: option.splits)
    then show ?thesis using Cons.IH boundary_None_append [OF None, of ys] by simp
  qed
qed simp

section \<open>Draining\<close>

lemma observe_first_content_buffer:
  "observe_first_content now p (o1\<lparr>sse_buffer := z\<rparr>) = (observe_first_content now p o1)\<lparr>sse_buffer := z\<rparr>"
  by (simp add: observe_first_content_def split: json.split)

lemma sse_observe_usage_buffer:
  "sse_observe_usage p (o1\<lparr>sse_buffer := z\<rparr>) = (sse_observe_usage p o1)\<lparr>sse_buffer := z\<rparr>"
  by (simp add: sse_observe_usage_def split: prod.split usage_result.split)

lemma observe_event_buffer:
  assumes "\<not> sse_disabled o1"
  shows "observe_event loads now e (o1\<lparr>sse_buffer := z\<rparr>) =
    (if sse_disabled (observe_event loads now e o1) then observe_event loads now e o1
     else (observe_event loads now e o1)\<lparr>sse_buffer := z\<rparr>)"
  using assms
  by (auto simp: observe_event_def sse_disable_def Let_def observe_first_content_frame sse_observe_usage_frame
      observe_first_content_buffer sse_observe_usage_buffer split: option.split json.split)

lemma observe_event_enabled:
  "\<not> sse_disabled (observe_event loads now e o1) \<Longrightarrow> sse_buffer (observe_event loads now e o1) = sse_buffer o1"
  using observe_event_frame(1) by blast

lemma observe_event_disabled:
  "\<not> sse_disabled o1 \<Longrightarrow> sse_disabled (observe_event loads now e o1) \<Longrightarrow> sse_buffer (observe_event loads now e o1) = []"
  by (auto simp: observe_event_def sse_disable_def Let_def observe_first_content_frame sse_observe_usage_frame
      split: option.splits json.splits if_splits)

lemma drain_frame:
  "max_event_bytes (drain_events loads now o1) = max_event_bytes o1 \<and>
   sse_finalized (drain_events loads now o1) = sse_finalized o1 \<and>
   length (sse_buffer (drain_events loads now o1)) \<le> length (sse_buffer o1)"
proof (induction loads now o1 rule: drain_events.induct)
  case (1 loads now o1)
  show ?case
  proof (cases "search_boundary (sse_buffer o1)")
    case None
    then show ?thesis by (simp add: drain_events.simps)
  next
    case (Some p)
    obtain e rest where p: "p = (e, rest)" by (cases p)
    note l = length_search [OF Some [unfolded p]]
    note IH = 1 [OF Some p [symmetric] refl _ refl]
    note f = observe_event_frame [of loads now e "o1\<lparr>sse_buffer := rest\<rparr>"]
    show ?thesis
      using IH l f by (subst (1 2 3) drain_events.simps) (auto simp: Some p Let_def sse_disable_def)
  qed
qed

lemma drain_settled:
  "\<not> sse_disabled o1 \<Longrightarrow>
   (if sse_disabled (drain_events loads now o1) then sse_buffer (drain_events loads now o1) = []
    else search_boundary (sse_buffer (drain_events loads now o1)) = None)"
proof (induction loads now o1 rule: drain_events.induct)
  case (1 loads now o1)
  show ?case
  proof (cases "search_boundary (sse_buffer o1)")
    case None
    then show ?thesis using "1.prems" by (simp add: drain_events.simps)
  next
    case (Some p)
    obtain e rest where p: "p = (e, rest)" by (cases p)
    note IH = "1.IH" [OF Some p [symmetric] refl _ refl]
    note d = observe_event_disabled [of "o1\<lparr>sse_buffer := rest\<rparr>" loads now e]
    show ?thesis
      using IH d "1.prems" by (subst (1 2 3) drain_events.simps) (auto simp: Some p Let_def sse_disable_def)
  qed
qed

lemma drain_append:
  assumes "\<not> sse_disabled o1"
  shows "drain_events loads now (o1\<lparr>sse_buffer := sse_buffer o1 @ ys\<rparr>) =
    (let d = drain_events loads now o1
     in if sse_disabled d then d else drain_events loads now (d\<lparr>sse_buffer := sse_buffer d @ ys\<rparr>))"
  using assms
proof (induction loads now o1 rule: drain_events.induct)
  case (1 loads now o1)
  show ?case
  proof (cases "search_boundary (sse_buffer o1)")
    case None
    then have "drain_events loads now o1 = o1" by (simp add: drain_events.simps)
    then show ?thesis using "1.prems" by simp
  next
    case (Some p)
    obtain e rest where p: "p = (e, rest)" by (cases p)
    let ?o2 = "o1\<lparr>sse_buffer := rest\<rparr>"
    let ?o3 = "observe_event loads now e ?o2"
    note IH = "1.IH" [OF Some p [symmetric] refl _ refl]
    have s: "search_boundary (sse_buffer o1 @ ys) = Some (e, rest @ ys)"
      using search_boundary_append Some p by simp
    have ev: "observe_event loads now e (o1\<lparr>sse_buffer := rest @ ys\<rparr>) =
      (if sse_disabled ?o3 then ?o3 else ?o3\<lparr>sse_buffer := rest @ ys\<rparr>)"
      using observe_event_buffer [of ?o2 loads now e "rest @ ys"] "1.prems" by simp
    have b: "\<not> sse_disabled ?o3 \<Longrightarrow> sse_buffer ?o3 = rest" using observe_event_enabled by fastforce
    have L: "drain_events loads now (o1\<lparr>sse_buffer := sse_buffer o1 @ ys\<rparr>) =
      (if length e > max_event_bytes o1 then sse_disable (o1\<lparr>sse_buffer := rest @ ys\<rparr>)
       else if sse_disabled ?o3 then ?o3 else drain_events loads now (?o3\<lparr>sse_buffer := rest @ ys\<rparr>))"
      by (subst drain_events.simps) (simp add: s Let_def ev)
    have R: "drain_events loads now o1 =
      (if length e > max_event_bytes o1 then sse_disable ?o2
       else if sse_disabled ?o3 then ?o3 else drain_events loads now ?o3)"
      by (subst drain_events.simps) (simp add: Some p Let_def)
    show ?thesis
    proof (cases "length e > max_event_bytes o1 \<or> sse_disabled ?o3")
      case True
      then show ?thesis unfolding L R using "1.prems" by (auto simp: sse_disable_def)
    next
      case False
      then show ?thesis unfolding L R using IH b by simp
    qed
  qed
qed

section \<open>The reference: one byte at a time\<close>

definition feed_byte :: "(string \<Rightarrow> json option) \<Rightarrow> real \<Rightarrow> char \<Rightarrow> sse_observer \<Rightarrow> sse_observer" where
  "feed_byte loads now b o1 =
     (if sse_disabled o1 then o1
      else if max_event_bytes o1 \<le> length (sse_buffer o1) then sse_disable o1
      else drain_events loads now (o1\<lparr>sse_buffer := sse_buffer o1 @ [b]\<rparr>))"

definition sse_ok :: "sse_observer \<Rightarrow> bool" where
  "sse_ok o1 = (if sse_disabled o1 then sse_buffer o1 = []
     else search_boundary (sse_buffer o1) = None \<and> length (sse_buffer o1) \<le> max_event_bytes o1)"

lemma drain_ok:
  assumes "\<not> sse_disabled o1" "length (sse_buffer o1) \<le> max_event_bytes o1"
  shows "sse_ok (drain_events loads now o1)"
  using drain_settled [OF assms(1), of loads now] drain_frame [of loads now o1] assms(2) by (auto simp: sse_ok_def split: if_splits)

lemma feed_byte_ok: "sse_ok o1 \<Longrightarrow> sse_ok (feed_byte loads now b o1)"
  by (auto simp: feed_byte_def sse_disable_def intro: drain_ok) (simp add: sse_ok_def)

lemma feed_byte_frame:
  "max_event_bytes (feed_byte loads now b o1) = max_event_bytes o1"
  "sse_finalized (feed_byte loads now b o1) = sse_finalized o1"
  by (simp_all add: feed_byte_def sse_disable_def drain_frame)

lemma fold_feed_byte_frame:
  "max_event_bytes (fold (feed_byte loads now) bs o1) = max_event_bytes o1 \<and>
   sse_finalized (fold (feed_byte loads now) bs o1) = sse_finalized o1"
  by (induction bs arbitrary: o1) (simp_all add: feed_byte_frame)

lemma fold_feed_byte_ok: "sse_ok o1 \<Longrightarrow> sse_ok (fold (feed_byte loads now) bs o1)"
  by (induction bs arbitrary: o1) (simp_all add: feed_byte_ok)

lemma fold_feed_byte_disabled: "sse_disabled o1 \<Longrightarrow> fold (feed_byte loads now) bs o1 = o1"
  by (induction bs arbitrary: o1) (simp_all add: feed_byte_def)

lemma drain_fold:
  "sse_ok o1 \<Longrightarrow> \<not> sse_disabled o1 \<Longrightarrow> length (sse_buffer o1) + length xs \<le> max_event_bytes o1 \<Longrightarrow>
   drain_events loads now (o1\<lparr>sse_buffer := sse_buffer o1 @ xs\<rparr>) = fold (feed_byte loads now) xs o1"
proof (induction xs arbitrary: o1)
  case Nil
  then show ?case by (subst drain_events.simps) (simp add: sse_ok_def)
next
  case (Cons b bs)
  let ?o2 = "o1\<lparr>sse_buffer := sse_buffer o1 @ [b]\<rparr>"
  let ?d = "drain_events loads now ?o2"
  have d: "feed_byte loads now b o1 = ?d" using Cons.prems by (simp add: feed_byte_def)
  have ok: "sse_ok ?d" using d feed_byte_ok [OF Cons.prems(1)] by metis
  have split: "drain_events loads now (o1\<lparr>sse_buffer := sse_buffer o1 @ b # bs\<rparr>) =
    (if sse_disabled ?d then ?d else drain_events loads now (?d\<lparr>sse_buffer := sse_buffer ?d @ bs\<rparr>))"
    using drain_append [of ?o2 loads now bs] Cons.prems by (simp add: Let_def)
  have fr: "length (sse_buffer ?d) + length bs \<le> max_event_bytes ?d"
    using drain_frame [of loads now ?o2] Cons.prems(3) by simp
  show ?case
  proof (cases "sse_disabled ?d")
    case True
    then show ?thesis by (simp add: split d fold_feed_byte_disabled)
  next
    case False
    show ?thesis using Cons.IH [OF ok False fr] False by (simp add: split d)
  qed
qed

lemma feed_fold:
  "sse_ok o1 \<Longrightarrow> \<not> sse_disabled o1 \<Longrightarrow> feed loads now chunk o1 = fold (feed_byte loads now) chunk o1"
proof (induction loads now chunk o1 rule: feed.induct)
  case (1 loads now chunk o1)
  show ?case
  proof (cases "chunk = []")
    case True
    then show ?thesis by (simp add: feed.simps)
  next
    case False
    then obtain b bs where ch: "chunk = b # bs" by (cases chunk) auto
    define a where "a = max_event_bytes o1 - length (sse_buffer o1)"
    show ?thesis
    proof (cases "a = 0")
      case True
      have "feed loads now chunk o1 = sse_disable o1" using True False a_def by (simp add: feed.simps)
      moreover have "feed_byte loads now b o1 = sse_disable o1" using True a_def "1.prems"(2) by (simp add: feed_byte_def)
      moreover have "sse_disabled (sse_disable o1)" by (simp add: sse_disable_def)
      ultimately show ?thesis by (simp add: ch fold_feed_byte_disabled)
    next
      case pos: False
      define o2 where "o2 = drain_events loads now (o1\<lparr>sse_buffer := sse_buffer o1 @ take a chunk\<rparr>)"
      have le: "length (sse_buffer o1) \<le> max_event_bytes o1" using "1.prems" by (simp add: sse_ok_def)
      have o2: "o2 = fold (feed_byte loads now) (take a chunk) o1"
        unfolding o2_def using "1.prems" le by (intro drain_fold) (auto simp: a_def)
      have all: "fold (feed_byte loads now) chunk o1 = fold (feed_byte loads now) (drop a chunk) o2"
        unfolding o2 by (metis append_take_drop_id comp_apply fold_append)
      have f: "feed loads now chunk o1 = (if sse_disabled o2 then o2 else feed loads now (drop a chunk) o2)"
        using False pos by (subst feed.simps) (simp add: Let_def a_def o2_def)
      have ok: "sse_ok o2" unfolding o2 using "1.prems"(1) by (rule fold_feed_byte_ok)
      have IH: "\<not> sse_disabled o2 \<Longrightarrow> feed loads now (drop a chunk) o2 = fold (feed_byte loads now) (drop a chunk) o2"
        using "1.IH" [OF False a_def pos o2_def] ok by blast
      show ?thesis unfolding f all using IH fold_feed_byte_disabled by auto
    qed
  qed
qed

lemma observe_bytes_fold:
  assumes "sse_ok o1" "\<not> sse_finalized o1"
  shows "observe_bytes loads now chunk o1 = fold (feed_byte loads now) chunk o1"
  using assms feed_fold fold_feed_byte_disabled by (auto simp: observe_bytes_def)

lemma observe_chunks_fold:
  assumes "sse_ok o1" "\<not> sse_finalized o1"
  shows "fold (observe_bytes loads now) chunks o1 = fold (feed_byte loads now) (concat chunks) o1"
  using assms
proof (induction chunks arbitrary: o1)
  case (Cons c cs)
  then show ?case
    using fold_feed_byte_ok [of o1 loads now c] fold_feed_byte_frame [of loads now c o1]
    by (simp add: observe_bytes_fold fold_append)
qed simp

lemma new_observer:
  assumes "SSEMetricsObserver m t0 b up n = Inr o1"
  shows "sse_ok o1" "\<not> sse_finalized o1" "\<not> sse_disabled o1" "max_event_bytes o1 = nat n" "0 < n" "sse_metrics o1 = m"
    "\<not> first_content_seen o1" "sse_usage o1 = None" "sse_tokens o1 = None"
  using assms by (auto simp: SSEMetricsObserver_def sse_ok_def split: if_splits)

text \<open>An observer of at most \<open>n\<close> bytes, and a stream of one event with a usage report, for the witnesses.\<close>

definition sample_observer :: "int \<Rightarrow> sse_observer" where
  "sample_observer n = projr (SSEMetricsObserver new_metrics 0 None None n)"

definition sample_loads :: "string \<Rightarrow> json option" where
  "sample_loads s = (if s = ''u'' then Some (JObj [(''usage'', JObj [(''completion_tokens'', JInt 7)])]) else None)"

definition sample_chunks :: "string list" where
  "sample_chunks = [''da'', ''ta: u'' @ [CR], [LF, CR], [LF, CHR ''d'']]"

lemma sample_observer_new: "0 < n \<Longrightarrow> SSEMetricsObserver new_metrics 0 None None n = Inr (sample_observer n)"
  by (simp add: sample_observer_def SSEMetricsObserver_def)

lemma sample_run:
  "(\<lambda>e. (sse_tokens e, sse_buffer e, sse_disabled e)) (fold (observe_bytes sample_loads 0) sample_chunks (sample_observer 12)) =
     (Some 7, ''d'', False)"
  by code_simp

text \<open>
  C25. The observer does not depend on how the transport cuts the stream: at one reading of the clock,
  observing the chunks one after another leaves the observer and its metrics exactly as observing the
  whole stream at once does, which is what the byte by byte reference computes. Event boundaries cut
  across chunks, buffers filled to the brim in the middle of a chunk and the disabling of the observer
  are included.
\<close>

theorem observe_chunking_independent:
  assumes "SSEMetricsObserver m t0 b up n = Inr o1"
  shows "fold (observe_bytes loads now) chunks o1 = observe_bytes loads now (concat chunks) o1 \<and>
    observe_bytes loads now (concat chunks) o1 = fold (feed_byte loads now) (concat chunks) o1"
  using observe_chunks_fold observe_bytes_fold new_observer [OF assms] by metis

theorem observe_chunking_independent_witness:
  "sse_tokens (fold (observe_bytes sample_loads 0) sample_chunks (sample_observer 12)) = Some 7 \<and>
   sse_tokens (fold (feed_byte sample_loads 0) (concat sample_chunks) (sample_observer 12)) = Some 7"
  using observe_chunking_independent [OF sample_observer_new, of 12 sample_loads 0 sample_chunks] sample_run by simp

lemma fold_feed_byte_buffered:
  assumes "\<not> sse_disabled o1" "sse_buffer o1 = []"
  shows "length xs \<le> max_event_bytes o1 \<Longrightarrow> search_boundary xs = None \<Longrightarrow>
    fold (feed_byte loads now) xs o1 = o1\<lparr>sse_buffer := xs\<rparr>"
proof (induction xs rule: rev_induct)
  case Nil
  then show ?case using assms by simp
next
  case (snoc x xs)
  have "search_boundary xs = None"
    using search_boundary_append [of xs _ _ "[x]"] snoc.prems(2) by (cases "search_boundary xs") auto
  then have IH: "fold (feed_byte loads now) xs o1 = o1\<lparr>sse_buffer := xs\<rparr>" using snoc by simp
  have "feed_byte loads now x (o1\<lparr>sse_buffer := xs\<rparr>) = o1\<lparr>sse_buffer := xs @ [x]\<rparr>"
    using assms(1) snoc.prems by (simp add: feed_byte_def drain_events.simps)
  then show ?case by (simp add: IH)
qed

text \<open>
  Observation is bounded: whatever the stream and its chunks, the observer never holds more than the
  configured number of bytes, and none once it is disabled. A stream whose first event does not end
  within that many bytes, with a byte more to come, disables the observer.
\<close>

theorem observe_buffer_bounded:
  assumes "SSEMetricsObserver m t0 b up n = Inr o1"
  shows "length (sse_buffer (fold (observe_bytes loads now) chunks o1)) \<le> nat n \<and>
    (sse_disabled (fold (observe_bytes loads now) chunks o1) \<longrightarrow> sse_buffer (fold (observe_bytes loads now) chunks o1) = []) \<and>
    (nat n < length (concat chunks) \<and> search_boundary (take (nat n) (concat chunks)) = None \<longrightarrow>
       sse_disabled (fold (observe_bytes loads now) chunks o1))"
proof -
  note new = new_observer [OF assms]
  let ?e = "fold (observe_bytes loads now) chunks o1"
  let ?s = "concat chunks"
  have e: "?e = fold (feed_byte loads now) ?s o1" using observe_chunks_fold new by metis
  then have ok: "sse_ok ?e" "max_event_bytes ?e = nat n"
    using fold_feed_byte_ok fold_feed_byte_frame new by metis+
  have "sse_disabled ?e" if over: "nat n < length ?s" "search_boundary (take (nat n) ?s) = None"
  proof -
    have b: "sse_buffer o1 = []" using assms by (auto simp: SSEMetricsObserver_def split: if_splits)
    have p: "fold (feed_byte loads now) (take (nat n) ?s) o1 = o1\<lparr>sse_buffer := take (nat n) ?s\<rparr>"
      using fold_feed_byte_buffered [OF new(3) b] over(2) new(4) by simp
    have "?s = take (nat n) ?s @ ?s ! nat n # drop (Suc (nat n)) ?s" using over(1) by (simp add: id_take_nth_drop)
    then have "?e = fold (feed_byte loads now) (drop (Suc (nat n)) ?s)
      (feed_byte loads now (?s ! nat n) (fold (feed_byte loads now) (take (nat n) ?s) o1))"
      unfolding e by (metis comp_apply fold_append fold_simps(2))
    moreover have "sse_disabled (feed_byte loads now (?s ! nat n) (o1\<lparr>sse_buffer := take (nat n) ?s\<rparr>))"
      using over(1) new(3,4) by (simp add: feed_byte_def sse_disable_def)
    ultimately show ?thesis using p fold_feed_byte_disabled by metis
  qed
  then show ?thesis using ok by (auto simp: sse_ok_def split: if_splits)
qed

theorem observe_buffer_bounded_witness:
  "length (sse_buffer (fold (observe_bytes sample_loads 0) sample_chunks (sample_observer 12))) \<le> 12 \<and>
   sse_disabled (fold (observe_bytes sample_loads 0) sample_chunks (sample_observer 5))"
proof -
  have "nat 5 < length (concat sample_chunks)" "search_boundary (take (nat 5) (concat sample_chunks)) = None" by code_simp+
  then show ?thesis
    using observe_buffer_bounded [OF sample_observer_new, of 12 sample_loads 0 sample_chunks]
      observe_buffer_bounded [OF sample_observer_new, of 5 sample_loads 0 sample_chunks] by simp
qed

section \<open>Accounting\<close>

text \<open>What parsing an event keeps, whatever the buffer, observing a chunk keeps.\<close>

locale event_invariant =
  fixes loads :: "string \<Rightarrow> json option" and now :: real and P :: "sse_observer \<Rightarrow> bool"
  assumes buffer: "P o1 \<Longrightarrow> P (o1\<lparr>sse_buffer := z\<rparr>)"
    and disable: "P o1 \<Longrightarrow> P (o1\<lparr>sse_disabled := True\<rparr>)"
    and payload: "P o1 \<Longrightarrow> P (sse_observe_usage p (observe_first_content now p o1))"
begin

lemma disabling: "P o1 \<Longrightarrow> P (sse_disable o1)"
  using disable buffer [of "o1\<lparr>sse_disabled := True\<rparr>" "[]"] by (simp add: sse_disable_def)

lemma event: "P o1 \<Longrightarrow> P (observe_event loads now e o1)"
  by (auto simp: observe_event_def Let_def intro: disabling payload split: option.split json.split)

lemma drain: "P o1 \<Longrightarrow> P (drain_events loads now o1)"
proof (induction loads \<equiv> loads now \<equiv> now o1 rule: drain_events.induct)
  case (1 o1)
  then show ?case
    by (subst drain_events.simps) (fastforce simp: Let_def intro: disabling event buffer split: option.split)
qed

lemma feeding: "P o1 \<Longrightarrow> P (feed loads now chunk o1)"
proof (induction loads \<equiv> loads now \<equiv> now chunk o1 rule: feed.induct)
  case (1 chunk o1)
  then show ?case
    by (subst feed.simps) (auto simp: Let_def intro: disabling drain buffer)
qed

lemma observing: "P o1 \<Longrightarrow> P (observe_bytes loads now chunk o1)"
  by (simp add: observe_bytes_def feeding)

end

definition tokens_of :: "int option \<Rightarrow> int" where
  "tokens_of t = (case t of Some n \<Rightarrow> n | None \<Rightarrow> 0)"

definition accounting_pending :: "metrics \<Rightarrow> sse_observer \<Rightarrow> bool" where
  "accounting_pending m o1 =
     (m_token_accounting (sse_metrics o1) = m_token_accounting m \<and> m_output_tokens (sse_metrics o1) = m_output_tokens m \<and>
      m_ttft_missing (sse_metrics o1) = m_ttft_missing m \<and>
      m_ttft_observed (sse_metrics o1) = m_ttft_observed m + (if first_content_seen o1 then 1 else 0) \<and>
      \<not> sse_finalized o1 \<and> (sse_usage o1 = Some Observed \<longleftrightarrow> sse_tokens o1 \<noteq> None) \<and> 0 \<le> tokens_of (sse_tokens o1))"

lemma observe_ttft_frame:
  "m_token_accounting (observe_ttft b c u m) = m_token_accounting m" "m_output_tokens (observe_ttft b c u m) = m_output_tokens m"
  "m_ttft_missing (observe_ttft b c u m) = m_ttft_missing m" "m_ttft_observed (observe_ttft b c u m) = m_ttft_observed m + 1"
  by (simp_all add: observe_ttft_def Let_def split: option.split)

lemma pending_first_content:
  "accounting_pending m o1 \<Longrightarrow> accounting_pending m (observe_first_content now p o1)"
  by (auto simp: accounting_pending_def observe_first_content_def observe_ttft_frame
      observe_first_content_frame split: json.split)

lemma pending_usage: "accounting_pending m o1 \<Longrightarrow> accounting_pending m (sse_observe_usage p o1)"
  using classify_usage_tokens [of p]
  by (auto simp: accounting_pending_def sse_observe_usage_def tokens_of_def split: prod.split usage_result.split option.splits)

interpretation pending: event_invariant loads now "accounting_pending m" for loads now m
proof (unfold_locales, goal_cases)
  case 3
  then show ?case by (intro pending_usage pending_first_content)
qed (simp_all add: accounting_pending_def)

lemma pending_chunks:
  "accounting_pending m o1 \<Longrightarrow> accounting_pending m (fold (\<lambda>(now, c). observe_bytes loads now c) cs o1)"
  by (induction cs arbitrary: o1) (auto intro: pending.observing)



end
