(* ===== verification/Gw_Relay.thy ===== *)
theory Gw_Relay
  imports Gw_Sse
begin

text \<open>
  \<open>gateway/streaming/relay.py\<close>: the relay owns an opened backend stream and its admission lease. The
  section of \<open>aclose\<close> under \<open>_close_lock\<close> suspends once, in the \<open>aclose\<close> of the backend stream, and is
  two functions here; \<open>relay_closing\<close> is the outcome the holder of the lock was called with, while it
  waits. Releasing the lease does not suspend: the lock of the admission controller is never held
  across a suspension. The metrics are one object shared by the whole application; the observer's
  reference to it is set to the current value before the observer runs.
\<close>

datatype stream_outcome = Stream_completed | Stream_cancelled | Stream_upstream_error

record relay =
  relay_lease :: nat
  relay_observer :: "sse_observer option"
  relay_closed :: bool
  relay_closing :: "stream_outcome option"
  upstream_closes :: nat

definition StreamingRelay :: "nat \<Rightarrow> sse_observer option \<Rightarrow> relay" where
  "StreamingRelay l ob =
     \<lparr>relay_lease = l, relay_observer = ob, relay_closed = False, relay_closing = None, upstream_closes = 0\<rparr>"

text \<open>One chunk of \<open>_iterate\<close> on its way downstream.\<close>

definition relay_observe :: "(string \<Rightarrow> json option) \<Rightarrow> real \<Rightarrow> string \<Rightarrow> relay \<Rightarrow> metrics \<Rightarrow> relay \<times> metrics" where
  "relay_observe loads now chunk rl m = (case relay_observer rl of
      None \<Rightarrow> (rl, m)
    | Some ob \<Rightarrow>
       (let ob1 = observe_bytes loads now chunk (ob\<lparr>sse_metrics := m\<rparr>)
        in (rl\<lparr>relay_observer := Some ob1\<rparr>, sse_metrics ob1)))"

text \<open>
  How the iteration over the backend stream ends, the outcome \<open>_iterate\<close> closes the relay with, and what
  it then raises. A generator that is closed early meets the \<open>finally\<close> clause.
\<close>

datatype iteration_end = Exhausted | Iteration_raised exn | Generator_exit

fun iterate_outcome :: "iteration_end \<Rightarrow> stream_outcome \<times> (exn + unit)" where
  "iterate_outcome Exhausted = (Stream_completed, Inr ())"
| "iterate_outcome (Iteration_raised e) =
     (if is_exception e then (Stream_upstream_error, Inr ()) else (Stream_cancelled, Inl e))"
| "iterate_outcome Generator_exit = (Stream_cancelled, Inr ())"

text \<open>\<open>SSEStreamingResponse.__call__\<close>: the same for the transport.\<close>

datatype response_end = Response_returned | Client_disconnect | Response_raised exn

fun response_outcome :: "response_end \<Rightarrow> stream_outcome \<times> (exn + unit)" where
  "response_outcome Response_returned = (Stream_cancelled, Inr ())"
| "response_outcome Client_disconnect = (Stream_cancelled, Inr ())"
| "response_outcome (Response_raised e) = (Stream_cancelled, Inl e)"

text \<open>\<open>aclose\<close> up to the \<open>aclose\<close> of the backend stream; the flag says that it got there.\<close>

definition aclose_begin :: "stream_outcome \<Rightarrow> relay \<Rightarrow> bool \<times> relay" where
  "aclose_begin oc rl =
     (if relay_closed rl then (False, rl)
      else (True, rl\<lparr>relay_closed := True, relay_closing := Some oc, upstream_closes := upstream_closes rl + 1\<rparr>))"

definition relay_finalize :: "relay \<Rightarrow> metrics \<Rightarrow> relay \<times> metrics" where
  "relay_finalize rl m = (case relay_observer rl of
      None \<Rightarrow> (rl, m)
    | Some ob \<Rightarrow>
       (let ob1 = sse_finalize (ob\<lparr>sse_metrics := m\<rparr>) in (rl\<lparr>relay_observer := Some ob1\<rparr>, sse_metrics ob1)))"

text \<open>
  The rest of \<open>aclose\<close>, on what closing the backend stream yielded: the lease is released in any case; a
  cancellation then propagates, any other exception turns the outcome into an upstream error. The
  result is the outcome given to \<open>on_outcome\<close>, which the caller applies next.
\<close>

definition aclose_finish :: "exn + unit \<Rightarrow> relay \<Rightarrow> metrics \<Rightarrow> admission \<Rightarrow> (exn + stream_outcome) \<times> relay \<times> metrics \<times> admission" where
  "aclose_finish up rl m a =
     (let rl1 = rl\<lparr>relay_closing := None\<rparr>;
          finish = (\<lambda>oc a1. let (rl2, m1) = relay_finalize rl1 m in (Inr oc, rl2, m1, a1))
      in case adm_release (relay_lease rl) a of
           (Inl e, a1) \<Rightarrow> (Inl e, rl1, m, a1)
         | (Inr _, a1) \<Rightarrow>
            (case up of
               Inr _ \<Rightarrow> finish (the (relay_closing rl)) a1
             | Inl e \<Rightarrow> if is_exception e then finish Stream_upstream_error a1 else (Inl e, rl1, m, a1)))"

definition sse_headers :: "(string \<times> string) list" where
  "sse_headers = [(''Content-Type'', ''text/event-stream''), (''Cache-Control'', ''no-cache''), (''X-Accel-Buffering'', ''no'')]"

end
