(* ===== verification/Gw_Config.thy ===== *)
theory Gw_Config
  imports Gw_Tenants
begin

text \<open>
  \<open>gateway/config.py\<close>: the settings, their constraints and validators. The parsing of the environment
  and the coercion of its values are pydantic's; \<open>Settings\<close> starts from values of the declared types and
  applies what the source declares about them. The URL type of pydantic is the argument \<open>http_url\<close>: the
  normalized text of a valid HTTP URL, \<open>None\<close> for anything else. All failures are pydantic validation
  errors, which are \<open>ValueError\<close>s.
\<close>

section \<open>Backends\<close>

record backend_config =
  base_url :: string
  backend_api_key :: "string option"

definition rstrip_char :: "char \<Rightarrow> string \<Rightarrow> string" where
  "rstrip_char c s = rev (dropWhile (\<lambda>x. x = c) (rev s))"

definition normalize_empty_api_key :: "string option \<Rightarrow> string option" where
  "normalize_empty_api_key k = (case k of Some s \<Rightarrow> if py_strip s = [] then None else Some s | None \<Rightarrow> None)"

definition BackendConfig :: "(string \<Rightarrow> string option) \<Rightarrow> string \<Rightarrow> string option \<Rightarrow> exn + backend_config" where
  "BackendConfig http_url url api_key = (case http_url url of
      None \<Rightarrow> Inl (ValueError ''base_url'')
    | Some u \<Rightarrow> Inr \<lparr>base_url = rstrip_char CHR ''/'' u, backend_api_key = normalize_empty_api_key api_key\<rparr>)"

section \<open>Settings\<close>

record settings =
  app_name :: string
  environment :: string
  log_level :: string
  host :: string
  port :: int
  cfg_request_id_header :: string
  backends_json :: "(string \<times> backend_config) list"
  vllm_connect_timeout_seconds :: real
  vllm_request_timeout_seconds :: real
  backend_health_interval_seconds :: real
  backend_health_timeout_seconds :: real
  max_completion_tokens :: int
  max_choices :: int
  tenants_json :: "(string \<times> tenant_config) list"
  cfg_global_max_inflight :: int
  cfg_global_max_queue :: int
  admission_queue_timeout_seconds :: real
  dynamic_batching_enabled :: bool
  dynamic_batch_max_size :: int
  dynamic_batch_max_wait_seconds :: real

text \<open>The default of each field; the default backend is built by \<open>BackendConfig\<close>.\<close>

definition default_settings :: settings where
  "default_settings = \<lparr>app_name = ''dynamic-batching-inference-gateway'', environment = ''development'', log_level = ''INFO'',
     host = ''0.0.0.0'', port = 8080, cfg_request_id_header = ''X-Request-ID'',
     backends_json = [(''default'', \<lparr>base_url = ''http://localhost:8000'', backend_api_key = None\<rparr>)],
     vllm_connect_timeout_seconds = 5, vllm_request_timeout_seconds = 120, backend_health_interval_seconds = 5,
     backend_health_timeout_seconds = 2, max_completion_tokens = 4096, max_choices = 4, tenants_json = [],
     cfg_global_max_inflight = 16, cfg_global_max_queue = 64, admission_queue_timeout_seconds = 5,
     dynamic_batching_enabled = False, dynamic_batch_max_size = 8, dynamic_batch_max_wait_seconds = 0.005\<rparr>"

text \<open>\<open>str.upper\<close>; no character outside ASCII becomes a letter of one of the levels.\<close>

definition py_upper_char :: "char \<Rightarrow> char" where
  "py_upper_char c = (let n = code_point c in if 97 \<le> n \<and> n \<le> 122 then char_of (n - 32) else c)"

definition normalize_log_level :: "string \<Rightarrow> string" where
  "normalize_log_level s = map py_upper_char s"

definition ascii_alnum :: "char \<Rightarrow> bool" where
  "ascii_alnum c = (let n = code_point c in 48 \<le> n \<and> n \<le> 57 \<or> 65 \<le> n \<and> n \<le> 90 \<or> 97 \<le> n \<and> n \<le> 122)"

definition validate_request_id_header :: "string \<Rightarrow> bool" where
  "validate_request_id_header s =
     list_all (\<lambda>c. ascii_alnum c \<or> c \<in> set ''!#$%&*+-.^_`|~'' \<or> c = CHR 0x27) s"

definition field_constraints :: "settings \<Rightarrow> bool" where
  "field_constraints s \<longleftrightarrow>
     app_name s \<noteq> [] \<and> environment s \<noteq> [] \<and>
     log_level s \<in> {''CRITICAL'', ''ERROR'', ''WARNING'', ''INFO'', ''DEBUG''} \<and>
     host s \<noteq> [] \<and> 1 \<le> port s \<and> port s \<le> 65535 \<and>
     cfg_request_id_header s \<noteq> [] \<and> validate_request_id_header (cfg_request_id_header s) \<and>
     0 < vllm_connect_timeout_seconds s \<and> 0 < vllm_request_timeout_seconds s \<and>
     0 < backend_health_interval_seconds s \<and> 0 < backend_health_timeout_seconds s \<and>
     0 < max_completion_tokens s \<and> 0 < max_choices s \<and>
     list_all (\<lambda>p. case validate_tenant_config (snd p) of Inl _ \<Rightarrow> False | Inr _ \<Rightarrow> True) (tenants_json s) \<and>
     0 < cfg_global_max_inflight s \<and> 0 \<le> cfg_global_max_queue s \<and> 0 < admission_queue_timeout_seconds s \<and>
     2 \<le> dynamic_batch_max_size s \<and> dynamic_batch_max_size s \<le> 64 \<and>
     0 < dynamic_batch_max_wait_seconds s \<and> dynamic_batch_max_wait_seconds s \<le> 1"

fun validate_tenants :: "string set \<Rightarrow> (string \<times> tenant_config) list \<Rightarrow> exn + unit" where
  "validate_tenants seen [] = Inr ()"
| "validate_tenants seen ((i, c) # rest) =
     (if py_strip i = [] then Inl (ValueError ''tenant IDs must not be blank'')
      else if cfg_api_key c \<in> seen then Inl (ValueError ''tenant API keys must be unique'')
      else validate_tenants (insert (cfg_api_key c) seen) rest)"

definition validate_mappings :: "settings \<Rightarrow> exn + settings" where
  "validate_mappings s =
     (if backends_json s = [] then Inl (ValueError ''at least one backend must be configured'')
      else if list_ex (\<lambda>p. py_strip (fst p) = []) (backends_json s) then Inl (ValueError ''backend IDs must not be blank'')
      else case validate_tenants {} (tenants_json s) of Inl e \<Rightarrow> Inl e | Inr _ \<Rightarrow> Inr s)"

text \<open>Validation of one settings object: the field validators first, the model validator on what they made.\<close>

definition Settings :: "settings \<Rightarrow> exn + settings" where
  "Settings raw =
     (let s = raw\<lparr>log_level := normalize_log_level (log_level raw)\<rparr>
      in if \<not> field_constraints s then Inl (ValueError ''validation error for Settings'') else validate_mappings s)"

section \<open>What validation gives\<close>

lemma validate_tenants_ok:
  "validate_tenants seen cs = Inr () \<longleftrightarrow>
     (\<forall>p\<in>set cs. py_strip (fst p) \<noteq> []) \<and> distinct (map (\<lambda>p. cfg_api_key (snd p)) cs) \<and>
     seen \<inter> (\<lambda>p. cfg_api_key (snd p)) ` set cs = {}"
  by (induction seen cs rule: validate_tenants.induct) auto

lemma Settings_ok:
  assumes "Settings raw = Inr s"
  shows "field_constraints s" "backends_json s \<noteq> []" "\<forall>b\<in>fst ` set (backends_json s). py_strip b \<noteq> []"
    "\<forall>p\<in>set (tenants_json s). py_strip (fst p) \<noteq> []" "distinct (map (\<lambda>p. cfg_api_key (snd p)) (tenants_json s))"
    "backends_json s = backends_json raw" "tenants_json s = tenants_json raw"
proof -
  have v: "validate_tenants {} (tenants_json s) = Inr ()" and rest: "field_constraints s \<and> backends_json s \<noteq> [] \<and>
    (\<forall>b\<in>fst ` set (backends_json s). py_strip b \<noteq> []) \<and> backends_json s = backends_json raw \<and> tenants_json s = tenants_json raw"
    using assms by (auto simp: Settings_def validate_mappings_def Let_def list_ex_iff split: if_splits sum.splits)
  from rest show "field_constraints s" "backends_json s \<noteq> []" "\<forall>b\<in>fst ` set (backends_json s). py_strip b \<noteq> []"
    "backends_json s = backends_json raw" "tenants_json s = tenants_json raw" by blast+
  from v show "\<forall>p\<in>set (tenants_json s). py_strip (fst p) \<noteq> []" "distinct (map (\<lambda>p. cfg_api_key (snd p)) (tenants_json s))"
    by (simp_all add: validate_tenants_ok)
qed

lemma TenantRegistry_builds:
  assumes "\<forall>p\<in>set cs. py_strip (fst p) \<noteq> []" "\<forall>p\<in>set cs. 0 < cfg_max_inflight (snd p) \<and> 0 \<le> cfg_max_queue (snd p)"
  shows "\<exists>r. TenantRegistry cs = Inr r \<and> map (\<lambda>p. tenant_id (snd p)) r = map fst cs \<and>
    (\<forall>t\<in>set (registry_tenants r). 0 < max_inflight t \<and> 0 \<le> max_queue t)"
  using assms
proof (induction cs)
  case (Cons p cs)
  obtain i c where p: "p = (i, c)" by (cases p)
  obtain r where "TenantRegistry cs = Inr r" "map (\<lambda>p. tenant_id (snd p)) r = map fst cs"
    "\<forall>t\<in>set (registry_tenants r). 0 < max_inflight t \<and> 0 \<le> max_queue t"
    using Cons by auto
  then show ?case using Cons.prems by (simp add: p TenantContext_def registry_tenants_def)
qed (simp add: registry_tenants_def)

end
