(* ===== verification/Gw_Chat.thy ===== *)
theory Gw_Chat
  imports Gw_Relay Gw_Config Gw_Admission_Props
begin

text \<open>
  \<open>gateway/api/chat.py\<close>: the endpoint. A request is a coroutine that suspends in the admission
  controller, in the backend or batcher, and, for a stream, in the relay; the phase says where it waits.
  What the awaited call yields is an argument of the function that goes on from there. The admission
  controller is shared by all requests; the requests the controller knows are its \<open>calls\<close>.
\<close>

section \<open>State\<close>

datatype admission_result = Result_admitted | Result_queued

datatype chat_result = Json_response json_dict | Chat_raised exn

datatype chat_phase = Admitting | Calling nat | Opening nat | Relaying relay | Answered chat_result

record chat =
  chat_payload :: chat_request
  chat_tenant :: tenant_context
  chat_started_at :: real
  chat_mode :: mode
  chat_admission :: "admission_result option"
  chat_streaming :: bool
  chat_stream_outcome :: "stream_outcome option"
  chat_eligible :: bool
  chat_call :: "nat option"
  chat_phase :: chat_phase

record gateway =
  gw_settings :: settings
  gw_adm :: adm_sys
  gw_batcher :: bool
  gw_metrics :: metrics
  chats :: "chat list"

definition set_chat :: "nat \<Rightarrow> chat \<Rightarrow> gateway \<Rightarrow> gateway" where
  "set_chat q c g = g\<lparr>chats := (chats g)[q := c]\<rparr>"

definition set_ctl :: "admission \<Rightarrow> gateway \<Rightarrow> gateway" where
  "set_ctl a g = g\<lparr>gw_adm := (gw_adm g)\<lparr>ctl := a\<rparr>\<rparr>"

section \<open>The endpoint\<close>

definition enforce_configured_limits :: "chat_request \<Rightarrow> settings \<Rightarrow> exn + unit" where
  "enforce_configured_limits p s =
     (if (case req_max_tokens p of Some (Some n) \<Rightarrow> n > max_completion_tokens s | _ \<Rightarrow> False)
      then Inl (Gateway (mk_error InvalidRequestError (Some (''max_tokens must not exceed '' @ int_str (max_completion_tokens s))) None None))
      else if n_of p > max_choices s
      then Inl (Gateway (mk_error InvalidRequestError (Some (''n must not exceed '' @ int_str (max_choices s))) None None))
      else Inr ())"

text \<open>Up to the first suspension: both branches begin with \<open>acquire\<close>.\<close>

definition chat_begin :: "tenant_context \<Rightarrow> chat_request \<Rightarrow> real \<Rightarrow> gateway \<Rightarrow> gateway" where
  "chat_begin t p now g =
     (let c = \<lparr>chat_payload = p, chat_tenant = t, chat_started_at = now,
               chat_mode = (if stream_on p then Streaming else Non_streaming), chat_admission = None, chat_streaming = False,
               chat_stream_outcome = None, chat_eligible = False, chat_call = None, chat_phase = Admitting\<rparr>
      in case enforce_configured_limits p (gw_settings g) of
           Inl e \<Rightarrow> g\<lparr>chats := chats g @ [c\<lparr>chat_phase := Answered (Chat_raised e)\<rparr>]\<rparr>
         | Inr _ \<Rightarrow>
            (let (decision, reason) = batching_eligibility p (dynamic_batching_enabled (gw_settings g));
                 (k, a) = enter_acquire t (ctl (gw_adm g))
             in g\<lparr>gw_metrics := batch_eligibility_observed decision reason (gw_metrics g),
                  chats := chats g @ [c\<lparr>chat_eligible := (decision = Eligible), chat_call := Some (length (calls (gw_adm g)))\<rparr>],
                  gw_adm := \<lparr>ctl = a, calls = calls (gw_adm g) @ [k]\<rparr>\<rparr>))"

text \<open>Leaving \<open>async with admission.admit(tenant)\<close> and the \<open>except\<close> clause of a stream: the lease is released, then the result stands.\<close>

definition leave_with :: "nat \<Rightarrow> nat \<Rightarrow> exn + json_dict \<Rightarrow> gateway \<Rightarrow> gateway" where
  "leave_with q l r g =
     (let c = chats g ! q;
          (r1, a) = and_then (adm_release l (ctl (gw_adm g))) (\<lambda>_ a. (r, a));
          g1 = set_ctl a g
      in case r1 of
           Inl e \<Rightarrow> set_chat q (c\<lparr>chat_phase := Answered (Chat_raised e)\<rparr>) g1
         | Inr response \<Rightarrow>
            set_chat q (c\<lparr>chat_phase := Answered (Json_response response)\<rparr>)
              (if chat_eligible c then g1 else g1\<lparr>gw_metrics := observe_non_streaming_usage response (gw_metrics g1)\<rparr>))"

text \<open>\<open>acquire\<close> has ended.\<close>

definition chat_admitted :: "nat \<Rightarrow> exn + nat \<Rightarrow> gateway \<Rightarrow> gateway" where
  "chat_admitted q r g =
     (let c = chats g ! q
      in case r of
           Inl e \<Rightarrow> set_chat q (c\<lparr>chat_phase := Answered (Chat_raised e)\<rparr>) g
         | Inr l \<Rightarrow>
            (let c1 = c\<lparr>chat_admission := Some (if was_queued (adm_leases (ctl (gw_adm g)) ! l) then Result_queued else Result_admitted)\<rparr>
             in if stream_on (chat_payload c) then set_chat q (c1\<lparr>chat_streaming := True, chat_phase := Opening l\<rparr>) g
                else if chat_eligible c \<and> \<not> gw_batcher g
                then leave_with q l (Inl (raised BatchingUnavailableError)) (set_chat q c1 g)
                else set_chat q (c1\<lparr>chat_phase := Calling l\<rparr>) g))"

text \<open>\<open>batcher.submit\<close> or \<open>backend.generate\<close> has ended.\<close>

definition chat_called :: "nat \<Rightarrow> nat \<Rightarrow> exn + json_dict \<Rightarrow> gateway \<Rightarrow> gateway" where
  "chat_called q l r g = leave_with q l r g"

text \<open>
  \<open>backend.stream\<close> has ended, with an exception or with a stream of some backend. The observer has the
  default bound of one MiB; a constructor that raised would close the stream and release the lease.
\<close>

definition chat_opened :: "nat \<Rightarrow> nat \<Rightarrow> exn + (string option \<times> real option) \<Rightarrow> gateway \<Rightarrow> gateway" where
  "chat_opened q l r g = (case r of
      Inl e \<Rightarrow> leave_with q l (Inl e) g
    | Inr (backend, started) \<Rightarrow>
       (case SSEMetricsObserver (gw_metrics g) (chat_started_at (chats g ! q)) backend started 1048576 of
          Inl e \<Rightarrow> leave_with q l (Inl e) g
        | Inr ob \<Rightarrow> set_chat q ((chats g ! q)\<lparr>chat_phase := Relaying (StreamingRelay l (Some ob))\<rparr>) g))"

section \<open>The relay of a request\<close>

definition chat_chunk :: "(string \<Rightarrow> json option) \<Rightarrow> nat \<Rightarrow> relay \<Rightarrow> real \<Rightarrow> string \<Rightarrow> gateway \<Rightarrow> gateway" where
  "chat_chunk loads q rl now chunk g =
     (let (rl1, m) = relay_observe loads now chunk rl (gw_metrics g)
      in (set_chat q ((chats g ! q)\<lparr>chat_phase := Relaying rl1\<rparr>) g)\<lparr>gw_metrics := m\<rparr>)"

definition chat_aclose_begin :: "nat \<Rightarrow> relay \<Rightarrow> stream_outcome \<Rightarrow> gateway \<Rightarrow> gateway" where
  "chat_aclose_begin q rl oc g = set_chat q ((chats g ! q)\<lparr>chat_phase := Relaying (snd (aclose_begin oc rl))\<rparr>) g"

definition observe_outcome :: "stream_outcome \<Rightarrow> chat \<Rightarrow> metrics \<Rightarrow> chat \<times> metrics" where
  "observe_outcome oc c m =
     (c\<lparr>chat_stream_outcome := Some oc\<rparr>, if oc = Stream_upstream_error then record_error ''stream_upstream_error'' m else m)"

definition chat_aclose_finish :: "nat \<Rightarrow> relay \<Rightarrow> exn + unit \<Rightarrow> gateway \<Rightarrow> gateway" where
  "chat_aclose_finish q rl up g =
     (let (r, rl1, m, a) = aclose_finish up rl (gw_metrics g) (ctl (gw_adm g));
          c = (chats g ! q)\<lparr>chat_phase := Relaying rl1\<rparr>;
          (c1, m1) = (case r of Inl _ \<Rightarrow> (c, m) | Inr oc \<Rightarrow> observe_outcome oc c m)
      in (set_chat q c1 (set_ctl a g))\<lparr>gw_metrics := m1\<rparr>)"

section \<open>The gateway\<close>

text \<open>What the admission controller does between the steps of the requests: no new call, and no delivered lease released.\<close>

definition adm_internal :: "bool \<Rightarrow> adm_sys \<Rightarrow> adm_sys \<Rightarrow> bool" where
  "adm_internal late y z \<longleftrightarrow> adm_step late y z \<and> length (calls z) = length (calls y) \<and>
     (\<forall>k<length (calls y). \<forall>l. call_pc (calls y ! k) = Done (Inr l) \<longrightarrow>
        released (adm_leases (ctl z) ! l) = released (adm_leases (ctl y) ! l))"

inductive gw_step :: "bool \<Rightarrow> (string \<Rightarrow> json option) \<Rightarrow> gateway \<Rightarrow> gateway \<Rightarrow> bool" for late loads where
  arrives: "gw_step late loads g (chat_begin t p now g)"
| controller: "adm_internal late (gw_adm g) z \<Longrightarrow> gw_step late loads g (g\<lparr>gw_adm := z\<rparr>)"
| admitted: "q < length (chats g) \<Longrightarrow> chat_phase (chats g ! q) = Admitting \<Longrightarrow> chat_call (chats g ! q) = Some k \<Longrightarrow>
    call_pc (calls (gw_adm g) ! k) = Done r \<Longrightarrow> gw_step late loads g (chat_admitted q r g)"
| called: "q < length (chats g) \<Longrightarrow> chat_phase (chats g ! q) = Calling l \<Longrightarrow> gw_step late loads g (chat_called q l r g)"
| opened: "q < length (chats g) \<Longrightarrow> chat_phase (chats g ! q) = Opening l \<Longrightarrow> gw_step late loads g (chat_opened q l s g)"
| chunk: "q < length (chats g) \<Longrightarrow> chat_phase (chats g ! q) = Relaying rl \<Longrightarrow>
    gw_step late loads g (chat_chunk loads q rl now bytes g)"
| closes: "q < length (chats g) \<Longrightarrow> chat_phase (chats g ! q) = Relaying rl \<Longrightarrow> relay_closing rl = None \<Longrightarrow>
    gw_step late loads g (chat_aclose_begin q rl oc g)"
| closed: "q < length (chats g) \<Longrightarrow> chat_phase (chats g ! q) = Relaying rl \<Longrightarrow> relay_closing rl \<noteq> None \<Longrightarrow>
    gw_step late loads g (chat_aclose_finish q rl up g)"

definition gw_start :: "gateway \<Rightarrow> bool" where
  "gw_start g \<longleftrightarrow> chats g = [] \<and> adm_start (gw_adm g)"

end
