(* ===== verification/Gw_Gateway.thy ===== *)
theory Gw_Gateway
  imports Gw_Chat
begin

text \<open>
  The requests and the admission controller together: which lease a request holds in which phase, kept by
  every step of \<^const>\<open>gw_step\<close>.
\<close>

section \<open>Steps of the controller, seen from a delivered lease\<close>

lemma adm_step_done:
  assumes "adm_step late y z" "k < length (calls y)"
  shows "k < length (calls z)" "call_tenant (calls z ! k) = call_tenant (calls y ! k)"
    "call_pc (calls y ! k) = Done r \<Longrightarrow> call_pc (calls z ! k) = Done r"
proof -
  have "k < length (calls z) \<and> call_tenant (calls z ! k) = call_tenant (calls y ! k) \<and>
    (\<forall>r. call_pc (calls y ! k) = Done r \<longrightarrow> call_pc (calls z ! k) = Done r)"
    using assms
    by cases (auto simp: finish_call_def set_pc_def Let_def nth_append nth_list_update)
  then show "k < length (calls z)" "call_tenant (calls z ! k) = call_tenant (calls y ! k)"
    "call_pc (calls y ! k) = Done r \<Longrightarrow> call_pc (calls z ! k) = Done r" by auto
qed

lemma adm_step_delivers:
  assumes inv: "sys_inv late y" and step: "adm_step late y z" and k: "k < length (calls y)"
    and before: "\<forall>r. call_pc (calls y ! k) \<noteq> Done r" and after: "call_pc (calls z ! k) = Done (Inr l)"
  shows "\<not> released (adm_leases (ctl z) ! l)"
proof -
  have ok: "ctl_ok (ctl y)" and ci: "calls_inv late (ctl y) (calls y)" using inv by (simp_all add: sys_inv_def)
  from step show ?thesis
  proof cases
    case (resume_granted j w x)
    have kj: "k = j" and lx: "l = x"
      using before after resume_granted by (auto simp: finish_call_def Let_def nth_list_update split: if_splits)
    have "live_lease (ctl y) (caller y j) x"
      using calls_invD(1) [OF ci resume_granted(2)] resume_granted(3,4) by (simp add: call_ok_def wait_ok_def Let_def)
    then show ?thesis using resume_granted(1) lx by (simp add: finish_call_def Let_def live_lease_def observe_acquire_ok)
  next
    case (timed_out j w)
    obtain s2 where "acquire_timeout_locked (caller y j) w (ctl y) = (Inl (raised AdmissionTimeoutError), s2)"
      using timeout_ok [OF ok ci timed_out(2,3)] by blast
    then show ?thesis using timed_out k before after
      by (auto simp: finish_call_def Let_def nth_list_update split: if_splits)
  next
    case (cancelled j w)
    obtain s2 where "acquire_cancelled_locked (caller y j) w (ctl y) = (Inl CancelledError, s2)"
      using cancelled_ok [OF ok ci cancelled(2,3)] by blast
    then show ?thesis using cancelled k before after
      by (auto simp: finish_call_def Let_def nth_list_update split: if_splits)
  qed (use k before after in \<open>auto simp: finish_call_def set_pc_def Let_def nth_append nth_list_update split: if_splits\<close>)
qed

lemma enter_leases:
  assumes ok: "ctl_ok s" and eq: "enter_acquire t s = (c, s')"
  shows "call_tenant c = t" "l < length (adm_leases s) \<Longrightarrow> adm_leases s' ! l = adm_leases s ! l"
    "call_pc c = Done (Inr l) \<Longrightarrow> \<not> released (adm_leases s' ! l)"
proof -
  obtain now s0 where s0: "read_clock s = (now, s0)" by (cases "read_clock s")
  have ok0: "ctl_ok s0" and l0: "adm_leases s0 = adm_leases s"
    using read_clock_ok(1) [OF ok] s0 by (auto simp: read_clock_def)
  then have adm0: "adm_inv s0" "settled s0" by (simp_all add: ctl_ok_def)
  have "call_tenant c = t \<and> (l < length (adm_leases s0) \<longrightarrow> adm_leases s' ! l = adm_leases s0 ! l) \<and>
    (call_pc c = Done (Inr l) \<longrightarrow> \<not> released (adm_leases s' ! l))"
    using adm0
  proof (cases rule: acquire_locked_cases [where s = s0 and t = t])
    case (refused e s1)
    then show ?thesis using eq s0 extD(4) [OF refused(5)] by (auto simp: enter_acquire_def observe_acquire_ok)
  next
    case (granted s1 st)
    note g = granted_fields [OF granted(4,6), of False]
    show ?thesis using eq s0 granted(7) extD(3,4) [OF granted(1)]
      by (auto simp: enter_acquire_def observe_acquire_ok g(11) nth_append)
  next
    case (queued s1 st s2)
    note e = enqueue_waiter_ok [OF queued(2-6)]
    have "adm_leases s2 ! l = adm_leases s0 ! l" if "l < length (adm_leases s0)"
      using extD(4) [OF queued(7), of l] extD(3) [OF queued(1)] extD(4) [OF queued(1), of l] that by (simp add: e(3))
    then show ?thesis using eq s0 queued(10) by (auto simp: enter_acquire_def)
  qed
  then show "call_tenant c = t" "l < length (adm_leases s) \<Longrightarrow> adm_leases s' ! l = adm_leases s ! l"
    "call_pc c = Done (Inr l) \<Longrightarrow> \<not> released (adm_leases s' ! l)" by (simp_all add: l0)
qed

lemma release_leases:
  assumes "adm_inv s" "l < length (adm_leases s)"
  obtains s2 where "adm_release l s = (Inr (), s2)" "released (adm_leases s2 ! l)"
    "\<And>x. x < length (adm_leases s) \<Longrightarrow> x \<noteq> l \<Longrightarrow> adm_leases s2 ! x = adm_leases s ! x"
proof -
  obtain s2 where s2: "adm_release l s = (Inr (), s2)" "ext (released_state l s) s2"
    using adm_release_ok [OF assms] by blast
  note r = release_locked_ok(6) [OF assms]
  show thesis
  proof (rule that [OF s2(1)])
    show "released (adm_leases s2 ! l)" using extD(4) [OF s2(2), of l] assms(2) by (simp add: r)
    show "adm_leases s2 ! x = adm_leases s ! x" if "x < length (adm_leases s)" "x \<noteq> l" for x
      using extD(4) [OF s2(2), of x] that by (simp add: r)
  qed
qed

section \<open>Requests and their leases\<close>

text \<open>The call of a request has delivered the lease \<open>l\<close>.\<close>

definition delivered :: "adm_sys \<Rightarrow> chat \<Rightarrow> nat \<Rightarrow> bool" where
  "delivered y c l \<longleftrightarrow> (\<exists>k. chat_call c = Some k \<and> call_pc (calls y ! k) = Done (Inr l))"

definition lease_back :: "adm_sys \<Rightarrow> nat \<Rightarrow> bool" where
  "lease_back y l = released (adm_leases (ctl y) ! l)"

definition relay_ok :: "relay \<Rightarrow> bool" where
  "relay_ok rl \<longleftrightarrow> (relay_closing rl \<noteq> None \<longrightarrow> relay_closed rl) \<and> upstream_closes rl = of_bool (relay_closed rl)"

definition relay_done :: "relay \<Rightarrow> bool" where
  "relay_done rl \<longleftrightarrow> relay_closed rl \<and> relay_closing rl = None"

definition phase_ok :: "adm_sys \<Rightarrow> chat \<Rightarrow> bool" where
  "phase_ok y c = (case chat_phase c of
      Admitting \<Rightarrow> chat_call c \<noteq> None \<and> (\<forall>l. delivered y c l \<longrightarrow> \<not> lease_back y l)
    | Calling l \<Rightarrow> delivered y c l \<and> \<not> lease_back y l
    | Opening l \<Rightarrow> delivered y c l \<and> \<not> lease_back y l
    | Relaying rl \<Rightarrow> relay_ok rl \<and> delivered y c (relay_lease rl) \<and> lease_back y (relay_lease rl) = relay_done rl
    | Answered _ \<Rightarrow> (\<forall>k. chat_call c = Some k \<longrightarrow> (\<exists>r. call_pc (calls y ! k) = Done r)) \<and> (\<forall>l. delivered y c l \<longrightarrow> lease_back y l))"

definition call_known :: "adm_sys \<Rightarrow> chat \<Rightarrow> bool" where
  "call_known y c \<longleftrightarrow> (\<forall>k. chat_call c = Some k \<longrightarrow> k < length (calls y) \<and> call_tenant (calls y ! k) = chat_tenant c)"

definition gw_inv :: "bool \<Rightarrow> gateway \<Rightarrow> bool" where
  "gw_inv late g \<longleftrightarrow> sys_inv late (gw_adm g) \<and>
     (\<forall>q<length (chats g). call_known (gw_adm g) (chats g ! q) \<and> phase_ok (gw_adm g) (chats g ! q)) \<and>
     (\<forall>p q k. p < length (chats g) \<longrightarrow> q < length (chats g) \<longrightarrow>
        chat_call (chats g ! p) = Some k \<longrightarrow> chat_call (chats g ! q) = Some k \<longrightarrow> p = q) \<and>
     (\<forall>k<length (calls (gw_adm g)). \<exists>q<length (chats g). chat_call (chats g ! q) = Some k)"

lemma gw_invD:
  assumes "gw_inv late g"
  shows "sys_inv late (gw_adm g)"
    "q < length (chats g) \<Longrightarrow> call_known (gw_adm g) (chats g ! q)" "q < length (chats g) \<Longrightarrow> phase_ok (gw_adm g) (chats g ! q)"
    "p < length (chats g) \<Longrightarrow> q < length (chats g) \<Longrightarrow> chat_call (chats g ! p) = Some k \<Longrightarrow> chat_call (chats g ! q) = Some k \<Longrightarrow> p = q"
    "k < length (calls (gw_adm g)) \<Longrightarrow> \<exists>q<length (chats g). chat_call (chats g ! q) = Some k"
  using assms unfolding gw_inv_def by blast+

text \<open>A request sees of the controller only its own call and the lease that call delivered.\<close>

lemma phase_ok_mono:
  assumes ok: "phase_ok y c"
    and stay: "\<And>k r. chat_call c = Some k \<Longrightarrow> call_pc (calls y ! k) = Done r \<Longrightarrow> call_pc (calls z ! k) = Done r"
    and same: "\<And>l. delivered y c l \<Longrightarrow> lease_back z l = lease_back y l"
    and fresh: "\<And>k l. chat_call c = Some k \<Longrightarrow> \<forall>r. call_pc (calls y ! k) \<noteq> Done r \<Longrightarrow> call_pc (calls z ! k) = Done (Inr l) \<Longrightarrow> \<not> lease_back z l"
  shows "phase_ok z c"
proof -
  have keep: "delivered z c l" if "delivered y c l" for l using that stay by (auto simp: delivered_def)
  have earlier: "delivered y c l \<or> \<not> lease_back z l \<and> (\<forall>k r. chat_call c = Some k \<longrightarrow> call_pc (calls y ! k) \<noteq> Done r)"
    if d: "delivered z c l" for l
  proof -
    obtain k where k: "chat_call c = Some k" "call_pc (calls z ! k) = Done (Inr l)" using d by (auto simp: delivered_def)
    show ?thesis
    proof (cases "\<exists>r. call_pc (calls y ! k) = Done r")
      case True
      then show ?thesis using k stay by (fastforce simp: delivered_def)
    next
      case False
      then show ?thesis using k fresh by auto
    qed
  qed
  have done_stays: "(\<forall>k. chat_call c = Some k \<longrightarrow> (\<exists>r. call_pc (calls y ! k) = Done r)) \<Longrightarrow>
    (\<forall>k. chat_call c = Some k \<longrightarrow> (\<exists>r. call_pc (calls z ! k) = Done r))" using stay by blast
  show ?thesis
  proof (cases "chat_phase c")
    case Admitting
    then show ?thesis using ok earlier same by (auto simp: phase_ok_def)
  next
    case (Answered r)
    then show ?thesis using ok earlier same done_stays unfolding phase_ok_def
      by (auto simp: delivered_def)
  qed (use ok keep same in \<open>auto simp: phase_ok_def\<close>)
qed

section \<open>Every step keeps the invariant\<close>

lemma gw_inv_metrics [simp]: "gw_inv late (g\<lparr>gw_metrics := m\<rparr>) = gw_inv late g"
  by (simp add: gw_inv_def)

lemma gw_inv_set_chat:
  assumes inv: "gw_inv late g" and q: "q < length (chats g)"
    and c: "chat_call c = chat_call (chats g ! q)" "chat_tenant c = chat_tenant (chats g ! q)" "phase_ok (gw_adm g) c"
  shows "gw_inv late (set_chat q c g)"
proof -
  note I = gw_invD [OF inv]
  let ?h = "set_chat q c g"
  have f: "gw_adm ?h = gw_adm g" "length (chats ?h) = length (chats g)"
    "chats ?h ! p = (if p = q then c else chats g ! p)" for p
    using q by (simp_all add: set_chat_def nth_list_update)
  have cc: "chat_call (chats ?h ! p) = chat_call (chats g ! p)" for p using c(1) by (simp add: f)
  have "call_known (gw_adm g) c" using I(2) [OF q] c(1,2) by (simp add: call_known_def)
  then show ?thesis unfolding gw_inv_def cc f(1,2) using I c(3) by (auto simp: f(3))
qed

lemma gw_inv_controller:
  assumes inv: "gw_inv late g" and step: "adm_internal late (gw_adm g) z"
  shows "gw_inv late (g\<lparr>gw_adm := z\<rparr>)"
proof -
  note I = gw_invD [OF inv]
  have st: "adm_step late (gw_adm g) z" and len: "length (calls z) = length (calls (gw_adm g))"
    using step by (simp_all add: adm_internal_def)
  have "call_known z c \<and> phase_ok z c" if "call_known (gw_adm g) c" "phase_ok (gw_adm g) c" for c
  proof
    show "call_known z c" using that(1) adm_step_done(1,2) [OF st] by (auto simp: call_known_def)
    have k: "k < length (calls (gw_adm g))" if "chat_call c = Some k" for k
      using \<open>call_known (gw_adm g) c\<close> that by (simp add: call_known_def)
    show "phase_ok z c"
    proof (rule phase_ok_mono [OF that(2)])
      show "call_pc (calls z ! k) = Done r" if "chat_call c = Some k" "call_pc (calls (gw_adm g) ! k) = Done r" for k r
        using adm_step_done(3) [OF st k] that by blast
      show "lease_back z l = lease_back (gw_adm g) l" if "delivered (gw_adm g) c l" for l
        using step that k by (auto simp: adm_internal_def delivered_def lease_back_def)
      show "\<not> lease_back z l" if "chat_call c = Some k" "\<forall>r. call_pc (calls (gw_adm g) ! k) \<noteq> Done r"
        "call_pc (calls z ! k) = Done (Inr l)" for k l
        using adm_step_delivers [OF I(1) st k] that by (simp add: lease_back_def)
    qed
  qed
  moreover have "sys_inv late z" by (rule sys_inv_step [OF I(1) st])
  ultimately show ?thesis unfolding gw_inv_def using I len by simp
qed

lemma delivered_lease:
  assumes inv: "gw_inv late g" and q: "q < length (chats g)" and d: "delivered (gw_adm g) (chats g ! q) l"
  obtains k where "k < length (calls (gw_adm g))" "chat_call (chats g ! q) = Some k"
    "call_pc (calls (gw_adm g) ! k) = Done (Inr l)" "l < length (adm_leases (ctl (gw_adm g)))"
    "lease_tenant (adm_leases (ctl (gw_adm g)) ! l) = tenant_id (chat_tenant (chats g ! q))"
proof -
  note I = gw_invD [OF inv]
  obtain k where k: "chat_call (chats g ! q) = Some k" "call_pc (calls (gw_adm g) ! k) = Done (Inr l)"
    using d by (auto simp: delivered_def)
  have kl: "k < length (calls (gw_adm g))" "call_tenant (calls (gw_adm g) ! k) = chat_tenant (chats g ! q)"
    using I(2) [OF q] k(1) by (simp_all add: call_known_def)
  have "call_ok late (ctl (gw_adm g)) (calls (gw_adm g) ! k)"
    using I(1) calls_invD(1) kl(1) by (auto simp: sys_inv_def)
  then have "l < length (adm_leases (ctl (gw_adm g)))"
    "lease_tenant (adm_leases (ctl (gw_adm g)) ! l) = tenant_id (chat_tenant (chats g ! q))"
    using k(2) kl(2) by (simp_all add: call_ok_def Let_def)
  then show thesis using that [OF kl(1) k] by blast
qed

text \<open>No two requests hold the same lease.\<close>

lemma delivered_unique:
  assumes inv: "gw_inv late g" and p: "p < length (chats g)" and q: "q < length (chats g)"
    and dp: "delivered (gw_adm g) (chats g ! p) l" and dq: "delivered (gw_adm g) (chats g ! q) l"
  shows "p = q"
proof -
  obtain j where j: "j < length (calls (gw_adm g))" "chat_call (chats g ! p) = Some j" "call_pc (calls (gw_adm g) ! j) = Done (Inr l)"
    using delivered_lease [OF inv p dp] by blast
  obtain k where k: "k < length (calls (gw_adm g))" "chat_call (chats g ! q) = Some k" "call_pc (calls (gw_adm g) ! k) = Done (Inr l)"
    using delivered_lease [OF inv q dq] by blast
  have "calls_inv late (ctl (gw_adm g)) (calls (gw_adm g))" using gw_invD(1) [OF inv] by (simp add: sys_inv_def)
  then have "j = k" using calls_invD(4) j k by (metis holds_def)
  then show ?thesis using gw_invD(4) [OF inv p q] j(2) k(2) by blast
qed

text \<open>A request gives its lease back.\<close>

lemma gw_inv_release:
  assumes inv: "gw_inv late g" and q: "q < length (chats g)" and d: "delivered (gw_adm g) (chats g ! q) l"
  obtains a where "adm_release l (ctl (gw_adm g)) = (Inr (), a)"
    and "\<And>c. chat_call c = chat_call (chats g ! q) \<Longrightarrow> chat_tenant c = chat_tenant (chats g ! q) \<Longrightarrow>
      (\<And>y. (\<And>x. delivered y c x \<longleftrightarrow> x = l) \<Longrightarrow> lease_back y l \<Longrightarrow>
         (\<And>k. chat_call c = Some k \<Longrightarrow> call_pc (calls y ! k) = Done (Inr l)) \<Longrightarrow> phase_ok y c) \<Longrightarrow>
      gw_inv late (set_chat q c (set_ctl a g))"
proof -
  note I = gw_invD [OF inv]
  let ?y = "gw_adm g"
  obtain k where k: "k < length (calls ?y)" "chat_call (chats g ! q) = Some k" "call_pc (calls ?y ! k) = Done (Inr l)"
    "l < length (adm_leases (ctl ?y))"
    using delivered_lease [OF inv q d] by blast
  have adm: "adm_inv (ctl ?y)" using I(1) by (simp add: sys_inv_def ctl_ok_def)
  obtain a where a: "adm_release l (ctl ?y) = (Inr (), a)" "released (adm_leases a ! l)"
    "\<And>x. x < length (adm_leases (ctl ?y)) \<Longrightarrow> x \<noteq> l \<Longrightarrow> adm_leases a ! x = adm_leases (ctl ?y) ! x"
    using release_leases [OF adm k(4)] by blast
  let ?z = "?y\<lparr>ctl := a\<rparr>"
  have "adm_step late ?y ?z" using adm_step.release [OF k(1,3), of late] a(1) by simp
  then have sys: "sys_inv late ?z" by (rule sys_inv_step [OF I(1)])
  show thesis
  proof (rule that [OF a(1)])
    fix c
    assume c: "chat_call c = chat_call (chats g ! q)" "chat_tenant c = chat_tenant (chats g ! q)"
      and ok: "\<And>y. (\<And>x. delivered y c x \<longleftrightarrow> x = l) \<Longrightarrow> lease_back y l \<Longrightarrow>
         (\<And>k. chat_call c = Some k \<Longrightarrow> call_pc (calls y ! k) = Done (Inr l)) \<Longrightarrow> phase_ok y c"
    let ?h = "set_chat q c (set_ctl a g)"
    have f: "gw_adm ?h = ?z" "length (chats ?h) = length (chats g)" "chats ?h ! p = (if p = q then c else chats g ! p)" for p
      using q by (simp_all add: set_chat_def set_ctl_def nth_list_update)
    have cc: "chat_call (chats ?h ! p) = chat_call (chats g ! p)" for p using c(1) by (simp add: f)
    have "phase_ok ?z c" using c(1) k(2,3) a(2) by (intro ok) (auto simp: delivered_def lease_back_def)
    moreover have "call_known ?z c" using I(2) [OF q] c by (simp add: call_known_def)
    moreover have "phase_ok ?z (chats g ! p)" if p: "p < length (chats g)" "p \<noteq> q" for p
    proof (rule phase_ok_mono [OF I(3) [OF p(1)]])
      show "lease_back ?z x = lease_back ?y x" if "delivered ?y (chats g ! p) x" for x
      proof -
        have "x \<noteq> l" using delivered_unique [OF inv p(1) q] that d p(2) by blast
        moreover have "x < length (adm_leases (ctl ?y))" using delivered_lease [OF inv p(1) that] by blast
        ultimately show ?thesis using a(3) by (simp add: lease_back_def)
      qed
    qed auto
    moreover have "call_known ?z (chats g ! p)" if "p < length (chats g)" for p
      using I(2) [OF that] by (simp add: call_known_def)
    ultimately show "gw_inv late ?h" unfolding gw_inv_def cc f(1,2) using I(4,5) sys by (auto simp: f(3))
  qed
qed

lemma gw_inv_append:
  assumes inv: "gw_inv late g" and h: "chats h = chats g @ [c]" "gw_adm h = z" and sys: "sys_inv late z"
    and c: "call_known z c" "phase_ok z c"
    and old: "\<And>q. q < length (chats g) \<Longrightarrow> call_known z (chats g ! q) \<and> phase_ok z (chats g ! q)"
    and uniq: "\<And>q k. q < length (chats g) \<Longrightarrow> chat_call (chats g ! q) = Some k \<Longrightarrow> chat_call c \<noteq> Some k"
    and covers: "\<And>k. k < length (calls z) \<Longrightarrow> chat_call c = Some k \<or> (\<exists>q<length (chats g). chat_call (chats g ! q) = Some k)"
  shows "gw_inv late h"
proof -
  note I = gw_invD [OF inv]
  have n: "length (chats h) = Suc (length (chats g))" "\<And>q. q < length (chats g) \<Longrightarrow> chats h ! q = chats g ! q"
    "chats h ! length (chats g) = c" by (simp_all add: h nth_append)
  have "\<exists>q<length (chats h). chat_call (chats h ! q) = Some k" if "k < length (calls z)" for k
    using covers [OF that] n by (metis less_Suc_eq)
  moreover have "p = q" if "p < length (chats h)" "q < length (chats h)"
    "chat_call (chats h ! p) = Some k" "chat_call (chats h ! q) = Some k" for p q k
    using that I(4) uniq n by (metis less_Suc_eq)
  moreover have "call_known z (chats h ! q) \<and> phase_ok z (chats h ! q)" if "q < length (chats h)" for q
    using that old c n by (metis less_Suc_eq)
  ultimately show ?thesis unfolding gw_inv_def h(2) using sys by blast
qed

lemma gw_inv_begin: "gw_inv late g \<Longrightarrow> gw_inv late (chat_begin t p now g)"
proof -
  assume inv: "gw_inv late g"
  note I = gw_invD [OF inv]
  let ?y = "gw_adm g"
  show ?thesis
  proof (cases "enforce_configured_limits p (gw_settings g)")
    case (Inl e)
    then show ?thesis using I
      by (intro gw_inv_append [OF inv, where z = ?y])
        (auto simp: chat_begin_def call_known_def phase_ok_def delivered_def)
  next
    case (Inr u)
    obtain dec rea where el: "batching_eligibility p (dynamic_batching_enabled (gw_settings g)) = (dec, rea)" by fastforce
    obtain k a where ka: "enter_acquire t (ctl ?y) = (k, a)" by fastforce
    let ?z = "\<lparr>ctl = a, calls = calls ?y @ [k]\<rparr>"
    have ok: "ctl_ok (ctl ?y)" using I(1) by (simp add: sys_inv_def)
    note en = enter_leases [OF ok ka]
    have "adm_step late ?y ?z" using adm_step.enter [OF ka, of late] by (cases ?y) simp
    then have sys: "sys_inv late ?z" by (rule sys_inv_step [OF I(1)])
    define c where "c = \<lparr>chat_payload = p, chat_tenant = t, chat_started_at = now,
      chat_mode = (if stream_on p then Streaming else Non_streaming), chat_admission = None, chat_streaming = False,
      chat_stream_outcome = None, chat_eligible = (dec = Eligible), chat_call = Some (length (calls ?y)), chat_phase = Admitting\<rparr>"
    have new: "call_known ?z c" "phase_ok ?z c"
      using en(1,3) by (simp_all add: c_def call_known_def phase_ok_def delivered_def lease_back_def)
    have old: "call_known ?z (chats g ! q) \<and> phase_ok ?z (chats g ! q)" if q: "q < length (chats g)" for q
    proof
      have kn: "j < length (calls ?y)" if "chat_call (chats g ! q) = Some j" for j
        using I(2) [OF q] that by (simp add: call_known_def)
      show "call_known ?z (chats g ! q)" using I(2) [OF q] by (auto simp: call_known_def nth_append)
      show "phase_ok ?z (chats g ! q)"
      proof (rule phase_ok_mono [OF I(3) [OF q]])
        show "lease_back ?z l = lease_back ?y l" if "delivered ?y (chats g ! q) l" for l
          using delivered_lease [OF inv q that] en(2) by (metis lease_back_def adm_sys.select_convs(1))
      qed (use kn in \<open>auto simp: nth_append\<close>)
    qed
    have e: "chat_begin t p now g = g\<lparr>gw_metrics := batch_eligibility_observed dec rea (gw_metrics g),
      chats := chats g @ [c], gw_adm := ?z\<rparr>"
      using Inr el ka by (simp add: chat_begin_def c_def)
    have uniq: "chat_call (chats g ! q) \<noteq> Some (length (calls ?y))" if "q < length (chats g)" for q
      using I(2) [OF that] by (auto simp: call_known_def)
    have c: "chat_call c = Some (length (calls ?y))" by (simp add: c_def)
    show ?thesis unfolding e
      using sys new old I(5) uniq c by (intro gw_inv_append [OF inv, where z = ?z and c = c]) (auto simp: less_Suc_eq)
  qed
qed

lemma leave_with_ok:
  assumes inv: "gw_inv late g" and q: "q < length (chats g)" and d: "delivered (gw_adm g) (chats g ! q) l"
  shows "gw_inv late (leave_with q l r g)"
proof -
  obtain a where a: "adm_release l (ctl (gw_adm g)) = (Inr (), a)"
    and keep: "\<And>c. chat_call c = chat_call (chats g ! q) \<Longrightarrow> chat_tenant c = chat_tenant (chats g ! q) \<Longrightarrow>
      (\<And>y. (\<And>x. delivered y c x \<longleftrightarrow> x = l) \<Longrightarrow> lease_back y l \<Longrightarrow>
         (\<And>k. chat_call c = Some k \<Longrightarrow> call_pc (calls y ! k) = Done (Inr l)) \<Longrightarrow> phase_ok y c) \<Longrightarrow>
      gw_inv late (set_chat q c (set_ctl a g))"
    using gw_inv_release [OF inv q d] by blast
  have fin: "gw_inv late (set_chat q ((chats g ! q)\<lparr>chat_phase := Answered x\<rparr>) (set_ctl a g))" for x
    by (rule keep) (simp_all add: phase_ok_def)
  have m: "set_chat q c (g1\<lparr>gw_metrics := m\<rparr>) = (set_chat q c g1)\<lparr>gw_metrics := m\<rparr>" for c g1 m
    by (simp add: set_chat_def)
  show ?thesis using fin by (simp add: leave_with_def a Let_def m split: sum.split)
qed

lemma set_chat_fields [simp]:
  "gw_adm (set_chat q c g) = gw_adm g" "length (chats (set_chat q c g)) = length (chats g)"
  "q < length (chats g) \<Longrightarrow> chats (set_chat q c g) ! q = c"
  by (simp_all add: set_chat_def)

lemma chat_admitted_ok:
  assumes inv: "gw_inv late g" and q: "q < length (chats g)" and ph: "chat_phase (chats g ! q) = Admitting"
    and k: "chat_call (chats g ! q) = Some k" and r: "call_pc (calls (gw_adm g) ! k) = Done r"
  shows "gw_inv late (chat_admitted q r g)"
proof (cases r)
  case (Inl e)
  then show ?thesis using k r
    by (auto simp: chat_admitted_def phase_ok_def delivered_def intro!: gw_inv_set_chat [OF inv q])
next
  case (Inr l)
  have d: "delivered (gw_adm g) (chats g ! q) l" "\<not> lease_back (gw_adm g) l"
    using gw_invD(3) [OF inv q] ph k r Inr by (auto simp: phase_ok_def delivered_def)
  have d': "delivered (gw_adm g) ((chats g ! q)\<lparr>chat_admission := x, chat_streaming := b, chat_phase := p\<rparr>) l"
    "delivered (gw_adm g) ((chats g ! q)\<lparr>chat_admission := x, chat_phase := p\<rparr>) l"
    "delivered (gw_adm g) ((chats g ! q)\<lparr>chat_admission := x\<rparr>) l" for x b p
    using d(1) by (simp_all add: delivered_def)
  have same: "phase_ok (gw_adm g) ((chats g ! q)\<lparr>chat_admission := x\<rparr>)" for x
    using gw_invD(3) [OF inv q] ph by (simp add: phase_ok_def delivered_def)
  show ?thesis
    using d(2) d' q same
    by (auto simp: chat_admitted_def Inr Let_def phase_ok_def intro!: gw_inv_set_chat [OF inv q] leave_with_ok)
qed

lemma relay_phase:
  assumes "gw_inv late g" "q < length (chats g)" "chat_phase (chats g ! q) = Relaying rl"
  shows "relay_ok rl" "delivered (gw_adm g) (chats g ! q) (relay_lease rl)"
    "lease_back (gw_adm g) (relay_lease rl) = relay_done rl"
  using gw_invD(3) [OF assms(1,2)] assms(3) by (simp_all add: phase_ok_def)

lemma relay_observe_frame:
  "relay_observe loads now chunk rl m = (rl1, m1) \<Longrightarrow> relay_lease rl1 = relay_lease rl \<and> relay_ok rl1 = relay_ok rl \<and> relay_done rl1 = relay_done rl"
  by (auto simp: relay_observe_def relay_ok_def relay_done_def Let_def split: option.splits)

lemma relay_finalize_frame:
  "relay_finalize rl m = (rl1, m1) \<Longrightarrow> relay_lease rl1 = relay_lease rl \<and> relay_ok rl1 = relay_ok rl \<and> relay_done rl1 = relay_done rl"
  by (auto simp: relay_finalize_def relay_ok_def relay_done_def Let_def split: option.splits)

lemma aclose_finish_frame:
  assumes "aclose_finish up rl m a = (r, rl1, m1, a1)" "adm_release (relay_lease rl) a = (Inr (), a2)"
  shows "a1 = a2 \<and> relay_lease rl1 = relay_lease rl \<and> relay_closing rl1 = None \<and> relay_closed rl1 = relay_closed rl \<and>
    upstream_closes rl1 = upstream_closes rl"
  using assms
  by (auto simp: aclose_finish_def relay_finalize_def Let_def split: sum.splits option.splits if_splits prod.splits)

lemma chat_aclose_finish_ok:
  assumes inv: "gw_inv late g" and q: "q < length (chats g)" and ph: "chat_phase (chats g ! q) = Relaying rl"
    and w: "relay_closing rl \<noteq> None"
  shows "gw_inv late (chat_aclose_finish q rl up g)"
proof -
  note R = relay_phase [OF inv q ph]
  obtain a where a: "adm_release (relay_lease rl) (ctl (gw_adm g)) = (Inr (), a)"
    and keep: "\<And>c. chat_call c = chat_call (chats g ! q) \<Longrightarrow> chat_tenant c = chat_tenant (chats g ! q) \<Longrightarrow>
      (\<And>y. (\<And>x. delivered y c x \<longleftrightarrow> x = relay_lease rl) \<Longrightarrow> lease_back y (relay_lease rl) \<Longrightarrow>
         (\<And>k. chat_call c = Some k \<Longrightarrow> call_pc (calls y ! k) = Done (Inr (relay_lease rl))) \<Longrightarrow> phase_ok y c) \<Longrightarrow>
      gw_inv late (set_chat q c (set_ctl a g))"
    using gw_inv_release [OF inv q R(2)] by blast
  obtain r rl1 m a1 where f: "aclose_finish up rl (gw_metrics g) (ctl (gw_adm g)) = (r, rl1, m, a1)"
    by (metis prod_cases4)
  note F = aclose_finish_frame [OF f a]
  have "relay_ok rl1" "relay_done rl1" "relay_lease rl1 = relay_lease rl"
    using R(1) F w by (auto simp: relay_ok_def relay_done_def)
  then have fin: "gw_inv late (set_chat q ((chats g ! q)\<lparr>chat_phase := Relaying rl1\<rparr>) (set_ctl a g))"
    "gw_inv late (set_chat q ((chats g ! q)\<lparr>chat_phase := Relaying rl1, chat_stream_outcome := oc\<rparr>) (set_ctl a g))" for oc
    by (auto intro!: keep simp: phase_ok_def)
  show ?thesis using fin F by (simp add: chat_aclose_finish_def f Let_def observe_outcome_def split: sum.split)
qed

lemma gw_inv_step: "gw_inv late g \<Longrightarrow> gw_step late loads g h \<Longrightarrow> gw_inv late h"
proof -
  assume inv: "gw_inv late g" and step: "gw_step late loads g h"
  from step show ?thesis
  proof cases
    case (arrives t p now)
    then show ?thesis using gw_inv_begin [OF inv] by simp
  next
    case (controller z)
    then show ?thesis using gw_inv_controller [OF inv] by simp
  next
    case (admitted q k r)
    then show ?thesis using chat_admitted_ok [OF inv] by simp
  next
    case (called q l r)
    then have "delivered (gw_adm g) (chats g ! q) l" using gw_invD(3) [OF inv] by (fastforce simp: phase_ok_def)
    then show ?thesis using called leave_with_ok [OF inv] by (simp add: chat_called_def)
  next
    case (opened q l s)
    then have d: "delivered (gw_adm g) (chats g ! q) l" "\<not> lease_back (gw_adm g) l"
      using gw_invD(3) [OF inv opened(2)] by (simp_all add: phase_ok_def)
    have "gw_inv late (set_chat q ((chats g ! q)\<lparr>chat_phase := Relaying (StreamingRelay l ob)\<rparr>) g)" for ob
      using d by (intro gw_inv_set_chat [OF inv opened(2)])
        (simp_all add: phase_ok_def StreamingRelay_def relay_ok_def relay_done_def delivered_def)
    then show ?thesis
      using opened leave_with_ok [OF inv opened(2) d(1)] by (simp add: chat_opened_def split: sum.split prod.split)
  next
    case (chunk q rl now bytes)
    note R = relay_phase [OF inv chunk(2,3)]
    obtain rl1 m where o: "relay_observe loads now bytes rl (gw_metrics g) = (rl1, m)" by fastforce
    have "gw_inv late (set_chat q ((chats g ! q)\<lparr>chat_phase := Relaying rl1\<rparr>) g)"
      using R relay_observe_frame [OF o] by (intro gw_inv_set_chat [OF inv chunk(2)]) (simp_all add: phase_ok_def delivered_def)
    then show ?thesis using chunk(1) o by (simp add: chat_chunk_def)
  next
    case (closes q rl oc)
    note R = relay_phase [OF inv closes(2,3)]
    have "gw_inv late (set_chat q ((chats g ! q)\<lparr>chat_phase := Relaying (snd (aclose_begin oc rl))\<rparr>) g)"
      using R closes(4) by (intro gw_inv_set_chat [OF inv closes(2)])
        (auto simp: phase_ok_def aclose_begin_def relay_ok_def relay_done_def delivered_def)
    then show ?thesis using closes(1) by (simp add: chat_aclose_begin_def)
  next
    case (closed q rl up)
    then show ?thesis using chat_aclose_finish_ok [OF inv] by simp
  qed
qed

lemma gw_inv_start: "gw_start g \<Longrightarrow> gw_inv late g"
  using sys_inv_start by (auto simp: gw_start_def gw_inv_def adm_start_def)

interpretation gw: inv_system gw_start "gw_step late loads" "gw_inv late" for late loads
  using gw_inv_start gw_inv_step by unfold_locales

abbreviation gw_reachable :: "bool \<Rightarrow> (string \<Rightarrow> json option) \<Rightarrow> gateway \<Rightarrow> bool" where
  "gw_reachable late loads g \<equiv> \<exists>g0. gw_start g0 \<and> (gw_step late loads)\<^sup>*\<^sup>* g0 g"

lemma reachable_gw_inv: "gw_reachable late loads g \<Longrightarrow> gw_inv late g"
  using gw.reachable_inv by blast

end
