(* ===== verification/Gw_Gateway_Claims.thy ===== *)
theory Gw_Gateway_Claims
  imports Gw_Gateway Gw_Admission_Claims Gw_Sse_Claims
begin

text \<open>
  The endpoint and its relays end to end: how many requests are served at once, that every slot comes
  back, and how a relay is closed.
\<close>

section \<open>Requests in service\<close>

definition lease_held :: "chat \<Rightarrow> nat option" where
  "lease_held c = (case chat_phase c of
      Calling l \<Rightarrow> Some l
    | Opening l \<Rightarrow> Some l
    | Relaying rl \<Rightarrow> if relay_done rl then None else Some (relay_lease rl)
    | _ \<Rightarrow> None)"

definition in_service :: "gateway \<Rightarrow> nat set" where
  "in_service g = {q. q < length (chats g) \<and> lease_held (chats g ! q) \<noteq> None}"

definition in_service_of :: "string \<Rightarrow> gateway \<Rightarrow> nat set" where
  "in_service_of i g = {q \<in> in_service g. tenant_id (chat_tenant (chats g ! q)) = i}"

text \<open>The request has ended, as far as the gateway is concerned.\<close>

definition chat_over :: "chat \<Rightarrow> bool" where
  "chat_over c = (case chat_phase c of Answered _ \<Rightarrow> True | Relaying rl \<Rightarrow> relay_done rl | _ \<Rightarrow> False)"

lemma lease_held_live:
  assumes inv: "gw_inv late g" and q: "q < length (chats g)" and h: "lease_held (chats g ! q) = Some l"
  shows "delivered (gw_adm g) (chats g ! q) l" "l \<in> live_leases (ctl (gw_adm g))"
    "lease_tenant (adm_leases (ctl (gw_adm g)) ! l) = tenant_id (chat_tenant (chats g ! q))"
proof -
  show d: "delivered (gw_adm g) (chats g ! q) l"
    using gw_invD(3) [OF inv q] h by (auto simp: phase_ok_def lease_held_def split: chat_phase.splits if_splits)
  have "\<not> lease_back (gw_adm g) l"
    using gw_invD(3) [OF inv q] h by (auto simp: phase_ok_def lease_held_def split: chat_phase.splits if_splits)
  then show "l \<in> live_leases (ctl (gw_adm g))"
    "lease_tenant (adm_leases (ctl (gw_adm g)) ! l) = tenant_id (chat_tenant (chats g ! q))"
    using delivered_lease [OF inv q d] by (auto simp: live_leases_def lease_back_def)
qed

lemma held_inj:
  assumes inv: "gw_inv late g"
  shows "inj_on (\<lambda>q. the (lease_held (chats g ! q))) (in_service g)"
proof (rule inj_onI)
  fix p q
  assume p: "p \<in> in_service g" and q: "q \<in> in_service g" and e: "the (lease_held (chats g ! p)) = the (lease_held (chats g ! q))"
  then obtain l where l: "lease_held (chats g ! p) = Some l" "lease_held (chats g ! q) = Some l"
    by (auto simp: in_service_def)
  have r: "p < length (chats g)" "q < length (chats g)" using p q by (simp_all add: in_service_def)
  show "p = q"
    by (rule delivered_unique [OF inv r lease_held_live(1) [OF inv r(1) l(1)] lease_held_live(1) [OF inv r(2) l(2)]])
qed

lemma live_count_card:
  "live_count i ls = int (card {l. l < length ls \<and> lease_tenant (ls ! l) = i \<and> \<not> released (ls ! l)})"
proof -
  have "live_count i ls = int (length (filter (\<lambda>l. lease_tenant l = i \<and> \<not> released l) ls))"
    unfolding live_count_def by (induction ls) auto
  then show ?thesis by (simp add: length_filter_conv_card)
qed

lemma live_card_le:
  assumes "adm_inv s" and "L \<subseteq> live_leases s"
  shows "int (card L) \<le> global_inflight s"
proof -
  have fin: "finite L" using assms finite_subset [OF _ adm_ledger.live_finite] by blast
  then obtain ls where ls: "set ls = L" using finite_list by blast
  have "adm_inv (fold release_once ls s)" by (rule adm_ledger.fold_release_inv [OF assms(1)])
  then have core: "adm_core (fold release_once ls s)" by (simp add: adm_inv_def)
  have "0 \<le> (\<Sum>p\<leftarrow>tenants (fold release_once ls s). tenant_state.inflight (snd p))"
    by (rule sum_list_nonneg_int) (rule adm_core_tenant(2) [OF core adm_core_entry [OF core]])
  then have "0 \<le> global_inflight (fold release_once ls s)" using core by (simp add: adm_core_def sums_ok_def)
  then show ?thesis
    using adm_ledger.fold_release_load [OF assms(1), of ls] assms(2) ls by (simp add: Int_absorb1)
qed

lemma in_service_bound:
  assumes inv: "gw_inv late g"
  shows "int (card (in_service g)) \<le> global_max_inflight (ctl (gw_adm g))"
proof -
  let ?s = "ctl (gw_adm g)" and ?h = "\<lambda>q. the (lease_held (chats g ! q))"
  have adm: "adm_inv ?s" and core: "adm_core ?s" using gw_invD(1) [OF inv] by (simp_all add: sys_inv_def ctl_ok_def adm_inv_def)
  have "?h q \<in> live_leases ?s" if "q \<in> in_service g" for q
    using lease_held_live(2) [OF inv] that by (auto simp: in_service_def)
  then have "int (card (?h ` in_service g)) \<le> global_inflight ?s" by (intro live_card_le [OF adm]) auto
  moreover have "global_inflight ?s \<le> global_max_inflight ?s" using core by (simp add: adm_core_defs)
  ultimately show ?thesis using card_image [OF held_inj [OF inv]] by simp
qed

text \<open>
  C1. The limits of admission are limits on what reaches the backends. Whatever requests arrive and
  however they, their cancellations, their streams and the controller interleave: at any moment at most
  \<open>max_inflight\<close> requests of a tenant, and at most \<open>global_max_inflight\<close> in all, are being served, that
  is waiting for the backend or the batcher or relaying a stream that has not been closed.
\<close>

theorem service_within_limits:
  assumes "gw_reachable late loads g"
  shows "int (card (in_service g)) \<le> global_max_inflight (ctl (gw_adm g)) \<and>
    (\<forall>i st. map_of (tenants (ctl (gw_adm g))) i = Some st \<longrightarrow> int (card (in_service_of i g)) \<le> max_inflight (tenant st))"
proof (intro conjI allI impI)
  have inv: "gw_inv late g" by (rule reachable_gw_inv [OF assms])
  let ?s = "ctl (gw_adm g)" and ?h = "\<lambda>q. the (lease_held (chats g ! q))"
  have core: "adm_core ?s" using gw_invD(1) [OF inv] by (simp add: sys_inv_def ctl_ok_def adm_inv_def)
  have held: "?h q \<in> live_leases ?s \<and> lease_tenant (adm_leases ?s ! ?h q) = tenant_id (chat_tenant (chats g ! q))"
    if "q \<in> in_service g" for q
    using lease_held_live(2,3) [OF inv] that by (auto simp: in_service_def)
  show "int (card (in_service g)) \<le> global_max_inflight ?s" by (rule in_service_bound [OF inv])
  fix i st
  assume st: "map_of (tenants ?s) i = Some st"
  have "card (in_service_of i g) = card (?h ` in_service_of i g)"
    using inj_on_subset [OF held_inj [OF inv]] by (simp add: card_image in_service_of_def subset_eq)
  also have "\<dots> \<le> card {l. l < length (adm_leases ?s) \<and> lease_tenant (adm_leases ?s ! l) = i \<and> \<not> released (adm_leases ?s ! l)}"
    using held by (intro card_mono) (auto simp: in_service_of_def live_leases_def)
  finally have "int (card (in_service_of i g)) \<le> tenant_state.inflight st"
    using adm_core_tenant(5) [OF core st] by (simp add: live_count_card)
  moreover have "tenant_state.inflight st \<le> max_inflight (tenant st)" using adm_core_tenant(3) [OF core st] by simp
  ultimately show "int (card (in_service_of i g)) \<le> max_inflight (tenant st)" by simp
qed


section \<open>Closing a relay\<close>

lemma aclose_finish_result:
  assumes "adm_release (relay_lease rl) a = (Inr (), a1)" "relay_closing rl = Some oc"
  shows "aclose_finish up rl m a =
    (let fin = relay_finalize (rl\<lparr>relay_closing := None\<rparr>) m
     in case up of
       Inr _ \<Rightarrow> (Inr oc, fst fin, snd fin, a1)
     | Inl e \<Rightarrow> if is_exception e then (Inr Stream_upstream_error, fst fin, snd fin, a1)
                else (Inl e, rl\<lparr>relay_closing := None\<rparr>, m, a1))"
  using assms by (cases "relay_finalize (rl\<lparr>relay_closing := None\<rparr>) m") (simp add: aclose_finish_def Let_def split: sum.split)

text \<open>
  C22. Closing a relay, on every branch. Whatever closing the backend stream yields, the lease is released
  and the relay is closed for good, its backend stream having been closed exactly once; a further
  \<open>aclose\<close> changes nothing. The outcome reported is the one the relay was closed with, or an upstream
  error if the backend stream failed to close, which is then also counted as an error. If closing the
  backend stream is cancelled, the lease is still released, but no outcome is ever reported and the
  stream is never accounted in the metrics.
\<close>

theorem relay_close_exact:
  assumes "gw_reachable late loads g" and "q < length (chats g)" and "chat_phase (chats g ! q) = Relaying rl"
    and "relay_closing rl = Some oc"
  shows "\<exists>rl1. chat_phase (chats (chat_aclose_finish q rl up g) ! q) = Relaying rl1 \<and> relay_done rl1 \<and>
      upstream_closes rl1 = 1 \<and> (\<forall>oc1. aclose_begin oc1 rl1 = (False, rl1)) \<and>
      released (adm_leases (ctl (gw_adm (chat_aclose_finish q rl up g))) ! relay_lease rl) \<and>
      chat_stream_outcome (chats (chat_aclose_finish q rl up g) ! q) =
        (case up of Inr _ \<Rightarrow> Some oc
         | Inl e \<Rightarrow> if is_exception e then Some Stream_upstream_error else chat_stream_outcome (chats g ! q)) \<and>
      gw_metrics (chat_aclose_finish q rl up g) =
        (let m = snd (relay_finalize (rl\<lparr>relay_closing := None\<rparr>) (gw_metrics g))
         in case up of
           Inr _ \<Rightarrow> if oc = Stream_upstream_error then record_error ''stream_upstream_error'' m else m
         | Inl e \<Rightarrow> if is_exception e then record_error ''stream_upstream_error'' m else gw_metrics g)"
proof -
  have inv: "gw_inv late g" by (rule reachable_gw_inv [OF assms(1)])
  note R = relay_phase [OF inv assms(2,3)]
  obtain a where a: "adm_release (relay_lease rl) (ctl (gw_adm g)) = (Inr (), a)" "released (adm_leases a ! relay_lease rl)"
    using delivered_lease [OF inv assms(2) R(2)] release_leases gw_invD(1) [OF inv]
    by (metis sys_inv_def ctl_ok_def)
  obtain r rl1 m a1 where f: "aclose_finish up rl (gw_metrics g) (ctl (gw_adm g)) = (r, rl1, m, a1)"
    by (metis prod_cases4)
  note F = aclose_finish_frame [OF f a(1)]
  have done1: "relay_done rl1" "upstream_closes rl1 = 1" "aclose_begin oc1 rl1 = (False, rl1)" for oc1
    using F R(1) assms(4) by (auto simp: relay_done_def relay_ok_def aclose_begin_def)
  let ?h = "chat_aclose_finish q rl up g"
  have h: "?h = (let c = (chats g ! q)\<lparr>chat_phase := Relaying rl1\<rparr>;
      (c1, m1) = (case r of Inl _ \<Rightarrow> (c, m) | Inr oc \<Rightarrow> observe_outcome oc c m)
    in (set_chat q c1 (set_ctl a g))\<lparr>gw_metrics := m1\<rparr>)"
    using F by (simp add: chat_aclose_finish_def f)
  have ph: "chat_phase (chats ?h ! q) = Relaying rl1" "released (adm_leases (ctl (gw_adm ?h)) ! relay_lease rl)"
    using assms(2) a(2) by (auto simp: h observe_outcome_def set_chat_def set_ctl_def Let_def split: sum.split)
  have "chat_stream_outcome (chats ?h ! q) =
        (case up of Inr _ \<Rightarrow> Some oc
         | Inl e \<Rightarrow> if is_exception e then Some Stream_upstream_error else chat_stream_outcome (chats g ! q))"
    "gw_metrics ?h =
        (let m = snd (relay_finalize (rl\<lparr>relay_closing := None\<rparr>) (gw_metrics g))
         in case up of
           Inr _ \<Rightarrow> if oc = Stream_upstream_error then record_error ''stream_upstream_error'' m else m
         | Inl e \<Rightarrow> if is_exception e then record_error ''stream_upstream_error'' m else gw_metrics g)"
    using f assms(2) unfolding aclose_finish_result [OF a(1) assms(4)]
    by (auto simp: h observe_outcome_def set_chat_def set_ctl_def Let_def split: sum.splits if_splits)
  then show ?thesis using ph done1 by blast
qed

section \<open>A run\<close>

text \<open>
  Two requests over the controller of \<open>example0\<close>, which has one slot: a streaming one, which is admitted,
  and a JSON one, which queues; then the stream is opened, and closed.
\<close>

definition stream_request :: chat_request where
  "stream_request = (sample_request None None)\<lparr>req_stream := Some True\<rparr>"

definition gw_run0 :: gateway where
  "gw_run0 = \<lparr>gw_settings = default_settings, gw_adm = example0, gw_batcher = False, gw_metrics = new_metrics, chats = []\<rparr>"

definition gw_run3 :: gateway where
  "gw_run3 = chat_admitted 0 (Inr 0) (chat_begin example_b (sample_request None None) 0 (chat_begin example_a stream_request 0 gw_run0))"

definition gw_run4 :: gateway where
  "gw_run4 = chat_opened 0 0 (Inr (Some ''x'', None)) gw_run3"

definition run_relay :: "gateway \<Rightarrow> relay" where
  "run_relay g = (case chat_phase (chats g ! 0) of Relaying rl \<Rightarrow> rl | _ \<Rightarrow> StreamingRelay 0 None)"

definition gw_run5 :: gateway where
  "gw_run5 = chat_aclose_begin 0 (run_relay gw_run4) Stream_completed gw_run4"

definition gw_run6 :: gateway where
  "gw_run6 = chat_called 0 0 (Inl (raised BackendTimeoutError))
     (chat_admitted 0 (Inr 0) (chat_begin example_a (sample_request None None) 0 gw_run0))"

fun phase_tag :: "chat_phase \<Rightarrow> nat \<times> nat" where
  "phase_tag Admitting = (0, 0)"
| "phase_tag (Calling l) = (1, l)"
| "phase_tag (Opening l) = (2, l)"
| "phase_tag (Relaying rl) = (3, relay_lease rl)"
| "phase_tag (Answered _) = (4, 0)"

definition phase_view :: "gateway \<Rightarrow> ((nat \<times> nat) \<times> nat option) list" where
  "phase_view g = map (\<lambda>c. (phase_tag (chat_phase c), chat_call c)) (chats g)"

lemma phase_viewD:
  assumes "phase_view g = (p, k) # v"
  shows "0 < length (chats g)" "phase_tag (chat_phase (chats g ! 0)) = p" "chat_call (chats g ! 0) = k"
  using assms by (cases "chats g"; simp add: phase_view_def)+

lemma phase_tagD:
  "phase_tag p = (0, n) \<Longrightarrow> p = Admitting" "phase_tag p = (1, l) \<Longrightarrow> p = Calling l" "phase_tag p = (2, l) \<Longrightarrow> p = Opening l"
  "phase_tag p = (3, l) \<Longrightarrow> \<exists>rl. p = Relaying rl"
  by (cases p; simp)+

lemma gw_run0_reachable: "gw_reachable late loads gw_run0"
  using example0_start by (auto simp: gw_start_def gw_run0_def intro!: exI [of _ gw_run0])

lemma gw_next: "gw_reachable late loads g \<Longrightarrow> gw_step late loads g h \<Longrightarrow> gw_reachable late loads h"
  by (meson rtranclp.rtrancl_into_rtrancl)

lemma admit_first:
  assumes "gw_reachable late loads g" "phase_view g = ((0, 0), Some 0) # v" "map call_pc (calls (gw_adm g)) = Done r # w"
  shows "gw_reachable late loads (chat_admitted 0 r g)"
proof (rule gw_next [OF assms(1)], rule gw_step.admitted)
  show "0 < length (chats g)" "chat_phase (chats g ! 0) = Admitting" "chat_call (chats g ! 0) = Some 0"
    using phase_viewD [OF assms(2)] phase_tagD(1) by auto
  show "call_pc (calls (gw_adm g) ! 0) = Done r" using assms(3) by (cases "calls (gw_adm g)") simp_all
qed

lemma gw_run3_reachable: "gw_reachable late loads gw_run3"
proof -
  let ?g = "chat_begin example_b (sample_request None None) 0 (chat_begin example_a stream_request 0 gw_run0)"
  have "gw_reachable late loads ?g" using gw_run0_reachable gw_next gw_step.arrives by metis
  moreover have "phase_view ?g = ((0, 0), Some 0) # [((0, 0), Some 1)]" "map call_pc (calls (gw_adm ?g)) = Done (Inr 0) # [Waiting 0]"
    by code_simp+
  ultimately show ?thesis unfolding gw_run3_def by (rule admit_first)
qed

lemma gw_run4_relay:
  obtains ob where "0 < length (chats gw_run4)" "chat_phase (chats gw_run4 ! 0) = Relaying (StreamingRelay 0 (Some ob))"
    "gw_reachable late loads gw_run4"
proof -
  have "phase_view gw_run3 = ((2, 0), Some 0) # [((0, 0), Some 1)]" by code_simp
  note o = phase_viewD [OF this]
  have r4: "gw_reachable late loads gw_run4" unfolding gw_run4_def
    using o phase_tagD(3) by (intro gw_next [OF gw_run3_reachable] gw_step.opened) auto
  obtain ob where "SSEMetricsObserver (gw_metrics gw_run3) (chat_started_at (chats gw_run3 ! 0)) (Some ''x'') None 1048576 = Inr ob"
    by (simp add: SSEMetricsObserver_def)
  then have "0 < length (chats gw_run4)" "chat_phase (chats gw_run4 ! 0) = Relaying (StreamingRelay 0 (Some ob))"
    using o(1) by (simp_all add: gw_run4_def chat_opened_def)
  then show thesis using that r4 by blast
qed

lemma gw_run5_relay:
  shows "0 < length (chats gw_run5)" "chat_phase (chats gw_run5 ! 0) = Relaying (run_relay gw_run5)"
    "relay_closing (run_relay gw_run5) = Some Stream_completed" "relay_lease (run_relay gw_run5) = 0"
    "gw_reachable late loads gw_run5"
proof -
  obtain ob where o: "0 < length (chats gw_run4)" "chat_phase (chats gw_run4 ! 0) = Relaying (StreamingRelay 0 (Some ob))"
    "gw_reachable late loads gw_run4" by (rule gw_run4_relay)
  then have r: "run_relay gw_run4 = StreamingRelay 0 (Some ob)" by (simp add: run_relay_def)
  show "0 < length (chats gw_run5)" "chat_phase (chats gw_run5 ! 0) = Relaying (run_relay gw_run5)"
    "relay_closing (run_relay gw_run5) = Some Stream_completed" "relay_lease (run_relay gw_run5) = 0"
    using o(1) r
    by (simp_all add: gw_run5_def chat_aclose_begin_def aclose_begin_def StreamingRelay_def run_relay_def)
  show "gw_reachable late loads gw_run5" unfolding gw_run5_def r
    using o(1,2) by (intro gw_next [OF o(3)] gw_step.closes) (simp_all add: StreamingRelay_def)
qed

lemma gw_run6_reachable: "gw_reachable late loads gw_run6"
proof -
  let ?g = "chat_begin example_a (sample_request None None) 0 gw_run0"
  have "gw_reachable late loads ?g" using gw_run0_reachable gw_next gw_step.arrives by metis
  moreover have "phase_view ?g = ((0, 0), Some 0) # []" "map call_pc (calls (gw_adm ?g)) = Done (Inr 0) # []" by code_simp+
  ultimately have r: "gw_reachable late loads (chat_admitted 0 (Inr 0) ?g)" by (rule admit_first)
  have "phase_view (chat_admitted 0 (Inr 0) ?g) = ((1, 0), Some 0) # []" by code_simp
  note p = phase_viewD [OF this]
  show ?thesis unfolding gw_run6_def using p phase_tagD(2) by (intro gw_next [OF r] gw_step.called) auto
qed

theorem service_within_limits_witness:
  "gw_reachable True sample_loads gw_run3 \<and> card (in_service gw_run3) \<le> 1"
proof -
  have "global_max_inflight (ctl (gw_adm gw_run3)) = 1" by code_simp
  then show ?thesis using service_within_limits [OF gw_run3_reachable [of True sample_loads]] gw_run3_reachable by simp
qed


theorem relay_close_exact_witness:
  "chat_stream_outcome (chats (chat_aclose_finish 0 (run_relay gw_run5) (Inr ()) gw_run5) ! 0) = Some Stream_completed \<and>
   released (adm_leases (ctl (gw_adm (chat_aclose_finish 0 (run_relay gw_run5) (Inr ()) gw_run5))) ! 0) \<and>
   gw_metrics (chat_aclose_finish 0 (run_relay gw_run5) (Inl CancelledError) gw_run5) = gw_metrics gw_run5"
proof -
  note R = relay_close_exact [OF gw_run5_relay(5) [of True sample_loads] gw_run5_relay(1,2,3)]
  show ?thesis using R [of "Inr ()"] R [of "Inl CancelledError"] gw_run5_relay(4) by (auto simp: is_exception_def Let_def)
qed

end
