(* ===== verification/Gw_Routed.thy ===== *)
theory Gw_Routed
  imports Gw_Gateway_Claims Gw_Pool_Claims
begin

text \<open>
  The endpoint over the routing pool: requests, the admission controller, relays and the pool's operations and
  streams in one step relation, for a gateway whose backend is a \<open>BackendPool\<close>. A request that calls the backend directly
  (a JSON request that is not batched, or a stream) is linked to the operation of the pool it awaits, then to the
  routed stream it relays. Batches run through the pool on their own: what the batcher returns to its members stays an
  argument here.
\<close>

section \<open>What no step of the pool undoes\<close>

definition pool_mono :: "pool \<Rightarrow> pool \<Rightarrow> bool" where
  "pool_mono p q \<longleftrightarrow> length (pool_leases p) \<le> length (pool_leases q) \<and>
     (\<forall>l<length (pool_leases p). weight (pool_leases q ! l) = weight (pool_leases p ! l)) \<and>
     length (pool_streams p) \<le> length (pool_streams q) \<and>
     (\<forall>x<length (pool_streams p). stream_lease (pool_streams q ! x) = stream_lease (pool_streams p ! x) \<and>
        (stream_phase (pool_streams p ! x) = Shut \<longrightarrow> stream_phase (pool_streams q ! x) = Shut) \<and>
        (stream_phase (pool_streams q ! x) = Open \<longrightarrow> stream_phase (pool_streams p ! x) = Open)) \<and>
     (pool_closed p \<longrightarrow> pool_closed q)"

lemma mono_refl: "pool_mono p p"
  by (simp add: pool_mono_def)

lemma mono_trans: "pool_mono p q \<Longrightarrow> pool_mono q u \<Longrightarrow> pool_mono p u"
  unfolding pool_mono_def by (intro conjI) (meson le_trans order_less_le_trans | simp)+

lemma mono_same:
  "pool_leases q = pool_leases p \<Longrightarrow> pool_streams q = pool_streams p \<Longrightarrow> pool_closed q = pool_closed p \<Longrightarrow> pool_mono p q"
  by (simp add: pool_mono_def)

lemma mono_observe: "pool_mono p q \<Longrightarrow> pool_mono p (observe_operation b op oc q)" "pool_mono p q \<Longrightarrow> pool_mono p (pool_notify q)"
  by (simp_all add: pool_mono_def)

lemma mono_release: "pool_mono p (snd (pool_release l p))"
  by (cases "l < length (pool_leases p)") (auto simp: pool_release_def pool_mono_def Let_def nth_list_update)

lemma mono_health: "pool_mono p (snd (set_health b h p))"
  by (auto simp: set_health_def pool_mono_def split: option.splits)

lemma mono_finish_start: "pool_mono p (finish_start x oc p)"
  by (cases "x < length (pool_streams p)") (auto simp: finish_start_def pool_mono_def nth_list_update)

lemma mono_assign: "pool_mono p (assign_slot i w p)"
  by (simp add: assign_slot_def pool_mono_def nth_append)

lemma mono_select: "pool_mono p (snd (select w p))"
  using mono_assign mono_refl by (auto simp: select_def split: option.splits)

lemma mono_and_then:
  assumes "pool_mono p (snd rp)" and "\<And>x q. rp = (Inr x, q) \<Longrightarrow> pool_mono q (snd (k x q))"
  shows "pool_mono p (snd (and_then rp k))"
proof (cases rp)
  case (Pair r q)
  then show ?thesis using assms mono_trans [of p q] by (cases r) auto
qed

lemma mono_leaf: "pool_mono p (snd (leaf_handlers op b r p))"
  using mono_refl mono_observe mono_health
  by (auto simp: leaf_handlers_def mark_unhealthy_def intro!: mono_and_then split: sum.splits)

lemma mono_finally: "pool_mono p (snd rp) \<Longrightarrow> pool_mono p (snd (finally_release l rp))"
  unfolding finally_release_def by (rule mono_trans, assumption, rule mono_and_then) (auto simp: mono_release mono_refl)

lemma mono_observe_release: "pool_mono p (snd (pool_release l (observe_operation b op oc p)))"
  by (rule mono_trans [OF mono_observe(1) [OF mono_refl] mono_release])

lemma mono_open_failed: "pool_mono p (snd (open_failed l e p))"
  using mono_refl mono_observe mono_health mono_release mono_observe_release
  by (auto simp: open_failed_def mark_unhealthy_def Let_def intro!: mono_and_then)

lemma mono_open_done: "open_done l p = (b, x, q) \<Longrightarrow> pool_mono p q"
  by (auto simp: open_done_def register_stream_def finish_start_def pool_mono_def nth_append nth_list_update Let_def
    split: if_splits)

lemma mono_finish_done: "pool_mono p (snd (finish_done x r p))"
proof (cases "stream_phase (pool_streams p ! x)")
  case (Closing oc)
  let ?p = "p\<lparr>pool_streams := (pool_streams p)[x := (pool_streams p ! x)\<lparr>stream_phase := Shut\<rparr>]\<rparr>"
  have 1: "pool_mono p ?p" by (cases "x < length (pool_streams p)") (auto simp: pool_mono_def nth_list_update)
  have 2: "pool_mono ?p (snd (pool_release l ?p))" for l by (rule mono_release)
  have 3: "pool_mono q (observe_operation b op o2 (unregister_stream x q))" for q b op o2
    by (simp add: pool_mono_def unregister_stream_def)
  show ?thesis
    using mono_trans [OF mono_trans [OF 1 2] 3]
    by (auto simp: finish_done_def Closing Let_def case_prod_beta split: sum.splits)
qed (simp_all add: finish_done_def mono_refl)

lemma mono_iterate_end: "pool_mono p (snd (iterate_end x r p))"
  using mono_refl mono_finish_start mono_health
  by (auto simp: iterate_end_def mark_unhealthy_def intro!: mono_and_then split: sum.splits)

lemma mono_release_all: "pool_mono p (snd (release_all ls p))"
  by (induction ls p rule: release_all.induct) (auto intro!: mono_and_then simp: mono_refl mono_release)

lemma mono_close_start: "close_start p = (c, q) \<Longrightarrow> pool_mono p q"
  by (auto simp: close_start_def pool_mono_def split: if_splits)

lemma mono_idle:
  "pool_mono p (snd (pool_start p))" "pool_mono p (pool_start_loop p)" "pool_mono p (pool_set_observer b p)" "pool_mono p (close_end p)"
  by (simp_all add: pool_start_def pool_start_loop_def pool_set_observer_def close_end_def mono_same)

lemma pool_step_mono: "pool_step y z \<Longrightarrow> pool_mono (pl y) (pl z)"
proof (induction rule: pool_step.induct)
  case (begin_generate y l p)
  then show ?case using mono_select [of "pl y" 1] by simp
next
  case (begin_stream y l p)
  then show ?case using mono_select [of "pl y" 1] by simp
next
  case (begin_batch n y l p)
  then show ?case using mono_select [of "pl y" "int n"] by (simp add: generate_batch_start_def split: if_splits)
next
  case (generated k y l r)
  then show ?case using mono_finally [OF mono_leaf] by (simp add: generate_done_def)
next
  case (batched k y l r)
  then show ?case using mono_finally [OF mono_leaf] by (simp add: generate_batch_done_def)
next
  case (opened k y l b x p)
  then show ?case using mono_open_done by simp
next
  case (probed i y r)
  then show ?case by (simp add: probe_done_def mono_refl mono_health)
next
  case (close_begins y ls xs p)
  then show ?case using mono_close_start by simp
next
  case (close_releases y ls xs)
  then show ?case by (simp add: mono_release_all)
qed (simp_all add: mono_open_failed mono_iterate_end mono_finish_start mono_finish_done mono_idle)

section \<open>State and steps\<close>

text \<open>What of the pool a request is waiting for or relaying.\<close>

datatype link = Unlinked | Op_link nat | Stream_link nat

record routed =
  rt_gw :: gateway
  rt_pool :: pool_sys
  rt_links :: "link list"

definition link_to :: "nat \<Rightarrow> link \<Rightarrow> gateway \<Rightarrow> pool_sys \<Rightarrow> routed \<Rightarrow> routed" where
  "link_to q lk g y rt = rt\<lparr>rt_gw := g, rt_pool := y, rt_links := (rt_links rt)[q := lk]\<rparr>"

text \<open>
  The call of \<open>backend.generate\<close> or \<open>backend.stream\<close> up to its first suspension: selecting a replica, which may
  raise, and calling it.
\<close>

definition route :: "nat \<Rightarrow> backend_operation \<Rightarrow> (exn \<Rightarrow> gateway) \<Rightarrow> routed \<Rightarrow> routed" where
  "route q op failed rt = (case select 1 (pl (rt_pool rt)) of
      (Inl e, p) \<Rightarrow> rt\<lparr>rt_gw := failed e, rt_pool := (rt_pool rt)\<lparr>pl := p\<rparr>\<rparr>
    | (Inr b, p) \<Rightarrow> link_to q (Op_link (length (ops (rt_pool rt)))) (rt_gw rt)
        ((rt_pool rt)\<lparr>pl := p, ops := ops (rt_pool rt) @ [Awaiting op b]\<rparr>) rt)"

text \<open>The request goes on after \<open>acquire\<close>: a request for the batcher does not touch the pool itself.\<close>

definition call_backend :: "nat \<Rightarrow> routed \<Rightarrow> routed" where
  "call_backend q rt = (let g = rt_gw rt; c = chats g ! q
     in case chat_phase c of
          Calling l \<Rightarrow> if chat_eligible c then rt else route q Generate (\<lambda>e. chat_called q l (Inl e) g) rt
        | Opening l \<Rightarrow> route q Stream (\<lambda>e. chat_opened q l (Inl e) g) rt
        | _ \<Rightarrow> rt)"

text \<open>Steps of the pool that are not those of a linked request: batches, probes, closing, and the streams' own progress.\<close>

definition pool_internal :: "pool_sys \<Rightarrow> pool_sys \<Rightarrow> bool" where
  "pool_internal y z \<longleftrightarrow> pool_step y z \<and> length (pool_streams (pl z)) = length (pool_streams (pl y)) \<and>
     (\<forall>k op b. op \<noteq> Batch \<longrightarrow> (k < length (ops z) \<and> ops z ! k = Awaiting op b) = (k < length (ops y) \<and> ops y ! k = Awaiting op b))"

text \<open>
  A stream that the closed pool refuses to register is finished, then \<open>stream\<close> raises (\<open>rt_refused\<close>, \<open>rt_rejected\<close>: what is
  raised is \<open>NoHealthyBackendError\<close> or what closing the leaf raised). A relay that closes runs \<open>_finish\<close> of its routed stream
  and goes on once that stream is shut; only where the closing pool is already in \<open>_finish\<close> can a cancellation
  end the wait before.
\<close>

inductive rt_step :: "bool \<Rightarrow> (string \<Rightarrow> json option) \<Rightarrow> routed \<Rightarrow> routed \<Rightarrow> bool" for late loads where
  rt_arrives: "rt_step late loads rt (rt\<lparr>rt_gw := chat_begin t p now (rt_gw rt), rt_links := rt_links rt @ [Unlinked]\<rparr>)"
| rt_controller: "adm_internal late (gw_adm (rt_gw rt)) z \<Longrightarrow> rt_step late loads rt (rt\<lparr>rt_gw := (rt_gw rt)\<lparr>gw_adm := z\<rparr>\<rparr>)"
| rt_admitted: "q < length (chats (rt_gw rt)) \<Longrightarrow> chat_phase (chats (rt_gw rt) ! q) = Admitting \<Longrightarrow>
    chat_call (chats (rt_gw rt) ! q) = Some k \<Longrightarrow> call_pc (calls (gw_adm (rt_gw rt)) ! k) = Done r \<Longrightarrow>
    rt_step late loads rt (call_backend q (rt\<lparr>rt_gw := chat_admitted q r (rt_gw rt)\<rparr>))"
| rt_batched: "q < length (chats (rt_gw rt)) \<Longrightarrow> chat_phase (chats (rt_gw rt) ! q) = Calling l \<Longrightarrow>
    chat_eligible (chats (rt_gw rt) ! q) \<Longrightarrow> rt_step late loads rt (rt\<lparr>rt_gw := chat_called q l r (rt_gw rt)\<rparr>)"
| rt_generated: "q < length (chats (rt_gw rt)) \<Longrightarrow> chat_phase (chats (rt_gw rt) ! q) = Calling l \<Longrightarrow>
    rt_links rt ! q = Op_link k \<Longrightarrow> k < length (ops (rt_pool rt)) \<Longrightarrow> ops (rt_pool rt) ! k = Awaiting Generate b \<Longrightarrow>
    generate_done b r (pl (rt_pool rt)) = (res, p) \<Longrightarrow>
    rt_step late loads rt (link_to q Unlinked (chat_called q l res (rt_gw rt)) (end_op k p (rt_pool rt)) rt)"
| rt_not_opened: "q < length (chats (rt_gw rt)) \<Longrightarrow> chat_phase (chats (rt_gw rt) ! q) = Opening l \<Longrightarrow>
    rt_links rt ! q = Op_link k \<Longrightarrow> k < length (ops (rt_pool rt)) \<Longrightarrow> ops (rt_pool rt) ! k = Awaiting Stream b \<Longrightarrow>
    open_failed b e (pl (rt_pool rt)) = (Inl e1, p) \<Longrightarrow>
    rt_step late loads rt (link_to q Unlinked (chat_opened q l (Inl e1) (rt_gw rt)) (end_op k p (rt_pool rt)) rt)"
| rt_opened: "q < length (chats (rt_gw rt)) \<Longrightarrow> chat_phase (chats (rt_gw rt) ! q) = Opening l \<Longrightarrow>
    rt_links rt ! q = Op_link k \<Longrightarrow> k < length (ops (rt_pool rt)) \<Longrightarrow> ops (rt_pool rt) ! k = Awaiting Stream b \<Longrightarrow>
    open_done b (pl (rt_pool rt)) = (True, x, p) \<Longrightarrow>
    rt_step late loads rt (link_to q (Stream_link x) (chat_opened q l (Inr (Some (lease_backend p b), started)) (rt_gw rt))
      (end_op k p (rt_pool rt)) rt)"
| rt_refused: "q < length (chats (rt_gw rt)) \<Longrightarrow> chat_phase (chats (rt_gw rt) ! q) = Opening l \<Longrightarrow>
    rt_links rt ! q = Op_link k \<Longrightarrow> k < length (ops (rt_pool rt)) \<Longrightarrow> ops (rt_pool rt) ! k = Awaiting Stream b \<Longrightarrow>
    open_done b (pl (rt_pool rt)) = (False, x, p) \<Longrightarrow>
    rt_step late loads rt (link_to q (Stream_link x) (rt_gw rt) (end_op k p (rt_pool rt)) rt)"
| rt_rejected: "q < length (chats (rt_gw rt)) \<Longrightarrow> chat_phase (chats (rt_gw rt) ! q) = Opening l \<Longrightarrow>
    rt_links rt ! q = Stream_link x \<Longrightarrow> stream_phase (pool_streams (pl (rt_pool rt)) ! x) = Shut \<Longrightarrow>
    rt_step late loads rt (link_to q Unlinked (chat_opened q l (Inl e) (rt_gw rt)) (rt_pool rt) rt)"
| rt_chunk: "q < length (chats (rt_gw rt)) \<Longrightarrow> chat_phase (chats (rt_gw rt) ! q) = Relaying rl \<Longrightarrow>
    rt_step late loads rt (rt\<lparr>rt_gw := chat_chunk loads q rl now bytes (rt_gw rt)\<rparr>)"
| rt_closes: "q < length (chats (rt_gw rt)) \<Longrightarrow> chat_phase (chats (rt_gw rt) ! q) = Relaying rl \<Longrightarrow> relay_closing rl = None \<Longrightarrow>
    \<not> relay_closed rl \<Longrightarrow> rt_links rt ! q = Stream_link x \<Longrightarrow> x < length (pool_streams (pl (rt_pool rt))) \<Longrightarrow>
    rt_step late loads rt (rt\<lparr>rt_gw := chat_aclose_begin q rl oc (rt_gw rt),
      rt_pool := (rt_pool rt)\<lparr>pl := finish_start x Cancelled_op (pl (rt_pool rt))\<rparr>\<rparr>)"
| rt_closes_again: "q < length (chats (rt_gw rt)) \<Longrightarrow> chat_phase (chats (rt_gw rt) ! q) = Relaying rl \<Longrightarrow> relay_closing rl = None \<Longrightarrow>
    relay_closed rl \<Longrightarrow> rt_step late loads rt (rt\<lparr>rt_gw := chat_aclose_begin q rl oc (rt_gw rt)\<rparr>)"
| rt_closed: "q < length (chats (rt_gw rt)) \<Longrightarrow> chat_phase (chats (rt_gw rt) ! q) = Relaying rl \<Longrightarrow> relay_closing rl \<noteq> None \<Longrightarrow>
    rt_links rt ! q = Stream_link x \<Longrightarrow>
    stream_phase (pool_streams (pl (rt_pool rt)) ! x) = Shut \<or> pool_closed (pl (rt_pool rt)) \<and> up = Inl CancelledError \<Longrightarrow>
    rt_step late loads rt (link_to q Unlinked (chat_aclose_finish q rl up (rt_gw rt)) (rt_pool rt) rt)"
| rt_pool_step: "pool_internal (rt_pool rt) z \<Longrightarrow> rt_step late loads rt (rt\<lparr>rt_pool := z\<rparr>)"

definition rt_start :: "routed \<Rightarrow> bool" where
  "rt_start rt \<longleftrightarrow> gw_start (rt_gw rt) \<and> pool_init (rt_pool rt) \<and> rt_links rt = []"

section \<open>Who uses the backends\<close>

fun link_owner :: "link \<Rightarrow> owner option" where
  "link_owner Unlinked = None"
| "link_owner (Op_link k) = Some (Op_owner k)"
| "link_owner (Stream_link x) = Some (Stream_owner x)"

definition covered :: "link list \<Rightarrow> owner \<Rightarrow> bool" where
  "covered ls o1 \<longleftrightarrow> (\<exists>q<length ls. link_owner (ls ! q) = Some o1)"

fun batch_op :: "op_pc \<Rightarrow> bool" where
  "batch_op (Awaiting Batch l) = True"
| "batch_op _ = False"

lemma batch_op_iff [simp]: "batch_op (Awaiting op l) = (op = Batch)"
  by (cases op) simp_all

definition direct :: "pool_sys \<Rightarrow> owner \<Rightarrow> nat \<Rightarrow> bool" where
  "direct y o1 l \<longleftrightarrow> own_of (ops y) (pool_streams (pl y)) o1 = Some l \<and>
     (case o1 of Op_owner k \<Rightarrow> \<not> batch_op (ops y ! k) | Stream_owner _ \<Rightarrow> True)"

definition direct_ok :: "pool_sys \<Rightarrow> link list \<Rightarrow> bool" where
  "direct_ok y ls \<longleftrightarrow> (\<forall>o1 l. direct y o1 l \<longrightarrow> weight (pool_leases (pl y) ! l) = 1 \<and> (\<not> pool_closed (pl y) \<longrightarrow> covered ls o1))"

definition direct_service :: "chat \<Rightarrow> bool" where
  "direct_service c = (case chat_phase c of
      Calling _ \<Rightarrow> \<not> chat_eligible c | Opening _ \<Rightarrow> True | Relaying rl \<Rightarrow> \<not> relay_done rl | _ \<Rightarrow> False)"

definition links_ok :: "gateway \<Rightarrow> link list \<Rightarrow> bool" where
  "links_ok g ls \<longleftrightarrow> length ls = length (chats g) \<and> (\<forall>q<length ls. ls ! q \<noteq> Unlinked \<longrightarrow> direct_service (chats g ! q))"

definition rt_inv :: "bool \<Rightarrow> routed \<Rightarrow> bool" where
  "rt_inv late rt \<longleftrightarrow> gw_inv late (rt_gw rt) \<and> psys_inv (rt_pool rt) \<and> links_ok (rt_gw rt) (rt_links rt) \<and>
     direct_ok (rt_pool rt) (rt_links rt)"

lemma direct_old:
  assumes d: "direct y o1 l" and ok: "direct_ok y ls" and inv: "psys_inv y" and m: "pool_mono (pl y) (pl z)"
  shows "weight (pool_leases (pl z) ! l) = 1 \<and> (\<not> pool_closed (pl z) \<longrightarrow> covered ls o1)"
proof -
  have "l < length (pool_leases (pl y))"
    using d inv ownedD(1) by (auto simp: direct_def psys_inv_def)
  then show ?thesis using d ok m by (auto simp: direct_ok_def pool_mono_def)
qed

lemma direct_streams:
  assumes "pool_mono (pl y) (pl z)" "direct z (Stream_owner x) l" "x < length (pool_streams (pl y))"
  shows "direct y (Stream_owner x) l"
  using assms by (auto simp: direct_def pool_mono_def split: if_splits)

lemma direct_internal:
  assumes "pool_internal y z" "direct z o1 l"
  shows "direct y o1 l"
proof (cases o1)
  case (Op_owner k)
  obtain op where op: "k < length (ops z)" "ops z ! k = Awaiting op l" "op \<noteq> Batch"
    using assms(2) Op_owner by (auto simp: direct_def split: if_splits op_pc.splits)
  then have "k < length (ops y) \<and> ops y ! k = Awaiting op l" using assms(1) unfolding pool_internal_def by blast
  then show ?thesis using op(3) Op_owner by (cases op) (auto simp: direct_def)
next
  case (Stream_owner x)
  have "x < length (pool_streams (pl z))" using assms(2) Stream_owner by (auto simp: direct_def split: if_splits)
  then show ?thesis
    using direct_streams [of y z x l] pool_step_mono [of y z] assms Stream_owner by (simp add: pool_internal_def)
qed

lemma direct_ended:
  assumes "pool_mono (pl y) p" "pool_streams p = pool_streams (pl y)" "k < length (ops y)" "direct (end_op k p y) o1 l"
  shows "direct y o1 l \<and> o1 \<noteq> Op_owner k"
  using assms by (cases o1) (auto simp: direct_def nth_list_update split: if_splits)

lemma covered_update: "covered ls o1 \<Longrightarrow> q < length ls \<Longrightarrow> link_owner (ls ! q) \<noteq> Some o1 \<Longrightarrow> covered (ls[q := lk]) o1"
  by (auto simp: covered_def nth_list_update)

section \<open>Every step keeps the links\<close>

lemma select_failed: "slots p \<noteq> [] \<Longrightarrow> select w p = (Inl e, q) \<Longrightarrow> q = p"
  by (cases rule: select_cases [where w = w]) auto

lemma finally_release_state: "snd (finally_release l rp) = snd (pool_release l (snd rp))"
  by (cases "pool_release l (snd rp)"; cases "fst (pool_release l (snd rp))") (auto simp: finally_release_def)

lemma leaf_handlers_state: "snd (leaf_handlers op b r p) = snd (leaf_handlers op b (map_sum id (\<lambda>_. ()) r) p)"
  by (cases r; cases "mark_unhealthy b p"; cases "fst (mark_unhealthy b p)") (auto simp: leaf_handlers_def)

lemma generate_done_unit: "snd (generate_done l r p) = snd (generate_done l (map_sum id (\<lambda>_. ()) r) p)"
  by (simp add: generate_done_def finally_release_state leaf_handlers_state [of _ _ r])

lemma chat_called_answers:
  assumes "q < length (chats g)"
  shows "\<exists>x. chat_phase (chats (leave_with q l r g) ! q) = Answered x"
  using assms by (auto simp: leave_with_def Let_def set_chat_def set_ctl_def case_prod_beta split: sum.split)

lemma leave_with_frame:
  "length (chats (leave_with q l r g)) = length (chats g)"
  "p \<noteq> q \<Longrightarrow> chats (leave_with q l r g) ! p = chats g ! p"
  by (auto simp: leave_with_def Let_def set_chat_def set_ctl_def case_prod_beta split: sum.split)

lemma links_ok_at:
  assumes ok: "links_ok g ls" and q: "q < length (chats g)"
    and len: "length (chats h) = length (chats g)" and rest: "\<And>p. p \<noteq> q \<Longrightarrow> chats h ! p = chats g ! p"
    and here: "lk \<noteq> Unlinked \<Longrightarrow> direct_service (chats h ! q)"
  shows "links_ok h (ls[q := lk])"
  using ok q len rest here by (auto simp: links_ok_def nth_list_update)

lemma unlinked_before:
  assumes "links_ok g ls" "q < length (chats g)" "\<not> direct_service (chats g ! q)"
  shows "ls ! q = Unlinked"
  using assms by (auto simp: links_ok_def)

lemma chat_admitted_frame:
  "length (chats (chat_admitted q r g)) = length (chats g)"
  "p \<noteq> q \<Longrightarrow> chats (chat_admitted q r g) ! p = chats g ! p"
  by (auto simp: chat_admitted_def Let_def leave_with_frame set_chat_def split: sum.split)

lemma rt_invD:
  assumes "rt_inv late rt"
  shows "gw_inv late (rt_gw rt)" "psys_inv (rt_pool rt)" "links_ok (rt_gw rt) (rt_links rt)"
    "direct_ok (rt_pool rt) (rt_links rt)" "length (rt_links rt) = length (chats (rt_gw rt))" "slots (pl (rt_pool rt)) \<noteq> []"
  using assms by (auto simp: rt_inv_def links_ok_def psys_inv_def pool_inv_def)

text \<open>A step of the pool that only ends or moves what is already owned.\<close>

lemma direct_ok_step:
  assumes inv: "psys_inv y" and ok: "direct_ok y ls" and m: "pool_mono (pl y) (pl z)"
    and old: "\<And>o1 l. direct z o1 l \<Longrightarrow> \<not> (direct y o1 l \<and> (covered ls o1 \<longrightarrow> covered ls' o1)) \<Longrightarrow>
      weight (pool_leases (pl z) ! l) = 1 \<and> (\<not> pool_closed (pl z) \<longrightarrow> covered ls' o1)"
  shows "direct_ok z ls'"
  using direct_old [OF _ ok inv m] old unfolding direct_ok_def by blast

lemma direct_ok_ended:
  assumes inv: "psys_inv y" and ok: "direct_ok y ls" and m: "pool_mono (pl y) p" and st: "pool_streams p = pool_streams (pl y)"
    and k: "k < length (ops y)" and q: "q < length ls" "ls ! q = Op_link k"
  shows "direct_ok (end_op k p y) (ls[q := lk])"
proof (rule direct_ok_step [OF inv ok])
  show "pool_mono (pl y) (pl (end_op k p y))" using m by simp
  show "weight (pool_leases (pl (end_op k p y)) ! l) = 1 \<and> (\<not> pool_closed (pl (end_op k p y)) \<longrightarrow> covered (ls[q := lk]) o1)"
    if "direct (end_op k p y) o1 l" "\<not> (direct y o1 l \<and> (covered ls o1 \<longrightarrow> covered (ls[q := lk]) o1))" for o1 l
    using direct_ended [OF m st k that(1)] that(2) covered_update [OF _ q(1), of o1 lk] q(2) by auto
qed

lemma direct_ok_internal:
  assumes "psys_inv y" "direct_ok y ls" "pool_internal y z"
  shows "direct_ok z ls"
  using assms direct_internal [OF assms(3)]
  by (intro direct_ok_step [OF assms(1,2)]) (auto simp: pool_internal_def pool_step_mono)

lemma direct_ok_begun:
  assumes inv: "psys_inv y" and ok: "direct_ok y ls" and sel: "select 1 (pl y) = (Inr b, p)" and q: "q < length ls" "ls ! q = Unlinked"
  shows "direct_ok (y\<lparr>pl := p, ops := ops y @ [Awaiting op b]\<rparr>) (ls[q := Op_link (length (ops y))])"
    (is "direct_ok ?z ?ls")
proof (rule direct_ok_step [OF inv ok])
  have ne: "slots (pl y) \<noteq> []" using inv by (simp add: psys_inv_def pool_inv_def)
  have p: "\<exists>i. p = assign_slot i 1 (pl y) \<and> b = length (pool_leases (pl y))"
    using ne sel by (cases rule: select_cases [where w = 1]) auto
  show "pool_mono (pl y) (pl ?z)" using mono_select [of "pl y" 1] sel by simp
  show "weight (pool_leases (pl ?z) ! l) = 1 \<and> (\<not> pool_closed (pl ?z) \<longrightarrow> covered ?ls o1)"
    if d: "direct ?z o1 l" and n: "\<not> (direct y o1 l \<and> (covered ls o1 \<longrightarrow> covered ?ls o1))" for o1 l
  proof (cases "o1 = Op_owner (length (ops y))")
    case True
    then show ?thesis using d p q(1) by (auto simp: direct_def covered_def intro!: exI [of _ q])
  next
    case False
    then have "direct y o1 l" using d p by (cases o1) (auto simp: direct_def nth_append split: if_splits)
    then show ?thesis using n covered_update [OF _ q(1)] q(2) by auto
  qed
qed

lemma direct_ok_opened:
  assumes inv: "psys_inv y" and ok: "direct_ok y ls" and k: "k < length (ops y)" "ops y ! k = Awaiting Stream b"
    and eq: "open_done b (pl y) = (r, x, p)" and q: "q < length ls" "ls ! q = Op_link k"
  shows "direct_ok (end_op k p y) (ls[q := Stream_link x])" (is "direct_ok ?z ?ls")
proof (rule direct_ok_step [OF inv ok])
  note d = open_done_ok [OF _ lease_in_range [OF inv k] eq]
  have pi: "pool_inv (pl y)" using inv by (simp add: psys_inv_def)
  show "pool_mono (pl y) (pl ?z)" using mono_open_done [OF eq] by simp
  show "weight (pool_leases (pl ?z) ! l) = 1 \<and> (\<not> pool_closed (pl ?z) \<longrightarrow> covered ?ls o1)"
    if dz: "direct ?z o1 l" and n: "\<not> (direct y o1 l \<and> (covered ls o1 \<longrightarrow> covered ?ls o1))" for o1 l
  proof (cases "o1 = Stream_owner x")
    case True
    then have "l = b" using dz d(3,8) [OF pi] by (auto simp: direct_def split: if_splits)
    moreover have "weight (pool_leases (pl y) ! b) = 1"
      using ok k by (auto simp: direct_ok_def direct_def elim!: allE [of _ "Op_owner k"])
    ultimately show ?thesis using d(5) [OF pi] True q(1) by (auto simp: covered_def intro!: exI [of _ q])
  next
    case False
    then have "direct y o1 l \<and> o1 \<noteq> Op_owner k"
      using dz k d(3,8) [OF pi] by (cases o1) (auto simp: direct_def nth_append nth_list_update split: if_splits)
    then show ?thesis using n covered_update [OF _ q(1)] q(2) by auto
  qed
qed

lemma direct_ok_finish_start:
  assumes inv: "psys_inv y" and ok: "direct_ok y ls"
  shows "direct_ok (y\<lparr>pl := finish_start x oc (pl y)\<rparr>) ls"
proof (rule direct_ok_step [OF inv ok])
  let ?z = "y\<lparr>pl := finish_start x oc (pl y)\<rparr>"
  show m: "pool_mono (pl y) (pl ?z)" by (simp add: mono_finish_start)
  have len: "length (pool_streams (pl ?z)) = length (pool_streams (pl y))" by (simp add: finish_start_def)
  show "weight (pool_leases (pl ?z) ! l) = 1 \<and> (\<not> pool_closed (pl ?z) \<longrightarrow> covered ls o1)"
    if d: "direct ?z o1 l" and n: "\<not> (direct y o1 l \<and> (covered ls o1 \<longrightarrow> covered ls o1))" for o1 l
  proof (cases o1)
    case (Op_owner k)
    then show ?thesis using d n by (simp add: direct_def)
  next
    case (Stream_owner u)
    then have "u < length (pool_streams (pl y))" using d len by (auto simp: direct_def split: if_splits)
    then show ?thesis using direct_streams [OF m] d n Stream_owner by blast
  qed
qed

text \<open>Giving up the link to a stream that is shut, or of a pool that is closed.\<close>

lemma direct_ok_unlink:
  assumes ok: "direct_ok y ls" and q: "q < length ls" "ls ! q = Stream_link x"
    and e: "stream_phase (pool_streams (pl y) ! x) = Shut \<or> pool_closed (pl y)"
  shows "direct_ok y (ls[q := Unlinked])"
proof -
  have "covered (ls[q := Unlinked]) o1" if d: "direct y o1 l" "\<not> pool_closed (pl y)" for o1 l
  proof -
    have "o1 \<noteq> Stream_owner x" using d e by (auto simp: direct_def split: if_splits)
    then show ?thesis using ok d covered_update [OF _ q(1), of o1 Unlinked] q(2) by (auto simp: direct_ok_def)
  qed
  then show ?thesis using ok by (auto simp: direct_ok_def)
qed

section \<open>The invariant\<close>

text \<open>A step that concerns the request \<open>q\<close> alone.\<close>

lemma rt_inv_link:
  assumes inv: "rt_inv late rt" and q: "q < length (chats (rt_gw rt))" and g: "gw_inv late h" and y: "psys_inv y"
    and len: "length (chats h) = length (chats (rt_gw rt))" and rest: "\<And>p. p \<noteq> q \<Longrightarrow> chats h ! p = chats (rt_gw rt) ! p"
    and here: "lk \<noteq> Unlinked \<Longrightarrow> direct_service (chats h ! q)" and d: "direct_ok y ((rt_links rt)[q := lk])"
  shows "rt_inv late (link_to q lk h y rt)"
  using g y d links_ok_at [OF rt_invD(3) [OF inv] q len rest here] by (simp add: rt_inv_def link_to_def)

lemma rt_inv_gw:
  assumes inv: "rt_inv late rt" and step: "gw_step late loads (rt_gw rt) g" and ok: "links_ok g (rt_links rt)"
  shows "rt_inv late (rt\<lparr>rt_gw := g\<rparr>)"
  using rt_invD [OF inv] gw_inv_step [OF _ step] ok by (simp add: rt_inv_def)

lemma rt_inv_leave:
  assumes inv: "rt_inv late rt" and q: "q < length (chats (rt_gw rt))" and step: "gw_step late loads (rt_gw rt) (leave_with q l r (rt_gw rt))"
    and un: "rt_links rt ! q = Unlinked"
  shows "rt_inv late (rt\<lparr>rt_gw := leave_with q l r (rt_gw rt)\<rparr>)"
proof (rule rt_inv_gw [OF inv step])
  have "links_ok (leave_with q l r (rt_gw rt)) ((rt_links rt)[q := Unlinked])"
    by (rule links_ok_at [OF rt_invD(3) [OF inv] q]) (simp_all add: leave_with_frame)
  then show "links_ok (leave_with q l r (rt_gw rt)) (rt_links rt)" using un by (metis list_update_id)
qed

lemma rt_inv_route:
  assumes inv: "rt_inv late rt" and q: "q < length (chats (rt_gw rt))" and un: "rt_links rt ! q = Unlinked"
    and ds: "direct_service (chats (rt_gw rt) ! q)" and op: "op \<noteq> Batch" and failed: "\<And>e. rt_inv late (rt\<lparr>rt_gw := failed e\<rparr>)"
  shows "rt_inv late (route q op failed rt)"
proof (cases "select 1 (pl (rt_pool rt))")
  case (Pair r p)
  note I = rt_invD [OF inv]
  show ?thesis
  proof (cases r)
    case (Inl e)
    then have "p = pl (rt_pool rt)" using Pair select_failed [OF I(6)] by blast
    then show ?thesis using failed [of e] Pair Inl by (simp add: route_def)
  next
    case (Inr b)
    have sel: "select 1 (pl (rt_pool rt)) = (Inr b, p)" using Pair Inr by simp
    have "psys_inv ((rt_pool rt)\<lparr>pl := p, ops := ops (rt_pool rt) @ [Awaiting op b]\<rparr>)" by (rule psys_begun [OF I(2) sel])
    moreover have "direct_ok ((rt_pool rt)\<lparr>pl := p, ops := ops (rt_pool rt) @ [Awaiting op b]\<rparr>)
        ((rt_links rt)[q := Op_link (length (ops (rt_pool rt)))])"
      using q I(5) un by (intro direct_ok_begun [OF I(2,4) sel]) simp_all
    ultimately show ?thesis
      using I(1) ds by (auto simp: route_def sel intro!: rt_inv_link [OF inv q])
  qed
qed

lemma rt_inv_call:
  assumes inv: "rt_inv late rt" and q: "q < length (chats (rt_gw rt))" and un: "rt_links rt ! q = Unlinked"
  shows "rt_inv late (call_backend q rt)"
proof (cases "chat_phase (chats (rt_gw rt) ! q)")
  case (Calling l)
  have "gw_step late (\<lambda>_. None) (rt_gw rt) (chat_called q l r (rt_gw rt))" for r by (rule gw_step.called [OF q Calling])
  then have fail: "rt_inv late (rt\<lparr>rt_gw := chat_called q l (Inl e) (rt_gw rt)\<rparr>)" for e
    unfolding chat_called_def by (intro rt_inv_leave [OF inv q _ un])
  have "rt_inv late (route q Generate (\<lambda>e. chat_called q l (Inl e) (rt_gw rt)) rt)" if "\<not> chat_eligible (chats (rt_gw rt) ! q)"
    using that Calling fail by (intro rt_inv_route [OF inv q un]) (simp_all add: direct_service_def)
  then show ?thesis using Calling inv by (simp add: call_backend_def Let_def)
next
  case (Opening l)
  have "gw_step late (\<lambda>_. None) (rt_gw rt) (chat_opened q l r (rt_gw rt))" for r by (rule gw_step.opened [OF q Opening])
  from this [of "Inl e" for e] have fail: "rt_inv late (rt\<lparr>rt_gw := chat_opened q l (Inl e) (rt_gw rt)\<rparr>)" for e
    unfolding chat_opened_def sum.case by (intro rt_inv_leave [OF inv q _ un])
  have "rt_inv late (route q Stream (\<lambda>e. chat_opened q l (Inl e) (rt_gw rt)) rt)"
    using Opening fail by (intro rt_inv_route [OF inv q un]) (simp_all add: direct_service_def)
  then show ?thesis using Opening by (simp add: call_backend_def Let_def)
qed (use inv in \<open>simp_all add: call_backend_def Let_def\<close>)

text \<open>A linked request ends its operation of the pool.\<close>

lemma rt_inv_ended:
  assumes inv: "rt_inv late rt" and q: "q < length (chats (rt_gw rt))" "rt_links rt ! q = Op_link k"
    and g: "gw_step late loads (rt_gw rt) (leave_with q l r (rt_gw rt))"
    and k: "k < length (ops (rt_pool rt))" and y: "pool_step (rt_pool rt) (end_op k p (rt_pool rt))"
    and st: "pool_streams p = pool_streams (pl (rt_pool rt))"
  shows "rt_inv late (link_to q Unlinked (leave_with q l r (rt_gw rt)) (end_op k p (rt_pool rt)) rt)"
proof (rule rt_inv_link [OF inv q(1)])
  note I = rt_invD [OF inv]
  have "pool_mono (pl (rt_pool rt)) p" using pool_step_mono [OF y] by simp
  then show "direct_ok (end_op k p (rt_pool rt)) ((rt_links rt)[q := Unlinked])"
    using I(5) q st k by (intro direct_ok_ended [OF I(2,4)]) simp_all
  show "gw_inv late (leave_with q l r (rt_gw rt))" by (rule gw_inv_step [OF I(1) g])
  show "psys_inv (end_op k p (rt_pool rt))" by (rule psys_inv_step [OF I(2) y])
qed (simp_all add: leave_with_frame)

lemma rt_inv_admitted:
  assumes inv: "rt_inv late rt" and q: "q < length (chats (rt_gw rt))" "chat_phase (chats (rt_gw rt) ! q) = Admitting"
    and step: "gw_step late loads (rt_gw rt) (chat_admitted q r (rt_gw rt))"
  shows "rt_inv late (call_backend q (rt\<lparr>rt_gw := chat_admitted q r (rt_gw rt)\<rparr>))"
proof -
  note I = rt_invD [OF inv]
  have un: "rt_links rt ! q = Unlinked" using unlinked_before [OF I(3) q(1)] q(2) by (simp add: direct_service_def)
  have "links_ok (chat_admitted q r (rt_gw rt)) ((rt_links rt)[q := Unlinked])"
    by (rule links_ok_at [OF I(3) q(1)]) (simp_all add: chat_admitted_frame)
  then have "links_ok (chat_admitted q r (rt_gw rt)) (rt_links rt)" using un by (metis list_update_id)
  then have "rt_inv late (rt\<lparr>rt_gw := chat_admitted q r (rt_gw rt)\<rparr>)" by (rule rt_inv_gw [OF inv step])
  then show ?thesis using q(1) un by (intro rt_inv_call) (simp_all add: chat_admitted_frame)
qed

lemma rt_inv_generated:
  assumes inv: "rt_inv late rt" and q: "q < length (chats (rt_gw rt))" "chat_phase (chats (rt_gw rt) ! q) = Calling l"
    and k: "rt_links rt ! q = Op_link k" "k < length (ops (rt_pool rt))" "ops (rt_pool rt) ! k = Awaiting Generate b"
    and eq: "generate_done b r (pl (rt_pool rt)) = (res, p)"
  shows "rt_inv late (link_to q Unlinked (chat_called q l res (rt_gw rt)) (end_op k p (rt_pool rt)) rt)"
  unfolding chat_called_def
proof (rule rt_inv_ended [OF inv q(1) k(1) _ k(2)])
  note y = rt_invD(2) [OF inv]
  show "gw_step late (\<lambda>_. None) (rt_gw rt) (leave_with q l res (rt_gw rt))"
    using gw_step.called [OF q] by (simp add: chat_called_def)
  have "p = snd (generate_done b (map_sum id (\<lambda>_. ()) r) (pl (rt_pool rt)))"
    using eq generate_done_unit [of b r "pl (rt_pool rt)"] by simp
  then show "pool_step (rt_pool rt) (end_op k p (rt_pool rt))" using pool_step.generated [OF k(2,3)] by simp
  show "pool_streams p = pool_streams (pl (rt_pool rt))"
    using generate_done_ok [OF _ lease_in_range [OF y k(2,3)], of r] y eq by (metis prod.inject psys_inv_def)
qed

lemma rt_inv_not_opened:
  assumes inv: "rt_inv late rt" and q: "q < length (chats (rt_gw rt))" "chat_phase (chats (rt_gw rt) ! q) = Opening l"
    and k: "rt_links rt ! q = Op_link k" "k < length (ops (rt_pool rt))" "ops (rt_pool rt) ! k = Awaiting Stream b"
    and eq: "open_failed b e (pl (rt_pool rt)) = (Inl e1, p)"
  shows "rt_inv late (link_to q Unlinked (chat_opened q l (Inl e1) (rt_gw rt)) (end_op k p (rt_pool rt)) rt)"
  unfolding chat_opened_def sum.case
proof (rule rt_inv_ended [OF inv q(1) k(1) _ k(2)])
  note y = rt_invD(2) [OF inv]
  show "gw_step late (\<lambda>_. None) (rt_gw rt) (leave_with q l (Inl e1) (rt_gw rt))"
    using gw_step.opened [OF q, where s = "Inl e1"] by (simp add: chat_opened_def)
  show "pool_step (rt_pool rt) (end_op k p (rt_pool rt))" using pool_step.not_opened [OF k(2,3), of e] eq by simp
  show "pool_streams p = pool_streams (pl (rt_pool rt))"
    using open_failed_ok [OF _ lease_in_range [OF y k(2,3)], of e] y eq by (metis prod.inject psys_inv_def)
qed

lemma rt_inv_opened:
  assumes inv: "rt_inv late rt" and q: "q < length (chats (rt_gw rt))" "chat_phase (chats (rt_gw rt) ! q) = Opening l"
    and k: "rt_links rt ! q = Op_link k" "k < length (ops (rt_pool rt))" "ops (rt_pool rt) ! k = Awaiting Stream b"
    and eq: "open_done b (pl (rt_pool rt)) = (r, x, p)"
    and h: "h = (if r then chat_opened q l (Inr s) (rt_gw rt) else rt_gw rt)"
  shows "rt_inv late (link_to q (Stream_link x) h (end_op k p (rt_pool rt)) rt)"
proof -
  note I = rt_invD [OF inv]
  obtain ob where o: "chat_opened q l (Inr s) (rt_gw rt) =
      set_chat q ((chats (rt_gw rt) ! q)\<lparr>chat_phase := Relaying (StreamingRelay l (Some ob))\<rparr>) (rt_gw rt)"
    by (cases s) (simp add: chat_opened_def SSEMetricsObserver_def)
  have "gw_inv late h" using I(1) gw_inv_step [OF I(1) gw_step.opened [OF q]] h by simp
  moreover have "direct_ok (end_op k p (rt_pool rt)) ((rt_links rt)[q := Stream_link x])"
    using q k I(5) by (intro direct_ok_opened [OF I(2,4) k(2,3) eq]) simp_all
  moreover have "length (chats h) = length (chats (rt_gw rt))" "p \<noteq> q \<Longrightarrow> chats h ! p = chats (rt_gw rt) ! p"
    "direct_service (chats h ! q)" for p
    using h o q by (auto simp: set_chat_def direct_service_def StreamingRelay_def relay_done_def)
  ultimately show ?thesis using psys_opened [OF I(2) k(2,3) eq] by (intro rt_inv_link [OF inv q(1)])
qed

text \<open>A request gives up a stream that is shut, or one of a closed pool.\<close>

lemma rt_inv_unlink:
  assumes inv: "rt_inv late rt" and q: "q < length (chats (rt_gw rt))" "rt_links rt ! q = Stream_link x"
    and e: "stream_phase (pool_streams (pl (rt_pool rt)) ! x) = Shut \<or> pool_closed (pl (rt_pool rt))"
    and g: "gw_step late loads (rt_gw rt) h"
    and h: "length (chats h) = length (chats (rt_gw rt))" "\<And>p. p \<noteq> q \<Longrightarrow> chats h ! p = chats (rt_gw rt) ! p"
  shows "rt_inv late (link_to q Unlinked h (rt_pool rt) rt)"
proof (rule rt_inv_link [OF inv q(1) _ _ h])
  note I = rt_invD [OF inv]
  show "gw_inv late h" by (rule gw_inv_step [OF I(1) g])
  show "direct_ok (rt_pool rt) ((rt_links rt)[q := Unlinked])"
    using direct_ok_unlink [OF I(4) _ q(2) e] q(1) I(5) by simp
qed (use rt_invD [OF inv] in simp_all)

lemma relay_links:
  assumes ok: "links_ok g ls" and q: "q < length (chats g)" "chat_phase (chats g ! q) = Relaying rl"
    and h: "length (chats h) = length (chats g)" "\<And>p. p \<noteq> q \<Longrightarrow> chats h ! p = chats g ! p"
    "chat_phase (chats h ! q) = Relaying rn" "\<not> relay_done rl \<Longrightarrow> \<not> relay_done rn"
  shows "links_ok h ls"
proof -
  have "links_ok h (ls[q := ls ! q])"
    using h ok q by (intro links_ok_at [OF ok q(1)]) (auto simp: links_ok_def direct_service_def)
  then show ?thesis by simp
qed

lemma chunk_links:
  assumes "links_ok g ls" "q < length (chats g)" "chat_phase (chats g ! q) = Relaying rl"
  shows "links_ok (chat_chunk loads q rl now bytes g) ls"
proof -
  obtain rl1 m where o: "relay_observe loads now bytes rl (gw_metrics g) = (rl1, m)" by fastforce
  show ?thesis using assms(2) relay_observe_frame [OF o]
    by (intro relay_links [where rn = rl1, OF assms]) (simp_all add: chat_chunk_def o set_chat_def)
qed

lemma aclose_begin_links:
  assumes "links_ok g ls" "q < length (chats g)" "chat_phase (chats g ! q) = Relaying rl" "relay_closing rl = None"
  shows "links_ok (chat_aclose_begin q rl oc g) ls"
  using assms(2,4) by (intro relay_links [where rn = "snd (aclose_begin oc rl)", OF assms(1-3)])
    (simp_all add: chat_aclose_begin_def set_chat_def aclose_begin_def relay_done_def)

lemma aclose_finish_chats:
  "length (chats (chat_aclose_finish q rl up g)) = length (chats g)"
  "p \<noteq> q \<Longrightarrow> chats (chat_aclose_finish q rl up g) ! p = chats g ! p"
  by (auto simp: chat_aclose_finish_def Let_def case_prod_beta set_chat_def set_ctl_def)

lemma begin_links: "links_ok g ls \<Longrightarrow> links_ok (chat_begin t p now g) (ls @ [Unlinked])"
  by (auto simp: links_ok_def chat_begin_def Let_def nth_append case_prod_beta split: sum.split)

lemma direct_ok_append: "direct_ok y ls \<Longrightarrow> direct_ok y (ls @ [lk])"
  by (fastforce simp: direct_ok_def covered_def nth_append)

lemma rt_inv_step:
  assumes inv: "rt_inv late rt" and step: "rt_step late loads rt rt'"
  shows "rt_inv late rt'"
  using step
proof cases
  note I = rt_invD [OF inv]
  {
    case (rt_arrives t p now)
    then show ?thesis
      using I begin_links direct_ok_append gw_inv_step [OF I(1) gw_step.arrives] by (simp add: rt_inv_def)
  next
    case (rt_controller z)
    then show ?thesis using I(3) gw_step.controller by (auto intro!: rt_inv_gw [OF inv] simp: links_ok_def)
  next
    case (rt_admitted q k r)
    show ?thesis unfolding rt_admitted(1)
      by (rule rt_inv_admitted [OF inv rt_admitted(2,3) gw_step.admitted [OF rt_admitted(2-5)]])
  next
    case (rt_batched q l r)
    have "rt_links rt ! q = Unlinked"
      using unlinked_before [OF I(3) rt_batched(2)] rt_batched(3,4) by (simp add: direct_service_def)
    then show ?thesis unfolding rt_batched(1) chat_called_def
      using rt_inv_leave [OF inv rt_batched(2)] gw_step.called [OF rt_batched(2,3)] by (simp add: chat_called_def)
  next
    case (rt_generated q l k b r res p)
    show ?thesis unfolding rt_generated(1) by (rule rt_inv_generated [OF inv rt_generated(2-7)])
  next
    case (rt_not_opened q l k b e e1 p)
    show ?thesis unfolding rt_not_opened(1) by (rule rt_inv_not_opened [OF inv rt_not_opened(2-7)])
  next
    case (rt_opened q l k b x p started)
    show ?thesis unfolding rt_opened(1) by (rule rt_inv_opened [OF inv rt_opened(2-7)]) simp
  next
    case (rt_refused q l k b x p)
    show ?thesis unfolding rt_refused(1) by (rule rt_inv_opened [OF inv rt_refused(2-7)]) simp
  next
    case (rt_rejected q l x e)
    have "gw_step late loads (rt_gw rt) (chat_opened q l (Inl e) (rt_gw rt))" by (rule gw_step.opened [OF rt_rejected(2,3)])
    then show ?thesis unfolding rt_rejected(1)
      using rt_rejected(5) by (intro rt_inv_unlink [OF inv rt_rejected(2,4)]) (simp_all add: chat_opened_def leave_with_frame)
  next
    case (rt_chunk q rl now bytes)
    show ?thesis unfolding rt_chunk(1)
      by (rule rt_inv_gw [OF inv gw_step.chunk [OF rt_chunk(2,3)] chunk_links [OF I(3) rt_chunk(2,3)]])
  next
    case (rt_closes q rl x oc)
    have "psys_inv ((rt_pool rt)\<lparr>pl := finish_start x Cancelled_op (pl (rt_pool rt))\<rparr>)"
      by (rule psys_inv_step [OF I(2) pool_step.aclose [OF rt_closes(7)]])
    then show ?thesis unfolding rt_closes(1)
      using aclose_begin_links [OF I(3) rt_closes(2,3,4)] direct_ok_finish_start [OF I(2,4)]
        gw_inv_step [OF I(1) gw_step.closes [OF rt_closes(2,3,4)]] by (simp add: rt_inv_def)
  next
    case (rt_closes_again q rl oc)
    show ?thesis unfolding rt_closes_again(1)
      by (rule rt_inv_gw [OF inv gw_step.closes [OF rt_closes_again(2-4)] aclose_begin_links [OF I(3) rt_closes_again(2-4)]])
  next
    case (rt_closed q rl x up)
    have "gw_step late loads (rt_gw rt) (chat_aclose_finish q rl up (rt_gw rt))" by (rule gw_step.closed [OF rt_closed(2,3,4)])
    then show ?thesis unfolding rt_closed(1)
      using rt_closed(6) by (intro rt_inv_unlink [OF inv rt_closed(2,5)]) (auto simp: aclose_finish_chats)
  next
    case (rt_pool_step z)
    then show ?thesis using I psys_inv_step [OF I(2), of z] direct_ok_internal [OF I(2,4)]
      by (simp add: rt_inv_def pool_internal_def)
  }
qed

lemma rt_inv_start: "rt_start rt \<Longrightarrow> rt_inv late rt"
proof -
  assume s: "rt_start rt"
  have "\<exists>b i t ob. BackendPool b i t ob = Inr (pl (rt_pool rt))" using s by (simp add: rt_start_def pool_init_def)
  then have "pool_streams (pl (rt_pool rt)) = []" using BackendPool_ok by (metis)
  moreover have "ops (rt_pool rt) = []" using s by (simp add: rt_start_def pool_init_def)
  ultimately have "\<not> direct (rt_pool rt) o1 l" for o1 l by (cases o1) (simp_all add: direct_def)
  then show ?thesis
    using s gw_inv_start psys_inv_init by (simp add: rt_start_def rt_inv_def links_ok_def direct_ok_def gw_start_def)
qed

interpretation routed: inv_system rt_start "rt_step late loads" "rt_inv late" for late loads
  using rt_inv_start rt_inv_step by unfold_locales

abbreviation rt_reachable :: "bool \<Rightarrow> (string \<Rightarrow> json option) \<Rightarrow> routed \<Rightarrow> bool" where
  "rt_reachable late loads rt \<equiv> \<exists>rt0. rt_start rt0 \<and> (rt_step late loads)\<^sup>*\<^sup>* rt0 rt"

lemma reachable_rt_inv: "rt_reachable late loads rt \<Longrightarrow> rt_inv late rt"
  using routed.reachable_inv by blast

section \<open>The load of the backends\<close>

definition batch_weight :: "pool \<Rightarrow> op_pc \<Rightarrow> int" where
  "batch_weight p pc = (case pc of Awaiting op l \<Rightarrow> if op = Batch then weight (pool_leases p ! l) else 0 | Ended \<Rightarrow> 0)"

text \<open>The weight of the batches that have not come back.\<close>

definition batch_load :: "pool_sys \<Rightarrow> int" where
  "batch_load y = (\<Sum>pc\<leftarrow>ops y. batch_weight (pl y) pc)"

lemma total_inflight_live:
  assumes "pool_inv p"
  shows "total_inflight p = (\<Sum>l\<in>pool_live p. weight (pool_leases p ! l))"
proof -
  obtain ls where ls: "set ls = pool_live p" using finite_list pool_ledger.live_finite [OF assms] by blast
  let ?q = "fold pool_release_once ls p"
  have q: "pool_inv ?q" "pool_live ?q = {}"
    using pool_ledger.fold_release_inv pool_ledger.fold_release_live assms ls by simp_all
  have "slot_inflight sl = 0" if "sl \<in> set (slots ?q)" for sl
    using that pool_invD(6) [OF q(1)] no_live_no_load [OF q(2)] by (auto simp: in_set_conv_nth)
  then have "map slot_inflight (slots ?q) = map (\<lambda>_. 0) (slots ?q)" by simp
  then have "total_inflight ?q = 0" unfolding total_inflight_def by (metis sum_list_0)
  then have "total_inflight p = (\<Sum>l\<in>pool_live p. if l < length (pool_leases p) then weight (pool_leases p ! l) else 0)"
    using pool_ledger.release_all_load [OF assms, of ls] ls by simp
  also have "\<dots> = (\<Sum>l\<in>pool_live p. weight (pool_leases p ! l))" by (rule sum.cong) (auto simp: pool_live_def)
  finally show ?thesis .
qed

text \<open>What each operation outside the batcher and each stream holds, a request in service holds.\<close>

lemma direct_leases_card:
  assumes inv: "rt_inv late rt" and op: "\<not> pool_closed (pl (rt_pool rt))" and D: "\<forall>l\<in>D. \<exists>o1. direct (rt_pool rt) o1 l"
  shows "card D \<le> card (in_service (rt_gw rt))"
proof -
  note I = rt_invD [OF inv]
  let ?h = "\<lambda>q. the (own_of (ops (rt_pool rt)) (pool_streams (pl (rt_pool rt))) (the (link_owner (rt_links rt ! q))))"
  have fin: "finite (in_service (rt_gw rt))" by (simp add: in_service_def)
  have "D \<subseteq> ?h ` in_service (rt_gw rt)"
  proof
    fix l assume "l \<in> D"
    then obtain o1 where o: "direct (rt_pool rt) o1 l" using D by blast
    then obtain q where q: "q < length (rt_links rt)" "link_owner (rt_links rt ! q) = Some o1"
      using I(4) op unfolding direct_ok_def covered_def by blast
    have "rt_links rt ! q \<noteq> Unlinked" using q(2) by auto
    then have "direct_service (chats (rt_gw rt) ! q)" using I(3) q(1) by (simp add: links_ok_def)
    then have "q \<in> in_service (rt_gw rt)"
      using q(1) I(5) by (auto simp: in_service_def lease_held_def direct_service_def split: chat_phase.splits)
    moreover have "?h q = l" using o q(2) by (simp add: direct_def)
    ultimately show "l \<in> ?h ` in_service (rt_gw rt)" by force
  qed
  then have "card D \<le> card (?h ` in_service (rt_gw rt))" using fin by (intro card_mono) simp_all
  then show ?thesis using card_image_le [OF fin, of ?h] by linarith
qed

lemma batch_leases_load:
  assumes inv: "psys_inv y" and B: "\<forall>l\<in>B. \<exists>k<length (ops y). ops y ! k = Awaiting Batch l"
  shows "(\<Sum>l\<in>B. weight (pool_leases (pl y) ! l)) \<le> batch_load y"
proof -
  let ?w = "\<lambda>l. weight (pool_leases (pl y) ! l)" and ?K = "{k. k < length (ops y) \<and> (\<exists>l\<in>B. ops y ! k = Awaiting Batch l)}"
  let ?g = "\<lambda>k. case ops y ! k of Awaiting op l \<Rightarrow> l | Ended \<Rightarrow> 0"
  have pos: "0 \<le> ?w l" if "k < length (ops y)" "ops y ! k = Awaiting op l" for k op l
    using inv lease_in_range [OF inv that] by (auto simp: psys_inv_def pool_inv_def less_imp_le)
  have img: "?g ` ?K = B"
  proof
    show "?g ` ?K \<subseteq> B" by auto
    show "B \<subseteq> ?g ` ?K"
    proof
      fix l assume l: "l \<in> B"
      then obtain k where "k < length (ops y)" "ops y ! k = Awaiting Batch l" using B by blast
      then show "l \<in> ?g ` ?K" using l by (intro image_eqI [of _ _ k]) auto
    qed
  qed
  have "(\<Sum>l\<in>?g ` ?K. ?w l) \<le> (\<Sum>k\<in>?K. (?w \<circ> ?g) k)"
    using pos by (intro sum_image_le) auto
  also have "\<dots> = (\<Sum>k\<in>?K. batch_weight (pl y) (ops y ! k))"
    by (rule sum.cong) (auto simp: batch_weight_def)
  also have "\<dots> \<le> (\<Sum>k\<in>{0..<length (ops y)}. batch_weight (pl y) (ops y ! k))"
    using pos by (intro sum_mono2) (auto simp: batch_weight_def split: op_pc.split)
  also have "\<dots> = batch_load y" by (simp add: batch_load_def sum_list_sum_nth)
  finally show ?thesis unfolding img .
qed

lemma load_by_service:
  assumes inv: "rt_inv late rt" and op: "\<not> pool_closed (pl (rt_pool rt))"
  shows "total_inflight (pl (rt_pool rt)) \<le> int (card (in_service (rt_gw rt))) + batch_load (rt_pool rt)"
proof -
  note I = rt_invD [OF inv]
  let ?y = "rt_pool rt" and ?w = "\<lambda>l. weight (pool_leases (pl (rt_pool rt)) ! l)"
  let ?D = "{l \<in> pool_live (pl ?y). \<exists>o1. direct ?y o1 l}" and ?B = "{l \<in> pool_live (pl ?y). \<not> (\<exists>o1. direct ?y o1 l)}"
  have pi: "pool_inv (pl ?y)" using I(2) by (simp add: psys_inv_def)
  have fin: "finite (pool_live (pl ?y))" by (rule pool_ledger.live_finite [OF pi])
  have "(\<Sum>l\<in>?D. ?w l) = (\<Sum>l\<in>?D. 1)" using I(4) by (intro sum.cong) (auto simp: direct_ok_def)
  also have "\<dots> \<le> int (card (in_service (rt_gw rt)))"
    using direct_leases_card [OF inv op, of ?D] by simp
  finally have D: "(\<Sum>l\<in>?D. ?w l) \<le> int (card (in_service (rt_gw rt)))" .
  have "\<exists>k<length (ops ?y). ops ?y ! k = Awaiting Batch l" if l: "l \<in> ?B" for l
  proof -
    obtain o1 where o: "own_of (ops ?y) (pool_streams (pl ?y)) o1 = Some l"
      using l I(2) ownedD(4) unfolding psys_inv_def by blast
    moreover have "\<not> direct ?y o1 l" using l by blast
    ultimately show ?thesis by (cases o1) (auto simp: direct_def split: if_splits op_pc.splits)
  qed
  then have B: "(\<Sum>l\<in>?B. ?w l) \<le> batch_load ?y" by (intro batch_leases_load [OF I(2)]) blast
  have "(\<Sum>l\<in>pool_live (pl ?y). ?w l) = (\<Sum>l\<in>?D. ?w l) + (\<Sum>l\<in>?B. ?w l)"
    using fin by (subst sum.union_disjoint [symmetric]) (auto intro: sum.cong)
  then show ?thesis using D B total_inflight_live [OF pi] by simp
qed

text \<open>
  C3. What admission limits is what the backends bear. For a gateway over a routing pool, however requests, streams,
  batches, probes, failures and cancellations interleave: while the pool is open, the inflight counts of all its backends together are
  at most the number of requests in service, hence at most \<open>global_max_inflight\<close>, plus the weight of the batches that
  have not come back. In particular nothing is inflight at any backend once no request is in service and no batch is out.
\<close>

theorem backend_load_bounded:
  assumes "rt_reachable late loads rt" and "\<not> pool_closed (pl (rt_pool rt))"
  shows "0 \<le> total_inflight (pl (rt_pool rt)) \<and>
    total_inflight (pl (rt_pool rt)) \<le> int (card (in_service (rt_gw rt))) + batch_load (rt_pool rt) \<and>
    total_inflight (pl (rt_pool rt)) \<le> global_max_inflight (ctl (gw_adm (rt_gw rt))) + batch_load (rt_pool rt)"
proof -
  have inv: "rt_inv late rt" by (rule reachable_rt_inv [OF assms(1)])
  have pi: "pool_inv (pl (rt_pool rt))" using rt_invD(2) [OF inv] by (simp add: psys_inv_def)
  have "0 \<le> weight (pool_leases (pl (rt_pool rt)) ! l)" if "l \<in> pool_live (pl (rt_pool rt))" for l
    using pi that by (auto simp: pool_inv_def pool_live_def less_imp_le)
  then have "0 \<le> total_inflight (pl (rt_pool rt))" unfolding total_inflight_live [OF pi] by (rule sum_nonneg)
  then show ?thesis using load_by_service [OF inv assms(2)] in_service_bound [OF rt_invD(1) [OF inv]] by simp
qed

section \<open>A run\<close>

text \<open>A stream is admitted and routed to the first of two healthy backends.\<close>

definition rt_run0 :: routed where
  "rt_run0 = \<lparr>rt_gw = gw_run0, rt_pool = example_pool0, rt_links = []\<rparr>"

definition rt_run1 :: routed where
  "rt_run1 = rt_run0\<lparr>rt_pool := example_pool1\<rparr>"

definition rt_run2 :: routed where
  "rt_run2 = rt_run1\<lparr>rt_gw := chat_begin example_a stream_request 0 (rt_gw rt_run1), rt_links := rt_links rt_run1 @ [Unlinked]\<rparr>"

definition rt_run3 :: routed where
  "rt_run3 = call_backend 0 (rt_run2\<lparr>rt_gw := chat_admitted 0 (Inr 0) (rt_gw rt_run2)\<rparr>)"

lemma rt_next: "rt_reachable late loads rt \<Longrightarrow> rt_step late loads rt ru \<Longrightarrow> rt_reachable late loads ru"
  by (meson rtranclp.rtrancl_into_rtrancl)

lemma probe_internal: "i < length (slots (pl y)) \<Longrightarrow> pool_internal y (y\<lparr>pl := snd (probe_done i r (pl y))\<rparr>)"
  using pool_step.probed by (auto simp: pool_internal_def probe_done_def set_health_def split: option.split)

lemma rt_run1_reachable: "rt_reachable late loads rt_run1"
proof -
  let ?y = "example_pool0\<lparr>pl := snd (probe_done 0 (Inr True) (pl example_pool0))\<rparr>"
  have l: "0 < length (slots (pl example_pool0))" "1 < length (slots (pl ?y))" by code_simp+
  have "rt_start rt_run0"
    using example_pool0_init example0_start by (simp add: rt_start_def rt_run0_def gw_start_def gw_run0_def)
  then have "rt_reachable late loads rt_run0" by blast
  moreover have "rt_step late loads rt_run0 (rt_run0\<lparr>rt_pool := ?y\<rparr>)"
    using probe_internal [OF l(1), of "Inr True"] by (intro rt_step.rt_pool_step) (simp add: rt_run0_def)
  moreover have "rt_step late loads (rt_run0\<lparr>rt_pool := ?y\<rparr>) ((rt_run0\<lparr>rt_pool := ?y\<rparr>)\<lparr>rt_pool := example_pool1\<rparr>)"
    using probe_internal [OF l(2), of "Inr True"] by (intro rt_step.rt_pool_step) (simp add: example_pool1_def)
  ultimately show ?thesis using rt_next by (simp add: rt_run1_def) blast
qed

lemma rt_run3_reachable: "rt_reachable late loads rt_run3"
proof -
  have "rt_reachable late loads rt_run2"
    unfolding rt_run2_def by (rule rt_next [OF rt_run1_reachable rt_step.rt_arrives])
  moreover have v: "phase_view (rt_gw rt_run2) = ((0, 0), Some 0) # []" "map call_pc (calls (gw_adm (rt_gw rt_run2))) = Done (Inr 0) # []"
    by code_simp+
  ultimately show ?thesis unfolding rt_run3_def
    using phase_viewD [OF v(1)] phase_tagD(1) v(2)
    by (intro rt_next [OF _ rt_step.rt_admitted]) auto
qed

theorem backend_load_bounded_witness:
  "rt_reachable True sample_loads rt_run3 \<and> total_inflight (pl (rt_pool rt_run3)) = 1 \<and> batch_load (rt_pool rt_run3) = 0 \<and>
   0 < card (in_service (rt_gw rt_run3))"
proof -
  have v: "\<not> pool_closed (pl (rt_pool rt_run3))" "total_inflight (pl (rt_pool rt_run3)) = 1" "batch_load (rt_pool rt_run3) = 0"
    by code_simp+
  then show ?thesis using backend_load_bounded [OF rt_run3_reachable [of True sample_loads] v(1)] rt_run3_reachable by simp
qed

end
