(* ===== verification/Gw_Http.thy ===== *)
theory Gw_Http
  imports Gw_Metrics
begin

text \<open>
  Around the endpoint: the exception handlers of \<open>gateway/core/errors.py\<close>, the request ids of
  \<open>gateway/core/request_id.py\<close> and the lifecycle metrics of \<open>gateway/observability/middleware.py\<close>. The
  dispatch of an exception to its handler, by class, is the web framework's: the handler of the most
  specific registered class, and none for a cancellation, which is no \<open>Exception\<close>.
\<close>

section \<open>Exception handlers\<close>

text \<open>An application without metrics is \<open>None\<close>.\<close>

definition record_error_metric :: "string \<Rightarrow> metrics option \<Rightarrow> metrics option" where
  "record_error_metric cd m = map_option (record_error cd) m"

definition gateway_error_handler :: "error_context \<Rightarrow> gateway_exc \<Rightarrow> metrics option \<Rightarrow> http_response \<times> metrics option" where
  "gateway_error_handler r x m =
     (error_response r (exc_status x) (exc_code x) (exc_message x) (class_response_headers (exc_class x)),
      record_error_metric (exc_code x) m)"

definition request_validation_error_handler :: "error_context \<Rightarrow> metrics option \<Rightarrow> http_response \<times> metrics option" where
  "request_validation_error_handler r m =
     (error_response r 400 ''invalid_request'' ''Invalid chat completion request'' [], record_error_metric ''invalid_request'' m)"

definition unexpected_error_handler :: "error_context \<Rightarrow> metrics option \<Rightarrow> http_response \<times> metrics option" where
  "unexpected_error_handler r m =
     (error_response r 500 ''internal_error'' ''Internal gateway error'' [], record_error_metric ''internal_error'' m)"

text \<open>The handlers as \<open>register_exception_handlers\<close> installs them.\<close>

fun handle_exception :: "error_context \<Rightarrow> exn \<Rightarrow> metrics option \<Rightarrow> (http_response \<times> metrics option) option" where
  "handle_exception r RequestValidationError m = Some (request_validation_error_handler r m)"
| "handle_exception r (Gateway x) m = Some (gateway_error_handler r x m)"
| "handle_exception r CancelledError m = None"
| "handle_exception r _ m = Some (unexpected_error_handler r m)"

section \<open>Request ids\<close>

text \<open>\<open>RequestIDMiddleware.dispatch\<close>: the id, from the request or a fresh UUID; and what it does to a response.\<close>

definition request_id_for :: "string option \<Rightarrow> string \<Rightarrow> string" where
  "request_id_for header uuid = (case header of Some h \<Rightarrow> if h = [] then uuid else h | None \<Rightarrow> uuid)"

definition tag_response :: "string \<Rightarrow> string \<Rightarrow> http_response \<Rightarrow> http_response" where
  "tag_response name rid resp = resp\<lparr>resp_headers := AList.update name rid (resp_headers resp)\<rparr>"

text \<open>
  \<open>dispatch\<close> around the rest of the application, a function of the request context; the context
  variable is reset whether it returns or raises. The last component is the context variable afterwards.
\<close>

definition request_id_dispatch ::
  "string \<Rightarrow> string option \<Rightarrow> string \<Rightarrow> (error_context \<Rightarrow> exn + http_response) \<Rightarrow> string option \<Rightarrow> (exn + http_response) \<times> string option" where
  "request_id_dispatch name header uuid call_next before =
     (let rid = request_id_for header uuid;
          r = call_next \<lparr>ctx_request_id = Some rid, state_request_id = Some rid, request_id_header = name\<rparr>
      in (case r of Inl e \<Rightarrow> Inl e | Inr resp \<Rightarrow> Inr (tag_response name rid resp), before))"

section \<open>Lifecycle metrics\<close>

datatype asgi_message = Response_start int | Response_body bool | Other_message

text \<open>The request state the middleware reads, and the clock, at the time of a message or of the end.\<close>

record request_view =
  view_mode :: mode
  view_upstream_error :: bool
  view_cancelled :: bool
  view_duration :: real

record lifecycle =
  lc_status :: "int option"
  lc_finalized :: bool
  lc_metrics :: metrics

definition is_inference_request :: "string option \<Rightarrow> string option \<Rightarrow> bool" where
  "is_inference_request method path \<longleftrightarrow> method = Some ''POST'' \<and> path = Some ''/v1/chat/completions''"

definition status_label :: "int option \<Rightarrow> string" where
  "status_label st = (case st of Some n \<Rightarrow> int_str n | None \<Rightarrow> ''unknown'')"

definition lc_finalize :: "request_outcome \<Rightarrow> request_view \<Rightarrow> lifecycle \<Rightarrow> lifecycle" where
  "lc_finalize oc v lc =
     (if lc_finalized lc then lc
      else lc\<lparr>lc_finalized := True,
              lc_metrics := record_request (view_mode v) (status_label (lc_status lc)) oc (view_duration v) (lc_metrics lc)\<rparr>)"

definition final_outcome_of :: "int option \<Rightarrow> request_view \<Rightarrow> request_outcome" where
  "final_outcome_of st v =
     (if view_cancelled v then Request_cancelled
      else if view_upstream_error v \<or> (case st of Some n \<Rightarrow> if n = 0 then 500 else n | None \<Rightarrow> 500) \<ge> 400 then Request_error
      else Request_completed)"

text \<open>\<open>send_wrapper\<close>; \<open>sent\<close> says whether the server's \<open>send\<close> returned, an exception goes to the application.\<close>

definition send_wrapper :: "asgi_message \<times> bool \<times> request_view \<Rightarrow> lifecycle \<Rightarrow> lifecycle" where
  "send_wrapper = (\<lambda>(msg, sent, v) lc.
     (let lc1 = (case msg of Response_start st \<Rightarrow> lc\<lparr>lc_status := Some st\<rparr> | _ \<Rightarrow> lc)
      in if sent \<and> msg = Response_body False then lc_finalize (final_outcome_of (lc_status lc1) v) v lc1 else lc1))"

text \<open>The end of \<open>__call__\<close>.\<close>

definition lifecycle_end :: "exn + unit \<Rightarrow> request_view \<Rightarrow> lifecycle \<Rightarrow> lifecycle" where
  "lifecycle_end r v lc = (case r of
      Inl e \<Rightarrow> lc_finalize (if e = CancelledError then Request_cancelled else Request_error) v lc
    | Inr _ \<Rightarrow> if \<not> lc_finalized lc then lc_finalize Request_cancelled v lc else lc)"

definition lifecycle_run :: "(asgi_message \<times> bool \<times> request_view) list \<Rightarrow> exn + unit \<Rightarrow> request_view \<Rightarrow> metrics \<Rightarrow> metrics" where
  "lifecycle_run msgs r v m =
     lc_metrics (lifecycle_end r v (fold send_wrapper msgs \<lparr>lc_status = None, lc_finalized = False, lc_metrics = m\<rparr>))"

section \<open>Errors\<close>

definition header_of :: "http_response \<Rightarrow> string \<Rightarrow> string option" where
  "header_of resp name = map_of (resp_headers resp) name"

definition error_field :: "http_response \<Rightarrow> string \<Rightarrow> json option" where
  "error_field resp k = (case resp_body resp of
      JObj [(_, JObj d)] \<Rightarrow> map_of d k
    | _ \<Rightarrow> None)"

lemma error_response_view:
  "resp_status (error_response r st cd msg hs) = st"
  "error_field (error_response r st cd msg hs) ''code'' = Some (JStr cd)"
  "error_field (error_response r st cd msg hs) ''message'' = Some (JStr msg)"
  "error_field (error_response r st cd msg hs) ''request_id'' =
     Some (case request_id_from r of Some i \<Rightarrow> JStr i | None \<Rightarrow> JNull)"
  by (simp_all add: error_response_def error_field_def error_payload_def Let_def)



text \<open>
  One id per request, everywhere: a response that passes \<open>RequestIDMiddleware\<close> carries the id of the
  request in the configured header, taken from the request if it has one and fresh otherwise; an error
  response carries the same id in its body, also when the handler runs outside the middleware, after the
  context variable has been reset; and the context variable is restored.
\<close>

theorem request_id_consistent:
  assumes "rid = request_id_for header uuid" and "uuid \<noteq> []" and "e \<noteq> CancelledError" and "name \<noteq> ''WWW-Authenticate''"
  shows "\<exists>resp. request_id_dispatch name header uuid
        (\<lambda>r. case handle_exception r e m of Some (resp, _) \<Rightarrow> Inr resp | None \<Rightarrow> Inl e) before = (Inr resp, before) \<and>
      header_of resp name = Some rid \<and> error_field resp ''request_id'' = Some (JStr rid) \<and>
      rid = (case header of Some h \<Rightarrow> if h \<noteq> [] then h else uuid | None \<Rightarrow> uuid) \<and>
      (\<exists>resp1 m1. handle_exception \<lparr>ctx_request_id = None, state_request_id = Some rid, request_id_header = name\<rparr> e m = Some (resp1, m1) \<and>
         header_of resp1 name = Some rid \<and> error_field resp1 ''request_id'' = Some (JStr rid))"
proof -
  have ne: "rid \<noteq> []" using assms(1,2) by (auto simp: request_id_for_def split: option.split)
  have exp: "\<exists>st cd msg hs m1. handle_exception r e m = Some (error_response r st cd msg hs, m1) \<and> hs \<in> {[], [(''WWW-Authenticate'', ''Bearer'')]}" for r
    using assms(3) by (cases e) (auto simp: gateway_error_handler_def request_validation_error_handler_def
        unexpected_error_handler_def class_response_headers_def)
  have hd: "header_of (error_response r st cd msg hs) name = Some rid"
    if "request_id_from r = Some rid" "request_id_header r = name" "hs \<in> {[], [(''WWW-Authenticate'', ''Bearer'')]}" for r st cd msg hs
    using that assms(4) by (auto simp: error_response_def header_of_def error_headers_def Let_def update_conv)
  let ?in = "\<lparr>ctx_request_id = Some rid, state_request_id = Some rid, request_id_header = name\<rparr>"
  let ?out = "\<lparr>ctx_request_id = None, state_request_id = Some rid, request_id_header = name\<rparr>"
  have ids: "request_id_from ?in = Some rid" "request_id_from ?out = Some rid" using ne by (simp_all add: request_id_from_def)
  obtain st cd msg hs m1 where i: "handle_exception ?in e m = Some (error_response ?in st cd msg hs, m1)"
    using exp [of ?in] by blast
  obtain st1 cd1 msg1 hs1 m2 where o: "handle_exception ?out e m = Some (error_response ?out st1 cd1 msg1 hs1, m2)"
    "hs1 \<in> {[], [(''WWW-Authenticate'', ''Bearer'')]}"
    using exp [of ?out] by blast
  have "error_field (tag_response name rid (error_response ?in st cd msg hs)) ''request_id'' = Some (JStr rid)"
    using error_response_view(4) [of ?in st cd msg hs] ids(1) by (simp add: tag_response_def error_field_def)
  moreover have "header_of (tag_response name rid (error_response ?in st cd msg hs)) name = Some rid"
    by (simp add: tag_response_def header_of_def update_conv)
  moreover have "header_of (error_response ?out st1 cd1 msg1 hs1) name = Some rid" using hd [OF ids(2) _ o(2)] by simp
  moreover have "error_field (error_response ?out st1 cd1 msg1 hs1) ''request_id'' = Some (JStr rid)"
    using error_response_view(4) [of ?out st1 cd1 msg1 hs1] ids(2) by simp
  moreover have "request_id_dispatch name header uuid
      (\<lambda>r. case handle_exception r e m of Some (resp, _) \<Rightarrow> Inr resp | None \<Rightarrow> Inl e) before =
    (Inr (tag_response name rid (error_response ?in st cd msg hs)), before)"
    using i assms(1) by (simp add: request_id_dispatch_def Let_def)
  moreover have "rid = (case header of Some h \<Rightarrow> if h \<noteq> [] then h else uuid | None \<Rightarrow> uuid)"
    using assms(1) by (simp add: request_id_for_def split: option.split)
  ultimately show ?thesis using o(1) by blast
qed

theorem request_id_consistent_witness:
  "\<exists>resp. request_id_dispatch ''X-Request-ID'' (Some ''abc'') ''u''
      (\<lambda>r. case handle_exception r KeyError None of Some (resp, _) \<Rightarrow> Inr resp | None \<Rightarrow> Inl KeyError) None = (Inr resp, None) \<and>
    header_of resp ''X-Request-ID'' = Some ''abc'' \<and> error_field resp ''request_id'' = Some (JStr ''abc'')"
  using request_id_consistent [of "''abc''" "Some ''abc''" "''u''" KeyError "''X-Request-ID''" None None]
  by (auto simp: request_id_for_def)

section \<open>One record per request\<close>

text \<open>The message that ends the response: the last body part, sent without an exception.\<close>

definition ends_response :: "asgi_message \<times> bool \<times> request_view \<Rightarrow> bool" where
  "ends_response = (\<lambda>(msg, sent, v). sent \<and> msg = Response_body False)"

text \<open>The status of the last response start among some messages.\<close>

definition status_after :: "(asgi_message \<times> bool \<times> request_view) list \<Rightarrow> int option" where
  "status_after msgs = fold (\<lambda>(msg, _, _) st. case msg of Response_start n \<Rightarrow> Some n | _ \<Rightarrow> st) msgs None"

lemma send_wrapper_before:
  assumes "\<not> list_ex ends_response msgs"
  shows "fold send_wrapper msgs \<lparr>lc_status = None, lc_finalized = False, lc_metrics = m\<rparr> =
    \<lparr>lc_status = status_after msgs, lc_finalized = False, lc_metrics = m\<rparr>"
  using assms
proof (induction msgs rule: rev_induct)
  case (snoc x xs)
  then show ?case
    by (cases x) (auto simp: status_after_def send_wrapper_def ends_response_def split: asgi_message.split)
qed (simp add: status_after_def)

lemma finalized_stays:
  "lc_finalized lc \<Longrightarrow> lc_finalized (fold send_wrapper msgs lc) \<and> lc_metrics (fold send_wrapper msgs lc) = lc_metrics lc"
proof (induction msgs arbitrary: lc)
  case (Cons x xs)
  have "lc_finalized (send_wrapper x lc)" "lc_metrics (send_wrapper x lc) = lc_metrics lc"
    using Cons.prems by (cases x; auto simp: send_wrapper_def lc_finalize_def Let_def split: asgi_message.split)+
  then show ?case using Cons.IH by simp
qed simp

text \<open>
  C28. Each inference request is recorded exactly once, whatever messages the application sends, whichever
  of them fail, and however it ends: at the first body part that ends the response, with the outcome the
  status and the stream give it, or, if there is none, at the end, as an error if the application raised
  and as cancelled otherwise.
\<close>

theorem request_recorded_once:
  "(\<not> list_ex ends_response msgs \<longrightarrow>
      lifecycle_run msgs r v m =
        record_request (view_mode v) (status_label (status_after msgs))
          (case r of Inl e \<Rightarrow> if e = CancelledError then Request_cancelled else Request_error | Inr _ \<Rightarrow> Request_cancelled)
          (view_duration v) m) \<and>
   (\<not> list_ex ends_response pre \<longrightarrow>
      lifecycle_run (pre @ (Response_body False, True, w) # post) r v m =
        record_request (view_mode w) (status_label (status_after pre)) (final_outcome_of (status_after pre) w) (view_duration w) m)"
proof (intro conjI impI)
  assume "\<not> list_ex ends_response msgs"
  then show "lifecycle_run msgs r v m =
        record_request (view_mode v) (status_label (status_after msgs))
          (case r of Inl e \<Rightarrow> if e = CancelledError then Request_cancelled else Request_error | Inr _ \<Rightarrow> Request_cancelled)
          (view_duration v) m"
    by (simp add: lifecycle_run_def send_wrapper_before lifecycle_end_def lc_finalize_def split: sum.split)
next
  assume pre: "\<not> list_ex ends_response pre"
  let ?lc = "send_wrapper (Response_body False, True, w) \<lparr>lc_status = status_after pre, lc_finalized = False, lc_metrics = m\<rparr>"
  have lc: "lc_finalized ?lc" "lc_metrics ?lc =
      record_request (view_mode w) (status_label (status_after pre)) (final_outcome_of (status_after pre) w) (view_duration w) m"
    by (simp_all add: send_wrapper_def lc_finalize_def)
  have e: "lifecycle_end r v lc = lc" if "lc_finalized lc" for lc
    using that by (simp add: lifecycle_end_def lc_finalize_def split: sum.split)
  show "lifecycle_run (pre @ (Response_body False, True, w) # post) r v m =
        record_request (view_mode w) (status_label (status_after pre)) (final_outcome_of (status_after pre) w) (view_duration w) m"
    using finalized_stays [OF lc(1), of post] lc(2) by (simp add: lifecycle_run_def send_wrapper_before [OF pre] e)
qed

definition sample_view :: request_view where
  "sample_view = \<lparr>view_mode = Streaming, view_upstream_error = True, view_cancelled = False, view_duration = 1\<rparr>"

theorem request_recorded_once_witness:
  "lifecycle_run [(Response_start 200, True, sample_view), (Response_body True, True, sample_view)] (Inl CancelledError) sample_view new_metrics =
     record_request Streaming ''200'' Request_cancelled 1 new_metrics \<and>
   lifecycle_run ([(Response_start 200, True, sample_view)] @ (Response_body False, True, sample_view) # []) (Inr ()) sample_view new_metrics =
     record_request Streaming ''200'' Request_error 1 new_metrics"
proof -
  have "status_label (Some 200) = ''200''" by code_simp
  then show ?thesis
    using request_recorded_once [of "[(Response_start 200, True, sample_view), (Response_body True, True, sample_view)]"
        "Inl CancelledError" sample_view new_metrics "[]" sample_view "[]"]
      request_recorded_once [of "[]" "Inr ()" sample_view new_metrics "[(Response_start 200, True, sample_view)]" sample_view "[]"]
    by (simp add: ends_response_def status_after_def sample_view_def final_outcome_of_def)
qed

end
