(* ===== verification/Gw_App.thy ===== *)
theory Gw_App
  imports Gw_Gateway Gw_Pool_Sys Gw_Batcher_Sys
begin

text \<open>
  \<open>gateway/app.py\<close> and \<open>gateway/api/health.py\<close>: the components an application builds from its settings
  when it starts, with none of them injected, and its readiness. The metrics observe all of them.
\<close>

record application =
  app_registry :: tenant_registry
  app_admission :: admission
  app_pool :: pool
  app_batcher :: "batcher option"
  app_ready :: bool

text \<open>\<open>lifespan\<close> up to \<open>pool.start()\<close>, in its order; the pool is told its observer once more.\<close>

definition lifespan_build :: "settings \<Rightarrow> (nat \<Rightarrow> real) \<Rightarrow> exn + application" where
  "lifespan_build s clk = (case TenantRegistry (tenants_json s) of
      Inl e \<Rightarrow> Inl e
    | Inr registry \<Rightarrow>
       (case AdmissionController (registry_tenants registry) (cfg_global_max_inflight s) (cfg_global_max_queue s)
               (admission_queue_timeout_seconds s) True clk of
          Inl e \<Rightarrow> Inl e
        | Inr adm \<Rightarrow>
           (case BackendPool (map fst (backends_json s)) (backend_health_interval_seconds s) (backend_health_timeout_seconds s) True of
              Inl e \<Rightarrow> Inl e
            | Inr p \<Rightarrow>
               (let build = (\<lambda>b. \<lparr>app_registry = registry, app_admission = adm, app_pool = pool_set_observer True p,
                                  app_batcher = b, app_ready = False\<rparr>)
                in if dynamic_batching_enabled s
                   then (case DynamicBatcher (dynamic_batch_max_size s) (dynamic_batch_max_wait_seconds s) True of
                           Inl e \<Rightarrow> Inl e
                         | Inr b \<Rightarrow> Inr (build (Some b)))
                   else Inr (build None)))))"

text \<open>\<open>/readyz\<close>: the status and the reported state.\<close>

definition readiness :: "bool \<Rightarrow> pool option \<Rightarrow> int \<times> string" where
  "readiness ready p =
     (if ready \<and> (case p of Some q \<Rightarrow> is_routable q | None \<Rightarrow> True) then (200, ''ready'') else (503, ''not_ready''))"

definition health :: "int \<times> string" where
  "health = (200, ''ok'')"

section \<open>Starting up\<close>

lemma fold_update_append:
  "distinct (map f xs) \<Longrightarrow> fst ` set d \<inter> f ` set xs = {} \<Longrightarrow>
   fold (\<lambda>t d. AList.update (f t) (g t) d) xs d = d @ map (\<lambda>t. (f t, g t)) xs"
proof (induction xs arbitrary: d)
  case (Cons x xs)
  have "AList.update (f x) (g x) d = d @ [(f x, g x)]" using Cons.prems(2) by (intro dict_update_fresh) auto
  then show ?case using Cons.IH [of "d @ [(f x, g x)]"] Cons.prems by auto
qed simp

lemma AdmissionController_starts:
  assumes "0 < gmi" "0 \<le> gmq" "0 < timeout" "distinct (map tenant_id ts)"
  obtains a where "AdmissionController ts gmi gmq timeout obs clk = Inr a" "map fst (tenants a) = map tenant_id ts"
proof -
  have "fold (\<lambda>t d. AList.update (tenant_id t) \<lparr>tenant = t, tenant_state.inflight = 0, queue = []\<rparr> d) ts [] =
    map (\<lambda>t. (tenant_id t, \<lparr>tenant = t, tenant_state.inflight = 0, queue = []\<rparr>)) ts"
    using fold_update_append [OF assms(4), of "[]"] by simp
  then show thesis using assms(1-3) that by (simp add: AdmissionController_def Let_def comp_def)
qed

lemma tenant_limits:
  assumes "list_all (\<lambda>p. case validate_tenant_config (snd p) of Inl _ \<Rightarrow> False | Inr _ \<Rightarrow> True) cs" "p \<in> set cs"
  shows "0 < cfg_max_inflight (snd p) \<and> 0 \<le> cfg_max_queue (snd p)"
  using assms by (fastforce simp: list_all_iff validate_tenant_config_def split: if_splits)



end
