(* ===== verification/Gw_Lifespan.thy ===== *)
theory Gw_Lifespan
  imports Gw_App Gw_Admission_Claims Gw_Pool_Claims Gw_Batcher_Claims
begin

text \<open>
  \<open>gateway/app.py\<close>: what \<open>create_app\<close> puts on the application, components injected by a caller (tests, embedding
  programs) instead of built ones, and the life of the application: starting, serving, and the nested \<open>finally\<close> clauses
  that take it down.
\<close>

section \<open>Components, built or injected\<close>

text \<open>An injected backend is a \<open>BackendPool\<close> or some other backend, which has no observer and no health.\<close>

datatype injected_backend = Injected_pool pool | Injected_other

record injected =
  inj_backend :: "injected_backend option"
  inj_registry :: "tenant_registry option"
  inj_admission :: "admission option"
  inj_batcher :: "batcher option"

record app_state =
  st_ready :: bool
  st_registry :: "tenant_registry option"
  st_admission :: "admission option"
  st_pool :: "pool option"
  st_batcher :: "batcher option"

text \<open>The state \<open>create_app\<close> leaves before the application starts.\<close>

definition created_state :: app_state where
  "created_state = \<lparr>st_ready = False, st_registry = None, st_admission = None, st_pool = None, st_batcher = None\<rparr>"

definition active_registry :: "injected \<Rightarrow> settings \<Rightarrow> exn + tenant_registry" where
  "active_registry given s = (case inj_registry given of Some r \<Rightarrow> Inr r | None \<Rightarrow> TenantRegistry (tenants_json s))"

definition active_admission :: "injected \<Rightarrow> settings \<Rightarrow> (nat \<Rightarrow> real) \<Rightarrow> tenant_registry \<Rightarrow> exn + admission" where
  "active_admission given s clk registry = (case inj_admission given of
      Some a \<Rightarrow> Inr (set_observer True a)
    | None \<Rightarrow> AdmissionController (registry_tenants registry) (cfg_global_max_inflight s) (cfg_global_max_queue s)
        (admission_queue_timeout_seconds s) True clk)"

definition active_pool :: "injected \<Rightarrow> settings \<Rightarrow> exn + pool option" where
  "active_pool given s = (case inj_backend given of
      Some (Injected_pool p) \<Rightarrow> Inr (Some (pool_set_observer True p))
    | Some Injected_other \<Rightarrow> Inr None
    | None \<Rightarrow> map_sum id (\<lambda>p. Some (pool_set_observer True p))
        (BackendPool (map fst (backends_json s)) (backend_health_interval_seconds s) (backend_health_timeout_seconds s) True))"

definition active_batcher :: "injected \<Rightarrow> settings \<Rightarrow> exn + batcher option" where
  "active_batcher given s =
     (if \<not> dynamic_batching_enabled s then Inr None
      else case inj_batcher given of
        Some b \<Rightarrow> Inr (Some b)
      | None \<Rightarrow> map_sum id Some (DynamicBatcher (dynamic_batch_max_size s) (dynamic_batch_max_wait_seconds s) True))"

text \<open>\<open>lifespan\<close> up to its \<open>try\<close> statement.\<close>

definition lifespan_enter :: "injected \<Rightarrow> settings \<Rightarrow> (nat \<Rightarrow> real) \<Rightarrow> exn + app_state" where
  "lifespan_enter given s clk = (case active_registry given s of
      Inl e \<Rightarrow> Inl e
    | Inr registry \<Rightarrow>
       (case active_admission given s clk registry of
          Inl e \<Rightarrow> Inl e
        | Inr adm \<Rightarrow>
           (case active_pool given s of
              Inl e \<Rightarrow> Inl e
            | Inr p \<Rightarrow>
               (case active_batcher given s of
                  Inl e \<Rightarrow> Inl e
                | Inr b \<Rightarrow> Inr (created_state\<lparr>st_registry := Some registry, st_admission := Some adm, st_pool := p, st_batcher := b\<rparr>)))))"

section \<open>Serving and shutting down\<close>

text \<open>A \<open>finally\<close> clause runs in any case; what it raises replaces what the body raised.\<close>

definition try_finally :: "exn + unit \<Rightarrow> exn + unit \<Rightarrow> exn + unit" where
  "try_finally body cleanup = (case cleanup of Inl e \<Rightarrow> Inl e | Inr _ \<Rightarrow> body)"

datatype shutdown_call = Admission_shutdown | Batcher_shutdown | Backend_close

text \<open>
  The rest of \<open>lifespan\<close>: \<open>start\<close> is what \<open>pool.start()\<close> yields (if there is a pool), \<open>served\<close> how serving
  ends (the server closes the generator, perhaps with an exception), \<open>res\<close> what each of the shutdown calls yields.
  The value is the outcome, the calls made, and the readiness while serving.
\<close>

definition shutdown_calls :: "app_state \<Rightarrow> shutdown_call list" where
  "shutdown_calls a = [Admission_shutdown] @ (if st_batcher a \<noteq> None then [Batcher_shutdown] else []) @ [Backend_close]"

definition shutdown_outcome :: "app_state \<Rightarrow> (shutdown_call \<Rightarrow> exn + unit) \<Rightarrow> exn + unit" where
  "shutdown_outcome a res =
     try_finally (res Admission_shutdown)
       (try_finally (if st_batcher a \<noteq> None then res Batcher_shutdown else Inr ()) (res Backend_close))"

definition lifespan_run ::
    "app_state \<Rightarrow> exn + unit \<Rightarrow> exn + unit \<Rightarrow> (shutdown_call \<Rightarrow> exn + unit) \<Rightarrow> (exn + unit) \<times> shutdown_call list \<times> bool" where
  "lifespan_run a start served res =
     (let started = (if st_pool a \<noteq> None then start else Inr ());
          body = (case started of Inl e \<Rightarrow> Inl e | Inr _ \<Rightarrow> served)
      in (try_finally body (shutdown_outcome a res), shutdown_calls a, started = Inr ()))"

text \<open>What the shutdown calls do to the components up to their first suspension, and to the readiness.\<close>

definition lifespan_close :: "app_state \<Rightarrow> app_state" where
  "lifespan_close a = a\<lparr>st_ready := False,
     st_admission := map_option (\<lambda>x. snd (adm_shutdown x)) (st_admission a),
     st_batcher := map_option (\<lambda>b. snd (shutdown b)) (st_batcher a),
     st_pool := map_option (\<lambda>p. snd (close_start p)) (st_pool a)\<rparr>"

section \<open>Starting without injection is the start proved before\<close>

definition no_injection :: injected where
  "no_injection = \<lparr>inj_backend = None, inj_registry = None, inj_admission = None, inj_batcher = None\<rparr>"

lemma lifespan_enter_builds:
  "lifespan_enter no_injection s clk = map_sum id (\<lambda>app.
     \<lparr>st_ready = False, st_registry = Some (app_registry app), st_admission = Some (app_admission app),
      st_pool = Some (app_pool app), st_batcher = app_batcher app\<rparr>) (lifespan_build s clk)"
  by (simp add: lifespan_enter_def lifespan_build_def no_injection_def created_state_def active_registry_def active_admission_def
    active_pool_def active_batcher_def Let_def split: sum.splits)

section \<open>Nothing is left running\<close>

lemma try_finally_last:
  "try_finally r c = Inl e \<longleftrightarrow> c = Inl e \<or> (\<exists>u. c = Inr u) \<and> r = Inl e"
  by (auto simp: try_finally_def split: sum.splits)

lemma closed_batcher:
  assumes "bat_inv b"
  shows "batcher_closed (snd (shutdown b))"
  using shutdown_ok [OF assms] shutdown_closed [of b] by (cases "batcher_closed b") auto


text \<open>An application with an injected backend that is no pool, and an admission shutdown that fails.\<close>

definition example_app :: app_state where
  "example_app = \<lparr>st_ready = True, st_registry = None, st_admission = Some (ctl example2), st_pool = None, st_batcher = Some run4\<rparr>"

definition failing_admission :: "shutdown_call \<Rightarrow> exn + unit" where
  "failing_admission c = (if c = Admission_shutdown then Inl (RuntimeError ''x'') else Inr ())"


end
