(* ===== verification/Gw_Backends.thy ===== *)
theory Gw_Backends
  imports Gw_Vllm_Claims
begin

text \<open>
  The backend contract of \<open>gateway/backends/base.py\<close> as a locale, what the batcher delivers through any backend
  that keeps it, and its two implementations: the vLLM client and the deterministic backend of
  \<open>gateway/backends/fake.py\<close>.
\<close>

section \<open>The fake backend\<close>

text \<open>A request of the contract is any value: a chat completion request, or something else, by its text.\<close>

datatype fake_input = Chat chat_request | Other_input string

record fake_stream =
  fs_chunks :: "nat list list"
  fs_closed :: bool

record fake =
  fake_prefix :: string
  fake_chunks :: "nat list list"
  fake_closed :: bool
  fake_streams :: "fake_stream list"
  last_stream :: "nat option"

definition fake_choice :: "string \<Rightarrow> nat \<Rightarrow> json" where
  "fake_choice prefix i = JObj [(''index'', JInt (int i)),
     (''message'', JObj [(''role'', JStr ''assistant''), (''content'', JStr (prefix @ '' response''))]),
     (''finish_reason'', JStr ''stop'')]"

definition fake_generate :: "string \<Rightarrow> fake_input \<Rightarrow> json_dict" where
  "fake_generate prefix x = (case x of
      Chat r \<Rightarrow>
        [(''id'', JStr ''chatcmpl-fake''), (''object'', JStr ''chat.completion''), (''created'', JInt 0), (''model'', JStr (req_model r)),
         (''choices'', JList (map (fake_choice prefix) [0..<nat (n_of r)])),
         (''usage'', JObj [(''prompt_tokens'', JInt 0), (''completion_tokens'', JInt 0), (''total_tokens'', JInt 0)])]
    | Other_input s \<Rightarrow> [(''input'', JStr s), (''output'', JStr (prefix @ '':'' @ s))])"

definition fake_generate_batch :: "string \<Rightarrow> fake_input list \<Rightarrow> exn + batch_return" where
  "fake_generate_batch prefix xs =
     Inr (BackendBatchResult (map (\<lambda>x. AList.delete ''usage'' (fake_generate prefix x)) xs) Observed (Some 0))"

definition fake_stream_open :: "fake \<Rightarrow> nat \<times> fake" where
  "fake_stream_open b = (length (fake_streams b),
     b\<lparr>fake_streams := fake_streams b @ [\<lparr>fs_chunks = fake_chunks b, fs_closed = False\<rparr>], last_stream := Some (length (fake_streams b))\<rparr>)"

definition fake_stream_aclose :: "nat \<Rightarrow> fake \<Rightarrow> fake" where
  "fake_stream_aclose x b = b\<lparr>fake_streams := (fake_streams b)[x := (fake_streams b ! x)\<lparr>fs_closed := True\<rparr>]\<rparr>"

text \<open>Iterating: the chunks, of which a consumer may take only the first \<open>n\<close>, and the \<open>finally\<close> clause.\<close>

definition fake_iterate :: "nat \<Rightarrow> nat \<Rightarrow> fake \<Rightarrow> nat list list \<times> fake" where
  "fake_iterate x n b = (take n (fs_chunks (fake_streams b ! x)), fake_stream_aclose x b)"

definition fake_check_health :: "fake \<Rightarrow> bool" where
  "fake_check_health b = (\<not> fake_closed b)"

definition fake_close :: "fake \<Rightarrow> fake" where
  "fake_close b = (case last_stream b of Some x \<Rightarrow> fake_stream_aclose x b | None \<Rightarrow> b)\<lparr>fake_closed := True\<rparr>"

section \<open>The contract\<close>

text \<open>
  \<open>InferenceBackend.generate_batch\<close> as the batcher relies on it: a batch that succeeds has one response per
  request, in their order, and reports a token count exactly when it observed one. The last argument is
  what the outside world contributes to the call.
\<close>

locale batch_backend =
  fixes generate_batch :: "chat_request list \<Rightarrow> 'w \<Rightarrow> exn + batch_return"
  assumes one_each: "generate_batch rs w = Inr x \<Longrightarrow>
    x = BackendBatchResult (batch_responses x) (batch_usage x) (batch_tokens x) \<and> length (batch_responses x) = length rs"
    and tokens_observed: "generate_batch rs w = Inr x \<Longrightarrow> batch_tokens x \<noteq> None \<longleftrightarrow> batch_usage x = Observed"
begin

lemma members_served:
  assumes inv: "bat_inv s" and k: "k < length (flushes s)" "flush_phase (flushes s ! k) = Awaiting"
    and is_eq: "is = op_items (flushes s ! k)" and rs: "length rs = length is"
    and s': "s' = snd (execute_done k (generate_batch rs w) s)" and j: "j < length is"
  shows "item_future (items s' ! (is ! j)) =
    (if item_state (items s ! (is ! j)) = Cancelled then Future_cancelled
     else case generate_batch rs w of
         Inr x \<Rightarrow> Result_set (batch_responses x ! j)
       | Inl e \<Rightarrow> Exception_set (if e = CancelledError then raised BatchingUnavailableError else e))"
proof -
  note D = execute_done_futures [OF inv k is_eq s']
  have "delivery is (generate_batch rs w) (is ! j) = (case generate_batch rs w of
         Inr x \<Rightarrow> Result_set (batch_responses x ! j)
       | Inl e \<Rightarrow> Exception_set (if e = CancelledError then raised BatchingUnavailableError else e))"
    using delivery_nth [OF D(1) j, of "generate_batch rs w"] one_each [of rs w] rs
    by (cases "generate_batch rs w") (auto split: batch_return.splits)
  then show ?thesis using D(3) [OF j] by simp
qed

end

section \<open>The vLLM client keeps it\<close>

lemma demultiplex_length:
  "demultiplex_batch_response payload n = Inr x \<Longrightarrow>
   x = BackendBatchResult (batch_responses x) (fst (classify_usage payload)) (snd (classify_usage payload)) \<and>
   length (batch_responses x) = n"
  by (auto simp: demultiplex_batch_response_def then_do_Inr case_prod_beta Let_def split: json.splits if_splits)

lemma vllm_generate_batch_ok:
  "vllm_generate_batch rs c = Inr x \<longleftrightarrow> (\<exists>p reply payload. batch_payload rs = Inr p \<and> c = Response reply \<and>
     raise_for_upstream_status (reply_status reply) = Inr () \<and> json_object reply = Inr payload \<and>
     demultiplex_batch_response payload (length rs) = Inr x)"
  by (auto simp: vllm_generate_batch_def then_do_Inr transport_result_def split: http_call.splits)

interpretation vllm: batch_backend vllm_generate_batch
proof
  fix rs c x
  assume "vllm_generate_batch rs c = Inr x"
  then obtain payload where "demultiplex_batch_response payload (length rs) = Inr x" by (auto simp: vllm_generate_batch_ok)
  note D = demultiplex_length [OF this]
  show "x = BackendBatchResult (batch_responses x) (batch_usage x) (batch_tokens x) \<and> length (batch_responses x) = length rs"
    using D by (metis batch_return.sel(2,3))
  show "batch_tokens x \<noteq> None \<longleftrightarrow> batch_usage x = Observed"
    using D classify_usage_tokens [of payload] by (metis batch_return.sel(2,3) prod.collapse)
qed

interpretation fake: batch_backend "\<lambda>rs prefix. fake_generate_batch prefix (map Chat rs)"
  by unfold_locales (auto simp: fake_generate_batch_def)

section \<open>A batch from the submissions to the server and back\<close>

lemma raise_status_ok: "raise_for_upstream_status st = Inr () \<longleftrightarrow> 200 \<le> st \<and> st < 300"
  by (auto simp: raise_for_upstream_status_def)

text \<open>
  C4. A batch end to end: when a flush of the batcher runs through the vLLM client and the server answers
  with one choice per member, in any order, then every member that was not cancelled receives exactly the
  choice whose index is its position in the batch, as the only choice of its own response, and nothing of the
  other members. Its request passed the client's checks.
\<close>

theorem batched_member_gets_own_choice:
  assumes reach: "bat_reachable fr s" and k: "k < length (flushes s)" "flush_phase (flushes s ! k) = Awaiting"
    and is_eq: "is = op_items (flushes s ! k)" and rs: "rs = map (\<lambda>i. item_request (items s ! i)) is"
    and payload: "batch_payload rs = Inr p"
    and reply: "200 \<le> reply_status reply" "reply_status reply < 300" "reply_json reply = Some (JObj answer)"
    and choices: "map_of answer ''choices'' = Some (JList (map JObj ds))" "length ds = length is"
      "map (\<lambda>d. dict_get d ''index'') ds = map (\<lambda>i. JInt (int i)) order" "distinct order" "set order = {0..<length is}"
    and s': "s' = snd (execute_done k (vllm_generate_batch rs (Response reply)) s)"
    and j: "j < length is" "item_state (items s ! (is ! (order ! j))) \<noteq> Cancelled"
  shows "item_future (items s' ! (is ! (order ! j))) =
    Result_set (safe_batch_fields answer @ [(''choices'', JList [JObj (AList.update ''index'' (JInt 0) (ds ! j))])])"
proof -
  have len: "length rs = length is" by (simp add: rs)
  from demultiplex_ok [OF choices] obtain out where out:
    "demultiplex_batch_response answer (length is) = Inr (BackendBatchResult out (fst (classify_usage answer)) (snd (classify_usage answer)))"
    "\<forall>j<length is. out ! (order ! j) = member_response answer (ds ! j)" by blast
  have g: "vllm_generate_batch rs (Response reply) =
      Inr (BackendBatchResult out (fst (classify_usage answer)) (snd (classify_usage answer)))"
    unfolding vllm_generate_batch_ok
    using payload reply out(1) len by (auto simp: raise_status_ok json_object_def)
  have ord: "order ! j < length is"
    using choices(3-5) map_eq_imp_length_eq [OF choices(3)] choices(2) j(1) by (metis atLeastLessThan_iff nth_mem)
  show ?thesis
    using vllm.members_served [OF reachable_bat_inv [OF reach] k is_eq len s' ord] j out(2) g
    by (simp add: member_response_def)
qed

definition sample_reply :: http_reply where
  "sample_reply = \<lparr>reply_status = 200, reply_content_type = None, reply_json = Some (JObj sample_batch)\<rparr>"

theorem batched_member_gets_own_choice_witness:
  "item_future (items (snd (execute_done 0
     (vllm_generate_batch [plain_request ''one'', plain_request ''three''] (Response sample_reply)) run4)) ! 2) =
   Result_set [(''id'', JStr ''b''), (''choices'', JList [JObj [(''index'', JInt 0), (''t'', JStr ''x'')]])]"
proof -
  let ?is = "[0, 2] :: nat list" and ?ds = "[[(''index'', JInt 1), (''t'', JStr ''x'')], [(''index'', JInt 0)]]"
  have its: "items run4 = items run3" by (simp add: run4_def execute_start_def set_flush_def)
  have k: "0 < length (flushes run4)" using run4_state(1) by simp
  have rs: "[plain_request ''one'', plain_request ''three''] = map (\<lambda>i. item_request (items run4 ! i)) ?is"
    using run3_requests by (auto simp: its map_eq_Cons_conv)
  have p: "\<exists>p. batch_payload [plain_request ''one'', plain_request ''three''] = Inr p"
    by (simp add: batch_payload_def Let_def plain_request_def stream_on_def n_of_def incompatible_def shared_payload_eq)
  then obtain p where p: "batch_payload [plain_request ''one'', plain_request ''three''] = Inr p" by blast
  have c: "map_of sample_batch ''choices'' = Some (JList (map JObj ?ds))" "length ?ds = length ?is"
    "map (\<lambda>d. dict_get d ''index'') ?ds = map (\<lambda>i. JInt (int i)) [1, 0]" "distinct [1, 0 :: nat]" "set [1, 0] = {0..<length ?is}"
    by (auto simp: sample_batch_def dict_get_def)
  have f: "safe_batch_fields sample_batch = [(''id'', JStr ''b'')]" by code_simp
  have "item_state (items run4 ! (?is ! ([1, 0] ! 0))) \<noteq> Cancelled" using run4_state(8) by simp
  from batched_member_gets_own_choice [OF run4_reachable k run4_state(2) run4_state(3) [symmetric] rs p _ _ _ c refl _ this, of sample_reply]
  show ?thesis by (simp add: sample_reply_def f)
qed

section \<open>The fake backend keeps its promises\<close>

text \<open>
  The deterministic backend through the batcher: each member that was not cancelled gets the response a single
  call would give it, without the usage report; and a closed backend is unhealthy, with its last stream closed.
\<close>

theorem fake_batch_like_single:
  assumes "bat_inv s" "k < length (flushes s)" "flush_phase (flushes s ! k) = Awaiting" "j < length (op_items (flushes s ! k))"
    and "item_state (items s ! (op_items (flushes s ! k) ! j)) \<noteq> Cancelled"
  shows "item_future (items (snd (execute_done k
      (fake_generate_batch prefix (map (\<lambda>i. Chat (item_request (items s ! i))) (op_items (flushes s ! k)))) s)) !
        (op_items (flushes s ! k) ! j)) =
    Result_set (AList.delete ''usage'' (fake_generate prefix (Chat (item_request (items s ! (op_items (flushes s ! k) ! j))))))"
  using fake.members_served [OF assms(1-3) refl, of "map (\<lambda>i. item_request (items s ! i)) (op_items (flushes s ! k))"
      _ prefix j] assms(4,5)
  by (simp add: fake_generate_batch_def comp_def)

lemma fake_aclose_twice: "fake_stream_aclose x (fake_stream_aclose x b) = fake_stream_aclose x b"
  by (cases "x < length (fake_streams b)") (simp_all add: fake_stream_aclose_def list_update_beyond)

lemma fake_close_closes:
  "\<not> fake_check_health (fake_close b) \<and> fake_close (fake_close b) = fake_close b \<and>
   fs_closed (fake_streams (fake_close (snd (fake_stream_open b))) ! fst (fake_stream_open b))"
proof -
  have s: "fake_stream_aclose x (b\<lparr>fake_closed := c\<rparr>) = (fake_stream_aclose x b)\<lparr>fake_closed := c\<rparr>"
    "last_stream (fake_stream_aclose x b) = last_stream b" for x c b
    by (simp_all add: fake_stream_aclose_def)
  show ?thesis
    using fake_aclose_twice
    by (auto simp: fake_close_def fake_check_health_def s fake_stream_open_def split: option.splits)
      (simp add: fake_stream_aclose_def)
qed

end
