(* ===== verification/Gw_Upstream.thy ===== *)
theory Gw_Upstream
  imports Gw_Vllm_Claims Gw_Http Gw_Pool_Claims
begin

text \<open>
  From the answer of a vLLM server to what the client of the gateway sees and what becomes of the
  replica: the HTTP client (\<open>backends/vllm.py\<close>), the routing pool (\<open>routing/pool.py\<close>) and the exception handlers
  (\<open>core/errors.py\<close>) together.
\<close>

section \<open>The intended table\<close>

text \<open>
  What should become of the outcome of an HTTP call: the status and error code for the client, and whether the
  replica is taken out of rotation; no code for success. \<open>acceptable\<close> says what a successful response has to look like.
  Exceptions the HTTP library is not documented to raise are left out.
\<close>

definition error_row :: "int \<Rightarrow> int \<times> string option \<times> bool" where
  "error_row st =
     (if st = 400 \<or> st = 404 \<or> st = 422 then (st, Some ''backend_request_rejected'', False)
      else if st = 401 \<or> st = 403 then (502, Some ''backend_configuration_error'', True)
      else (502, Some ''backend_http_error'', True))"

definition upstream_table :: "bool \<Rightarrow> (http_reply \<Rightarrow> bool) \<Rightarrow> http_reply http_call \<Rightarrow> (int \<times> string option \<times> bool) option" where
  "upstream_table streaming acceptable c = (case c of
      Timeout_exception \<Rightarrow> Some (504, Some ''backend_timeout'', True)
    | Connect_error \<Rightarrow> Some (503, Some ''backend_unavailable'', True)
    | http_call.Request_error \<Rightarrow> Some (503, Some ''backend_unavailable'', True)
    | Runtime_error \<Rightarrow> Some (if streaming then (503, Some ''backend_unavailable'', True) else (500, Some ''internal_error'', False))
    | Raised e \<Rightarrow> None
    | Response r \<Rightarrow> Some (
        let st = reply_status r in
        if 200 \<le> st \<and> st < 300
        then if acceptable r then (200, None, False) else (502, Some ''backend_protocol_error'', True)
        else error_row st))"

text \<open>What a failure shows the client through the handlers.\<close>

definition shown_error :: "exn \<Rightarrow> (int \<times> string) option" where
  "shown_error e = (case e of
      Gateway x \<Rightarrow> Some (exc_status x, exc_code x)
    | RequestValidationError \<Rightarrow> Some (400, ''invalid_request'')
    | CancelledError \<Rightarrow> None
    | _ \<Rightarrow> Some (500, ''internal_error''))"

lemma shown_error_handled:
  assumes "shown_error e = Some (st, cd)"
  shows "\<exists>resp m'. handle_exception ctx e m = Some (resp, m') \<and> resp_status resp = st \<and> error_field resp ''code'' = Some (JStr cd)"
  using assms
  by (cases e) (auto simp: shown_error_def gateway_error_handler_def unexpected_error_handler_def
    request_validation_error_handler_def error_response_view)

definition matches_table :: "int \<times> string option \<times> bool \<Rightarrow> exn + 'r \<Rightarrow> bool" where
  "matches_table t r = (case t of (st, cd, bad) \<Rightarrow>
     (case r of
        Inr x \<Rightarrow> cd = None \<and> \<not> bad
      | Inl e \<Rightarrow> (\<exists>c. cd = Some c \<and> shown_error e = Some (st, c)) \<and> health_impacting e = bad))"

lemma shown_raised [simp]:
  "shown_error (Gateway (mk_error c m None st)) = Some (case st of Some n \<Rightarrow> n | None \<Rightarrow> class_status c, class_code c)"
  "shown_error (RuntimeError s) = Some (500, ''internal_error'')"
  by (simp_all add: shown_error_def split: option.splits)

lemma backend_statuses [simp]:
  "class_status BackendTimeoutError = 504" "class_status BackendUnavailableError = 503"
  "class_status BackendProtocolError = 502" "class_status BackendConfigurationError = 502" "class_status BackendHTTPError = 502"
  by code_simp+

lemma backend_impacts [simp]:
  "health_impacting (raised BackendTimeoutError)" "health_impacting (raised BackendUnavailableError)"
  "health_impacting (raised BackendProtocolError)" "health_impacting (raised BackendConfigurationError)"
  "health_impacting (raised BackendHTTPError)"
  by code_simp+

lemma rejected_harmless [simp]: "\<not> health_impacting (Gateway (mk_error BackendRequestRejectedError m k st))"
  "\<not> health_impacting (RuntimeError t)"
proof -
  have "\<not> is_subclass BackendRequestRejectedError c" if "c \<in> {BackendUnavailableError, BackendTimeoutError, BackendProtocolError,
    BackendConfigurationError, BackendHTTPError}" for c
    using that by (elim insertE) (code_simp | simp)+
  then show "\<not> health_impacting (Gateway (mk_error BackendRequestRejectedError m k st))"
    by (simp add: health_impacting_def)
qed (simp add: health_impacting_def is_instance_def)


lemma status_matches:
  "raise_for_upstream_status st = (if 200 \<le> st \<and> st < 300 then Inr ()
     else if st = 400 \<or> st = 404 \<or> st = 422 then Inl (Gateway (mk_error BackendRequestRejectedError None None (Some st)))
     else if st = 401 \<or> st = 403 then Inl (raised BackendConfigurationError) else Inl (raised BackendHTTPError))"
  by (simp add: raise_for_upstream_status_def)

lemma table_raised [simp]: "matches_table (st, cd, bad) (Inl e) \<longleftrightarrow> (\<exists>c. cd = Some c \<and> shown_error e = Some (st, c)) \<and> health_impacting e = bad"
  "matches_table (st, cd, bad) (Inr x) \<longleftrightarrow> cd = None \<and> \<not> bad"
  by (simp_all add: matches_table_def)


lemma outside_raises: "\<not> (200 \<le> st \<and> st < 300) \<Longrightarrow> \<exists>e. raise_for_upstream_status st = Inl e"
  by (simp add: status_matches)

lemma status_table:
  assumes "raise_for_upstream_status st = Inl e"
  shows "matches_table (error_row st) (Inl e)"
  using assms unfolding status_matches error_row_def
  by (cases "st = 400 \<or> st = 404 \<or> st = 422"; cases "st = 401 \<or> st = 403") (auto split: if_splits)

lemma json_object_iff: "json_object r = (if \<exists>d. reply_json r = Some (JObj d) then Inr (SOME d. reply_json r = Some (JObj d)) else Inl (raised BackendProtocolError))"
  by (auto simp: json_object_def split: option.splits json.splits)

lemma generate_matches:
  assumes "\<And>e. c \<noteq> Raised e"
  shows "matches_table (the (upstream_table False (\<lambda>r. \<exists>d. reply_json r = Some (JObj d)) c)) (vllm_generate c)"
proof (cases c)
  case (Response r)
  show ?thesis
  proof (cases "200 \<le> reply_status r \<and> reply_status r < 300")
    case True
    then show ?thesis
      using Response by (simp add: upstream_table_def vllm_generate_def transport_result_def status_matches json_object_iff)
  next
    case False
    then obtain e where "raise_for_upstream_status (reply_status r) = Inl e" using outside_raises by blast
    then show ?thesis
      using Response False by (auto simp: upstream_table_def vllm_generate_def transport_result_def Let_def status_table)
  qed
qed (use assms in \<open>simp_all add: upstream_table_def vllm_generate_def transport_result_def\<close>)

lemma stream_matches:
  assumes "\<And>e. c \<noteq> Raised e"
  shows "matches_table (the (upstream_table True (\<lambda>r. media_type_ok (reply_content_type r)) c)) (fst (vllm_stream_open c v))"
proof (cases c)
  case (Response r)
  show ?thesis
  proof (cases "200 \<le> reply_status r \<and> reply_status r < 300")
    case True
    then show ?thesis
      using Response by (simp add: upstream_table_def vllm_stream_open_def transport_result_def status_matches)
  next
    case False
    then obtain e where "raise_for_upstream_status (reply_status r) = Inl e" using outside_raises by blast
    then show ?thesis
      using Response False by (auto simp: upstream_table_def vllm_stream_open_def transport_result_def Let_def status_table)
  qed
qed (use assms in \<open>simp_all add: upstream_table_def vllm_stream_open_def transport_result_def\<close>)

section \<open>What the client sees and what becomes of the replica\<close>

definition acts_on_table :: "int \<times> string option \<times> bool \<Rightarrow> error_context \<Rightarrow> nat \<Rightarrow> exn + 'r \<Rightarrow> pool \<Rightarrow> pool \<Rightarrow> bool" where
  "acts_on_table t ctx l res p p' \<longleftrightarrow>
     (case res of
        Inr _ \<Rightarrow> fst (snd t) = None
      | Inl e \<Rightarrow> (\<forall>m. \<exists>cd resp m'. fst (snd t) = Some cd \<and> handle_exception ctx e m = Some (resp, m') \<and>
          resp_status resp = fst t \<and> error_field resp ''code'' = Some (JStr cd))) \<and>
     (\<forall>i<length (slots p). healthy (slots p' ! i) =
        (if i = lease_slot (pool_leases p ! l) \<and> snd (snd t) then Some False else healthy (slots p ! i)))"

lemma acts_on_tableI:
  assumes "matches_table t r" and "settles l (bad_result r) p p'" and "\<not> pool_closed p"
  shows "acts_on_table t ctx l r p p'"
proof -
  obtain st cd bad where t: "t = (st, cd, bad)" by (cases t)
  show ?thesis
  proof (cases r)
    case (Inl e)
    then obtain c where c: "cd = Some c" "shown_error e = Some (st, c)" "health_impacting e = bad" using assms(1) t by auto
    then show ?thesis
      using assms(2,3) shown_error_handled [OF c(2), of ctx] by (simp add: acts_on_table_def t Inl settles_def)
  next
    case (Inr x)
    then show ?thesis using assms t by (simp add: acts_on_table_def settles_def)
  qed
qed



end
