(* ===== verification/Gw_Logging.thy ===== *)
theory Gw_Logging
  imports Gw_Http Gw_Canonical
begin

text \<open>
  \<open>gateway/core/logging.py\<close>: rendering a log record as one line of JSON, and the access log of
  \<open>gateway/core/request_id.py\<close>. The time stamp, the text of an exception and the text of a float are parameters. A value
  that is no JSON value is rendered as the string \<open>str\<close> makes of it.
\<close>

datatype log_value = Json json | Object string

record log_record =
  levelname :: string
  logger_name :: string
  log_message :: string
  log_extra :: "(string \<times> log_value) list"
  exc_text :: "string option"

definition structured_fields :: "string list" where
  "structured_fields =
     [''method'', ''path'', ''status_code'', ''duration_ms'', ''error_code'', ''backend'', ''backend_id'', ''backend_healthy'',
      ''routing_result'', ''upstream_status'', ''tenant_id'', ''admission_result'', ''streaming'', ''stream_outcome'',
      ''stream_error_type'']"

text \<open>\<open>getattr(record, field, None)\<close>, already as \<open>json.dumps\<close> will write it.\<close>

definition log_attr :: "log_record \<Rightarrow> string \<Rightarrow> json" where
  "log_attr r k = (case map_of (log_extra r) k of
      None \<Rightarrow> JNull
    | Some (Json j) \<Rightarrow> j
    | Some (Object s) \<Rightarrow> JStr s)"

fun truthy :: "json \<Rightarrow> bool" where
  "truthy JNull = False"
| "truthy (JBool b) = b"
| "truthy (JInt i) = (i \<noteq> 0)"
| "truthy (JFloat x) = (x \<noteq> 0)"
| "truthy (JStr s) = (s \<noteq> [])"
| "truthy (JList xs) = (xs \<noteq> [])"
| "truthy (JObj d) = (d \<noteq> [])"

definition log_request_id :: "string option \<Rightarrow> log_record \<Rightarrow> json" where
  "log_request_id context r =
     (if truthy (log_attr r ''request_id'') then log_attr r ''request_id''
      else case context of Some i \<Rightarrow> JStr i | None \<Rightarrow> JNull)"

definition set_present :: "string \<Rightarrow> json \<Rightarrow> json_dict \<Rightarrow> json_dict" where
  "set_present k v event = (if v = JNull then event else AList.update k v event)"

definition log_event :: "string \<Rightarrow> string option \<Rightarrow> log_record \<Rightarrow> json_dict" where
  "log_event timestamp context r =
     (let event = [(''timestamp'', JStr timestamp), (''level'', JStr (levelname r)), (''logger'', JStr (logger_name r)),
                   (''message'', JStr (log_message r))];
          event1 = set_present ''request_id'' (log_request_id context r) event;
          event2 = fold (\<lambda>f. set_present f (log_attr r f)) structured_fields event1
      in case exc_text r of None \<Rightarrow> event2 | Some t \<Rightarrow> AList.update ''exception'' (JStr t) event2)"

definition format_log :: "(real \<Rightarrow> string) \<Rightarrow> string \<Rightarrow> string option \<Rightarrow> log_record \<Rightarrow> string" where
  "format_log fr timestamp context r = dumps_with (quoted ascii_escape) fr (JObj (log_event timestamp context r))"

text \<open>The record \<open>RequestIDMiddleware.dispatch\<close> emits when a response has come back.\<close>

definition access_record :: "string \<Rightarrow> string \<Rightarrow> int \<Rightarrow> real \<Rightarrow> string option \<Rightarrow> string option \<Rightarrow> log_record" where
  "access_record method path status duration_ms tid adm_result =
     (let opt = (\<lambda>v. Json (case v of Some s \<Rightarrow> JStr s | None \<Rightarrow> JNull))
      in \<lparr>levelname = ''INFO'', logger_name = ''gateway.request'', log_message = ''request completed'',
          log_extra = [(''method'', Json (JStr method)), (''path'', Json (JStr path)), (''status_code'', Json (JInt status)),
            (''duration_ms'', Json (JFloat duration_ms)), (''tenant_id'', opt tid), (''admission_result'', opt adm_result)],
          exc_text = None\<rparr>)"

definition access_log :: "(real \<Rightarrow> string) \<Rightarrow> string \<Rightarrow> string option \<Rightarrow> string \<Rightarrow> string \<Rightarrow> string \<Rightarrow> int \<Rightarrow> real \<Rightarrow>
    string option \<Rightarrow> string option \<Rightarrow> string" where
  "access_log fr timestamp header uuid method path status duration_ms tid adm_result =
     format_log fr timestamp (Some (request_id_for header uuid))
       (access_record method path status duration_ms tid adm_result)"

section \<open>One printable line per record\<close>

definition printable :: "char \<Rightarrow> bool" where
  "printable c \<longleftrightarrow> 32 \<le> code_point c \<and> code_point c \<le> 126"

lemma hex_digit_printable: "n < 16 \<Longrightarrow> printable (hex_digit n)"
proof -
  assume n: "n < 16"
  then have "(48 + n) mod 256 = 48 + n" "(87 + n) mod 256 = 87 + n" by (simp_all add: mod_less)
  then have "(of_char (hex_digit n) :: nat) = (if n < 10 then 48 + n else 87 + n)" unfolding hex_digit_def by (metis of_char_of)
  then show ?thesis using n by (simp add: printable_def code_point_def)
qed

lemma hex_pair_printable: "printable (hex_digit (code_point c div 16)) \<and> printable (hex_digit (code_point c mod 16))"
proof -
  have "code_point c < 256" by (simp add: code_point_def)
  then show ?thesis by (simp add: hex_digit_printable)
qed

lemma escape_prefix_printable: "printable CHR 0x5C" "printable CHR ''u''" "printable CHR ''0''"
  by (simp_all add: printable_def code_point_def)

lemma short_escape_printable: "short_escape c = Some x \<Longrightarrow> printable x"
  by (auto simp: short_escape_def printable_def code_point_def split: if_splits)

lemma ascii_escape_printable: "\<forall>d\<in>set (ascii_escape c). printable d"
proof (cases rule: ascii_escape_cases [of c])
  case same
  show ?thesis
  proof (cases "short_escape c")
    case None
    then show ?thesis using same hex_pair_printable [of c] escape_prefix_printable
      by (auto simp: json_escape_def printable_def)
  next
    case (Some x)
    then show ?thesis using same short_escape_printable [OF Some] escape_prefix_printable by (simp add: json_escape_def)
  qed
next
  case high
  then show ?thesis using hex_pair_printable [of c] escape_prefix_printable by simp
qed

lemma quoted_printable: "\<forall>c\<in>set (quoted ascii_escape s). printable c"
proof -
  have "printable CHR 0x22" by (simp add: printable_def code_point_def)
  then show ?thesis using ascii_escape_printable by (auto simp: quoted_def)
qed

lemma number_printable: "number_char c \<Longrightarrow> printable c"
  by (auto simp: number_char_def is_digit_def printable_def code_point_def)

lemma join_set: "c \<in> set (join sep (map f xs)) \<Longrightarrow> c \<in> set sep \<or> (\<exists>x\<in>set xs. c \<in> set (f x))"
  by (induction xs) (auto simp: join_Cons split: if_splits)

lemma punctuation_printable: "\<forall>c\<in>set ''[]{}:,''. printable c"
  by (simp add: printable_def code_point_def)

lemma dumps_printable:
  "float_repr_ok fr (json_floats x) \<Longrightarrow> c \<in> set (dumps_with (quoted ascii_escape) fr x) \<Longrightarrow> printable c"
proof (induction x arbitrary: c)
  case (JInt i)
  then show ?case using int_str_chars [of i] number_printable by (auto simp: number_char_def)
next
  case (JFloat a)
  then show ?case using number_printable by (auto simp: float_repr_ok_def)
next
  case (JStr s)
  then show ?case using quoted_printable by simp
next
  case (JList xs)
  have "printable d" if "x \<in> set xs" "d \<in> set (dumps_with (quoted ascii_escape) fr x)" for x d
    using JList.IH [OF that(1) _ that(2)] float_repr_ok_mono [OF JList.prems(1), of "json_floats x"] that(1) by auto
  then show ?case using JList.prems(2) punctuation_printable by (auto dest!: join_set)
next
  case (JObj kvs)
  let ?f = "\<lambda>kv. quoted ascii_escape (fst kv) @ '':'' @ dumps_with (quoted ascii_escape) fr (snd kv)"
  have "printable d" if kv: "kv \<in> set kvs" "d \<in> set (?f kv)" for kv d
  proof -
    have "snd kv \<in> Basic_BNFs.snds kv" by (cases kv) (simp add: prod_set_simps)
    moreover have "float_repr_ok fr (json_floats (snd kv))"
      by (rule float_repr_ok_mono [OF JObj.prems(1)]) (use kv(1) in auto)
    ultimately show ?thesis using JObj.IH [OF kv(1)] kv(2) quoted_printable by (auto simp: printable_def code_point_def)
  qed
  moreover have "c \<in> set ''{},'' \<or> (\<exists>kv\<in>set kvs. c \<in> set (?f kv))"
    using JObj.prems(2) join_set [of c "'',''" ?f kvs] by auto
  ultimately show ?case using punctuation_printable by auto
qed (auto simp: printable_def code_point_def split: if_splits)

section \<open>What a line says\<close>

lemma map_of_set_present: "map_of (set_present k v e) k' = (if k' = k \<and> v \<noteq> JNull then Some v else map_of e k')"
  by (simp add: set_present_def update_conv)

lemma map_of_present_fold:
  "distinct fs \<Longrightarrow> map_of (fold (\<lambda>f. set_present f (a f)) fs e) k =
     (if k \<in> set fs \<and> a k \<noteq> JNull then Some (a k) else map_of e k)"
  by (induction fs arbitrary: e) (auto simp: map_of_set_present)

lemma structured_fields_distinct: "distinct structured_fields"
  by (simp add: structured_fields_def)

text \<open>The value under every key of an event.\<close>

definition base_event :: "string \<Rightarrow> log_record \<Rightarrow> json_dict" where
  "base_event ts r = [(''timestamp'', JStr ts), (''level'', JStr (levelname r)), (''logger'', JStr (logger_name r)),
     (''message'', JStr (log_message r))]"

lemma log_event_lookup:
  "map_of (log_event ts ctx r) k =
     (if k = ''exception'' then map_option JStr (exc_text r)
      else if k \<in> set structured_fields then (if log_attr r k = JNull then None else Some (log_attr r k))
      else if k = ''request_id'' then (if log_request_id ctx r = JNull then None else Some (log_request_id ctx r))
      else map_of (base_event ts r) k)"
proof -
  have ne: "k \<noteq> ''exception''" "k \<noteq> ''request_id''" "map_of (base_event ts r) k = None"
    if "k \<in> set structured_fields" using that by (auto simp: structured_fields_def base_event_def)
  have base: "map_of (base_event ts r) ''request_id'' = None" "map_of (base_event ts r) ''exception'' = None"
    by (simp_all add: base_event_def)
  have nf: "''exception'' \<notin> set structured_fields" "''request_id'' \<notin> set structured_fields" by (simp_all add: structured_fields_def)
  have ev: "log_event ts ctx r = (let event2 = fold (\<lambda>f. set_present f (log_attr r f)) structured_fields
      (set_present ''request_id'' (log_request_id ctx r) (base_event ts r))
    in case exc_text r of None \<Rightarrow> event2 | Some t \<Rightarrow> AList.update ''exception'' (JStr t) event2)"
    by (simp add: log_event_def base_event_def)
  show ?thesis
    unfolding ev Let_def using ne base nf
    by (cases "exc_text r"; cases "k \<in> set structured_fields"; cases "k = ''exception''")
      (simp_all add: update_conv map_of_present_fold [OF structured_fields_distinct] map_of_set_present)
qed

text \<open>
  C31. A log line cannot be forged: whatever a record carries, also the client's own request id, path
  or an exception's text, it becomes a single line of printable ASCII; two records have the same line only when they
  are the same event; and an event has no keys but the fixed ones and the listed structured fields.
\<close>

theorem log_line_faithful:
  assumes "float_repr_ok fr (json_floats (JObj (log_event ts ctx r)) \<union> json_floats (JObj (log_event ts' ctx' r')))"
  shows "list_all printable (format_log fr ts ctx r) \<and>
    (format_log fr ts ctx r = format_log fr ts' ctx' r' \<longleftrightarrow> log_event ts ctx r = log_event ts' ctx' r') \<and>
    set (map fst (log_event ts ctx r)) \<subseteq>
      {''timestamp'', ''level'', ''logger'', ''message'', ''request_id'', ''exception''} \<union> set structured_fields"
proof (intro conjI)
  have "float_repr_ok fr (json_floats (JObj (log_event ts ctx r)))" by (rule float_repr_ok_mono [OF assms]) simp
  then show "list_all printable (format_log fr ts ctx r)"
    unfolding list_all_iff format_log_def using dumps_printable by blast
  show "format_log fr ts ctx r = format_log fr ts' ctx' r' \<longleftrightarrow> log_event ts ctx r = log_event ts' ctx' r'"
    unfolding format_log_def using ascii_text.text_inject [OF assms] by simp
  have "k \<in> {''timestamp'', ''level'', ''logger'', ''message'', ''request_id'', ''exception''} \<union> set structured_fields"
    if "map_of (log_event ts ctx r) k \<noteq> None" for k
    using that unfolding log_event_lookup base_event_def by (auto split: if_splits)
  then show "set (map fst (log_event ts ctx r)) \<subseteq>
      {''timestamp'', ''level'', ''logger'', ''message'', ''request_id'', ''exception''} \<union> set structured_fields"
    by (auto simp: map_of_eq_None_iff)
qed

definition run_log :: log_record where
  "run_log = \<lparr>levelname = ''INFO'', logger_name = ''gateway.request'', log_message = ''request completed'',
     log_extra = [(''status_code'', Json (JInt 200)), (''tenant_id'', Json JNull)], exc_text = None\<rparr>"

theorem log_line_faithful_witness:
  "list_all printable (format_log (\<lambda>_. ''0.5'') ''T'' (Some [CHR ''a'', CHR 0x0A, CHR ''b'']) run_log) \<and>
   format_log (\<lambda>_. ''0.5'') ''T'' (Some [CHR ''a'', CHR 0x0A, CHR ''b'']) run_log \<noteq>
   format_log (\<lambda>_. ''0.5'') ''T'' (Some [CHR ''a'', CHR 0x5C, CHR ''n'', CHR ''b'']) run_log"
proof -
  let ?e1 = "log_event ''T'' (Some [CHR ''a'', CHR 0x0A, CHR ''b'']) run_log"
  let ?e2 = "log_event ''T'' (Some [CHR ''a'', CHR 0x5C, CHR ''n'', CHR ''b'']) run_log"
  have e: "?e1 = [(''timestamp'', JStr ''T''), (''level'', JStr ''INFO''), (''logger'', JStr ''gateway.request''),
      (''message'', JStr ''request completed''), (''request_id'', JStr [CHR ''a'', CHR 0x0A, CHR ''b'']), (''status_code'', JInt 200)]"
    "?e2 = [(''timestamp'', JStr ''T''), (''level'', JStr ''INFO''), (''logger'', JStr ''gateway.request''),
      (''message'', JStr ''request completed''), (''request_id'', JStr [CHR ''a'', CHR 0x5C, CHR ''n'', CHR ''b'']), (''status_code'', JInt 200)]"
    by (simp_all add: log_event_def run_log_def structured_fields_def log_request_id_def log_attr_def set_present_def)
  have "float_repr_ok (\<lambda>_. ''0.5'') (json_floats (JObj ?e1) \<union> json_floats (JObj ?e2))"
    by (simp add: e float_repr_ok_def)
  from log_line_faithful [OF this] e show ?thesis by simp
qed

text \<open>The access log carries the request id the response carries, also when the client supplied it.\<close>

lemma access_log_request_id:
  "map_of (log_event ts (Some (request_id_for header uuid)) (access_record method path st ms tid ar)) ''request_id'' =
     Some (JStr (request_id_for header uuid))"
  by (simp add: log_event_lookup log_request_id_def log_attr_def access_record_def Let_def structured_fields_def)

end
