(* ===== verification/Gw_Topology.thy ===== *)
theory Gw_Topology
  imports Gw_Json
begin

text \<open>
  \<open>deploy/validate_topology.py\<close>: the check of an experiment's topology file before anything is
  started. A file is accepted exactly when it has one of the documented shapes.
  The exceptions of the deployment scripts are values of \<open>script_exn\<close>. Python compares numbers across
  \<open>bool\<close>, \<open>int\<close> and \<open>float\<close>, so \<open>0 == False\<close>; lists and dictionaries cannot be members of a \<open>set\<close>.
\<close>

datatype script_exn =
    SValueError string
  | SJSONDecodeError
  | SRuntimeError string
  | SKeyError
  | STypeError
  | SAttributeError
  | SOSError string
  | SCalledProcessError
  | SAssertionError string
  | SStopIteration

section \<open>Python equality and sets of JSON values\<close>

fun py_number :: "json \<Rightarrow> real option" where
  "py_number (JBool b) = Some (if b then 1 else 0)"
| "py_number (JInt i) = Some (of_int i)"
| "py_number (JFloat x) = Some x"
| "py_number _ = None"

text \<open>\<open>x == y\<close> where the values compared are not dictionaries, which is all the validator compares.\<close>

definition scalar_eq :: "json \<Rightarrow> json \<Rightarrow> bool" where
  "scalar_eq x y = (case (py_number x, py_number y) of (Some a, Some b) \<Rightarrow> a = b | _ \<Rightarrow> x = y)"

fun py_eq :: "json \<Rightarrow> json \<Rightarrow> bool" where
  "py_eq (JList xs) y = (case y of JList ys \<Rightarrow> list_all2 py_eq xs ys | _ \<Rightarrow> False)"
| "py_eq x y = scalar_eq x y"

fun hashable :: "json \<Rightarrow> bool" where
  "hashable (JList _) = False"
| "hashable (JObj _) = False"
| "hashable _ = True"

fun py_set :: "json list \<Rightarrow> json list" where
  "py_set [] = []"
| "py_set (x # xs) = x # filter (\<lambda>y. \<not> py_eq x y) (py_set xs)"

text \<open>What iterating over a value yields; \<open>set(x)\<close> raises on what cannot be iterated or hashed.\<close>

fun py_iter :: "json \<Rightarrow> json list option" where
  "py_iter (JList xs) = Some xs"
| "py_iter (JObj kvs) = Some (map (\<lambda>kv. JStr (fst kv)) kvs)"
| "py_iter (JStr s) = Some (map (\<lambda>c. JStr [c]) s)"
| "py_iter _ = None"

definition set_of :: "json \<Rightarrow> script_exn + json list" where
  "set_of x = (case py_iter x of
      None \<Rightarrow> Inl STypeError
    | Some xs \<Rightarrow> if list_all hashable xs then Inr (py_set xs) else Inl STypeError)"

definition subset_of :: "json list \<Rightarrow> json list \<Rightarrow> bool" where
  "subset_of xs ys = list_all (\<lambda>x. list_ex (py_eq x) ys) xs"

section \<open>The validator\<close>

definition required_fields :: "string list" where
  "required_fields = [''topology'', ''replicas'', ''traffic'', ''gateway_backends'', ''aggregation'']"

definition expected_shapes :: "(string \<times> (nat \<times> string list \<times> string list \<times> bool)) list" where
  "expected_shapes =
     [(''T0'', (1, [''A''], [], False)),
      (''T1'', (1, [''A''], [], False)),
      (''T2'', (2, [''A''], [], False)),
      (''T3-A'', (2, [''A'', ''B''], [], False)),
      (''T3-B'', (2, [''A'', ''B''], [''A'', ''B''], False)),
      (''T3-C'', (2, [''A'', ''B''], [''A'', ''B''], True))]"

definition check_shape :: "json_dict \<Rightarrow> json \<Rightarrow> json list \<Rightarrow> json \<Rightarrow> json \<Rightarrow> script_exn + unit" where
  "check_shape config topology replicas traffic backends =
     (if \<not> hashable topology then Inl STypeError
      else case (case topology of JStr t \<Rightarrow> map_of expected_shapes t | _ \<Rightarrow> None) of
        None \<Rightarrow> Inl (SValueError ''unknown topology'')
      | Some (n, want_traffic, want_backends, want_aggregation) \<Rightarrow>
         (if \<not> (length replicas = n \<and> py_eq traffic (JList (map JStr want_traffic)) \<and>
                py_eq backends (JList (map JStr want_backends)) \<and>
                py_eq (dict_get config ''aggregation'') (JBool want_aggregation))
          then Inl (SValueError ''unsafe configuration'')
          else if topology = JStr ''T3-A'' \<and> dict_get config ''routing'' \<noteq> JStr ''deterministic_round_robin''
          then Inl (SValueError ''T3-A requires deterministic_round_robin routing'')
          else Inr ()))"

definition topology_validate :: "json_dict \<Rightarrow> script_exn + unit" where
  "topology_validate config =
     (if \<not> list_all (\<lambda>k. has_key k config) required_fields then Inl (SValueError ''missing required fields'')
      else let topology = dict_get config ''topology''; replicas = dict_get config ''replicas'';
               traffic = dict_get config ''traffic''; backends = dict_get config ''gateway_backends''
      in case replicas of
        JList rs \<Rightarrow>
          (if rs = [] then Inl (SValueError ''replicas must be a non-empty unique list'')
           else case set_of replicas of
             Inl e \<Rightarrow> Inl e
           | Inr rset \<Rightarrow>
              (if length rset \<noteq> length rs then Inl (SValueError ''replicas must be a non-empty unique list'')
               else case set_of traffic of
                 Inl e \<Rightarrow> Inl e
               | Inr tset \<Rightarrow>
                  (if \<not> subset_of tset rset then Inl (SValueError ''must name declared replicas'')
                   else case set_of backends of
                     Inl e \<Rightarrow> Inl e
                   | Inr bset \<Rightarrow>
                      (if \<not> subset_of bset rset then Inl (SValueError ''must name declared replicas'')
                       else check_shape config topology rs traffic backends))))
      | _ \<Rightarrow> Inl (SValueError ''replicas must be a non-empty unique list''))"

text \<open>
  \<open>main\<close> after the arguments: the file's contents as \<open>json.loads\<close> reads them, the printed line or the
  exit; an exception that is not caught ends the script with a traceback.
\<close>

datatype script_end = Printed string | System_exit string | Traceback script_exn

definition topology_main :: "script_exn + json \<Rightarrow> script_end" where
  "topology_main contents =
     (case (case contents of
              Inl e \<Rightarrow> Inl e
            | Inr (JObj config) \<Rightarrow> map_sum id (\<lambda>_. config) (topology_validate config)
            | Inr _ \<Rightarrow> Inl SAttributeError) of
        Inr config \<Rightarrow> (case dict_get config ''topology'' of
            JStr t \<Rightarrow> Printed (''valid topology: '' @ t)
          | _ \<Rightarrow> Printed ''valid topology: '')
      | Inl e \<Rightarrow>
         (case e of
            SOSError m \<Rightarrow> System_exit ''invalid topology''
          | SJSONDecodeError \<Rightarrow> System_exit ''invalid topology''
          | STypeError \<Rightarrow> System_exit ''invalid topology''
          | SValueError m \<Rightarrow> System_exit ''invalid topology''
          | _ \<Rightarrow> Traceback e))"

section \<open>What is accepted\<close>

lemma scalar_eq_JStr [simp]: "scalar_eq (JStr s) x \<longleftrightarrow> x = JStr s"
  by (cases x) (auto simp: scalar_eq_def)

lemma py_eq_JStr [simp]: "py_eq x (JStr s) \<longleftrightarrow> x = JStr s" "py_eq (JStr s) x \<longleftrightarrow> x = JStr s"
  by (cases x; auto simp: scalar_eq_def)+

lemma py_eq_strings: "list_all2 py_eq xs (map JStr ss) \<longleftrightarrow> xs = map JStr ss"
proof (induction ss arbitrary: xs)
  case (Cons s ss)
  then show ?case by (cases xs) auto
qed simp

lemma py_eq_string_list [simp]: "py_eq x (JList (map JStr ss)) \<longleftrightarrow> x = JList (map JStr ss)"
  by (cases x) (auto simp: py_eq_strings scalar_eq_def)

lemma length_py_set_le: "length (py_set xs) \<le> length xs"
  by (induction xs) (auto intro: order_trans [OF length_filter_le])

lemma py_set_full: "length (py_set xs) = length xs \<longleftrightarrow> sorted_wrt (\<lambda>x y. \<not> py_eq x y) xs"
  and py_set_same: "sorted_wrt (\<lambda>x y. \<not> py_eq x y) xs \<Longrightarrow> py_set xs = xs"
proof (induction xs)
  case (Cons x xs)
  {
    case 1
    have "length (filter P ys) = length ys \<longleftrightarrow> filter P ys = ys" for P and ys :: "json list"
      by (metis filter_True length_filter_less less_irrefl)
    then have "length (py_set (x # xs)) = length (x # xs) \<longleftrightarrow>
      length (py_set xs) = length xs \<and> filter (\<lambda>y. \<not> py_eq x y) (py_set xs) = py_set xs"
      using length_py_set_le [of xs] length_filter_le [of "\<lambda>y. \<not> py_eq x y" "py_set xs"]
      by (metis length_Cons le_antisym nat.inject py_set.simps(2))
    then show ?case using Cons by (auto simp: filter_id_conv)
  next
    case 2
    then show ?case using Cons by (simp add: filter_id_conv)
  }
qed simp_all

text \<open>The declared shape a configuration has to have, spelled out.\<close>

definition has_shape :: "json_dict \<Rightarrow> nat \<times> string list \<times> string list \<times> bool \<Rightarrow> bool" where
  "has_shape config shape = (case shape of (n, traffic, backends, aggregation) \<Rightarrow>
     (\<exists>rs agg. map_of config ''replicas'' = Some (JList rs) \<and> length rs = n \<and> list_all hashable rs \<and>
        sorted_wrt (\<lambda>x y. \<not> py_eq x y) rs \<and>
        JStr ` set traffic \<subseteq> set rs \<and> JStr ` set backends \<subseteq> set rs \<and>
        map_of config ''traffic'' = Some (JList (map JStr traffic)) \<and>
        map_of config ''gateway_backends'' = Some (JList (map JStr backends)) \<and>
        map_of config ''aggregation'' = Some agg \<and> py_eq agg (JBool aggregation)))"

lemma set_of_strings: "set_of (JList (map JStr ss)) = Inr (py_set (map JStr ss))"
  by (auto simp: set_of_def list_all_iff)

lemma set_py_set_strings: "set (py_set (map JStr ss)) = JStr ` set ss"
  by (induction ss) (auto simp: image_iff)

lemma subset_of_strings:
  "subset_of (py_set (map JStr ss)) rs \<longleftrightarrow> JStr ` set ss \<subseteq> set rs"
  using set_py_set_strings [of ss] by (auto simp: subset_of_def list_all_iff list_ex_iff)

lemma topology_accepts:
  assumes "has_shape config shape" and "map_of config ''topology'' = Some (JStr t)" and "map_of expected_shapes t = Some shape"
    and "t = ''T3-A'' \<Longrightarrow> map_of config ''routing'' = Some (JStr ''deterministic_round_robin'')"
  shows "topology_validate config = Inr ()"
proof -
  obtain n traffic backends aggregation where sh: "shape = (n, traffic, backends, aggregation)" by (cases shape)
  have "n > 0" using assms(3) by (auto simp: sh expected_shapes_def split: if_splits)
  then show ?thesis using assms
    by (auto simp: sh has_shape_def topology_validate_def required_fields_def has_key_def dict_get_def
      set_of_def [of "JList rs" for rs] set_of_strings py_set_same subset_of_strings check_shape_def list_all_iff
      split: option.splits)
qed

lemma check_shape_ok:
  assumes "check_shape config topology rs traffic backends = Inr ()"
  obtains t n tr be agg where "topology = JStr t" "map_of expected_shapes t = Some (n, tr, be, agg)" "length rs = n"
    "traffic = JList (map JStr tr)" "backends = JList (map JStr be)" "py_eq (dict_get config ''aggregation'') (JBool agg)"
    "t = ''T3-A'' \<Longrightarrow> dict_get config ''routing'' = JStr ''deterministic_round_robin''"
  using assms by (cases topology) (auto simp: check_shape_def split: option.splits if_splits)

lemma topology_validate_ok:
  assumes "topology_validate config = Inr ()"
  obtains rs where "list_all (\<lambda>k. has_key k config) required_fields" "dict_get config ''replicas'' = JList rs"
    "list_all hashable rs" "length (py_set rs) = length rs"
    "check_shape config (dict_get config ''topology'') rs (dict_get config ''traffic'') (dict_get config ''gateway_backends'') = Inr ()"
    "\<And>ss. dict_get config ''traffic'' = JList (map JStr ss) \<Longrightarrow> subset_of (py_set (map JStr ss)) (py_set rs)"
    "\<And>ss. dict_get config ''gateway_backends'' = JList (map JStr ss) \<Longrightarrow> subset_of (py_set (map JStr ss)) (py_set rs)"
proof (cases "dict_get config ''replicas''")
  case (JList rs)
  have r: "set_of (JList rs) = Inr (py_set rs)" "list_all hashable rs"
    using assms JList by (auto simp: topology_validate_def set_of_def Let_def split: if_splits)
  show thesis
  proof (rule that [OF _ JList r(2)])
    show "list_all (\<lambda>k. has_key k config) required_fields" "length (py_set rs) = length rs"
      using assms JList r by (auto simp: topology_validate_def Let_def split: if_splits)
    show "check_shape config (dict_get config ''topology'') rs (dict_get config ''traffic'') (dict_get config ''gateway_backends'') = Inr ()"
      using assms JList r by (auto simp: topology_validate_def Let_def split: if_splits sum.splits)
    show "subset_of (py_set (map JStr ss)) (py_set rs)" if "dict_get config ''traffic'' = JList (map JStr ss)" for ss
      using assms JList r that by (auto simp: topology_validate_def Let_def set_of_strings split: if_splits)
    show "subset_of (py_set (map JStr ss)) (py_set rs)" if "dict_get config ''gateway_backends'' = JList (map JStr ss)" for ss
      using assms JList r that by (auto simp: topology_validate_def Let_def set_of_strings split: if_splits sum.splits)
  qed
qed (use assms in \<open>auto simp: topology_validate_def Let_def split: if_splits\<close>)

lemma has_key_get: "has_key k d \<Longrightarrow> map_of d k = Some (dict_get d k)"
  by (auto simp: has_key_def dict_get_def)

text \<open>
  The validator fails closed: a configuration is accepted exactly when it names a documented topology
  and has that topology's number of distinct replicas, its exact lists of traffic and gateway backends, all
  of them declared replicas, its aggregation flag, and for T3-A the deterministic routing. Everything else,
  malformed values included, raises. The flag is compared as Python does, where \<open>0 == False\<close>.
\<close>

theorem topology_validate_exact:
  "topology_validate config = Inr () \<longleftrightarrow>
     (\<exists>t shape. map_of config ''topology'' = Some (JStr t) \<and> map_of expected_shapes t = Some shape \<and> has_shape config shape \<and>
        (if t = ''T3-A'' then map_of config ''routing'' = Some (JStr ''deterministic_round_robin'') else True))"
    (is "_ \<longleftrightarrow> ?spec")
proof
  assume "topology_validate config = Inr ()"
  then show ?spec
  proof (rule topology_validate_ok)
    fix rs
    assume keys: "list_all (\<lambda>k. has_key k config) required_fields" and rs: "dict_get config ''replicas'' = JList rs"
      and hash: "list_all hashable rs" and len: "length (py_set rs) = length rs"
      and chk: "check_shape config (dict_get config ''topology'') rs (dict_get config ''traffic'')
        (dict_get config ''gateway_backends'') = Inr ()"
      and tr: "\<And>ss. dict_get config ''traffic'' = JList (map JStr ss) \<Longrightarrow> subset_of (py_set (map JStr ss)) (py_set rs)"
      and be: "\<And>ss. dict_get config ''gateway_backends'' = JList (map JStr ss) \<Longrightarrow> subset_of (py_set (map JStr ss)) (py_set rs)"
    have uniq: "sorted_wrt (\<lambda>x y. \<not> py_eq x y) rs" "py_set rs = rs"
      using len py_set_full py_set_same by blast+
    have get: "map_of config k = Some (dict_get config k)" if "k \<in> set required_fields" for k
      using keys that by (intro has_key_get) (auto simp: list_all_iff)
    show ?spec
    proof (rule check_shape_ok [OF chk])
      fix t n traffic backends agg
      assume t: "dict_get config ''topology'' = JStr t" "map_of expected_shapes t = Some (n, traffic, backends, agg)"
        and sh: "length rs = n" "dict_get config ''traffic'' = JList (map JStr traffic)"
          "dict_get config ''gateway_backends'' = JList (map JStr backends)" "py_eq (dict_get config ''aggregation'') (JBool agg)"
        and ro: "t = ''T3-A'' \<Longrightarrow> dict_get config ''routing'' = JStr ''deterministic_round_robin''"
      have "has_shape config (n, traffic, backends, agg)"
        using sh rs hash uniq get tr [OF sh(2)] be [OF sh(3)]
        by (auto simp: has_shape_def required_fields_def subset_of_strings)
      moreover have "map_of config ''routing'' = Some (JStr ''deterministic_round_robin'')" if "t = ''T3-A''"
        using ro [OF that] by (auto simp: dict_get_def split: option.splits)
      ultimately show ?spec using t get [of "''topology''"] by (auto simp: required_fields_def)
    qed
  qed
next
  assume ?spec
  then obtain t shape where "has_shape config shape" "map_of config ''topology'' = Some (JStr t)"
    "map_of expected_shapes t = Some shape"
    "if t = ''T3-A'' then map_of config ''routing'' = Some (JStr ''deterministic_round_robin'') else True" by blast
  then show "topology_validate config = Inr ()" by (intro topology_accepts) auto
qed

text \<open>The files the repository ships under \<open>deploy/topologies\<close>.\<close>

definition shipped :: "string \<Rightarrow> string list \<Rightarrow> string list \<Rightarrow> string list \<Rightarrow> bool \<Rightarrow> json_dict" where
  "shipped t replicas traffic backends aggregation =
     [(''aggregation'', JBool aggregation), (''gateway_backends'', JList (map JStr backends)),
      (''replicas'', JList (map JStr replicas)), (''topology'', JStr t), (''traffic'', JList (map JStr traffic))]"

lemma shipped_topologies_accepted:
  "topology_validate (shipped ''T0'' [''A''] [''A''] [] False) = Inr ()"
  "topology_validate (shipped ''T1'' [''A''] [''A''] [] False) = Inr ()"
  "topology_validate (shipped ''T2'' [''A'', ''B''] [''A''] [] False) = Inr ()"
  "topology_validate (AList.update ''routing'' (JStr ''deterministic_round_robin'')
     (shipped ''T3-A'' [''A'', ''B''] [''A'', ''B''] [] False)) = Inr ()"
  "topology_validate (shipped ''T3-B'' [''A'', ''B''] [''A'', ''B''] [''A'', ''B''] False) = Inr ()"
  "topology_validate (shipped ''T3-C'' [''A'', ''B''] [''A'', ''B''] [''A'', ''B''] True) = Inr ()"
  "topology_main (Inr (JObj (shipped ''T2'' [''A'', ''B''] [''A''] [''B''] False))) = System_exit ''invalid topology''"
  by code_simp+

section \<open>The preflight fingerprint\<close>

text \<open>
  \<open>deploy/preflight.py\<close>: the fingerprint of the environment. Which programs are on the path and what running
  one yields (its exit status and output, or the exception of a time-out) are parameters.
\<close>

record completed =
  returncode :: int
  stdout :: string
  stderr :: string

definition preflight_run :: "(string \<Rightarrow> bool) \<Rightarrow> (string list \<Rightarrow> script_exn + completed) \<Rightarrow> string list \<Rightarrow> script_exn + json" where
  "preflight_run which exec command =
     (if \<not> which (hd command) then Inr JNull
      else case exec command of
        Inl e \<Rightarrow> Inl e
      | Inr r \<Rightarrow> Inr (if returncode r = 0 then JStr (py_strip (if stdout r \<noteq> [] then stdout r else stderr r)) else JNull))"

definition fingerprint_commands :: "(string \<times> string list) list" where
  "fingerprint_commands =
     [(''git_sha'', [''git'', ''rev-parse'', ''HEAD'']),
      (''go'', [''go'', ''version'']),
      (''gpu'', [''nvidia-smi'', ''--query-gpu=name,uuid,driver_version,memory.total,memory.used'', ''--format=csv,noheader'']),
      (''gpu_processes'', [''nvidia-smi'', ''--query-compute-apps=gpu_uuid,pid,process_name,used_memory'', ''--format=csv,noheader'']),
      (''python'', [''python'', ''--version'']),
      (''pytorch'', [''python'', ''-c'', ''import torch; print(torch.__version__)'']),
      (''transformers'', [''python'', ''-c'', ''import transformers; print(transformers.__version__)'']),
      (''vllm'', [''vllm'', ''--version'']),
      (''ports'', [''ss'', ''-lntp''])]"

fun run_all :: "(string list \<Rightarrow> script_exn + json) \<Rightarrow> (string \<times> string list) list \<Rightarrow> script_exn + json_dict" where
  "run_all run [] = Inr []"
| "run_all run ((k, command) # rest) = (case run command of
      Inl e \<Rightarrow> Inl e
    | Inr v \<Rightarrow> map_sum id (\<lambda>d. (k, v) # d) (run_all run rest))"

definition preflight_fingerprint :: "(string \<Rightarrow> bool) \<Rightarrow> (string list \<Rightarrow> script_exn + completed) \<Rightarrow> script_exn + json_dict" where
  "preflight_fingerprint which exec = run_all (preflight_run which exec) fingerprint_commands"

lemma run_all_total:
  "(\<And>p. p \<in> set cs \<Longrightarrow> \<exists>v. run (snd p) = Inr v) \<Longrightarrow>
   \<exists>d. run_all run cs = Inr d \<and> list_all2 (\<lambda>p q. fst q = fst p \<and> run (snd p) = Inr (snd q)) cs d"
proof (induction cs)
  case (Cons p cs)
  then obtain d where d: "run_all run cs = Inr d" "list_all2 (\<lambda>p q. fst q = fst p \<and> run (snd p) = Inr (snd q)) cs d" by auto
  obtain v where "run (snd p) = Inr v" using Cons.prems [of p] by auto
  with d show ?case by (cases p) auto
qed simp

lemma list_all2_set2: "list_all2 P xs ys \<Longrightarrow> y \<in> set ys \<Longrightarrow> \<exists>x. P x y"
  by (induction rule: list_all2_induct) auto

lemma list_all2_keys: "list_all2 (\<lambda>p q. fst q = fst p \<and> P p q) cs d \<Longrightarrow> map fst d = map fst cs"
  by (induction rule: list_all2_induct) auto

text \<open>
  Whatever is installed and however the programs exit, as long as none of them exceeds its time limit the
  fingerprint has all nine keys, with a null for what could not be found out.
\<close>

theorem preflight_complete:
  assumes "\<And>c. \<exists>r. exec c = Inr r"
  shows "\<exists>d. preflight_fingerprint which exec = Inr d \<and> map fst d = map fst fingerprint_commands \<and>
    (\<forall>p\<in>set d. snd p = JNull \<or> (\<exists>s. snd p = JStr s))"
proof -
  have run: "\<exists>v. preflight_run which exec c = Inr v \<and> (v = JNull \<or> (\<exists>s. v = JStr s))" for c
    using assms [of c] by (auto simp: preflight_run_def)
  then obtain d where d: "preflight_fingerprint which exec = Inr d"
    "list_all2 (\<lambda>p q. fst q = fst p \<and> preflight_run which exec (snd p) = Inr (snd q)) fingerprint_commands d"
    using run_all_total [of fingerprint_commands "preflight_run which exec"] unfolding preflight_fingerprint_def by blast
  have "map fst d = map fst fingerprint_commands" using list_all2_keys [OF d(2)] .
  moreover have "snd p = JNull \<or> (\<exists>s. snd p = JStr s)" if p: "p \<in> set d" for p
  proof -
    obtain q :: "string \<times> string list" where "preflight_run which exec (snd q) = Inr (snd p)"
      using list_all2_set2 [OF d(2) p] by blast
    with run [of "snd q"] show ?thesis by auto
  qed
  ultimately show ?thesis using d(1) by blast
qed

end
