(* ===== verification/Gw_Replica.thy ===== *)
theory Gw_Replica
  imports Gw_Topology
begin

text \<open>
  \<open>deploy/vllm_replica.py\<close>: starting, inspecting and stopping a replica as a process group, over a model of
  what the script uses of the operating system: the process table, process groups, signals, the directory of
  lifecycle records. What other processes do while the script sleeps, or between two of its system calls, is
  an argument (a function on the system's state); the digest \<open>hashlib.sha256\<close> is a parameter.
  A process identifier fits a C \<open>int\<close>. A record file holds the record \<open>start\<close> wrote, perhaps edited to lack its group
  or identity, or it is malformed: reading its \<open>pid\<close> then raises.
\<close>

section \<open>The operating system\<close>

record os_proc =
  ps_text :: string
  proc_pgid :: int
  permitted :: bool
  own_child :: bool
  exited :: bool

record replica_record =
  rec_name :: string
  rec_pid :: int
  rec_pgid :: "int option"
  rec_port :: int
  rec_identity :: "string option"

datatype record_file = Record replica_record | Malformed script_exn

record os_state =
  procs :: "(int \<times> os_proc) list"
  caller_pgid :: int
  record_files :: "(string \<times> record_file) list"
  dir_writable :: bool
  ps_installed :: bool

text \<open>The script: the system it runs on and the groups it has sent SIGTERM to.\<close>

record script =
  sys :: os_state
  sent :: "int list"

text \<open>The processes that a \<open>pid\<close> argument of \<open>waitpid\<close> or \<open>kill\<close> addresses.\<close>

definition addressed :: "int \<Rightarrow> os_state \<Rightarrow> (int \<times> os_proc) list" where
  "addressed pid os = filter (\<lambda>p.
     if 0 < pid then fst p = pid else if pid = 0 then proc_pgid (snd p) = caller_pgid os
     else if pid = -1 then True else proc_pgid (snd p) = - pid) (procs os)"

definition waitpid_nohang :: "int \<Rightarrow> os_state \<Rightarrow> (script_exn + int) \<times> os_state" where
  "waitpid_nohang pid os = (let children = filter (\<lambda>p. own_child (snd p)) (addressed pid os)
     in if children = [] then (Inl (SOSError ''ChildProcessError''), os)
        else case filter (\<lambda>p. exited (snd p)) children of
          [] \<Rightarrow> (Inr 0, os)
        | p # _ \<Rightarrow> (Inr (fst p), os\<lparr>procs := filter (\<lambda>q. fst q \<noteq> fst p) (procs os)\<rparr>))"

definition kill_check :: "int \<Rightarrow> os_state \<Rightarrow> script_exn + unit" where
  "kill_check pid os =
     (if addressed pid os = [] then Inl (SOSError ''ProcessLookupError'')
      else if \<not> list_ex (\<lambda>p. permitted (snd p)) (addressed pid os) then Inl (SOSError ''PermissionError'')
      else Inr ())"

definition getpgid :: "int \<Rightarrow> os_state \<Rightarrow> script_exn + int" where
  "getpgid pid os =
     (if pid = 0 then Inr (caller_pgid os)
      else case map_of (procs os) pid of
        Some q \<Rightarrow> Inr (proc_pgid q)
      | None \<Rightarrow> Inl (SOSError ''ProcessLookupError''))"

section \<open>The script\<close>

text \<open>\<open>str.isalnum\<close> on the Latin-1 range.\<close>

definition py_isalnum_char :: "char \<Rightarrow> bool" where
  "py_isalnum_char c = (let n = code_point c in
     48 \<le> n \<and> n \<le> 57 \<or> 65 \<le> n \<and> n \<le> 90 \<or> 97 \<le> n \<and> n \<le> 122 \<or> n \<in> {170, 178, 179, 181, 185, 186, 188, 189, 190} \<or>
     192 \<le> n \<and> n \<noteq> 215 \<and> n \<noteq> 247)"

definition record_path :: "string \<Rightarrow> script_exn + string" where
  "record_path nm =
     (if nm = [] \<or> \<not> list_all py_isalnum_char nm then Inl (SValueError ''replica name must be alphanumeric'')
      else Inr (nm @ ''.json''))"

definition alive :: "int \<Rightarrow> os_state \<Rightarrow> (script_exn + bool) \<times> os_state" where
  "alive pid os = (let (reaped, os1) = waitpid_nohang pid os
     in if reaped = Inr pid then (Inr False, os1)
        else (case kill_check pid os1 of
                Inr _ \<Rightarrow> Inr True
              | Inl e \<Rightarrow> if e = SOSError ''ProcessLookupError'' then Inr False else Inl e, os1))"

definition process_identity :: "(string \<Rightarrow> string) \<Rightarrow> int \<Rightarrow> os_state \<Rightarrow> script_exn + string" where
  "process_identity sha pid os =
     (if \<not> ps_installed os then Inl (SOSError ''FileNotFoundError'')
      else let identity = (case map_of (procs os) pid of Some q \<Rightarrow> py_strip (ps_text q) | None \<Rightarrow> [])
      in if identity = [] then Inl (SOSError ''ProcessLookupError'') else Inr (sha identity))"

definition verify_identity :: "(string \<Rightarrow> string) \<Rightarrow> replica_record \<Rightarrow> os_state \<Rightarrow> script_exn + unit" where
  "verify_identity sha r os = (case process_identity sha (rec_pid r) os of
      Inl e \<Rightarrow> Inl e
    | Inr i \<Rightarrow> if Some i \<noteq> rec_identity r then Inl (SRuntimeError ''stale/reused PID'') else Inr ())"

definition read_record :: "string \<Rightarrow> os_state \<Rightarrow> script_exn + replica_record" where
  "read_record path os = (case map_of (record_files os) path of
      None \<Rightarrow> Inl (SOSError ''FileNotFoundError'')
    | Some (Malformed e) \<Rightarrow> Inl e
    | Some (Record r) \<Rightarrow> Inr r)"

text \<open>\<open>path.exists() and alive(json.loads(path.read_text())["pid"])\<close>\<close>

definition already_running :: "string \<Rightarrow> os_state \<Rightarrow> (script_exn + bool) \<times> os_state" where
  "already_running path os =
     (if map_of (record_files os) path = None then (Inr False, os)
      else case read_record path os of Inl e \<Rightarrow> (Inl e, os) | Inr r \<Rightarrow> alive (rec_pid r) os)"

text \<open>\<open>Popen.poll\<close>: a child that is gone counts as exited.\<close>

definition poll :: "int \<Rightarrow> os_state \<Rightarrow> bool \<times> os_state" where
  "poll pid os = (let (reaped, os1) = waitpid_nohang pid os in (case reaped of Inr r \<Rightarrow> r = pid | Inl _ \<Rightarrow> True, os1))"

text \<open>
  \<open>start\<close> from the creation of the process on; \<open>spawned\<close> is the process \<open>Popen\<close> created, which leads its own
  session and group, or its exception, \<open>nap\<close> what happens during the pause.
\<close>

definition launch :: "(string \<Rightarrow> string) \<Rightarrow> string \<Rightarrow> string \<Rightarrow> int \<Rightarrow> script_exn + (int \<times> string \<times> bool) \<Rightarrow>
    (os_state \<Rightarrow> os_state) \<Rightarrow> os_state \<Rightarrow> (script_exn + unit) \<times> os_state" where
  "launch sha path nm port spawned nap os = (case spawned of
      Inl e \<Rightarrow> (Inl e, os)
    | Inr (pid, text, perm) \<Rightarrow>
       (let os1 = nap (os\<lparr>procs := procs os @
              [(pid, \<lparr>ps_text = text, proc_pgid = pid, permitted = perm, own_child = True, exited = False\<rparr>)]\<rparr>);
            (gone, os2) = poll pid os1
        in if gone then (Inl (SRuntimeError ''exited during startup''), os2)
           else case process_identity sha pid os2 of
             Inl e \<Rightarrow> (Inl e, os2)
           | Inr i \<Rightarrow>
              (if \<not> dir_writable os2 then (Inl (SOSError ''write_text''), os2)
               else (Inr (), os2\<lparr>record_files := AList.update path
                      (Record \<lparr>rec_name = nm, rec_pid = pid, rec_pgid = Some pid, rec_port = port, rec_identity = Some i\<rparr>)
                      (record_files os2)\<rparr>))))"

definition start :: "(string \<Rightarrow> string) \<Rightarrow> string \<Rightarrow> int \<Rightarrow> string list \<Rightarrow> script_exn + (int \<times> string \<times> bool) \<Rightarrow>
    (os_state \<Rightarrow> os_state) \<Rightarrow> os_state \<Rightarrow> (script_exn + unit) \<times> os_state" where
  "start sha nm port command spawned nap os = (case record_path nm of
      Inl e \<Rightarrow> (Inl e, os)
    | Inr path \<Rightarrow>
       (if command = [] \<or> \<not> (1 \<le> port \<and> port \<le> 65535) then (Inl (SValueError ''a command and valid port are required''), os)
        else and_then (already_running path os) (\<lambda>running os1.
          if running then (Inl (SRuntimeError ''already running''), os1)
          else if \<not> dir_writable os1 then (Inl (SOSError ''mkdir''), os1)
          else launch sha path nm port spawned nap os1)))"

text \<open>The wait in \<open>stop\<close>: one element of \<open>naps\<close> for every pause before the deadline.\<close>

fun stop_wait :: "int \<Rightarrow> (os_state \<Rightarrow> os_state) list \<Rightarrow> os_state \<Rightarrow> (script_exn + unit) \<times> os_state" where
  "stop_wait pid [] os = (Inr (), os)"
| "stop_wait pid (nap # naps) os =
     and_then (alive pid os) (\<lambda>a os1. if a then stop_wait pid naps (nap os1) else (Inr (), os1))"

definition unlink :: "string \<Rightarrow> os_state \<Rightarrow> (script_exn + unit) \<times> os_state" where
  "unlink path os =
     (if map_of (record_files os) path = None then (Inl (SOSError ''FileNotFoundError''), os)
      else if \<not> dir_writable os then (Inl (SOSError ''PermissionError''), os)
      else (Inr (), os\<lparr>record_files := AList.delete path (record_files os)\<rparr>))"

text \<open>\<open>stop\<close> after the signal, then up to it; \<open>race1\<close> and \<open>race2\<close> happen before \<open>getpgid\<close> and before \<open>killpg\<close>.\<close>

definition await_exit :: "string \<Rightarrow> int \<Rightarrow> (os_state \<Rightarrow> os_state) list \<Rightarrow> os_state \<Rightarrow> (script_exn + unit) \<times> os_state" where
  "await_exit path pid naps os =
     and_then (stop_wait pid naps os) (\<lambda>_ os1. and_then (alive pid os1) (\<lambda>a os2.
       if a then (Inl (SRuntimeError ''process group still exists''), os2) else unlink path os2))"

definition stop :: "(string \<Rightarrow> string) \<Rightarrow> string \<Rightarrow> (os_state \<Rightarrow> os_state) \<Rightarrow> (os_state \<Rightarrow> os_state) \<Rightarrow>
    (os_state \<Rightarrow> os_state) list \<Rightarrow> script \<Rightarrow> (script_exn + unit) \<times> script" where
  "stop sha nm race1 race2 naps s = (case record_path nm of
      Inl e \<Rightarrow> (Inl e, s)
    | Inr path \<Rightarrow>
       (case read_record path (sys s) of
          Inl e \<Rightarrow> (Inl e, s)
        | Inr r \<Rightarrow>
           (case verify_identity sha r (sys s) of
              Inl e \<Rightarrow> (Inl e, s)
            | Inr _ \<Rightarrow>
               (let os1 = race1 (sys s); os2 = race2 os1
                in case getpgid (rec_pid r) os1 of
                     Inl e \<Rightarrow> (Inl e, s\<lparr>sys := os1\<rparr>)
                   | Inr g \<Rightarrow>
                      (case rec_pgid r of
                         None \<Rightarrow> (Inl SKeyError, s\<lparr>sys := os1\<rparr>)
                       | Some pgid \<Rightarrow>
                          (if g \<noteq> pgid \<or> pgid \<noteq> rec_pid r
                           then (Inl (SRuntimeError ''recorded PID no longer owns the expected process group''), s\<lparr>sys := os1\<rparr>)
                           else case kill_check (- pgid) os2 of
                             Inl e \<Rightarrow> (Inl e, s\<lparr>sys := os2\<rparr>)
                           | Inr _ \<Rightarrow>
                              (let (res, os3) = await_exit path (rec_pid r) naps os2
                               in (res, s\<lparr>sys := os3, sent := sent s @ [pgid]\<rparr>))))))))"

record status_report =
  st_record :: replica_record
  st_alive :: bool
  st_identity_matches :: bool
  st_stale_or_reused :: bool

definition status :: "(string \<Rightarrow> string) \<Rightarrow> string \<Rightarrow> os_state \<Rightarrow> (script_exn + status_report) \<times> os_state" where
  "status sha nm os = (case record_path nm of
      Inl e \<Rightarrow> (Inl e, os)
    | Inr path \<Rightarrow>
       (case read_record path os of
          Inl e \<Rightarrow> (Inl e, os)
        | Inr r \<Rightarrow>
           and_then (alive (rec_pid r) os) (\<lambda>pid_alive os1.
             case (if pid_alive then map_sum id (\<lambda>i. Some i = rec_identity r) (process_identity sha (rec_pid r) os1)
                   else Inr False) of
               Inl e \<Rightarrow> (Inl e, os1)
             | Inr matches \<Rightarrow> (Inr \<lparr>st_record = r, st_alive = pid_alive \<and> matches, st_identity_matches = matches,
                  st_stale_or_reused = pid_alive \<and> \<not> matches\<rparr>, os1))))"

text \<open>\<open>main\<close> after argument parsing: how the script ends.\<close>

datatype replica_action = Start string int "string list" | Stop string | Status string

datatype replica_end = Exit_code int | Lifecycle_error script_exn | Uncaught script_exn

definition lifecycle_exit :: "script_exn + int \<Rightarrow> replica_end" where
  "lifecycle_exit r = (case r of
      Inr n \<Rightarrow> Exit_code n
    | Inl e \<Rightarrow> (case e of
        SOSError _ \<Rightarrow> Lifecycle_error e
      | SValueError _ \<Rightarrow> Lifecycle_error e
      | SRuntimeError _ \<Rightarrow> Lifecycle_error e
      | SJSONDecodeError \<Rightarrow> Lifecycle_error e
      | SKeyError \<Rightarrow> Lifecycle_error e
      | _ \<Rightarrow> Uncaught e))"

definition replica_main :: "(string \<Rightarrow> string) \<Rightarrow> replica_action \<Rightarrow> script_exn + (int \<times> string \<times> bool) \<Rightarrow>
    (os_state \<Rightarrow> os_state) \<Rightarrow> (os_state \<Rightarrow> os_state) \<Rightarrow> (os_state \<Rightarrow> os_state) list \<Rightarrow> script \<Rightarrow> replica_end \<times> script" where
  "replica_main sha action spawned race1 race2 naps s = (case action of
      Start nm port args \<Rightarrow>
        (let command = (if take 1 args = [''--''] then drop 1 args else args);
             (r, os') = start sha nm port command spawned race1 (sys s)
         in (lifecycle_exit (map_sum id (\<lambda>_. 0) r), s\<lparr>sys := os'\<rparr>))
    | Stop nm \<Rightarrow> (let (r, s') = stop sha nm race1 race2 naps s in (lifecycle_exit (map_sum id (\<lambda>_. 0) r), s'))
    | Status nm \<Rightarrow> (let (r, os') = status sha nm (sys s)
         in (lifecycle_exit (map_sum id (\<lambda>st. if st_alive st then 0 else 1) r), s\<lparr>sys := os'\<rparr>)))"

section \<open>Stopping\<close>

lemma addressed_pid: "0 < pid \<Longrightarrow> addressed pid os = filter (\<lambda>p. fst p = pid) (procs os)"
  by (simp add: addressed_def)

lemma addressed_None: "0 < pid \<Longrightarrow> addressed pid os = [] \<longleftrightarrow> map_of (procs os) pid = None"
  by (auto simp: addressed_pid filter_empty_conv map_of_eq_None_iff)

lemma alive_False:
  assumes "alive pid os = (Inr False, os')" and "0 < pid"
  shows "map_of (procs os') pid = None"
proof (cases "fst (waitpid_nohang pid os) = Inr pid")
  case True
  then have "os' = os\<lparr>procs := filter (\<lambda>q. fst q \<noteq> pid) (procs os)\<rparr>"
    using assms by (auto simp: alive_def waitpid_nohang_def Let_def split: if_splits list.splits)
  then show ?thesis by (auto simp: map_of_eq_None_iff)
next
  case False
  then have "addressed pid os' = []"
    using assms(1) by (auto simp: alive_def kill_check_def Let_def split: prod.splits if_splits sum.splits)
  then show ?thesis using assms(2) by (simp add: addressed_None)
qed

lemma alive_files: "alive pid os = (r, os') \<Longrightarrow> record_files os' = record_files os \<and> dir_writable os' = dir_writable os"
  by (auto simp: alive_def waitpid_nohang_def Let_def split: if_splits list.splits)

lemma verify_identity_ok:
  assumes "verify_identity sha r os = Inr u"
  obtains q where "map_of (procs os) (rec_pid r) = Some q" "rec_identity r = Some (sha (py_strip (ps_text q)))"
proof (cases "map_of (procs os) (rec_pid r)")
  case (Some q)
  then show thesis using assms by (intro that) (auto simp: verify_identity_def process_identity_def Let_def split: if_splits)
qed (use assms in \<open>auto simp: verify_identity_def process_identity_def split: if_splits\<close>)

text \<open>Either \<open>stop\<close> sends nothing, or its checks held and it signals the recorded group and waits.\<close>

lemma stop_cases:
  assumes "stop sha nm race1 race2 naps s = (res, s')"
  obtains (refused) e where "res = Inl e" "sent s' = sent s"
  | (signalled) r q where "record_path nm = Inr (nm @ ''.json'')"
      "map_of (record_files (sys s)) (nm @ ''.json'') = Some (Record r)"
      "map_of (procs (sys s)) (rec_pid r) = Some q" "rec_identity r = Some (sha (py_strip (ps_text q)))"
      "getpgid (rec_pid r) (race1 (sys s)) = Inr (rec_pid r)" "rec_pgid r = Some (rec_pid r)"
      "kill_check (- rec_pid r) (race2 (race1 (sys s))) = Inr ()"
      "sent s' = sent s @ [rec_pid r]"
      "await_exit (nm @ ''.json'') (rec_pid r) naps (race2 (race1 (sys s))) = (res, sys s')"
proof (cases "sent s' = sent s")
  case True
  moreover have "res \<noteq> Inr u" for u
    using assms True by (auto simp: stop_def Let_def split: sum.splits option.splits if_splits prod.splits)
  then have "\<exists>e. res = Inl e" by (cases res) auto
  ultimately show thesis using refused by blast
next
  case False
  obtain path where p: "record_path nm = Inr path" using assms False by (auto simp: stop_def split: sum.splits)
  then have path: "path = nm @ ''.json''" by (auto simp: record_path_def split: if_splits)
  obtain r where r: "read_record path (sys s) = Inr r" using assms False p by (auto simp: stop_def split: sum.splits)
  then have fl: "map_of (record_files (sys s)) path = Some (Record r)"
    by (auto simp: read_record_def split: option.splits record_file.splits)
  obtain u where v: "verify_identity sha r (sys s) = Inr u" using assms False p r by (auto simp: stop_def split: sum.splits)
  then obtain q where q: "map_of (procs (sys s)) (rec_pid r) = Some q" "rec_identity r = Some (sha (py_strip (ps_text q)))"
    by (rule verify_identity_ok)
  show thesis
    by (rule signalled [of r q])
      (use assms False p r v path fl q in \<open>auto simp: stop_def Let_def split: sum.splits option.splits if_splits prod.splits\<close>)
qed

text \<open>
  C32. \<open>stop\<close> never signals a process it did not verify: it sends nothing, or exactly one SIGTERM, to the
  recorded process group, after the running process under the recorded pid matched the recorded
  identity (the digest of its start time and command) and led that group; whatever other processes do meanwhile.
\<close>

theorem stop_signals_verified_group:
  "sent (snd (stop sha nm race1 race2 naps s)) = sent s \<or>
   (\<exists>r q. map_of (record_files (sys s)) (nm @ ''.json'') = Some (Record r) \<and>
      map_of (procs (sys s)) (rec_pid r) = Some q \<and> rec_identity r = Some (sha (py_strip (ps_text q))) \<and>
      getpgid (rec_pid r) (race1 (sys s)) = Inr (rec_pid r) \<and> rec_pgid r = Some (rec_pid r) \<and>
      sent (snd (stop sha nm race1 race2 naps s)) = sent s @ [rec_pid r])"
proof -
  obtain res s' where eq: "stop sha nm race1 race2 naps s = (res, s')" by (cases "stop sha nm race1 race2 naps s")
  from eq show ?thesis
  proof (cases rule: stop_cases)
    case refused
    then show ?thesis by (simp add: eq)
  next
    case (signalled r q)
    then show ?thesis by (intro disjI2 exI [of _ r] exI [of _ q]) (simp add: eq)
  qed
qed

lemma await_exit_ok:
  assumes "await_exit path pid naps os = (Inr (), os')" and "0 < pid"
  shows "map_of (procs os') pid = None \<and> map_of (record_files os') path = None"
proof -
  obtain os1 os2 where a: "alive pid os1 = (Inr False, os2)" and u: "unlink path os2 = (Inr (), os')"
    using assms(1) by (auto simp: await_exit_def elim!: and_then_cases split: if_splits)
  have "map_of (procs os2) pid = None" by (rule alive_False [OF a assms(2)])
  then show ?thesis using u by (auto simp: unlink_def delete_conv split: if_splits)
qed

text \<open>
  A \<open>stop\<close> that succeeds has signalled the recorded group once, the recorded process is gone and so is the record.
\<close>

theorem stop_success:
  assumes "stop sha nm race1 race2 naps s = (Inr (), s')" and "\<And>p. p \<in> set (procs (sys s)) \<Longrightarrow> 0 < fst p"
  shows "\<exists>r. map_of (record_files (sys s)) (nm @ ''.json'') = Some (Record r) \<and> sent s' = sent s @ [rec_pid r] \<and>
    map_of (procs (sys s')) (rec_pid r) = None \<and> map_of (record_files (sys s')) (nm @ ''.json'') = None"
  using assms(1)
proof (cases rule: stop_cases)
  case (signalled r q)
  then have "0 < rec_pid r" using assms(2) [of "(rec_pid r, q)"] by (simp add: map_of_SomeD)
  then show ?thesis using signalled await_exit_ok by blast
qed simp

section \<open>Starting\<close>

lemma poll_running:
  assumes "poll pid os = (False, os')" and "0 < pid"
  shows "os' = os \<and> waitpid_nohang pid os = (Inr 0, os)"
  using assms
  by (auto simp: poll_def waitpid_nohang_def Let_def addressed_pid split: if_splits list.splits dest!: filter_eq_ConsD)

lemma start_ok:
  assumes "start sha nm port command (Inr (pid, text, perm)) nap os = (Inr (), os')" and "0 < pid"
  obtains os1 i where "record_path nm = Inr (nm @ ''.json'')" "waitpid_nohang pid os1 = (Inr 0, os1)"
    "process_identity sha pid os1 = Inr i" "dir_writable os1"
    "os' = os1\<lparr>record_files := AList.update (nm @ ''.json'')
       (Record \<lparr>rec_name = nm, rec_pid = pid, rec_pgid = Some pid, rec_port = port, rec_identity = Some i\<rparr>) (record_files os1)\<rparr>"
proof -
  obtain path where p: "record_path nm = Inr path" using assms(1) by (auto simp: start_def split: sum.splits)
  then have path: "path = nm @ ''.json''" by (auto simp: record_path_def split: if_splits)
  obtain os0 where l: "launch sha path nm port (Inr (pid, text, perm)) nap os0 = (Inr (), os')"
    using assms(1) p by (auto simp: start_def elim!: and_then_cases split: if_splits)
  then show thesis
    using p path poll_running [OF _ assms(2)] that
    by (auto simp: launch_def Let_def split: prod.splits if_splits sum.splits)
qed

text \<open>
  A started replica is under control: after a successful \<open>start\<close> the record is on disk, \<open>status\<close>
  reports the process alive with the recorded identity, and \<open>stop\<close> passes all its checks and sends SIGTERM to the new
  process group, as long as that process runs, leads its group, and may be signalled.
\<close>

theorem start_status_stop:
  assumes ok: "start sha nm port command (Inr (pid, text, perm)) nap os = (Inr (), os')" and pid: "0 < pid"
    and proc: "map_of (procs os') pid = Some q" "permitted q" "proc_pgid q = pid"
    and unique: "distinct (map fst (procs os'))"
  shows "\<exists>i. fst (status sha nm os') = Inr \<lparr>st_record = \<lparr>rec_name = nm, rec_pid = pid, rec_pgid = Some pid, rec_port = port,
      rec_identity = Some i\<rparr>, st_alive = True, st_identity_matches = True, st_stale_or_reused = False\<rparr>"
    and "sent (snd (stop sha nm id id naps \<lparr>sys = os', sent = []\<rparr>)) = [pid]"
proof -
  from start_ok [OF ok pid] obtain os1 i where s: "record_path nm = Inr (nm @ ''.json'')"
    "waitpid_nohang pid os1 = (Inr 0, os1)" "process_identity sha pid os1 = Inr i" "dir_writable os1"
    "os' = os1\<lparr>record_files := AList.update (nm @ ''.json'')
       (Record \<lparr>rec_name = nm, rec_pid = pid, rec_pgid = Some pid, rec_port = port, rec_identity = Some i\<rparr>) (record_files os1)\<rparr>"
    by blast
  let ?r = "\<lparr>rec_name = nm, rec_pid = pid, rec_pgid = Some pid, rec_port = port, rec_identity = Some i\<rparr>"
  have rd: "read_record (nm @ ''.json'') os' = Inr ?r" using s(5) by (simp add: read_record_def update_conv)
  have same: "procs os' = procs os1" "ps_installed os' = ps_installed os1" "caller_pgid os' = caller_pgid os1" using s(5) by simp_all
  have pi: "process_identity sha pid os' = Inr i" using s(3) same by (simp add: process_identity_def split: if_splits)
  have mem: "(pid, q) \<in> set (procs os')" using proc(1) by (rule map_of_SomeD)
  have w: "waitpid_nohang pid os' = (Inr 0, os')"
    using s(2) same pid by (auto simp: waitpid_nohang_def addressed_def Let_def split: if_splits list.splits dest!: filter_eq_ConsD)
  have k: "kill_check pid os' = Inr ()"
    using mem proc(2) pid by (force simp: kill_check_def addressed_def list_ex_iff filter_empty_conv)
  have k2: "kill_check (- pid) os' = Inr ()"
    using mem proc(2,3) pid by (force simp: kill_check_def addressed_def list_ex_iff filter_empty_conv)
  have al: "alive pid os' = (Inr True, os')" using w k pid by (simp add: alive_def)
  show "\<exists>i. fst (status sha nm os') = Inr \<lparr>st_record = \<lparr>rec_name = nm, rec_pid = pid, rec_pgid = Some pid, rec_port = port,
      rec_identity = Some i\<rparr>, st_alive = True, st_identity_matches = True, st_stale_or_reused = False\<rparr>"
    by (rule exI [of _ i]) (simp add: status_def s(1) rd al pi)
  have "getpgid pid os' = Inr pid" using proc pid by (simp add: getpgid_def)
  then show "sent (snd (stop sha nm id id naps \<lparr>sys = os', sent = []\<rparr>)) = [pid]"
    by (simp add: stop_def s(1) rd verify_identity_def pi k2 split: prod.splits)
qed

text \<open>
  A reused pid fails closed: while another process, with another identity, runs under the recorded pid,
  \<open>status\<close> reports the record as stale, \<open>stop\<close> raises and signals nothing, and \<open>start\<close> refuses to start a second
  process (it takes the stranger for the replica); no call touches the record.
\<close>

theorem reused_pid_fails_closed:
  assumes rec: "record_path nm = Inr path" "map_of (record_files os) path = Some (Record r)" and pid: "0 < rec_pid r"
    and proc: "map_of (procs os) (rec_pid r) = Some q" "permitted q" "\<not> own_child q" "ps_installed os"
    and unique: "distinct (map fst (procs os))"
    and other: "py_strip (ps_text q) \<noteq> []" "rec_identity r \<noteq> Some (sha (py_strip (ps_text q)))"
    and args: "command \<noteq> []" "1 \<le> port" "port \<le> 65535"
  shows "status sha nm os = (Inr \<lparr>st_record = r, st_alive = False, st_identity_matches = False, st_stale_or_reused = True\<rparr>, os) \<and>
    stop sha nm race1 race2 naps \<lparr>sys = os, sent = past\<rparr> = (Inl (SRuntimeError ''stale/reused PID''), \<lparr>sys = os, sent = past\<rparr>) \<and>
    start sha nm port command spawned nap os = (Inl (SRuntimeError ''already running''), os)"
proof -
  have rd: "read_record path os = Inr r" using rec(2) by (simp add: read_record_def)
  have pi: "process_identity sha (rec_pid r) os = Inr (sha (py_strip (ps_text q)))"
    using proc other(1) by (simp add: process_identity_def Let_def)
  have mem: "p = (rec_pid r, q)" if "p \<in> set (procs os)" "fst p = rec_pid r" for p
    using that proc(1) unique by (metis map_of_is_SomeI option.inject prod.collapse)
  have "filter (\<lambda>p. own_child (snd p)) (addressed (rec_pid r) os) = []"
    using mem proc(3) pid by (auto simp: addressed_pid filter_empty_conv)
  then have w: "waitpid_nohang (rec_pid r) os = (Inl (SOSError ''ChildProcessError''), os)" by (simp add: waitpid_nohang_def)
  have "(rec_pid r, q) \<in> set (procs os)" using proc(1) by (rule map_of_SomeD)
  then have k: "kill_check (rec_pid r) os = Inr ()"
    using proc(2) pid by (force simp: kill_check_def addressed_pid list_ex_iff filter_empty_conv)
  have al: "alive (rec_pid r) os = (Inr True, os)" using w k by (simp add: alive_def)
  show ?thesis
    using other(2) args rec
    by (auto simp: status_def rd al pi stop_def verify_identity_def start_def already_running_def)
qed

section \<open>Runs\<close>

definition run_digest :: "string \<Rightarrow> string" where
  "run_digest t = CHR ''#'' # t"

definition empty_os :: os_state where
  "empty_os = \<lparr>procs = [(1, \<lparr>ps_text = ''Mon init'', proc_pgid = 1, permitted = False, own_child = False, exited = False\<rparr>)],
     caller_pgid = 40, record_files = [], dir_writable = True, ps_installed = True\<rparr>"

definition started_os :: os_state where
  "started_os = snd (start run_digest ''A'' 18001 [''vllm''] (Inr (100, ''Tue vllm serve'', True)) id empty_os)"

text \<open>The same system seen by a later call of the script, which is not the parent; a worker joined the group.\<close>

definition later_os :: os_state where
  "later_os = started_os\<lparr>procs :=
     [(100, \<lparr>ps_text = ''Tue vllm serve'', proc_pgid = 100, permitted = True, own_child = False, exited = False\<rparr>),
      (101, \<lparr>ps_text = ''Tue worker'', proc_pgid = 100, permitted = True, own_child = False, exited = False\<rparr>)]\<rparr>"

definition reused_os :: os_state where
  "reused_os = started_os\<lparr>procs :=
     [(100, \<lparr>ps_text = ''Wed editor'', proc_pgid = 100, permitted = True, own_child = False, exited = False\<rparr>)]\<rparr>"

definition leader_exits :: "os_state \<Rightarrow> os_state" where
  "leader_exits os = os\<lparr>procs := filter (\<lambda>p. fst p \<noteq> 100) (procs os)\<rparr>"

definition run_record :: replica_record where
  "run_record = \<lparr>rec_name = ''A'', rec_pid = 100, rec_pgid = Some 100, rec_port = 18001, rec_identity = Some ''#Tue vllm serve''\<rparr>"

lemma run_starts:
  "start run_digest ''A'' 18001 [''vllm''] (Inr (100, ''Tue vllm serve'', True)) id empty_os = (Inr (), started_os)"
  "record_files started_os = [(''A.json'', Record run_record)]"
  "map_of (procs started_os) 100 =
     Some \<lparr>ps_text = ''Tue vllm serve'', proc_pgid = 100, permitted = True, own_child = True, exited = False\<rparr>"
  "map fst (procs started_os) = [1, 100]"
  by code_simp+

theorem start_status_stop_witness:
  "\<exists>i. fst (status run_digest ''A'' started_os) = Inr \<lparr>st_record = \<lparr>rec_name = ''A'', rec_pid = 100, rec_pgid = Some 100,
     rec_port = 18001, rec_identity = Some i\<rparr>, st_alive = True, st_identity_matches = True, st_stale_or_reused = False\<rparr>"
  using start_status_stop(1) [OF run_starts(1) _ run_starts(3)] run_starts(4) by simp

theorem reused_pid_fails_closed_witness:
  "fst (start run_digest ''A'' 18001 [''vllm''] (Inr (102, ''Wed vllm'', True)) id reused_os) = Inl (SRuntimeError ''already running'')"
proof -
  have "record_path ''A'' = Inr ''A.json''" "map_of (record_files reused_os) ''A.json'' = Some (Record run_record)"
    "map_of (procs reused_os) (rec_pid run_record) =
       Some \<lparr>ps_text = ''Wed editor'', proc_pgid = 100, permitted = True, own_child = False, exited = False\<rparr>"
    "ps_installed reused_os" "distinct (map fst (procs reused_os))" "0 < rec_pid run_record"
    "py_strip ''Wed editor'' \<noteq> []" "rec_identity run_record \<noteq> Some (run_digest (py_strip ''Wed editor''))"
    by code_simp+
  then show ?thesis using reused_pid_fails_closed [where sha = run_digest and port = 18001 and command = "[''vllm'']"] by simp
qed

text \<open>
  \<open>stop\<close> looks at the leader only: the wait ends when the recorded process is gone, the record is removed and
  success is reported, although a member of the signalled group, here the worker, is still running.
\<close>

theorem stop_leaves_survivor:
  "map (\<lambda>p. (fst p, proc_pgid (snd p))) (procs (sys (snd (stop run_digest ''A'' id leader_exits [id] \<lparr>sys = later_os, sent = []\<rparr>)))) = [(101, 100)]"
  "fst (stop run_digest ''A'' id leader_exits [id] \<lparr>sys = later_os, sent = []\<rparr>) = Inr ()"
  "sent (snd (stop run_digest ''A'' id leader_exits [id] \<lparr>sys = later_os, sent = []\<rparr>)) = [100]"
  "record_files (sys (snd (stop run_digest ''A'' id leader_exits [id] \<lparr>sys = later_os, sent = []\<rparr>))) = []"
  by code_simp+

end
