(* ===== verification/Gw_Vast.thy ===== *)
theory Gw_Vast
  imports Gw_Topology Gw_Canonical
begin

text \<open>
  \<open>infra/vast\<close>: the adapter that rents and releases a billable instance through the provider's command line
  (\<open>vast_lab.py\<close>), and the offline check that a changed laboratory is destroyed before its successor is created
  (\<open>validate_replacement.py\<close>). The provider's client, Terraform and the parser \<open>json.loads\<close> are parameters.
\<close>

section \<open>Reading an integer\<close>

text \<open>\<open>int(s)\<close>: surrounding blanks, a sign, decimal digits with single underscores between them.\<close>

fun digit_run :: "string \<Rightarrow> bool" where
  "digit_run [] = False"
| "digit_run [c] = is_digit c"
| "digit_run (c # d # cs) = (is_digit c \<and> (if d = CHR ''_'' then digit_run cs else digit_run (d # cs)))"

definition digits_value :: "string \<Rightarrow> nat" where
  "digits_value s = foldl (\<lambda>n c. if is_digit c then 10 * n + (code_point c - 48) else n) 0 s"

definition py_int :: "string \<Rightarrow> int option" where
  "py_int s = (case py_strip s of
      [] \<Rightarrow> None
    | c # cs \<Rightarrow>
       (if c = CHR ''-'' then if digit_run cs then Some (- int (digits_value cs)) else None
        else if c = CHR ''+'' then if digit_run cs then Some (int (digits_value cs)) else None
        else if digit_run (c # cs) then Some (int (digits_value (c # cs))) else None))"

lemma digits_value_snoc: "n < 10 \<Longrightarrow> digits_value (s @ [digit n]) = 10 * digits_value s + n"
  by (simp add: digits_value_def is_digit_digit code_point_def of_char_digit)

lemma digits_value_nat_str: "digits_value (nat_str n) = n"
proof (induction n rule: nat_str.induct)
  case (1 n)
  show ?case
  proof (cases "n < 10")
    case True
    then show ?thesis using digits_value_snoc [of n "[]"] by (simp add: nat_str.simps [of n] digits_value_def)
  next
    case False
    then show ?thesis using 1 by (simp add: nat_str.simps [of n] digits_value_snoc)
  qed
qed

lemma digit_run_digits: "s \<noteq> [] \<Longrightarrow> \<forall>c\<in>set s. is_digit c \<Longrightarrow> digit_run s"
  by (induction s rule: digit_run.induct) (auto simp: is_digit_def)

lemma py_strip_line:
  assumes "s \<noteq> []" and "\<forall>c\<in>set s. \<not> py_isspace c"
  shows "py_strip (s @ [CHR 0x0A]) = s"
proof -
  have d: "dropWhile py_isspace t = t" if "t \<noteq> []" "\<not> py_isspace (hd t)" for t
    using that by (cases t) auto
  have nl: "py_isspace CHR 0x0A" by code_simp
  have "dropWhile py_isspace (s @ [CHR 0x0A]) = s @ [CHR 0x0A]"
    using assms by (intro d) auto
  moreover have "dropWhile py_isspace (rev s) = rev s"
    using assms by (intro d) (auto simp: hd_rev)
  ultimately show ?thesis using nl by (simp add: py_strip_def)
qed

lemma int_str_no_space: "\<forall>c\<in>set (int_str i). \<not> py_isspace c"
  using int_str_chars [of i] by (auto simp: is_digit_def py_isspace_def code_point_def Let_def)

lemma py_strip_int_str: "py_strip (int_str i @ [CHR 0x0A]) = int_str i"
  by (rule py_strip_line [OF int_str_not_Nil int_str_no_space])

lemma py_strip_id: "\<forall>c\<in>set s. \<not> py_isspace c \<Longrightarrow> py_strip s = s"
proof -
  assume "\<forall>c\<in>set s. \<not> py_isspace c"
  then have "dropWhile py_isspace s = s" "dropWhile py_isspace (rev s) = rev s"
    by (auto simp: dropWhile_eq_self_iff hd_rev)
  then show ?thesis by (simp add: py_strip_def)
qed

lemma py_int_int_str: "py_int (int_str i) = Some i"
proof -
  have run: "digit_run (nat_str n)" for n by (rule digit_run_digits [OF nat_str_not_Nil nat_str_digits])
  obtain c cs where n: "nat_str (nat i) = c # cs" using nat_str_not_Nil [of "nat i"] by (cases "nat_str (nat i)") auto
  then have "is_digit c" using nat_str_digits [of "nat i"] by simp
  then have c: "c \<noteq> CHR ''-''" "c \<noteq> CHR ''+''" by (auto simp: is_digit_def)
  show ?thesis
    using run [of "nat i"] run [of "nat (- i)"] n c digits_value_nat_str [of "nat i"] digits_value_nat_str [of "nat (- i)"]
    unfolding py_int_def py_strip_id [OF int_str_no_space] unfolding int_str_def by (cases "i < 0") auto
qed

section \<open>The adapter\<close>

text \<open>The state file's contents, the commands run so far, and whether the file may be written.\<close>

record vast_lab =
  state_file :: "string option"
  commands :: "string list list"
  state_writable :: bool

definition parse_instance_id :: "(string \<Rightarrow> script_exn + json) \<Rightarrow> string \<Rightarrow> script_exn + json" where
  "parse_instance_id loads outp = (case loads outp of
      Inl e \<Rightarrow> Inl e
    | Inr (JObj result) \<Rightarrow>
       (let instance_id = dict_get result ''new_contract''
        in if dict_get result ''success'' \<noteq> JBool True \<or> \<not> (case instance_id of JInt _ \<Rightarrow> True | JBool _ \<Rightarrow> True | _ \<Rightarrow> False)
           then Inl (SValueError ''unexpected Vast create response'')
           else Inr instance_id)
    | Inr _ \<Rightarrow> Inl SAttributeError)"

text \<open>An \<open>f\<close>-string shows an integer in decimal and a boolean by its name.\<close>

definition shown_id :: "json \<Rightarrow> string" where
  "shown_id i = (case i of JInt n \<Rightarrow> int_str n | JBool b \<Rightarrow> if b then ''True'' else ''False'' | _ \<Rightarrow> [])"

definition nonempty :: "string option \<Rightarrow> bool" where
  "nonempty v = (case v of Some s \<Rightarrow> s \<noteq> [] | None \<Rightarrow> False)"

definition create_command :: "(string \<Rightarrow> string option) \<Rightarrow> script_exn + string list" where
  "create_command env =
     (case (env ''VAST_OFFER_ID'', env ''VAST_IMAGE'', env ''VAST_DISK_GB'') of
        (Some offer, Some img, Some disk) \<Rightarrow>
          (let command = [''vastai'', ''create'', ''instance'', offer, ''--raw'', ''--image'', img, ''--disk'', disk,
                          ''--ssh'', ''--direct'', ''--cancel-unavail''];
               onstart = env ''VAST_ONSTART''; volume_id = env ''VAST_VOLUME_ID'';
               command1 = (if nonempty onstart then command @ [''--onstart-cmd'', the onstart] else command)
           in if nonempty volume_id
              then (case env ''VAST_MOUNT_PATH'' of
                      None \<Rightarrow> Inl SKeyError
                    | Some mount \<Rightarrow> Inr (command1 @ [''--link-volume'', the volume_id, ''--mount-path'', mount]))
              else Inr command1)
      | _ \<Rightarrow> Inl SKeyError)"

text \<open>\<open>create\<close>; \<open>reply\<close> is what running the provider's client yields: its output, or the exception.\<close>

definition create :: "(string \<Rightarrow> script_exn + json) \<Rightarrow> (string \<Rightarrow> string option) \<Rightarrow> script_exn + string \<Rightarrow>
    vast_lab \<Rightarrow> (script_exn + unit) \<times> vast_lab" where
  "create loads env reply w = (case create_command env of
      Inl e \<Rightarrow> (Inl e, w)
    | Inr command \<Rightarrow>
       (let w1 = w\<lparr>commands := commands w @ [command]\<rparr>
        in case reply of
             Inl e \<Rightarrow> (Inl e, w1)
           | Inr outp \<Rightarrow>
              (if \<not> state_writable w then (Inl (SOSError ''mkdir''), w1)
               else case parse_instance_id loads outp of
                 Inl e \<Rightarrow> (Inl e, w1)
               | Inr i \<Rightarrow> (Inr (), w1\<lparr>state_file := Some (shown_id i @ [CHR 0x0A])\<rparr>))))"

definition destroy :: "script_exn + string \<Rightarrow> vast_lab \<Rightarrow> (script_exn + unit) \<times> vast_lab" where
  "destroy reply w = (case state_file w of
      None \<Rightarrow> (Inl (SOSError ''FileNotFoundError''), w)
    | Some text \<Rightarrow>
       (case py_int (py_strip text) of
          None \<Rightarrow> (Inl (SValueError ''invalid literal for int()''), w)
        | Some i \<Rightarrow>
           (let w1 = w\<lparr>commands := commands w @ [[''vastai'', ''destroy'', ''instance'', int_str i, ''--raw'']]\<rparr>
            in case reply of
                 Inl e \<Rightarrow> (Inl e, w1)
               | Inr _ \<Rightarrow> if \<not> state_writable w then (Inl (SOSError ''PermissionError''), w1)
                   else (Inr (), w1\<lparr>state_file := None\<rparr>))))"

datatype vast_end = Vast_done | Vast_failed script_exn | Vast_uncaught script_exn

definition vast_main :: "(string \<Rightarrow> script_exn + json) \<Rightarrow> (string \<Rightarrow> string option) \<Rightarrow> bool \<Rightarrow> script_exn + string \<Rightarrow>
    vast_lab \<Rightarrow> vast_end \<times> vast_lab" where
  "vast_main loads env creating reply w =
     (let (r, w') = (if creating then create loads env reply w else destroy reply w)
      in (case r of
            Inr _ \<Rightarrow> Vast_done
          | Inl e \<Rightarrow> (case e of
              SOSError _ \<Rightarrow> Vast_failed e
            | SKeyError \<Rightarrow> Vast_failed e
            | SValueError _ \<Rightarrow> Vast_failed e
            | SJSONDecodeError \<Rightarrow> Vast_failed e
            | SCalledProcessError \<Rightarrow> Vast_failed e
            | _ \<Rightarrow> Vast_uncaught e), w'))"

lemma create_ok:
  assumes "create loads env reply w = (Inr (), w')"
  obtains command outp i where "create_command env = Inr command" "reply = Inr outp" "parse_instance_id loads outp = Inr i"
    "w' = w\<lparr>commands := commands w @ [command], state_file := Some (shown_id i @ [CHR 0x0A])\<rparr>" "state_writable w"
  using assms by (auto simp: create_def Let_def split: sum.splits if_splits)

lemma create_failed:
  "create loads env reply w = (Inl e, w') \<Longrightarrow> state_file w' = state_file w"
  by (auto simp: create_def Let_def split: sum.splits if_splits)

text \<open>
  The instance that is destroyed is the one that was created: when \<open>create\<close> succeeds on a reply whose
  contract id is the integer \<open>n\<close>, the state file holds it, and a later \<open>destroy\<close> asks the provider to destroy
  instance \<open>n\<close>, exactly once, and forgets it when that succeeds; when it fails, the id is kept for another attempt.
\<close>

theorem create_destroy_roundtrip:
  assumes "create loads env (Inr outp) w = (Inr (), w')" and "parse_instance_id loads outp = Inr (JInt n)"
  shows "destroy (Inr out) w' = (Inr (), w'\<lparr>state_file := None,
      commands := commands w' @ [[''vastai'', ''destroy'', ''instance'', int_str n, ''--raw'']]\<rparr>) \<and>
    destroy (Inl e) w' = (Inl e, w'\<lparr>commands := commands w' @ [[''vastai'', ''destroy'', ''instance'', int_str n, ''--raw'']]\<rparr>)"
proof -
  obtain command where "w' = w\<lparr>commands := commands w @ [command], state_file := Some (int_str n @ [CHR 0x0A])\<rparr>" "state_writable w"
    using assms by (auto simp: shown_id_def elim!: create_ok)
  then show ?thesis by (simp add: destroy_def py_strip_int_str py_int_int_str)
qed

text \<open>
  A boolean passes \<open>isinstance(instance_id, int)\<close>: the state file then says \<open>True\<close>, which no \<open>destroy\<close> can read,
  so the instance it stands for is never released.
\<close>

theorem boolean_instance_id:
  assumes "create loads env (Inr outp) w = (Inr (), w')" and "parse_instance_id loads outp = Inr (JBool b)"
  shows "destroy reply w' = (Inl (SValueError ''invalid literal for int()''), w')"
proof -
  obtain command where w: "w' = w\<lparr>commands := commands w @ [command],
      state_file := Some ((if b then ''True'' else ''False'') @ [CHR 0x0A])\<rparr>"
    using assms by (auto simp: shown_id_def elim!: create_ok)
  have "py_int (py_strip (''True'' @ [CHR 0x0A])) = None" "py_int (py_strip (''False'' @ [CHR 0x0A])) = None" by code_simp+
  then show ?thesis by (simp add: w destroy_def)
qed

definition run_env :: "string \<Rightarrow> string option" where
  "run_env = map_of [(''VAST_OFFER_ID'', ''7''), (''VAST_IMAGE'', ''img:a''), (''VAST_DISK_GB'', ''50''), (''VAST_ONSTART'', '''')]"

definition run_loads :: "string \<Rightarrow> script_exn + json" where
  "run_loads text = (if text = ''A'' then Inr (JObj [(''success'', JBool True), (''new_contract'', JInt 123)])
     else if text = ''B'' then Inr (JObj [(''success'', JBool True), (''new_contract'', JBool True)]) else Inl SJSONDecodeError)"

definition no_lab :: vast_lab where
  "no_lab = \<lparr>state_file = None, commands = [], state_writable = True\<rparr>"

theorem create_destroy_roundtrip_witness:
  "commands (snd (destroy (Inr []) (snd (create run_loads run_env (Inr ''A'') no_lab)))) =
     [[''vastai'', ''create'', ''instance'', ''7'', ''--raw'', ''--image'', ''img:a'', ''--disk'', ''50'', ''--ssh'', ''--direct'',
       ''--cancel-unavail''], [''vastai'', ''destroy'', ''instance'', ''123'', ''--raw'']]"
proof -
  let ?w = "snd (create run_loads run_env (Inr ''A'') no_lab)"
  have c: "create run_loads run_env (Inr ''A'') no_lab = (Inr (), ?w)" by code_simp
  have p: "parse_instance_id run_loads ''A'' = Inr (JInt 123)" by code_simp
  have "commands ?w = [[''vastai'', ''create'', ''instance'', ''7'', ''--raw'', ''--image'', ''img:a'', ''--disk'', ''50'',
     ''--ssh'', ''--direct'', ''--cancel-unavail'']]" "int_str 123 = ''123''" by code_simp+
  then show ?thesis using create_destroy_roundtrip [OF c p] by simp
qed

lemma boolean_id_accepted: "create run_loads run_env (Inr ''B'') no_lab =
  (Inr (), no_lab\<lparr>commands := [[''vastai'', ''create'', ''instance'', ''7'', ''--raw'', ''--image'', ''img:a'', ''--disk'', ''50'',
     ''--ssh'', ''--direct'', ''--cancel-unavail'']], state_file := Some (''True'' @ [CHR 0x0A])\<rparr>)"
  by code_simp

section \<open>Replacement\<close>

text \<open>
  The scratch directory of the check, as its files by name. Terraform is a function of the adapter script that
  lies in the directory, of its arguments and of the directory. \<open>read_text\<close> translates line ends,
  \<open>splitlines\<close> cuts at every line boundary.
\<close>

type_synonym tf_dir = "(string \<times> string) list"

type_synonym adapter = "string \<Rightarrow> tf_dir \<Rightarrow> (script_exn + unit) \<times> tf_dir"

type_synonym terraform = "adapter \<Rightarrow> string list \<Rightarrow> tf_dir \<Rightarrow> (script_exn + string) \<times> tf_dir"

fun universal_newlines :: "string \<Rightarrow> string" where
  "universal_newlines [] = []"
| "universal_newlines [c] = [if c = CHR 0x0D then CHR 0x0A else c]"
| "universal_newlines (c # d # cs) =
     (if c = CHR 0x0D then CHR 0x0A # universal_newlines (if d = CHR 0x0A then cs else d # cs)
      else c # universal_newlines (d # cs))"

definition line_break :: "char \<Rightarrow> bool" where
  "line_break c = (code_point c \<in> {10, 11, 12, 28, 29, 30, 133})"

text \<open>\<open>splitlines\<close> of a text without carriage returns, after the characters \<open>cur\<close> of the current line.\<close>

fun lines_from :: "string \<Rightarrow> string \<Rightarrow> string list" where
  "lines_from cur [] = (if cur = [] then [] else [cur])"
| "lines_from cur (c # cs) = (if line_break c then cur # lines_from [] cs else lines_from (cur @ [c]) cs)"

definition read_lines :: "string \<Rightarrow> string list" where
  "read_lines text = lines_from [] (universal_newlines text)"

text \<open>The program \<open>FAKE_ADAPTER\<close>: it notes the action and keeps or drops the state file.\<close>

definition fake_adapter :: adapter where
  "fake_adapter action d =
     (let d1 = AList.update ''events'' ((case map_of d ''events'' of Some t \<Rightarrow> t | None \<Rightarrow> []) @ action @ [CHR 0x0A]) d
      in if action = ''create'' then (Inr (), AList.update ''.state/instance-id'' (''123'' @ [CHR 0x0A]) d1)
         else if map_of d1 ''.state/instance-id'' = None then (Inl (SOSError ''FileNotFoundError''), d1)
         else (Inr (), AList.delete ''.state/instance-id'' d1))"

definition get_item :: "json \<Rightarrow> string \<Rightarrow> script_exn + json" where
  "get_item j k = (case j of
      JObj d \<Rightarrow> (case map_of d k of Some v \<Rightarrow> Inr v | None \<Rightarrow> Inl SKeyError)
    | _ \<Rightarrow> Inl STypeError)"

fun find_change :: "json list \<Rightarrow> script_exn + json" where
  "find_change [] = Inl SStopIteration"
| "find_change (change # changes) = (case get_item change ''address'' of
      Inl e \<Rightarrow> Inl e
    | Inr a \<Rightarrow> if a = JStr ''terraform_data.h100_lab'' then Inr change else find_change changes)"

definition planned_actions :: "json \<Rightarrow> script_exn + json" where
  "planned_actions plan = (case get_item plan ''resource_changes'' of
      Inl e \<Rightarrow> Inl e
    | Inr changes \<Rightarrow>
       (case py_iter changes of
          None \<Rightarrow> Inl STypeError
        | Some cs \<Rightarrow>
           (case find_change cs of
              Inl e \<Rightarrow> Inl e
            | Inr lab \<Rightarrow> (case get_item lab ''change'' of Inl e \<Rightarrow> Inl e | Inr c \<Rightarrow> get_item c ''actions''))))"

definition common_arguments :: "string list" where
  "common_arguments = [''-input=false'', ''-var=confirm_billable_resource=true'', ''-var=offer_id=1'']"

definition check_events :: "tf_dir \<Rightarrow> script_exn + unit" where
  "check_events d = (case map_of d ''events'' of
      None \<Rightarrow> Inl (SOSError ''FileNotFoundError'')
    | Some text \<Rightarrow> if read_lines text \<noteq> [''create'', ''destroy'', ''create'']
        then Inl (SAssertionError ''replacement did not destroy the old lab before creating the new lab'') else Inr ())"

definition check_plan :: "(string \<Rightarrow> script_exn + json) \<Rightarrow> string \<Rightarrow> script_exn + unit" where
  "check_plan loads shown = (case loads shown of
      Inl e \<Rightarrow> Inl e
    | Inr plan \<Rightarrow>
       (case planned_actions plan of
          Inl e \<Rightarrow> Inl e
        | Inr actions \<Rightarrow> if actions \<noteq> JList [JStr ''delete'', JStr ''create'']
            then Inl (SAssertionError ''unsafe replacement actions'') else Inr ()))"

definition validate_replacement :: "terraform \<Rightarrow> (string \<Rightarrow> script_exn + json) \<Rightarrow> tf_dir \<Rightarrow> (script_exn + unit) \<times> tf_dir" where
  "validate_replacement terraform loads source = (let run = terraform fake_adapter in
     and_then (run [''init'', ''-backend=false'', ''-input=false''] source) (\<lambda>_ d1.
     and_then (run ([''apply'', ''-auto-approve''] @ common_arguments @ [''-var=image=image:a'']) d1) (\<lambda>_ d2.
     and_then (run ([''plan'', ''-out=replacement.tfplan''] @ common_arguments @ [''-var=image=image:b'']) d2) (\<lambda>_ d3.
     and_then (run [''show'', ''-json'', ''replacement.tfplan''] d3) (\<lambda>shown d4.
     and_then (check_plan loads shown, d4) (\<lambda>_ d5.
     and_then (run [''apply'', ''-auto-approve'', ''replacement.tfplan''] d5) (\<lambda>_ d6.
     (check_events d6, d6))))))))"

text \<open>
  Running the adapter for a list of actions, and the record it leaves: the check's event list is the
  sequence of provisioner calls.
\<close>

fun run_adapter :: "string list \<Rightarrow> tf_dir \<Rightarrow> (script_exn + unit) \<times> tf_dir" where
  "run_adapter [] d = (Inr (), d)"
| "run_adapter (a # as) d = and_then (fake_adapter a d) (\<lambda>_ d1. run_adapter as d1)"

definition event_text :: "tf_dir \<Rightarrow> string" where
  "event_text d = (case map_of d ''events'' of Some t \<Rightarrow> t | None \<Rightarrow> [])"

lemma fake_adapter_events:
  "event_text (snd (fake_adapter a d)) = event_text d @ a @ [CHR 0x0A]"
  by (auto simp: fake_adapter_def event_text_def Let_def update_conv delete_conv restrict_map_def)

lemma run_adapter_events:
  "run_adapter as d = (Inr (), d') \<Longrightarrow> event_text d' = event_text d @ concat (map (\<lambda>a. a @ [CHR 0x0A]) as)"
proof (induction as arbitrary: d)
  case (Cons a as)
  then obtain u d1 where "fake_adapter a d = (Inr u, d1)" "run_adapter as d1 = (Inr (), d')"
    by (auto elim!: and_then_cases)
  then show ?case using Cons.IH [of d1] fake_adapter_events [of a d] by simp
qed simp

definition plain_line :: "string \<Rightarrow> bool" where
  "plain_line w \<longleftrightarrow> (\<forall>c\<in>set w. \<not> line_break c \<and> c \<noteq> CHR 0x0D)"

lemma universal_newlines_plain: "CHR 0x0D \<notin> set s \<Longrightarrow> universal_newlines s = s"
  by (induction s rule: universal_newlines.induct) auto

lemma lines_from_line: "plain_line w \<Longrightarrow> lines_from cur (w @ CHR 0x0A # s) = (cur @ w) # lines_from [] s"
proof (induction w arbitrary: cur)
  case Nil
  have "line_break CHR 0x0A" by code_simp
  then show ?case by simp
qed (simp add: plain_line_def)

lemma read_lines_concat:
  assumes "list_all plain_line ws"
  shows "read_lines (concat (map (\<lambda>a. a @ [CHR 0x0A]) ws)) = ws"
proof -
  have "CHR 0x0D \<notin> set (concat (map (\<lambda>a. a @ [CHR 0x0A]) ws))" using assms by (auto simp: list_all_iff plain_line_def)
  moreover have "lines_from [] (concat (map (\<lambda>a. a @ [CHR 0x0A]) ws)) = ws"
    using assms by (induction ws) (auto simp: lines_from_line)
  ultimately show ?thesis by (simp add: read_lines_def universal_newlines_plain)
qed

text \<open>
  What is used of Terraform: applying the first configuration runs the create provisioner; applying the
  plan runs the provisioners of the planned actions in their order; the other commands run none.
\<close>

definition provisioner :: "string \<Rightarrow> string" where
  "provisioner action = (if action = ''create'' then ''create'' else ''destroy'')"

definition applies_in_order :: "terraform \<Rightarrow> (string \<Rightarrow> script_exn + json) \<Rightarrow> string list \<Rightarrow> bool" where
  "applies_in_order terraform loads actions \<longleftrightarrow>
     (\<forall>d. terraform fake_adapter [''init'', ''-backend=false'', ''-input=false''] d = (Inr [], d)) \<and>
     (\<forall>d. terraform fake_adapter ([''apply'', ''-auto-approve''] @ common_arguments @ [''-var=image=image:a'']) d =
        (case run_adapter [''create''] d of (Inl e, d') \<Rightarrow> (Inl SCalledProcessError, d') | (Inr _, d') \<Rightarrow> (Inr [], d'))) \<and>
     (\<forall>d. terraform fake_adapter ([''plan'', ''-out=replacement.tfplan''] @ common_arguments @ [''-var=image=image:b'']) d = (Inr [], d)) \<and>
     (\<forall>d. \<exists>shown plan. terraform fake_adapter [''show'', ''-json'', ''replacement.tfplan''] d = (Inr shown, d) \<and>
        loads shown = Inr plan \<and> planned_actions plan = Inr (JList (map JStr actions))) \<and>
     (\<forall>d. terraform fake_adapter [''apply'', ''-auto-approve'', ''replacement.tfplan''] d =
        (case run_adapter (map provisioner actions) d of (Inl e, d') \<Rightarrow> (Inl SCalledProcessError, d') | (Inr _, d') \<Rightarrow> (Inr [], d')))"

lemma check_plan_exact:
  "loads shown = Inr plan \<Longrightarrow> planned_actions plan = Inr (JList (map JStr actions)) \<Longrightarrow>
   check_plan loads shown =
     (if actions = [''delete'', ''create''] then Inr () else Inl (SAssertionError ''unsafe replacement actions''))"
proof -
  have "map JStr actions = [JStr ''delete'', JStr ''create''] \<longleftrightarrow> actions = [''delete'', ''create'']" by auto
  then show "loads shown = Inr plan \<Longrightarrow> planned_actions plan = Inr (JList (map JStr actions)) \<Longrightarrow> ?thesis"
    by (simp add: check_plan_def)
qed

lemma replacement_run:
  assumes "map_of source ''events'' = None"
  obtains d2 d6 where "run_adapter [''create''] source = (Inr (), d2)" "run_adapter [''destroy'', ''create''] d2 = (Inr (), d6)"
    "check_events d6 = Inr ()"
proof -
  obtain d2 where d2: "run_adapter [''create''] source = (Inr (), d2)" "map_of d2 ''.state/instance-id'' \<noteq> None"
    by (simp add: fake_adapter_def Let_def update_conv)
  obtain d6 where d6: "run_adapter [''destroy'', ''create''] d2 = (Inr (), d6)"
    using d2(2) by (simp add: fake_adapter_def Let_def update_conv delete_conv restrict_map_def)
  have "run_adapter [''create'', ''destroy'', ''create''] source = (Inr (), d6)"
    using d2(1) d6 by (auto elim!: and_then_cases)
  then have "event_text d6 = concat (map (\<lambda>a. a @ [CHR 0x0A]) [''create'', ''destroy'', ''create''])"
    using run_adapter_events assms by (fastforce simp: event_text_def)
  moreover have "list_all plain_line [''create'', ''destroy'', ''create'']" by (simp add: plain_line_def line_break_def code_point_def)
  ultimately have "read_lines (event_text d6) = [''create'', ''destroy'', ''create'']" by (metis read_lines_concat)
  then have "check_events d6 = Inr ()"
    by (auto simp: check_events_def event_text_def read_lines_def split: option.splits)
  with d2 d6 show thesis using that by blast
qed

text \<open>
  The offline check decides the order of replacement: against a Terraform that runs the provisioners of a plan in
  the planned order, it passes exactly when the plan for the changed laboratory deletes the old one before it
  creates the new one.
\<close>

theorem validate_replacement_exact:
  assumes tf: "applies_in_order terraform loads actions" and fresh: "map_of source ''events'' = None"
  shows "fst (validate_replacement terraform loads source) = Inr () \<longleftrightarrow> actions = [''delete'', ''create'']"
proof -
  obtain d2 d6 where r: "run_adapter [''create''] source = (Inr (), d2)"
    "run_adapter [''destroy'', ''create''] d2 = (Inr (), d6)" "check_events d6 = Inr ()"
    using replacement_run [OF fresh] by blast
  obtain shown plan where sh: "terraform fake_adapter [''show'', ''-json'', ''replacement.tfplan''] d2 = (Inr shown, d2)"
    "loads shown = Inr plan" "planned_actions plan = Inr (JList (map JStr actions))"
    using tf unfolding applies_in_order_def by blast
  have t: "terraform fake_adapter [''init'', ''-backend=false'', ''-input=false''] source = (Inr [], source)"
    "terraform fake_adapter ([''apply'', ''-auto-approve''] @ common_arguments @ [''-var=image=image:a'']) source = (Inr [], d2)"
    "terraform fake_adapter ([''plan'', ''-out=replacement.tfplan''] @ common_arguments @ [''-var=image=image:b'']) d2 = (Inr [], d2)"
    using tf r(1) unfolding applies_in_order_def by simp_all
  have a: "terraform fake_adapter [''apply'', ''-auto-approve'', ''replacement.tfplan''] d2 = (Inr [], d6)"
    if "actions = [''delete'', ''create'']"
    using tf r(2) that unfolding applies_in_order_def by (simp add: provisioner_def)
  show ?thesis
    unfolding validate_replacement_def Let_def t sh(1) and_then_simps check_plan_exact [of loads shown plan actions, OF sh(2,3)]
    using a r(3) by auto
qed

text \<open>Why the order matters for the real adapter: creating first overwrites the only record of the old instance.\<close>

theorem create_before_destroy_leaks:
  assumes "parse_instance_id loads out1 = Inr (JInt n1)" "parse_instance_id loads out2 = Inr (JInt n2)"
    and "create loads env (Inr out1) no_lab = (Inr (), w1)" "create loads env2 (Inr out2) w1 = (Inr (), w2)"
  shows "destroy (Inr out) w2 = (Inr (), w2\<lparr>state_file := None,
    commands := commands w2 @ [[''vastai'', ''destroy'', ''instance'', int_str n2, ''--raw'']]\<rparr>)"
proof -
  obtain c1 c2 where "w1 = no_lab\<lparr>commands := [c1], state_file := Some (int_str n1 @ [CHR 0x0A])\<rparr>"
    "w2 = w1\<lparr>commands := commands w1 @ [c2], state_file := Some (int_str n2 @ [CHR 0x0A])\<rparr>"
    using assms by (auto simp: shown_id_def no_lab_def elim!: create_ok)
  then show ?thesis by (simp add: destroy_def py_strip_int_str py_int_int_str no_lab_def)
qed

definition run_terraform :: "string list \<Rightarrow> terraform" where
  "run_terraform actions ad args d =
     (if hd args = ''apply''
      then (case run_adapter (if last args = ''replacement.tfplan'' then map provisioner actions else [''create'']) d of
              (Inl e, d') \<Rightarrow> (Inl SCalledProcessError, d') | (Inr _, d') \<Rightarrow> (Inr [], d'))
      else (Inr [], d))"

definition run_plan :: "string list \<Rightarrow> string \<Rightarrow> script_exn + json" where
  "run_plan actions text = Inr (JObj [(''resource_changes'', JList [JObj [(''address'', JStr ''terraform_data.h100_lab''),
     (''change'', JObj [(''actions'', JList (map JStr actions))])]])])"

lemma run_terraform_ok: "applies_in_order (run_terraform actions) (run_plan actions) actions"
  by (simp add: applies_in_order_def run_terraform_def common_arguments_def run_plan_def planned_actions_def get_item_def)

theorem validate_replacement_exact_witness:
  "fst (validate_replacement (run_terraform [''delete'', ''create'']) (run_plan [''delete'', ''create'']) []) = Inr () \<and>
   fst (validate_replacement (run_terraform [''create'', ''delete'']) (run_plan [''create'', ''delete'']) []) \<noteq> Inr ()"
  using validate_replacement_exact [OF run_terraform_ok, of "[]" "[''delete'', ''create'']"]
    validate_replacement_exact [OF run_terraform_ok, of "[]" "[''create'', ''delete'']"] by simp

end
