(* ===== verification/Gw_Prompt.thy ===== *)
theory Gw_Prompt
  imports Gw_Vast
begin

text \<open>
  \<open>benchmark/scripts/exact_prompt.py\<close>: a prompt of repeated text whose templated form has an exact number of tokens,
  found by doubling and then by binary search. The tokenizer is a parameter. The doubling loop need not end, so
  it is a function into \<open>option\<close>: \<open>None\<close> is a loop that never returns.
\<close>

section \<open>Counting tokens\<close>

text \<open>What a tokenizer yields: an object with or without the attribute \<open>input_ids\<close>, or a dictionary.\<close>

datatype encoding = Encoding_object "json option" | Encoding_dict json_dict

definition token_count :: "encoding \<Rightarrow> script_exn + nat" where
  "token_count encoded =
     (let input_ids = (case encoded of
            Encoding_object v \<Rightarrow> (case v of Some x \<Rightarrow> x | None \<Rightarrow> JNull)
          | Encoding_dict d \<Rightarrow> dict_get d ''input_ids'')
      in case input_ids of
           JList xs \<Rightarrow>
            (case xs of
               JList ys # rest \<Rightarrow> if rest \<noteq> [] then Inl (SValueError ''expected one encoded conversation'') else Inr (length ys)
             | _ \<Rightarrow> Inr (length xs))
         | JStr s \<Rightarrow> Inr (length s)
         | JObj kvs \<Rightarrow> if kvs = [] then Inr 0 else Inl SKeyError
         | _ \<Rightarrow> Inl STypeError)"

type_synonym tokenizer = "string \<Rightarrow> script_exn + encoding"

definition templated_token_count :: "tokenizer \<Rightarrow> string \<Rightarrow> script_exn + nat" where
  "templated_token_count tok prompt = (case tok prompt of Inl e \<Rightarrow> Inl e | Inr encoded \<Rightarrow> token_count encoded)"

section \<open>The search\<close>

definition repeated :: "string \<Rightarrow> nat \<Rightarrow> string" where
  "repeated unit n = concat (replicate n unit)"

partial_function (option) double_until :: "(nat \<Rightarrow> script_exn + nat) \<Rightarrow> int \<Rightarrow> nat \<Rightarrow> nat \<Rightarrow> (script_exn + nat \<times> nat) option" where
  "double_until count target low high = (case count high of
      Inl e \<Rightarrow> Some (Inl e)
    | Inr n \<Rightarrow> if int n < target then double_until count target high (high * 2) else Some (Inr (low, high)))"

function bisect :: "(nat \<Rightarrow> script_exn + nat) \<Rightarrow> int \<Rightarrow> int \<Rightarrow> int \<Rightarrow> script_exn + nat option" where
  "bisect count target low high =
     (if low \<le> high
      then let mid = (low + high) div 2
           in case count (nat mid) of
                Inl e \<Rightarrow> Inl e
              | Inr measured \<Rightarrow>
                 (if int measured = target then Inr (Some (nat mid))
                  else if int measured < target then bisect count target (mid + 1) high
                  else bisect count target low (mid - 1))
      else Inr None)"
  by pat_completeness auto
termination
  by (relation "measure (\<lambda>(count, target, low, high). nat (high - low + 1))") auto

declare bisect.simps [simp del]

definition build_exact_prompt :: "tokenizer \<Rightarrow> int \<Rightarrow> string \<Rightarrow> (script_exn + string) option" where
  "build_exact_prompt tok target unit =
     (if target \<le> 0 then Some (Inl (SValueError ''target must be positive''))
      else let count = (\<lambda>repetitions. templated_token_count tok (repeated unit repetitions))
      in case double_until count target 0 1 of
           None \<Rightarrow> None
         | Some (Inl e) \<Rightarrow> Some (Inl e)
         | Some (Inr (low, high)) \<Rightarrow>
            (case bisect count target (int low) (int high) of
               Inl e \<Rightarrow> Some (Inl e)
             | Inr (Some mid) \<Rightarrow> Some (Inr (repeated unit mid))
             | Inr None \<Rightarrow> Some (Inl (SValueError ''target token count is not reachable''))))"

section \<open>The script\<close>

text \<open>
  \<open>main\<close> after the arguments have been read: \<open>tokenizer_for\<close> loads the tokenizer and fixes the keyword arguments of its template.
  \<open>parser.error\<close> ends the script with a usage message.
\<close>

datatype prompt_end = Usage_error string | Prompt_traceback script_exn | Prompt_written json_dict

definition prompt_main :: "(string \<Rightarrow> script_exn + json) \<Rightarrow> (string \<Rightarrow> string \<Rightarrow> json_dict \<Rightarrow> tokenizer) \<Rightarrow>
    string \<Rightarrow> string \<Rightarrow> int \<Rightarrow> string \<Rightarrow> prompt_end option" where
  "prompt_main loads tokenizer_for model revision tokens kwargs_text = (case loads kwargs_text of
      Inl e \<Rightarrow> Some (if e = SJSONDecodeError then Usage_error ''invalid --chat-template-kwargs JSON'' else Prompt_traceback e)
    | Inr (JObj kwargs) \<Rightarrow>
       (if model = ''Qwen/Qwen3-8B'' \<and> dict_get kwargs ''enable_thinking'' \<noteq> JBool False
        then Some (Usage_error ''Qwen3 V1 requires enable_thinking=false'')
        else let tok = tokenizer_for model revision kwargs
        in case build_exact_prompt tok tokens ''x '' of
             None \<Rightarrow> None
           | Some (Inl e) \<Rightarrow> Some (Prompt_traceback e)
           | Some (Inr prompt) \<Rightarrow>
              (case templated_token_count tok prompt of
                 Inl e \<Rightarrow> Some (Prompt_traceback e)
               | Inr measured \<Rightarrow> Some (Prompt_written
                   [(''chat_template_kwargs'', JObj kwargs), (''model'', JStr model), (''prompt'', JStr prompt),
                    (''revision'', JStr revision), (''tokens'', JInt (int measured))])))
    | Inr _ \<Rightarrow> Some (Usage_error ''--chat-template-kwargs must be a JSON object''))"

section \<open>The loops\<close>

lemma double_until_stops:
  assumes c: "\<And>k. count k = Inr (c k)" and m: "mono c" and k: "target \<le> int (c k)" and h: "0 < high"
    and lo: "int (c low) < target \<or> low = 0"
  shows "\<exists>low' high'. double_until count target low high = Some (Inr (low', high')) \<and> target \<le> int (c high') \<and>
    (int (c low') < target \<or> low' = 0)"
  using h lo
proof (induction "k - high" arbitrary: low high rule: less_induct)
  case less
  show ?case
  proof (cases "int (c high) < target")
    case True
    have "high < k"
    proof (rule ccontr)
      assume "\<not> high < k"
      then have "c k \<le> c high" using m by (simp add: monoD)
      then show False using k True by simp
    qed
    then have "k - high * 2 < k - high" using less.prems(1) by arith
    from less.hyps [OF this, of high] show ?thesis
      using True less.prems(1) c by (subst double_until.simps) simp
  next
    case False
    then show ?thesis using less.prems c by (subst double_until.simps) simp
  qed
qed

lemma double_until_diverges:
  assumes c: "\<And>k. \<exists>n. count k = Inr n \<and> int n < target"
  shows "double_until count target low high = None"
proof (rule ccontr)
  assume "double_until count target low high \<noteq> None"
  then obtain r where r: "double_until count target low high = Some r" by blast
  have False
  proof (rule double_until.raw_induct [where P = "\<lambda>count' target' low high r. count' = count \<longrightarrow> target' = target \<longrightarrow> False", OF _ r, THEN mp, THEN mp])
    fix f count' target' low high r
    assume IH: "\<And>count' target' low high r. f count' target' low high = Some r \<Longrightarrow> count' = count \<longrightarrow> target' = target \<longrightarrow> False"
      and eq: "(case count' high of Inl e \<Rightarrow> Some (Inl e)
        | Inr n \<Rightarrow> if int n < target' then f count' target' high (high * 2) else Some (Inr (low, high))) = Some r"
    show "count' = count \<longrightarrow> target' = target \<longrightarrow> False"
      using c [of high] eq IH [of count' target' high "high * 2" r] by auto
  qed simp_all
  then show False .
qed

lemma bisect_sound: "bisect count target low high = Inr (Some k) \<Longrightarrow> count k = Inr n \<Longrightarrow> int n = target"
proof (induction count target low high rule: bisect.induct)
  case (1 count target low high)
  show ?case
    using "1.prems" "1.IH" unfolding bisect.simps [of count target low high]
    by (auto simp: Let_def split: if_splits sum.splits)
qed

lemma bisect_counted: "bisect count target low high = Inr (Some k) \<Longrightarrow> \<exists>n. count k = Inr n"
proof (induction count target low high rule: bisect.induct)
  case (1 count target low high)
  show ?case
    using "1.prems" "1.IH" unfolding bisect.simps [of count target low high]
    by (auto simp: Let_def split: if_splits sum.splits)
qed

lemma bisect_complete:
  assumes c: "\<And>k. count k = Inr (c k)" and m: "mono c"
  shows "0 \<le> low \<Longrightarrow> (\<exists>k. int (c k) = target) \<longrightarrow> (\<exists>k. int (c k) = target \<and> low \<le> int k \<and> int k \<le> high) \<Longrightarrow>
    (case bisect count target low high of Inl e \<Rightarrow> False | Inr (Some k) \<Rightarrow> int (c k) = target | Inr None \<Rightarrow> \<forall>k. int (c k) \<noteq> target)"
proof (induction "nat (high - low + 1)" arbitrary: low high rule: less_induct)
  case less
  let ?mid = "(low + high) div 2"
  show ?case
  proof (cases "low \<le> high")
    case True
    then have mid: "low \<le> ?mid" "?mid \<le> high" by auto
    have le: "int k \<le> ?mid \<Longrightarrow> c k \<le> c (nat ?mid)" and ge: "?mid \<le> int k \<Longrightarrow> c (nat ?mid) \<le> c k" for k
      using m mid less.prems(1) by (auto intro!: monoD [OF m])
    consider "int (c (nat ?mid)) = target" | "int (c (nat ?mid)) < target" | "target < int (c (nat ?mid))" by linarith
    then show ?thesis
    proof cases
      case 1
      then show ?thesis using True by (simp add: bisect.simps [of count target low high] c Let_def)
    next
      case 2
      then have "?mid + 1 \<le> int k" if "int (c k) = target" for k
        using le [of k] that by (cases "int k \<le> ?mid") auto
      then have "(\<exists>k. int (c k) = target) \<longrightarrow> (\<exists>k. int (c k) = target \<and> ?mid + 1 \<le> int k \<and> int k \<le> high)"
        using less.prems(2) by blast
      then show ?thesis
        using less.hyps [of high "?mid + 1"] True mid less.prems(1) 2
        by (simp add: bisect.simps [of count target low high] c Let_def)
    next
      case 3
      then have "int k \<le> ?mid - 1" if "int (c k) = target" for k
        using ge [of k] that by (cases "?mid \<le> int k") auto
      then have "(\<exists>k. int (c k) = target) \<longrightarrow> (\<exists>k. int (c k) = target \<and> low \<le> int k \<and> int k \<le> ?mid - 1)"
        using less.prems(2) by blast
      then show ?thesis
        using less.hyps [of "?mid - 1" low] True mid less.prems(1) 3
        by (simp add: bisect.simps [of count target low high] c Let_def)
    qed
  next
    case False
    then show ?thesis using less.prems(2) by (fastforce simp: bisect.simps [of count target low high])
  qed
qed

section \<open>What the script guarantees\<close>

text \<open>
  C36. A prompt that is returned has exactly the requested number of tokens, whatever the tokenizer does. For a tokenizer
  that counts more tokens for more repetitions, the search is also complete: it finds a prompt whenever some number of repetitions has exactly the
  requested number of tokens, and raises \<open>ValueError\<close> when the counts step over it. When no number of repetitions ever reaches the
  target, as with a tokenizer that truncates, the doubling loop does not end: the script hangs, it does not report an unreachable target.
\<close>

theorem exact_prompt_search:
  assumes "\<And>k. templated_token_count tok (repeated unit k) = Inr (c k)" and "mono c" and "0 < target"
  shows "(if \<exists>k. int (c k) = target then \<exists>k. build_exact_prompt tok target unit = Some (Inr (repeated unit k)) \<and> int (c k) = target
     else if \<exists>k. target < int (c k) then build_exact_prompt tok target unit = Some (Inl (SValueError ''target token count is not reachable''))
     else build_exact_prompt tok target unit = None)"
proof (cases "\<exists>k. target \<le> int (c k)")
  case True
  then obtain k where k: "target \<le> int (c k)" by blast
  let ?count = "\<lambda>n. templated_token_count tok (repeated unit n)"
  obtain low high where d: "double_until ?count target 0 1 = Some (Inr (low, high))" "target \<le> int (c high)"
    "int (c low) < target \<or> low = 0"
    using double_until_stops [of ?count c target k 1 0] assms(1,2) k by auto
  have "int low \<le> int j \<and> int j \<le> int high \<or> c j = c high" if "int (c j) = target" for j
    using monoD [OF assms(2), of j low] monoD [OF assms(2), of high j] d(2,3) that by (cases "j \<le> high"; cases "low \<le> j") auto
  moreover have "low \<le> high" using monoD [OF assms(2), of high low] d(2,3) by (cases "low \<le> high") auto
  ultimately have "(\<exists>k. int (c k) = target) \<longrightarrow> (\<exists>k. int (c k) = target \<and> int low \<le> int k \<and> int k \<le> int high)"
    by (metis of_nat_le_iff order_refl)
  then have found: "case bisect ?count target (int low) (int high) of Inl e \<Rightarrow> False | Inr (Some k) \<Rightarrow> int (c k) = target
      | Inr None \<Rightarrow> \<forall>k. int (c k) \<noteq> target"
    using assms(1,2) by (intro bisect_complete) simp_all
  then obtain r where r: "bisect ?count target (int low) (int high) = Inr r" by (auto split: sum.splits)
  have build: "build_exact_prompt tok target unit =
      Some (case r of Some k \<Rightarrow> Inr (repeated unit k) | None \<Rightarrow> Inl (SValueError ''target token count is not reachable''))"
    using assms(3) d(1) r by (simp add: build_exact_prompt_def Let_def split: option.split)
  show ?thesis
  proof (cases r)
    case None
    then have "\<forall>k. int (c k) \<noteq> target" using found r by simp
    moreover from this have "target < int (c k)" using k by (metis order_le_less)
    ultimately show ?thesis using build None by auto
  next
    case (Some j)
    then have "int (c j) = target" using found r by simp
    then show ?thesis using build Some by auto
  qed
next
  case False
  then have n: "int (c k) < target" for k by (simp add: not_le)
  have "double_until (\<lambda>n. templated_token_count tok (repeated unit n)) target 0 1 = None"
    by (rule double_until_diverges) (simp add: assms(1) n)
  then have "build_exact_prompt tok target unit = None" using assms(3) by (simp add: build_exact_prompt_def)
  moreover have "\<not> (\<exists>k. int (c k) = target)" "\<not> (\<exists>k. target < int (c k))" using n by (metis less_irrefl, metis less_asym)
  ultimately show ?thesis by simp
qed

text \<open>Whatever the tokenizer counts, what the script writes has the requested number of tokens.\<close>

lemma exact_prompt_sound:
  assumes "build_exact_prompt tok target unit = Some (Inr prompt)"
  shows "templated_token_count tok prompt = Inr (nat target) \<and> 0 < target \<and> (\<exists>k. prompt = repeated unit k)"
proof -
  let ?count = "\<lambda>n. templated_token_count tok (repeated unit n)"
  obtain low high mid where b: "bisect ?count target (int low) (int high) = Inr (Some mid)" "prompt = repeated unit mid" "0 < target"
    using assms by (auto simp: build_exact_prompt_def Let_def split: if_splits option.splits sum.splits)
  obtain n where n: "?count mid = Inr n" using bisect_counted [OF b(1)] by blast
  then show ?thesis using bisect_sound [OF b(1) n] b(2,3) by auto
qed

theorem exact_prompt_written:
  assumes "prompt_main loads tokenizer_for model revision tokens kwargs_text = Some (Prompt_written d)"
  shows "dict_get d ''tokens'' = JInt tokens \<and> 0 < tokens"
proof -
  obtain kwargs prompt n where k: "build_exact_prompt (tokenizer_for model revision kwargs) tokens ''x '' = Some (Inr prompt)"
    "templated_token_count (tokenizer_for model revision kwargs) prompt = Inr n"
    "dict_get d ''tokens'' = JInt (int n)"
    using assms by (auto simp: prompt_main_def Let_def dict_get_def split: sum.splits json.splits if_splits option.splits)
  then show ?thesis using exact_prompt_sound [OF k(1)] by auto
qed

section \<open>A run\<close>

text \<open>A template of three tokens around one token per character.\<close>

definition run_tokenizer :: "nat \<Rightarrow> tokenizer" where
  "run_tokenizer limit prompt = Inr (Encoding_dict [(''input_ids'', JList (replicate (min limit (length prompt + 3)) (JInt 7)))])"

lemma run_tokenizer_count:
  "templated_token_count (run_tokenizer limit) (repeated unit k) = Inr (min limit (k * length unit + 3))"
proof -
  have "length (repeated unit k) = k * length unit" by (induction k) (simp_all add: repeated_def)
  moreover have "token_count (Encoding_dict [(''input_ids'', JList (replicate n (JInt 7)))]) = Inr n" for n
    by (cases n) (simp_all add: token_count_def dict_get_def)
  ultimately show ?thesis by (simp add: templated_token_count_def run_tokenizer_def)
qed

lemma run_tokenizer_mono: "mono (\<lambda>k. min limit (k * length (unit :: string) + 3))"
  by (rule monoI, rule min.mono) (simp_all add: mult_le_mono1)

theorem exact_prompt_search_witness:
  "build_exact_prompt (run_tokenizer 100) 7 ''x '' = Some (Inr ''x x '') \<and>
   build_exact_prompt (run_tokenizer 100) 8 ''x '' = Some (Inl (SValueError ''target token count is not reachable'')) \<and>
   build_exact_prompt (run_tokenizer 100) 101 ''x '' = None"
proof -
  note S = exact_prompt_search [where c = "\<lambda>k. min 100 (k * length ''x '' + 3)", OF run_tokenizer_count run_tokenizer_mono]
  let ?c = "\<lambda>k. int (min 100 (k * length ''x '' + 3))"
  have 7: "\<exists>k. ?c k = 7" by (rule exI [of _ 2]) simp
  then obtain k where k: "build_exact_prompt (run_tokenizer 100) 7 ''x '' = Some (Inr (repeated ''x '' k))" "?c k = 7"
    using S [of 7] unfolding if_P [OF 7] by auto
  then have "k = 2" by (simp add: min_def split: if_splits)
  moreover have "repeated ''x '' 2 = ''x x ''" by code_simp
  moreover have 8: "\<not> (\<exists>k. ?c k = 8)" by (auto simp: min_def) presburger
  moreover have 9: "\<exists>k. 8 < ?c k" by (rule exI [of _ 10]) simp
  moreover have 101: "\<not> (\<exists>k. ?c k = 101)" "\<not> (\<exists>k. 101 < ?c k)" by (auto simp: min_def)
  ultimately show ?thesis
    using k(1) S [of 8, unfolded if_not_P [OF 8] if_P [OF 9]] S [of 101, unfolded if_not_P [OF 101(1)] if_not_P [OF 101(2)]] by simp
qed

end
