(* ===== verification/Gw_Pyjson.thy ===== *)
theory Gw_Pyjson
  imports Gw_Vast
begin

text \<open>
  What the benchmark scripts use of Python on the values that \<open>json.loads\<close> yields: truth, \<open>str\<close> and \<open>repr\<close>, conversion to
  \<open>int\<close>, the methods and subscripts of dictionaries, with the exceptions they raise on values of another type.
\<close>

section \<open>Sequencing\<close>

definition bind_res :: "'e + 'a \<Rightarrow> ('a \<Rightarrow> 'e + 'b) \<Rightarrow> 'e + 'b" where
  "bind_res r k = (case r of Inl e \<Rightarrow> Inl e | Inr x \<Rightarrow> k x)"

fun map_res :: "('a \<Rightarrow> 'e + 'b) \<Rightarrow> 'a list \<Rightarrow> 'e + 'b list" where
  "map_res f [] = Inr []"
| "map_res f (x # xs) = bind_res (f x) (\<lambda>y. bind_res (map_res f xs) (\<lambda>ys. Inr (y # ys)))"

lemma bind_res_simps [simp]: "bind_res (Inl e) k = Inl e" "bind_res (Inr x) k = k x"
  by (simp_all add: bind_res_def)

lemma bind_res_Inr_iff: "bind_res r k = Inr y \<longleftrightarrow> (\<exists>x. r = Inr x \<and> k x = Inr y)"
  by (cases r) auto

lemma bind_res_Inl_iff: "bind_res r k = Inl e \<longleftrightarrow> r = Inl e \<or> (\<exists>x. r = Inr x \<and> k x = Inl e)"
  by (cases r) auto

lemma map_res_Inr_iff: "map_res f xs = Inr ys \<longleftrightarrow> list_all2 (\<lambda>x y. f x = Inr y) xs ys"
  by (induction xs arbitrary: ys) (auto simp: bind_res_Inr_iff list_all2_Cons1)

lemma map_res_total: "map_res (\<lambda>x. Inr (f x)) xs = Inr (map f xs)"
  by (induction xs) simp_all

section \<open>Truth and text\<close>

fun py_truthy :: "json \<Rightarrow> bool" where
  "py_truthy JNull = False"
| "py_truthy (JBool b) = b"
| "py_truthy (JInt i) = (i \<noteq> 0)"
| "py_truthy (JFloat x) = (x \<noteq> 0)"
| "py_truthy (JStr s) = (s \<noteq> [])"
| "py_truthy (JList xs) = (xs \<noteq> [])"
| "py_truthy (JObj kvs) = (kvs \<noteq> [])"

text \<open>\<open>repr\<close> of a string: quoted with \<open>'\<close>, or with \<open>"\<close> where it holds a \<open>'\<close> and no \<open>"\<close>.\<close>

definition repr_char :: "char \<Rightarrow> char \<Rightarrow> string" where
  "repr_char q c =
     (let n = code_point c
      in if c = q \<or> c = CHR 0x5C then [CHR 0x5C, c]
         else if n = 9 then [CHR 0x5C, CHR ''t'']
         else if n = 10 then [CHR 0x5C, CHR ''n'']
         else if n = 13 then [CHR 0x5C, CHR ''r'']
         else if n < 32 \<or> 127 \<le> n \<and> n \<le> 160 \<or> n = 173 then [CHR 0x5C, CHR ''x'', hex_digit (n div 16), hex_digit (n mod 16)]
         else [c])"

definition repr_str :: "string \<Rightarrow> string" where
  "repr_str s = (let q = (if CHR 0x27 \<in> set s \<and> CHR 0x22 \<notin> set s then CHR 0x22 else CHR 0x27)
     in [q] @ concat (map (repr_char q) s) @ [q])"

fun py_repr :: "(real \<Rightarrow> string) \<Rightarrow> json \<Rightarrow> string" where
  "py_repr fr JNull = ''None''"
| "py_repr fr (JBool b) = (if b then ''True'' else ''False'')"
| "py_repr fr (JInt i) = int_str i"
| "py_repr fr (JFloat x) = fr x"
| "py_repr fr (JStr s) = repr_str s"
| "py_repr fr (JList xs) = ''['' @ join '', '' (map (py_repr fr) xs) @ '']''"
| "py_repr fr (JObj kvs) = ''{'' @ join '', '' (map (\<lambda>kv. repr_str (fst kv) @ '': '' @ py_repr fr (snd kv)) kvs) @ ''}''"

definition py_str :: "(real \<Rightarrow> string) \<Rightarrow> json \<Rightarrow> string" where
  "py_str fr j = (case j of JStr s \<Rightarrow> s | _ \<Rightarrow> py_repr fr j)"

lemma py_str_simps [simp]:
  "py_str fr (JStr s) = s" "py_str fr (JInt i) = int_str i" "py_str fr JNull = ''None''"
  by (simp_all add: py_str_def)

section \<open>Numbers\<close>

text \<open>\<open>int(x)\<close>: a float is cut off towards zero.\<close>

definition py_int_of :: "json \<Rightarrow> script_exn + int" where
  "py_int_of j = (case j of
      JInt i \<Rightarrow> Inr i
    | JBool b \<Rightarrow> Inr (if b then 1 else 0)
    | JFloat x \<Rightarrow> Inr (if 0 \<le> x then \<lfloor>x\<rfloor> else \<lceil>x\<rceil>)
    | JStr s \<Rightarrow> (case py_int s of Some i \<Rightarrow> Inr i | None \<Rightarrow> Inl (SValueError ''invalid literal for int()''))
    | _ \<Rightarrow> Inl STypeError)"

text \<open>\<open>isinstance(x, int)\<close>\<close>

definition is_int :: "json \<Rightarrow> bool" where
  "is_int j = (case j of JInt _ \<Rightarrow> True | JBool _ \<Rightarrow> True | _ \<Rightarrow> False)"

section \<open>Dictionaries\<close>

definition dict_get_or :: "json_dict \<Rightarrow> string \<Rightarrow> json \<Rightarrow> json" where
  "dict_get_or d k v = (case map_of d k of Some x \<Rightarrow> x | None \<Rightarrow> v)"

text \<open>\<open>x.get(k, v)\<close> for a value that ought to be a dictionary; \<open>x[k]\<close> is \<^const>\<open>get_item\<close>.\<close>

definition get_method :: "json \<Rightarrow> string \<Rightarrow> json \<Rightarrow> script_exn + json" where
  "get_method j k v = (case j of JObj d \<Rightarrow> Inr (dict_get_or d k v) | _ \<Rightarrow> Inl SAttributeError)"

lemma dict_get_or_None [simp]: "dict_get_or d k JNull = dict_get d k"
  by (simp add: dict_get_or_def dict_get_def)

lemma dict_get_or_has: "has_key k d \<Longrightarrow> dict_get_or d k v = dict_get d k"
  by (auto simp: dict_get_or_def dict_get_def has_key_def)

text \<open>\<open>x in {s, \<dots>}\<close> for a set of strings: hashing a list or a dictionary raises.\<close>

definition in_strings :: "json \<Rightarrow> string list \<Rightarrow> script_exn + bool" where
  "in_strings j ss = (if hashable j then Inr (j \<in> set (map JStr ss)) else Inl STypeError)"

section \<open>Equality and sorting\<close>

text \<open>\<open>x == y\<close> for any two values: numbers across their types, dictionaries without regard to the order of their items.\<close>

fun py_same :: "json \<Rightarrow> json \<Rightarrow> bool" where
  "py_same (JList xs) y = (case y of JList ys \<Rightarrow> list_all2 py_same xs ys | _ \<Rightarrow> False)"
| "py_same (JObj xs) y = (case y of
      JObj ys \<Rightarrow> length xs = length ys \<and>
        list_all (\<lambda>kv. case map_of ys (fst kv) of Some w \<Rightarrow> py_same (snd kv) w | None \<Rightarrow> False) xs
    | _ \<Rightarrow> False)"
| "py_same x y = scalar_eq x y"

text \<open>What \<open>json.dumps(\<dots>, sort_keys=True)\<close> writes out, and that equal texts have equal values.\<close>

fun sort_json :: "json \<Rightarrow> json" where
  "sort_json (JList xs) = JList (map sort_json xs)"
| "sort_json (JObj kvs) = JObj (sort_items (map (\<lambda>kv. (fst kv, sort_json (snd kv))) kvs))"
| "sort_json x = x"

end
