(* ===== verification/Gw_Results.thy ===== *)
theory Gw_Results
  imports Gw_Pyjson
begin

text \<open>
  \<open>benchmark/scripts/validate_result.py\<close>: the check of a benchmark result, which reports every violation it finds. The summary and the
  resumption of a matrix rest on it.
\<close>

section \<open>The validator\<close>

definition required_sections :: "string list" where
  "required_sections = [''metadata'', ''configuration'', ''timing'', ''warmup'', ''summary'', ''per_request'', ''metrics'',
     ''metric_artifacts'', ''environment'', ''validity'']"

definition required_object_fields :: "(string \<times> string list) list" where
  "required_object_fields =
     [(''metadata'', [''run_id'', ''timestamp_utc'', ''label'', ''repeat'', ''execution_order'']),
      (''timing'', [''measured_start_utc'', ''measured_end_utc'', ''duration_seconds'']),
      (''warmup'', [''attempted'', ''success'', ''failed'']),
      (''summary'', [''attempted'', ''successful'', ''failed'', ''error_rate'', ''errors_by_category'', ''e2e'', ''ttft'',
         ''request_throughput_rps'', ''output_throughput_tps'', ''authoritative_token_coverage'']),
      (''validity'', [''valid'', ''reasons''])]"

definition configuration_fields :: "string list" where
  "configuration_fields = [''base_url'', ''endpoint'', ''model'', ''mode'', ''concurrency'', ''requests'', ''warmup'',
     ''timeout_seconds'', ''dataset_sha256'', ''temperature'', ''top_p'', ''max_tokens'', ''seed'', ''n'', ''stream'',
     ''stream_include_usage'', ''batching_enabled'', ''prefix_caching'', ''workload_fingerprint'',
     ''gateway_config_fingerprint'', ''vllm_config_fingerprint'']"

abbreviation is_dict :: "json \<Rightarrow> bool" where
  "is_dict j \<equiv> (case j of JObj _ \<Rightarrow> True | _ \<Rightarrow> False)"

definition missing_in :: "string \<Rightarrow> string list \<Rightarrow> json_dict \<Rightarrow> string list" where
  "missing_in prefix wanted d = map (\<lambda>f. prefix @ f) (filter (\<lambda>f. \<not> has_key f d) wanted)"

definition section_errors :: "json_dict \<Rightarrow> string \<times> string list \<Rightarrow> string list" where
  "section_errors d sf = (case dict_get_or d (fst sf) (JObj []) of
      JObj v \<Rightarrow> missing_in (fst sf @ '' missing '') (snd sf) v
    | _ \<Rightarrow> [fst sf @ '' must be an object''])"

definition request_errors :: "nat \<Rightarrow> json \<Rightarrow> string list" where
  "request_errors index request =
     (let place = ''per_request['' @ nat_str index @ '']''
      in case request of
           JObj r \<Rightarrow> if dict_get r ''ttft_ms'' \<noteq> JNull then [place @ '' has TTFT in non-streaming mode''] else []
         | _ \<Rightarrow> [place @ '' must be an object''])"

definition ttft_errors :: "json list \<Rightarrow> string list" where
  "ttft_errors requests = concat (map (\<lambda>(index, request). request_errors index request) (List.enumerate 0 requests))"

definition is_sha256 :: "string \<Rightarrow> bool" where
  "is_sha256 s \<longleftrightarrow> length s = 64 \<and> list_all (\<lambda>c. is_digit c \<or> 97 \<le> code_point c \<and> code_point c \<le> 102) s"

text \<open>The requests that are looked at: what is not an array is reported, and counts as empty from then on.\<close>

definition requests_of :: "json_dict \<Rightarrow> string list \<times> json list" where
  "requests_of d = (case dict_get_or d ''per_request'' (JList []) of
      JList rs \<Rightarrow> ([], rs)
    | _ \<Rightarrow> ([''per_request must be an array''], []))"

definition summary_errors :: "json_dict \<Rightarrow> json list \<Rightarrow> string list" where
  "summary_errors d requests = (case dict_get_or d ''summary'' (JObj []) of
      JObj s \<Rightarrow>
       (case dict_get s ''attempted'' of
          JInt n \<Rightarrow> if n \<noteq> int (length requests) then [''summary.attempted does not match per_request length''] else []
        | JBool b \<Rightarrow> if (if b then 1 else 0) \<noteq> length requests then [''summary.attempted does not match per_request length''] else []
        | _ \<Rightarrow> [])
    | _ \<Rightarrow> [''summary must be an object''])"

definition configuration_errors :: "(real \<Rightarrow> string) \<Rightarrow> json_dict \<Rightarrow> json_dict \<Rightarrow> script_exn + string list" where
  "configuration_errors fr d c =
     (let mode = dict_get c ''mode''; (shape, requests) = requests_of d
      in bind_res (in_strings mode [''streaming'', ''non_streaming'']) (\<lambda>known. Inr
          (missing_in ''configuration missing '' configuration_fields c @
           (if known then [] else [''configuration.mode is invalid'']) @
           shape @
           (if mode = JStr ''non_streaming'' then ttft_errors requests else []) @
           (if is_sha256 (py_str fr (dict_get_or c ''dataset_sha256'' (JStr []))) then []
            else [''dataset_sha256 must be a 64-character hex digest'']) @
           summary_errors d requests)))"

definition structure_errors :: "json_dict \<Rightarrow> string list" where
  "structure_errors d =
     (if py_eq (dict_get d ''schema_version'') (JInt 1) then [] else [''schema_version must equal 1'']) @
     missing_in ''missing '' required_sections d @
     concat (map (section_errors d) required_object_fields) @
     concat (map (\<lambda>s. if is_dict (dict_get_or d s (JObj [])) then [] else [s @ '' must be an object''])
       [''metrics'', ''metric_artifacts'', ''environment''])"

definition result_validate :: "(real \<Rightarrow> string) \<Rightarrow> json \<Rightarrow> script_exn + string list" where
  "result_validate fr result = (case result of
      JObj d \<Rightarrow>
       (case dict_get_or d ''configuration'' (JObj []) of
          JObj c \<Rightarrow> bind_res (configuration_errors fr d c) (\<lambda>more. Inr (structure_errors d @ more))
        | _ \<Rightarrow> Inr (structure_errors d @ [''configuration must be an object'']))
    | _ \<Rightarrow> Inr [''root must be an object''])"

text \<open>
  \<open>main\<close>: the files as \<open>json.load\<close> reads them, in order; a line per file that is valid, a line per error, and the exit status. An
  exception that is not caught ends the script with the status of a traceback.
\<close>

fun validate_main :: "(real \<Rightarrow> string) \<Rightarrow> (string \<times> (script_exn + json)) list \<Rightarrow> script_exn + (string list \<times> int)" where
  "validate_main fr [] = Inr ([], 0)"
| "validate_main fr ((path, contents) # files) =
     bind_res (case contents of
         Inl (SOSError m) \<Rightarrow> Inr [m]
       | Inl SJSONDecodeError \<Rightarrow> Inr [''invalid JSON'']
       | Inl e \<Rightarrow> Inl e
       | Inr result \<Rightarrow> result_validate fr result) (\<lambda>errors.
     bind_res (validate_main fr files) (\<lambda>(out, status). Inr
       (if errors = [] then ((path @ '': valid'') # out, status)
        else (map (\<lambda>e. path @ '': '' @ e) errors @ out, 1))))"

section \<open>What is accepted\<close>

text \<open>What a result without errors is.\<close>

definition sound_configuration :: "(real \<Rightarrow> string) \<Rightarrow> json_dict \<Rightarrow> json_dict \<Rightarrow> bool" where
  "sound_configuration fr d c \<longleftrightarrow> (\<exists>s m rs. dict_get d ''summary'' = JObj s \<and> dict_get c ''mode'' = JStr m \<and>
     dict_get d ''per_request'' = JList rs \<and> list_all (\<lambda>k. has_key k c) configuration_fields \<and>
     is_sha256 (py_str fr (dict_get c ''dataset_sha256'')) \<and>
     (m = ''streaming'' \<or> m = ''non_streaming'' \<and> list_all (\<lambda>r. \<exists>q. r = JObj q \<and> dict_get q ''ttft_ms'' = JNull) rs) \<and>
     (is_int (dict_get s ''attempted'') \<longrightarrow> py_eq (dict_get s ''attempted'') (JInt (int (length rs)))))"

definition sound_result :: "(real \<Rightarrow> string) \<Rightarrow> json_dict \<Rightarrow> bool" where
  "sound_result fr d \<longleftrightarrow>
     py_eq (dict_get d ''schema_version'') (JInt 1) \<and>
     list_all (\<lambda>k. has_key k d) required_sections \<and>
     list_all (\<lambda>(k, fs). \<exists>v. dict_get d k = JObj v \<and> list_all (\<lambda>f. has_key f v) fs) required_object_fields \<and>
     list_all (\<lambda>k. is_dict (dict_get d k)) [''metrics'', ''metric_artifacts'', ''environment''] \<and>
     (\<exists>c. dict_get d ''configuration'' = JObj c \<and> sound_configuration fr d c)"

lemma missing_in_Nil [simp]: "missing_in prefix wanted d = [] \<longleftrightarrow> list_all (\<lambda>f. has_key f d) wanted"
  by (auto simp: missing_in_def filter_empty_conv list_all_iff)

lemma concat_map_Nil: "concat (map f xs) = [] \<longleftrightarrow> list_all (\<lambda>x. f x = []) xs"
  by (simp add: list_all_iff)

lemma section_errors_Nil:
  "has_key k d \<Longrightarrow> section_errors d (k, fs) = [] \<longleftrightarrow> (\<exists>v. dict_get d k = JObj v \<and> list_all (\<lambda>f. has_key f v) fs)"
  by (auto simp: section_errors_def dict_get_or_has split: json.split)

lemma request_errors_Nil: "request_errors i r = [] \<longleftrightarrow> (\<exists>q. r = JObj q \<and> dict_get q ''ttft_ms'' = JNull)"
  by (auto simp: request_errors_def Let_def split: json.split)

lemma enumerate_Nil: "concat (map (\<lambda>(i, r). request_errors i r) (List.enumerate n rs)) = [] \<longleftrightarrow>
    list_all (\<lambda>r. \<exists>q. r = JObj q \<and> dict_get q ''ttft_ms'' = JNull) rs"
  by (induction rs arbitrary: n) (simp_all add: request_errors_Nil)

lemma ttft_errors_Nil: "ttft_errors rs = [] \<longleftrightarrow> list_all (\<lambda>r. \<exists>q. r = JObj q \<and> dict_get q ''ttft_ms'' = JNull) rs"
  unfolding ttft_errors_def by (rule enumerate_Nil)

lemma summary_errors_Nil:
  "has_key ''summary'' d \<Longrightarrow> summary_errors d rs = [] \<longleftrightarrow>
     (\<exists>s. dict_get d ''summary'' = JObj s \<and>
       (is_int (dict_get s ''attempted'') \<longrightarrow> py_eq (dict_get s ''attempted'') (JInt (int (length rs)))))"
  by (auto simp: summary_errors_def dict_get_or_has is_int_def scalar_eq_def split: json.split)

lemma configuration_errors_Nil:
  assumes "has_key ''per_request'' d" "has_key ''summary'' d"
  shows "configuration_errors fr d c = Inr [] \<longleftrightarrow> sound_configuration fr d c"
proof (cases "list_all (\<lambda>k. has_key k c) configuration_fields")
  case True
  then have "has_key ''dataset_sha256'' c" by (simp add: configuration_fields_def)
  note f = True dict_get_or_has [OF this] dict_get_or_has [OF assms(1)] summary_errors_Nil [OF assms(2)] ttft_errors_Nil
  show ?thesis
    by (cases "dict_get c ''mode''"; cases "dict_get d ''per_request''")
      (auto simp: configuration_errors_def sound_configuration_def requests_of_def in_strings_def bind_res_Inr_iff f)
next
  case False
  then show ?thesis
    by (auto simp: configuration_errors_def sound_configuration_def Let_def bind_res_Inr_iff case_prod_beta)
qed

lemma sections_known:
  assumes "list_all (\<lambda>k. has_key k d) required_sections"
  shows "k \<in> set required_sections \<Longrightarrow> dict_get_or d k v = dict_get d k" "k \<in> set required_sections \<Longrightarrow> has_key k d"
  using assms by (simp_all add: dict_get_or_has list_all_iff)

lemma structure_errors_Nil:
  "structure_errors d = [] \<longleftrightarrow> py_eq (dict_get d ''schema_version'') (JInt 1) \<and>
     list_all (\<lambda>k. has_key k d) required_sections \<and>
     list_all (\<lambda>(k, fs). \<exists>v. dict_get d k = JObj v \<and> list_all (\<lambda>f. has_key f v) fs) required_object_fields \<and>
     list_all (\<lambda>k. is_dict (dict_get d k)) [''metrics'', ''metric_artifacts'', ''environment'']"
proof (cases "list_all (\<lambda>k. has_key k d) required_sections")
  case True
  note k = sections_known [OF True]
  have sections: "concat (map (section_errors d) required_object_fields) = [] \<longleftrightarrow>
      list_all (\<lambda>(k, fs). \<exists>v. dict_get d k = JObj v \<and> list_all (\<lambda>f. has_key f v) fs) required_object_fields"
    unfolding concat_map_Nil by (simp add: required_object_fields_def section_errors_Nil k(2) required_sections_def)
  have dicts: "concat (map (\<lambda>s. if is_dict (dict_get_or d s (JObj [])) then [] else [s @ '' must be an object''])
      [''metrics'', ''metric_artifacts'', ''environment'']) = [] \<longleftrightarrow>
      list_all (\<lambda>k. is_dict (dict_get d k)) [''metrics'', ''metric_artifacts'', ''environment'']"
    unfolding concat_map_Nil by (simp add: k(1) required_sections_def)
  show ?thesis unfolding structure_errors_def append_is_Nil_conv sections dicts missing_in_Nil by simp
qed (simp add: structure_errors_def)

lemma result_validate_accepts: "result_validate fr (JObj d) = Inr [] \<longleftrightarrow> sound_result fr d"
proof (cases "list_all (\<lambda>k. has_key k d) required_sections")
  case True
  note k = sections_known [OF True]
  have c: "dict_get_or d ''configuration'' (JObj []) = dict_get d ''configuration''"
    and p: "has_key ''per_request'' d" "has_key ''summary'' d" using k by (simp_all add: required_sections_def)
  show ?thesis
  proof (cases "dict_get d ''configuration''")
    case (JObj c')
    have "result_validate fr (JObj d) = Inr [] \<longleftrightarrow> structure_errors d = [] \<and> configuration_errors fr d c' = Inr []"
      by (auto simp: result_validate_def c JObj bind_res_Inr_iff)
    also have "\<dots> \<longleftrightarrow> sound_result fr d"
      unfolding structure_errors_Nil configuration_errors_Nil [OF p] sound_result_def JObj by simp
    finally show ?thesis .
  qed (simp_all add: result_validate_def sound_result_def c)
next
  case False
  then have "structure_errors d \<noteq> []" unfolding structure_errors_Nil by blast
  then have "result_validate fr (JObj d) \<noteq> Inr []"
    by (cases "dict_get_or d ''configuration'' (JObj [])") (simp_all add: result_validate_def bind_res_Inr_iff)
  moreover have "\<not> sound_result fr d" unfolding sound_result_def using False by blast
  ultimately show ?thesis by blast
qed

lemma configuration_errors_raises:
  "configuration_errors fr d c = Inl e \<longleftrightarrow> e = STypeError \<and> \<not> hashable (dict_get c ''mode'')"
  by (auto simp: configuration_errors_def Let_def in_strings_def case_prod_beta)


end
