(* ===== verification/Gw_Matrix.thy ===== *)
theory Gw_Matrix
  imports Gw_Results
begin

text \<open>
  \<open>benchmark/scripts/run_matrix.py\<close>: the configuration of a benchmark matrix, the runs it plans in their order, the fingerprint of a planned run,
  and what a resumed matrix may skip. The environment, the digest \<open>sha256\<close>, \<open>float.__repr__\<close> and the parser of \<open>float\<close> are parameters.
\<close>

section \<open>Paths\<close>

text \<open>
  \<open>pathlib.PurePosixPath\<close>: the root (none, one or two slashes) and the components without blanks and dots. Dividing by an absolute path
  gives that path.
\<close>

type_synonym path = "string \<times> string list"

definition py_path :: "string \<Rightarrow> path" where
  "py_path s =
     ((if take 2 s = ''//'' \<and> take 3 s \<noteq> ''///'' then ''//'' else if take 1 s = ''/'' then ''/'' else []),
      filter (\<lambda>c. c \<noteq> [] \<and> c \<noteq> ''.'') (py_split CHR ''/'' s))"

definition path_join :: "path \<Rightarrow> path \<Rightarrow> path" where
  "path_join p q = (if fst q \<noteq> [] then q else (fst p, snd p @ snd q))"

definition path_str :: "path \<Rightarrow> string" where
  "path_str p = (if p = ([], []) then ''.'' else fst p @ join ''/'' (snd p))"

definition path_parent :: "path \<Rightarrow> path" where
  "path_parent p = (fst p, butlast (snd p))"

section \<open>The configuration\<close>

text \<open>\<open>os.path.expandvars\<close>: what a variable stands for is not expanded again, an unknown variable stays as it is.\<close>

definition word_char :: "char \<Rightarrow> bool" where
  "word_char c \<longleftrightarrow> is_digit c \<or> c = CHR ''_'' \<or> 65 \<le> code_point c \<and> code_point c \<le> 90 \<or> 97 \<le> code_point c \<and> code_point c \<le> 122"

function expandvars :: "(string \<Rightarrow> string option) \<Rightarrow> string \<Rightarrow> string" where
  "expandvars env [] = []"
| "expandvars env (c # cs) =
     (if c \<noteq> CHR ''$'' then c # expandvars env cs
      else if take 1 cs = ''{'' \<and> CHR ''}'' \<in> set cs
      then let name = takeWhile (\<lambda>d. d \<noteq> CHR ''}'') (tl cs); rest = tl (dropWhile (\<lambda>d. d \<noteq> CHR ''}'') (tl cs))
           in (case env name of Some v \<Rightarrow> v | None \<Rightarrow> ''${'' @ name @ ''}'') @ expandvars env rest
      else let name = takeWhile word_char cs; rest = dropWhile word_char cs
           in if name = [] then c # expandvars env cs
              else (case env name of Some v \<Rightarrow> v | None \<Rightarrow> c # name) @ expandvars env rest)"
  by pat_completeness auto
termination
proof (relation "measure (\<lambda>(env, s). length s)")
  have "length (dropWhile P (tl cs)) \<le> length cs" for P and cs :: string
    using length_dropWhile_le [of P "tl cs"] by simp
  then show "\<And>env c cs x xa. \<not> c \<noteq> CHR ''$'' \<Longrightarrow> take 1 cs = ''{'' \<and> CHR ''}'' \<in> set cs \<Longrightarrow>
      x = takeWhile (\<lambda>d. d \<noteq> CHR ''}'') (tl cs) \<Longrightarrow> xa = tl (dropWhile (\<lambda>d. d \<noteq> CHR ''}'') (tl cs)) \<Longrightarrow>
      ((env, xa), env, c # cs) \<in> measure (\<lambda>(env, s). length s)"
    by (simp add: less_Suc_eq_le le_trans [OF diff_le_self])
qed (auto simp: less_Suc_eq_le length_dropWhile_le)

fun occurs_in :: "string \<Rightarrow> string \<Rightarrow> bool" where
  "occurs_in w [] = (w = [])"
| "occurs_in w (c # cs) = (take (length w) (c # cs) = w \<or> occurs_in w cs)"

lemma map_res_cong [fundef_cong]:
  "xs = ys \<Longrightarrow> (\<And>x. x \<in> set ys \<Longrightarrow> f x = g x) \<Longrightarrow> map_res f xs = map_res g ys"
  by (induction ys arbitrary: xs) auto

fun expand :: "(string \<Rightarrow> string option) \<Rightarrow> json \<Rightarrow> script_exn + json" where
  "expand env (JStr s) = (let expanded = expandvars env s
     in if occurs_in ''${'' expanded then Inl (SValueError ''unresolved environment variable'') else Inr (JStr expanded))"
| "expand env (JList xs) = bind_res (map_res (expand env) xs) (\<lambda>ys. Inr (JList ys))"
| "expand env (JObj kvs) =
     bind_res (map_res (\<lambda>kv. bind_res (expand env (snd kv)) (\<lambda>v. Inr (fst kv, v))) kvs) (\<lambda>ys. Inr (JObj ys))"
| "expand env x = Inr x"

definition validate_admission :: "(real \<Rightarrow> string) \<Rightarrow> json \<Rightarrow> script_exn + unit" where
  "validate_admission fr target =
     bind_res (get_method target ''batching_enabled'' (JStr ''not_applicable'')) (\<lambda>enabled.
     if py_str fr enabled \<noteq> ''true'' then Inr ()
     else
      bind_res (bind_res (get_method target ''batch_max_size'' (JInt 0)) py_int_of) (\<lambda>size.
      bind_res (bind_res (get_method target ''tenant_max_inflight'' (JInt 0)) py_int_of) (\<lambda>tenant.
      bind_res (bind_res (get_method target ''global_max_inflight'' (JInt 0)) py_int_of) (\<lambda>global_limit.
      if size < 2 \<or> tenant < size \<or> global_limit < size
      then Inl (SValueError ''batching admission limits must be at least batch_max_size'') else Inr ()))))"

text \<open>\<open>load_config\<close>, on the contents of the file as \<open>json.load\<close> reads them.\<close>

definition iterate :: "json \<Rightarrow> script_exn + json list" where
  "iterate j = (case py_iter j of Some xs \<Rightarrow> Inr xs | None \<Rightarrow> Inl STypeError)"

definition load_config :: "(real \<Rightarrow> string) \<Rightarrow> (string \<Rightarrow> string option) \<Rightarrow> script_exn + json \<Rightarrow> script_exn + json_dict" where
  "load_config fr env contents =
     bind_res contents (\<lambda>raw.
     bind_res (expand env raw) (\<lambda>config. (case config of
       JObj d \<Rightarrow>
        (if \<not> py_same (dict_get d ''schema_version'') (JInt 1) then Inl (SValueError ''matrix schema_version must be 1'')
         else if \<not> list_all (\<lambda>k. has_key k d) [''model'', ''dataset'', ''targets'', ''concurrency'', ''repetitions'']
         then Inl (SValueError ''missing matrix fields'')
         else
          bind_res (iterate (dict_get d ''targets'')) (\<lambda>targets.
          bind_res (map_res (\<lambda>t. get_method t ''label'' JNull) targets) (\<lambda>labels.
          bind_res (set_of (JList labels)) (\<lambda>unique.
          if length labels \<noteq> length unique \<or> \<not> list_all py_truthy labels
          then Inl (SValueError ''target labels must be present and unique'')
          else bind_res (map_res (validate_admission fr) targets) (\<lambda>_. Inr d)))))
     | _ \<Rightarrow> Inl SAttributeError)))"

section \<open>Planning\<close>

definition rotated :: "'a list \<Rightarrow> int \<Rightarrow> 'a list" where
  "rotated targets repeat = (let offset = nat ((repeat - 1) mod int (length targets)) in drop offset targets @ take offset targets)"

definition requests_for :: "json_dict \<Rightarrow> int \<Rightarrow> script_exn + int" where
  "requests_for config concurrency = (let configured = dict_get_or config ''requests'' (JStr ''auto'')
     in if configured = JStr ''auto'' then Inr (max 200 (concurrency * 20)) else py_int_of configured)"

definition matrix_id_char :: "char \<Rightarrow> bool" where
  "matrix_id_char c \<longleftrightarrow> word_char c \<or> c = CHR ''.'' \<or> c = CHR ''-''"

definition resolve_matrix_id :: "string \<Rightarrow> json \<Rightarrow> string option \<Rightarrow> bool \<Rightarrow> script_exn + string" where
  "resolve_matrix_id timestamp config_id cli_id resume =
     (if cli_id \<noteq> None \<and> config_id \<noteq> JNull \<and> JStr (the cli_id) \<noteq> config_id
      then Inl (SValueError ''config run_id and --matrix-id must match'')
      else let given = (case cli_id of Some c \<Rightarrow> JStr c | None \<Rightarrow> config_id)
      in if given = JNull \<and> resume then Inl (SValueError ''--resume requires a stable matrix ID'')
         else case (if given = JNull then JStr timestamp else given) of
             JStr i \<Rightarrow>
              (if i = [] \<or> \<not> list_all matrix_id_char i \<or> occurs_in ''..'' i \<or> i = ''.'' then Inl (SValueError ''bad matrix ID'') else Inr i)
           | _ \<Rightarrow> Inl (SValueError ''bad matrix ID''))"

definition add_optional :: "(real \<Rightarrow> string) \<Rightarrow> string list \<Rightarrow> string \<Rightarrow> json \<Rightarrow> string list" where
  "add_optional fr command flag v = (if v \<noteq> JNull \<and> v \<noteq> JStr [] then command @ [flag, py_str fr v] else command)"

definition resolve_path :: "path \<Rightarrow> string \<Rightarrow> path" where
  "resolve_path benchmark_root s = path_join benchmark_root (py_path s)"

text \<open>The identity of a run and its number of requests.\<close>

record run_coordinate =
  run_id :: string
  run_label :: string
  run_mode :: string
  run_concurrency :: int
  run_repeat :: int
  execution_order :: int
  run_requests :: int

definition optional_flags :: "(string \<times> string) list" where
  "optional_flags = [(''--gateway-metrics-url'', ''gateway_metrics_url''), (''--vllm-metrics-url'', ''vllm_metrics_url''),
     (''--output-token-counter'', ''output_token_counter''), (''--batch-max-size'', ''batch_max_size''),
     (''--batch-max-wait-seconds'', ''batch_max_wait_seconds''), (''--tenant-max-inflight'', ''tenant_max_inflight''),
     (''--global-max-inflight'', ''global_max_inflight''), (''--gateway-git-sha'', ''gateway_git_sha'')]"

definition config_flags :: "(string \<times> string) list" where
  "config_flags = [(''--sample-interval'', ''sample_interval''), (''--gpu-sample-interval'', ''gpu_sample_interval''),
     (''--vllm-config'', ''vllm_config''), (''--environment'', ''environment'')]"

definition as_path :: "(real \<Rightarrow> string) \<Rightarrow> path \<Rightarrow> json \<Rightarrow> json" where
  "as_path fr base v = JStr (path_str (resolve_path base (py_str fr v)))"

definition build_command :: "(real \<Rightarrow> string) \<Rightarrow> path \<Rightarrow> json_dict \<Rightarrow> json_dict \<Rightarrow> string \<Rightarrow> int \<Rightarrow> int \<Rightarrow> int \<Rightarrow> path \<Rightarrow>
    string \<Rightarrow> script_exn + string list" where
  "build_command fr base config target mode concurrency repeat order out_path rid =
     (let generation = dict_get_or config ''generation'' (JObj [])
      in
      bind_res (get_item (JObj target) ''base_url'') (\<lambda>base_url.
      bind_res (get_item (JObj config) ''model'') (\<lambda>model.
      bind_res (get_item (JObj config) ''dataset'') (\<lambda>dataset.
      bind_res (requests_for config concurrency) (\<lambda>requests.
      bind_res (get_item (JObj target) ''label'') (\<lambda>label.
      bind_res (get_method generation ''temperature'' (JInt 0)) (\<lambda>temperature.
      bind_res (get_method generation ''top_p'' (JInt 1)) (\<lambda>top_p.
      bind_res (get_method generation ''max_tokens'' (JInt 128)) (\<lambda>max_tokens.
      bind_res (get_method generation ''seed'' (JInt 1)) (\<lambda>seed.
        let command = [''go'', ''run'', ''./cmd/gateway-bench'', ''--base-url'', py_str fr base_url,
              ''--endpoint'', py_str fr (dict_get_or config ''endpoint'' (JStr ''/v1/chat/completions'')),
              ''--model'', py_str fr model, ''--dataset'', path_str (resolve_path base (py_str fr dataset)),
              ''--mode'', mode, ''--concurrency'', int_str concurrency, ''--requests'', int_str requests,
              ''--warmup'', py_str fr (dict_get_or config ''warmup'' (JInt 20)),
              ''--timeout'', py_str fr (dict_get_or config ''timeout'' (JStr ''120s'')),
              ''--label'', py_str fr label, ''--output'', path_str out_path,
              ''--temperature'', py_str fr temperature, ''--top-p'', py_str fr top_p,
              ''--max-tokens'', py_str fr max_tokens, ''--seed'', py_str fr seed,
              ''--run-id'', rid, ''--repeat'', int_str repeat, ''--execution-order'', int_str order,
              ''--batching-enabled'', py_str fr (dict_get_or target ''batching_enabled'' (JStr ''not_applicable'')),
              ''--prefix-caching'', py_str fr (dict_get_or config ''prefix_caching'' (JStr ''unknown'')),
              ''--vllm-version'', py_str fr (dict_get_or config ''vllm_version'' (JStr ''unknown''))];
            command1 = fold (\<lambda>(flag, key) c. add_optional fr c flag (dict_get_or target key (dict_get config key))) optional_flags command;
            command2 = fold (\<lambda>(flag, key) c.
                let v = dict_get config key
                in add_optional fr c flag (if key \<in> {''vllm_config'', ''environment''} \<and> py_truthy v then as_path fr base v else v))
              config_flags command1;
            gateway_config = dict_get target ''gateway_config''
        in Inr (if py_truthy gateway_config then add_optional fr command2 ''--gateway-config'' (as_path fr base gateway_config)
                else command2)))))))))))"

text \<open>\<open>shlex.join\<close>\<close>

definition shell_safe :: "char \<Rightarrow> bool" where
  "shell_safe c \<longleftrightarrow> word_char c \<or> c \<in> set ''@%+=:,./-''"

definition shell_quote :: "string \<Rightarrow> string" where
  "shell_quote s =
     (if s = [] then [CHR 0x27, CHR 0x27] else if list_all shell_safe s then s
      else [CHR 0x27] @ concat (map (\<lambda>c. if c = CHR 0x27 then [CHR 0x27, CHR 0x22, CHR 0x27, CHR 0x22, CHR 0x27] else [c]) s) @ [CHR 0x27])"

definition safe_command :: "string list \<Rightarrow> string" where
  "safe_command command = join '' '' (map shell_quote command)"

section \<open>Fingerprints\<close>

text \<open>Feeding a digest chunk by chunk is feeding it the whole file; \<open>read_bytes\<close> may raise.\<close>

definition sha256_file :: "(string \<Rightarrow> string) \<Rightarrow> (path \<Rightarrow> script_exn + string) \<Rightarrow> path \<Rightarrow> script_exn + string" where
  "sha256_file sha256 read_bytes p = bind_res (read_bytes p) (\<lambda>contents. Inr (sha256 contents))"

definition referenced_input_hashes :: "(real \<Rightarrow> string) \<Rightarrow> (string \<Rightarrow> string) \<Rightarrow> (path \<Rightarrow> script_exn + string) \<Rightarrow> path \<Rightarrow>
    json_dict \<Rightarrow> json_dict \<Rightarrow> script_exn + (string \<times> string) list" where
  "referenced_input_hashes fr sha256 read_bytes base config target =
     (let references = [(''dataset'', dict_get config ''dataset''), (''environment'', dict_get config ''environment''),
            (''gateway_config'', dict_get target ''gateway_config''), (''vllm_config'', dict_get config ''vllm_config'')]
      in map_res (\<lambda>(name, v). bind_res (sha256_file sha256 read_bytes (resolve_path base (py_str fr v))) (\<lambda>h. Inr (name, h)))
           (filter (\<lambda>(name, v). py_truthy v) references))"

definition coordinate_json :: "run_coordinate \<Rightarrow> json" where
  "coordinate_json r = JObj [(''run_id'', JStr (run_id r)), (''label'', JStr (run_label r)), (''mode'', JStr (run_mode r)),
     (''concurrency'', JInt (run_concurrency r)), (''repeat'', JInt (run_repeat r)),
     (''execution_order'', JInt (execution_order r)), (''requests'', JInt (run_requests r))]"

definition plan_json :: "string list \<Rightarrow> run_coordinate \<Rightarrow> (string \<times> string) list \<Rightarrow> json \<Rightarrow> json" where
  "plan_json command expected input_hashes credential = sort_json (JObj
     [(''schema_version'', JInt 1), (''command'', JList (map JStr command)), (''coordinate'', coordinate_json expected),
      (''input_sha256'', JObj (map (\<lambda>(name, h). (name, JStr h)) input_hashes)), (''credential_env_name'', credential)])"

definition plan_text :: "(real \<Rightarrow> string) \<Rightarrow> string list \<Rightarrow> run_coordinate \<Rightarrow> (string \<times> string) list \<Rightarrow> json \<Rightarrow> string" where
  "plan_text fr command expected input_hashes credential =
     dumps_with (quoted ascii_escape) fr (plan_json command expected input_hashes credential)"

definition resume_plan_sha256 :: "(real \<Rightarrow> string) \<Rightarrow> (string \<Rightarrow> string) \<Rightarrow> string list \<Rightarrow> run_coordinate \<Rightarrow>
    (string \<times> string) list \<Rightarrow> json \<Rightarrow> string" where
  "resume_plan_sha256 fr sha256 command expected input_hashes credential =
     sha256 (plan_text fr command expected input_hashes credential)"

text \<open>The fields a result must have recorded; \<open>parse_float\<close> is \<open>float\<close> on text.\<close>

definition py_float_of :: "(string \<Rightarrow> real option) \<Rightarrow> json \<Rightarrow> script_exn + real" where
  "py_float_of parse_float j = (case j of
      JInt i \<Rightarrow> Inr (of_int i)
    | JBool b \<Rightarrow> Inr (if b then 1 else 0)
    | JFloat x \<Rightarrow> Inr x
    | JStr s \<Rightarrow> (case parse_float s of Some x \<Rightarrow> Inr x | None \<Rightarrow> Inl (SValueError ''could not convert string to float''))
    | _ \<Rightarrow> Inl STypeError)"

definition number_field :: "json_dict \<Rightarrow> json_dict \<Rightarrow> string \<Rightarrow> (json \<Rightarrow> script_exn + json) \<Rightarrow> script_exn + json_dict" where
  "number_field config target k convert =
     (let v = dict_get_or target k (dict_get config k)
      in if v \<noteq> JNull \<and> v \<noteq> JStr [] then bind_res (convert v) (\<lambda>x. Inr [(k, x)]) else Inr [])"

definition planned_result_configuration :: "(real \<Rightarrow> string) \<Rightarrow> (string \<Rightarrow> real option) \<Rightarrow> json_dict \<Rightarrow> json_dict \<Rightarrow> string \<Rightarrow> int \<Rightarrow>
    (string \<times> string) list \<Rightarrow> script_exn + json_dict" where
  "planned_result_configuration fr parse_float config target mode concurrency input_hashes =
     (let generation = dict_get_or config ''generation'' (JObj []); as_int = (\<lambda>v. bind_res (py_int_of v) (\<lambda>i. Inr (JInt i)))
      in
      bind_res (get_item (JObj target) ''base_url'') (\<lambda>base_url.
      bind_res (get_item (JObj config) ''model'') (\<lambda>model.
      bind_res (requests_for config concurrency) (\<lambda>requests.
      bind_res (py_int_of (dict_get_or config ''warmup'' (JInt 20))) (\<lambda>warmup.
      bind_res (case map_of input_hashes ''dataset'' of Some h \<Rightarrow> Inr h | None \<Rightarrow> Inl SKeyError) (\<lambda>dataset_sha256.
      bind_res (get_method generation ''temperature'' (JInt 0)) (\<lambda>temperature.
      bind_res (get_method generation ''top_p'' (JInt 1)) (\<lambda>top_p.
      bind_res (bind_res (get_method generation ''max_tokens'' (JInt 128)) py_int_of) (\<lambda>max_tokens.
      bind_res (bind_res (get_method generation ''seed'' (JInt 1)) py_int_of) (\<lambda>seed.
      bind_res (map_res (\<lambda>(k, convert). number_field config target k convert)
          [(''batch_max_size'', as_int), (''batch_max_wait_seconds'', \<lambda>v. bind_res (py_float_of parse_float v) (\<lambda>x. Inr (JFloat x))),
           (''tenant_max_inflight'', as_int), (''global_max_inflight'', as_int)]) (\<lambda>numbers.
        Inr ([(''base_url'', JStr (py_str fr base_url)),
              (''endpoint'', JStr (py_str fr (dict_get_or config ''endpoint'' (JStr ''/v1/chat/completions'')))),
              (''model'', JStr (py_str fr model)), (''mode'', JStr mode), (''concurrency'', JInt concurrency),
              (''requests'', JInt requests), (''warmup'', JInt warmup), (''dataset_sha256'', JStr dataset_sha256),
              (''temperature'', temperature), (''top_p'', top_p), (''max_tokens'', JInt max_tokens), (''seed'', JInt seed),
              (''n'', JInt 1), (''stream'', JBool (mode = ''streaming'')), (''stream_include_usage'', JBool (mode = ''streaming'')),
              (''batching_enabled'', JStr (py_str fr (dict_get_or target ''batching_enabled'' (JStr ''not_applicable'')))),
              (''prefix_caching'', JStr (py_str fr (dict_get_or config ''prefix_caching'' (JStr ''unknown''))))] @ concat numbers))))))))))))"

section \<open>Running\<close>

text \<open>
  The files under the output root as \<open>json.load\<close> reads them, and what has happened: \<open>print\<close>, \<open>time.sleep\<close> and the benchmark
  processes with their credential.
\<close>

datatype matrix_event = Printed_line string | Settled real | Ran "string list" "string option"

record matrix_state =
  files :: "(path \<times> (script_exn + json)) list"
  events :: "matrix_event list"

text \<open>What a benchmark process does: its exit status, and the files it leaves; \<open>subprocess.run\<close> itself may raise.\<close>

type_synonym bench = "string list \<Rightarrow> (path \<times> (script_exn + json)) list \<Rightarrow> script_exn + (int \<times> (path \<times> (script_exn + json)) list)"

definition process_path :: "path \<Rightarrow> path" where
  "process_path out_path = path_join (path_parent out_path) (py_path ''process.json'')"

definition credential_of :: "(string \<Rightarrow> string option) \<Rightarrow> json_dict \<Rightarrow> script_exn + string option" where
  "credential_of env target = (let name = dict_get target ''auth_token_env''
     in if \<not> py_truthy name then Inr None
        else case name of
          JStr n \<Rightarrow> (case env n of Some v \<Rightarrow> Inr (Some v) | None \<Rightarrow> Inl (SValueError ''required credential environment variable is unset''))
        | _ \<Rightarrow> Inl STypeError)"

definition execute :: "(string \<Rightarrow> string option) \<Rightarrow> bench \<Rightarrow> string \<times> string \<Rightarrow> string list \<Rightarrow> json_dict \<Rightarrow> path \<Rightarrow> bool \<Rightarrow> string \<Rightarrow>
    matrix_state \<Rightarrow> (script_exn + unit) \<times> matrix_state" where
  "execute env bench utc command target out_path dry_run plan_sha256 st =
     (let st1 = st\<lparr>events := events st @ [Printed_line (safe_command command)]\<rparr>
      in if dry_run then (Inr (), st1)
         else case credential_of env target of
           Inl e \<Rightarrow> (Inl e, st1)
         | Inr token \<Rightarrow>
            (case bench command (files st1) of
               Inl e \<Rightarrow> (Inl e, st1)
             | Inr (exit_status, left) \<Rightarrow>
                (let metadata = JObj [(''started_utc'', JStr (fst utc)), (''ended_utc'', JStr (snd utc)), (''exit_code'', JInt exit_status),
                        (''command'', JList (map JStr command)), (''resume_plan_sha256'', JStr plan_sha256),
                        (''credential_source'', JStr (if token \<noteq> None then ''environment'' else ''none''))];
                     st2 = st1\<lparr>files := AList.update (process_path out_path) (Inr metadata) left,
                               events := events st1 @ [Ran command token]\<rparr>
                 in if exit_status \<noteq> 0 then (Inl (SRuntimeError ''benchmark failed''), st2) else (Inr (), st2))))"

text \<open>
  What a resumed matrix may skip. Once the validator has nothing to report, the sections that are read are dictionaries. Files that
  cannot be read or parsed, and values that are not dictionaries, make the run incomplete.
\<close>

definition section_of :: "json_dict \<Rightarrow> string \<Rightarrow> json_dict" where
  "section_of d k = (case dict_get d k of JObj v \<Rightarrow> v | _ \<Rightarrow> [])"

definition process_matches :: "string list \<Rightarrow> string \<Rightarrow> json_dict \<Rightarrow> bool" where
  "process_matches command plan_sha256 metadata \<longleftrightarrow>
     py_same (dict_get metadata ''exit_code'') (JInt 0) \<and>
     py_same (dict_get metadata ''command'') (JList (map JStr command)) \<and>
     py_same (dict_get metadata ''resume_plan_sha256'') (JStr plan_sha256)"

definition result_matches :: "run_coordinate \<Rightarrow> json_dict \<Rightarrow> json_dict \<Rightarrow> bool" where
  "result_matches expected expected_configuration result =
     (let result_metadata = section_of result ''metadata''; configuration = section_of result ''configuration'';
          summary = section_of result ''summary''; n = JInt (run_requests expected)
      in py_same (dict_get result_metadata ''run_id'') (JStr (run_id expected)) \<and>
         py_same (dict_get result_metadata ''label'') (JStr (run_label expected)) \<and>
         py_same (dict_get result_metadata ''repeat'') (JInt (run_repeat expected)) \<and>
         py_same (dict_get result_metadata ''execution_order'') (JInt (execution_order expected)) \<and>
         py_same (dict_get configuration ''mode'') (JStr (run_mode expected)) \<and>
         py_same (dict_get configuration ''concurrency'') (JInt (run_concurrency expected)) \<and>
         py_same (dict_get configuration ''requests'') n \<and>
         list_all (\<lambda>(k, v). py_same (dict_get configuration k) v) expected_configuration \<and>
         py_same (dict_get summary ''attempted'') n \<and> py_same (dict_get summary ''successful'') n \<and>
         py_same (dict_get summary ''failed'') (JInt 0) \<and>
         (case dict_get_or result ''per_request'' (JList []) of JList rs \<Rightarrow> int (length rs) = run_requests expected | _ \<Rightarrow> False) \<and>
         dict_get (section_of result ''validity'') ''valid'' = JBool True)"

definition completed_run :: "(real \<Rightarrow> string) \<Rightarrow> path \<Rightarrow> string list \<Rightarrow> run_coordinate \<Rightarrow> json_dict \<Rightarrow> string \<Rightarrow>
    (path \<times> (script_exn + json)) list \<Rightarrow> script_exn + bool" where
  "completed_run fr out_path command expected expected_configuration plan_sha256 fs =
     (case (map_of fs out_path, map_of fs (process_path out_path)) of
        (Some (Inr (JObj result)), Some (Inr (JObj metadata))) \<Rightarrow>
          bind_res (result_validate fr (JObj result)) (\<lambda>errors.
            Inr (errors = [] \<and> process_matches command plan_sha256 metadata \<and>
              result_matches expected expected_configuration result))
      | _ \<Rightarrow> Inr False)"

section \<open>The matrix\<close>

text \<open>A planned run with everything that is computed for it before the decision to skip it.\<close>

record planned =
  p_target :: json_dict
  p_output :: path
  p_command :: "string list"
  p_expected :: run_coordinate
  p_configuration :: json_dict
  p_plan :: string

text \<open>The parameters of a matrix: \<open>float.__repr__\<close>, \<open>float\<close>, the digest, the files, the environment, the benchmark root.\<close>

record matrix_host =
  h_repr :: "real \<Rightarrow> string"
  h_float :: "string \<Rightarrow> real option"
  h_sha256 :: "string \<Rightarrow> string"
  h_read :: "path \<Rightarrow> script_exn + string"
  h_env :: "string \<Rightarrow> string option"
  h_base :: path

definition run_output :: "path \<Rightarrow> string \<Rightarrow> string \<Rightarrow> string \<Rightarrow> int \<Rightarrow> string \<Rightarrow> path" where
  "run_output output_root matrix_id mode c r label =
     path_join (path_join (path_join (path_join (path_join (path_join output_root (py_path matrix_id)) (py_path mode))
       (py_path (''c'' @ c))) (py_path (''repeat-'' @ int_str r))) (py_path label)) (py_path ''client-result.json'')"

definition plan_run :: "matrix_host \<Rightarrow> json_dict \<Rightarrow> path \<Rightarrow> string \<Rightarrow> string \<Rightarrow> json \<Rightarrow> int \<Rightarrow> int \<Rightarrow> json \<Rightarrow> script_exn + planned" where
  "plan_run h config output_root matrix_id mode concurrency repeat order target =
     bind_res (get_item target ''label'') (\<lambda>label_value.
     bind_res (py_int_of concurrency) (\<lambda>c.
     bind_res (requests_for config c) (\<lambda>request_count. (case (label_value, target) of
       (JStr label, JObj t) \<Rightarrow>
        (let shown = py_str (h_repr h) concurrency;
             rid = matrix_id @ ''-'' @ mode @ ''-c'' @ shown @ ''-r'' @ int_str repeat @ ''-'' @ label;
             out_path = run_output output_root matrix_id mode shown repeat label;
             expected = \<lparr>run_id = rid, run_label = label, run_mode = mode, run_concurrency = c, run_repeat = repeat,
                         execution_order = order, run_requests = request_count\<rparr>
         in
         bind_res (build_command (h_repr h) (h_base h) config t mode c repeat order out_path rid) (\<lambda>command.
         bind_res (referenced_input_hashes (h_repr h) (h_sha256 h) (h_read h) (h_base h) config t) (\<lambda>input_hashes.
         bind_res (planned_result_configuration (h_repr h) (h_float h) config t mode c input_hashes) (\<lambda>expected_configuration.
         Inr \<lparr>p_target = t, p_output = out_path, p_command = command, p_expected = expected,
              p_configuration = expected_configuration,
              p_plan = resume_plan_sha256 (h_repr h) (h_sha256 h) command expected input_hashes (dict_get t ''auth_token_env'')\<rparr>))))
     | _ \<Rightarrow> Inl STypeError))))"

text \<open>
  The runs in the order of the loops. The runs after one whose planning raises do not matter: the matrix stops there.
\<close>

definition plan_repeats :: "matrix_host \<Rightarrow> json_dict \<Rightarrow> path \<Rightarrow> string \<Rightarrow> json list \<Rightarrow> string \<Rightarrow> json \<Rightarrow> (script_exn + planned) list" where
  "plan_repeats h config output_root matrix_id targets mode concurrency =
     (case bind_res (get_item (JObj config) ''repetitions'') py_int_of of
        Inl e \<Rightarrow> [Inl e]
      | Inr repetitions \<Rightarrow>
         concat (map (\<lambda>repeat. map (\<lambda>(order, target). plan_run h config output_root matrix_id mode concurrency repeat (int order) target)
             (List.enumerate 1 (rotated targets repeat))) [1..repetitions]))"

definition plan_mode :: "matrix_host \<Rightarrow> json_dict \<Rightarrow> path \<Rightarrow> string \<Rightarrow> json list \<Rightarrow> json \<Rightarrow> (script_exn + planned) list" where
  "plan_mode h config output_root matrix_id targets mode =
     (case bind_res (in_strings mode [''streaming'', ''non_streaming'']) (\<lambda>known.
          if known then bind_res (get_item (JObj config) ''concurrency'') iterate else Inl (SValueError ''invalid mode'')) of
        Inl e \<Rightarrow> [Inl e]
      | Inr levels \<Rightarrow> concat (map (plan_repeats h config output_root matrix_id targets (case mode of JStr m \<Rightarrow> m | _ \<Rightarrow> [])) levels))"

fun run_items :: "matrix_host \<Rightarrow> bench \<Rightarrow> string \<times> string \<Rightarrow> real \<Rightarrow> bool \<Rightarrow> bool \<Rightarrow> bool \<Rightarrow> (script_exn + planned) list \<Rightarrow> matrix_state \<Rightarrow>
    (script_exn + unit) \<times> matrix_state" where
  "run_items h bench utc settling dry_run resume is_first [] st = (Inr (), st)"
| "run_items h bench utc settling dry_run resume is_first (Inl e # items) st = (Inl e, st)"
| "run_items h bench utc settling dry_run resume is_first (Inr p # items) st =
     (case (if resume then completed_run (h_repr h) (p_output p) (p_command p) (p_expected p) (p_configuration p) (p_plan p) (files st)
            else Inr False) of
        Inl e \<Rightarrow> (Inl e, st)
      | Inr True \<Rightarrow> run_items h bench utc settling dry_run resume is_first items
          (st\<lparr>events := events st @ [Printed_line (''skipping completed run: '' @ path_str (p_output p))]\<rparr>)
      | Inr False \<Rightarrow>
         (let st1 = (if \<not> is_first \<and> settling > 0 \<and> \<not> dry_run then st\<lparr>events := events st @ [Settled settling]\<rparr> else st)
          in and_then (execute (h_env h) bench utc (p_command p) (p_target p) (p_output p) dry_run (p_plan p) st1)
               (\<lambda>_ st2. run_items h bench utc settling dry_run resume False items st2)))"

definition select_targets :: "string list \<Rightarrow> json list \<Rightarrow> script_exn + json list" where
  "select_targets selected targets =
     bind_res (map_res (\<lambda>t. if selected = [] then Inr (t, True)
         else bind_res (get_item t ''label'') (\<lambda>label. bind_res (in_strings label selected) (\<lambda>b. Inr (t, b)))) targets)
       (\<lambda>ts. Inr (map fst (filter snd ts)))"

definition plan_matrix :: "matrix_host \<Rightarrow> string \<Rightarrow> json_dict \<Rightarrow> path \<Rightarrow> string list \<Rightarrow> bool \<Rightarrow> string option \<Rightarrow>
    script_exn + (real \<times> (script_exn + planned) list)" where
  "plan_matrix h timestamp config output_root selected resume cli_id =
     bind_res (resolve_matrix_id timestamp (dict_get config ''run_id'') cli_id resume) (\<lambda>matrix_id.
     bind_res (bind_res (get_item (JObj config) ''targets'') iterate) (\<lambda>all_targets.
     bind_res (select_targets selected all_targets) (\<lambda>targets.
     if targets = [] then Inl (SValueError ''no selected targets'')
     else
      bind_res (py_float_of (h_float h) (dict_get_or config ''settle_seconds'' (JInt 5))) (\<lambda>settling.
      bind_res (iterate (dict_get_or config ''modes'' (JList [JStr ''non_streaming'']))) (\<lambda>modes.
      Inr (settling, concat (map (plan_mode h config output_root matrix_id targets) modes)))))))"

definition run_matrix :: "matrix_host \<Rightarrow> bench \<Rightarrow> string \<times> string \<Rightarrow> string \<Rightarrow> json_dict \<Rightarrow> path \<Rightarrow> string list \<Rightarrow> bool \<Rightarrow> bool \<Rightarrow>
    string option \<Rightarrow> matrix_state \<Rightarrow> (script_exn + unit) \<times> matrix_state" where
  "run_matrix h bench utc timestamp config output_root selected dry_run resume cli_id st =
     (case plan_matrix h timestamp config output_root selected resume cli_id of
        Inl e \<Rightarrow> (Inl e, st)
      | Inr (settling, items) \<Rightarrow> run_items h bench utc settling dry_run resume True items st)"

text \<open>\<open>main\<close>: the exit status, or the exception that ends the script with a traceback.\<close>

definition matrix_main :: "matrix_host \<Rightarrow> bench \<Rightarrow> string \<times> string \<Rightarrow> string \<Rightarrow> script_exn + json \<Rightarrow> path \<Rightarrow> string list \<Rightarrow> bool \<Rightarrow> bool \<Rightarrow>
    string option \<Rightarrow> matrix_state \<Rightarrow> (script_exn + int) \<times> matrix_state" where
  "matrix_main h bench utc timestamp contents output_root selected dry_run resume cli_id st =
     (let (r, st1) = (case load_config (h_repr h) (h_env h) contents of
            Inl e \<Rightarrow> (Inl e, st)
          | Inr config \<Rightarrow> run_matrix h bench utc timestamp config output_root selected dry_run resume cli_id st)
      in (case r of
            Inr _ \<Rightarrow> Inr 0
          | Inl e \<Rightarrow> (case e of
                SOSError m \<Rightarrow> Inr 1 | SValueError m \<Rightarrow> Inr 1 | SJSONDecodeError \<Rightarrow> Inr 1 | SRuntimeError m \<Rightarrow> Inr 1 | _ \<Rightarrow> Inl e), st1))"

end
