(* ===== verification/Gw_Matrix_Claims.thy ===== *)
theory Gw_Matrix_Claims
  imports Gw_Matrix "HOL-Library.Multiset"
begin

text \<open>
  What the benchmark matrix guarantees: a balanced order of the arms, runs that never share an artifact, and a resumption that skips
  a run only for its own result and executes every other one.
\<close>

section \<open>Rotation\<close>

lemma length_rotated [simp]: "length (rotated ts r) = length ts"
  by (simp add: rotated_def Let_def)

lemma rotated_nth:
  assumes "i < length ts"
  shows "rotated ts (int k + 1) ! i = ts ! ((k + i) mod length ts)"
proof -
  have off: "nat ((int k + 1 - 1) mod int (length ts)) = k mod length ts" by (simp add: zmod_int [symmetric])
  have "rotated ts (int k + 1) = rotate k ts"
    using assms unfolding rotated_def Let_def off by (cases "ts = []") (simp_all add: rotate_drop_take)
  then show ?thesis using assms by (simp add: nth_rotate add.commute)
qed

lemma rotated_mset: "mset (rotated ts r) = mset ts"
  unfolding rotated_def Let_def by (metis add.commute append_take_drop_id mset_append)

lemma upto_from_nat: "[1..int n] = map (\<lambda>k. int k + 1) [0..<n]"
proof (induction n)
  case (Suc n)
  have "[1..int (Suc n)] = [1..int n] @ [int n + 1]"
    using upto_rec2 [of 1 "int n + 1"] by (simp add: add.commute)
  then show ?case using Suc by simp
qed simp

lemma mset_rotate: "mset (rotate i ts) = mset ts"
  unfolding rotate_drop_take by (metis add.commute append_take_drop_id mset_append)

lemma position_mset:
  assumes i: "i < length ts"
  shows "mset (map (\<lambda>k. ts ! ((k + i) mod length ts)) [0..<m * length ts]) = repeat_mset m (mset ts)"
proof (induction m)
  case (Suc m)
  let ?n = "length ts" and ?f = "\<lambda>k. ts ! ((k + i) mod length ts)"
  have "[0..<Suc m * ?n] = [0..<m * ?n] @ [m * ?n..<m * ?n + ?n]"
    using upt_add_eq_append [of 0 "m * ?n" ?n] by (simp only: mult_Suc add.commute)
  moreover have "[m * ?n..<m * ?n + ?n] = map (\<lambda>k. k + m * ?n) [0..<?n]"
    unfolding map_add_upt by (simp only: add.commute)
  ultimately have "map ?f [0..<Suc m * ?n] = map ?f [0..<m * ?n] @ map (\<lambda>k. ?f (k + m * ?n)) [0..<?n]"
    by (simp only: map_append map_map o_def)
  moreover have "map (\<lambda>k. ?f (k + m * ?n)) [0..<?n] = rotate i ts"
  proof (rule nth_equalityI)
    fix j assume "j < length (map (\<lambda>k. ?f (k + m * ?n)) [0..<?n])"
    then have j: "j < ?n" by simp
    have "(j + m * ?n + i) mod ?n = (i + j) mod ?n"
      using mod_mult_self1 [of "i + j" m ?n] by (simp only: ac_simps)
    then show "map (\<lambda>k. ?f (k + m * ?n)) [0..<?n] ! j = rotate i ts ! j"
      unfolding nth_rotate [OF j] using nth_map_upt [of j ?n 0 "\<lambda>k. ?f (k + m * ?n)"] j by simp
  qed simp
  ultimately have "mset (map ?f [0..<Suc m * ?n]) = repeat_mset m (mset ts) + mset (rotate i ts)"
    using Suc by (simp only: mset_append)
  then show ?case by (simp add: mset_rotate)
qed simp

text \<open>
  The order of the arms is balanced. Every repetition runs every arm once, and over any multiple of the number of arms, each position
  of the order is taken by every arm equally often.
\<close>

theorem rotation_balanced:
  assumes "i < length ts"
  shows "mset (rotated ts r) = mset ts \<and>
    mset (map (\<lambda>r. rotated ts r ! i) [1..int (m * length ts)]) = repeat_mset m (mset ts)"
proof -
  have "map (\<lambda>r. rotated ts r ! i) [1..int (m * length ts)] = map (\<lambda>k. ts ! ((k + i) mod length ts)) [0..<m * length ts]"
    unfolding upto_from_nat map_map o_def rotated_nth [OF assms] ..
  then show ?thesis using position_mset [OF assms, of m] rotated_mset by metis
qed

theorem rotation_balanced_witness:
  "map (\<lambda>r. rotated [''direct'', ''off'', ''on''] r ! 0) [1..3] = [''direct'', ''off'', ''on''] \<and>
   mset (map (\<lambda>r. rotated [''direct'', ''off'', ''on''] r ! 1) [1..6]) = repeat_mset 2 {#''direct'', ''off'', ''on''#}"
proof -
  have "map (\<lambda>r. rotated [''direct'', ''off'', ''on''] r ! 0) [1..3] = [''direct'', ''off'', ''on'']" by code_simp
  moreover have "mset (map (\<lambda>r. rotated [''direct'', ''off'', ''on''] r ! 1) [1..6]) = repeat_mset 2 {#''direct'', ''off'', ''on''#}"
    using rotation_balanced [of 1 "[''direct'', ''off'', ''on'']" _ 2] by simp
  ultimately show ?thesis by blast
qed

section \<open>Artifacts\<close>

text \<open>A name that is one component of a path.\<close>

definition plain_name :: "string \<Rightarrow> bool" where
  "plain_name s \<longleftrightarrow> CHR ''/'' \<notin> set s \<and> s \<noteq> [] \<and> s \<noteq> ''.''"

lemma py_path_plain: "plain_name s \<Longrightarrow> py_path s = ([], [s])"
proof -
  assume p: "plain_name s"
  then obtain c cs where "s = c # cs" "c \<noteq> CHR ''/''" by (cases s) (auto simp: plain_name_def)
  then show ?thesis using p by (auto simp: py_path_def plain_name_def py_split_no_sep)
qed

lemma plain_int: "plain_name (w @ int_str i)" if "plain_name w" "CHR ''r'' \<in> set w \<or> CHR ''c'' \<in> set w"
proof -
  have "CHR ''/'' \<notin> set (int_str i)" using int_str_chars [of i] by (auto simp: is_digit_def)
  then show ?thesis using that by (auto simp: plain_name_def append_eq_Cons_conv)
qed

lemma run_output_plain:
  assumes "plain_name mid" "plain_name mode" "plain_name label"
  shows "run_output base mid mode (int_str c) r label =
    (fst base, snd base @ [mid, mode, ''c'' @ int_str c, ''repeat-'' @ int_str r, label, ''client-result.json''])"
proof -
  have "plain_name (''c'' @ int_str c)" "plain_name (''repeat-'' @ int_str r)" "plain_name ''client-result.json''"
    by (rule plain_int; simp add: plain_name_def)+ (simp add: plain_name_def)
  then show ?thesis using assms by (simp only: run_output_def py_path_plain path_join_def) simp
qed

definition run_key :: "run_coordinate \<Rightarrow> string \<times> int \<times> int \<times> string" where
  "run_key e = (run_mode e, run_concurrency e, run_repeat e, run_label e)"

lemma digits_split:
  "\<forall>c\<in>set a. is_digit c \<Longrightarrow> \<forall>c\<in>set b. is_digit c \<Longrightarrow> a @ CHR ''-'' # u = b @ CHR ''-'' # v \<Longrightarrow> a = b \<and> u = v"
proof (induction a arbitrary: b)
  case Nil
  then show ?case using not_is_digit_minus by (cases b) auto
next
  case (Cons x a)
  then show ?case using not_is_digit_minus by (cases b) auto
qed

lemma int_str_split:
  assumes "int_str i @ CHR ''-'' # u = int_str j @ CHR ''-'' # v"
  shows "i = j \<and> u = v"
proof -
  have sh: "\<exists>x xs. int_str k = x # xs \<and> (\<forall>c\<in>set xs. is_digit c)" for k
  proof (cases "k < 0")
    case False
    obtain x xs where "nat_str (nat k) = x # xs" using nat_str_not_Nil [of "nat k"] by (cases "nat_str (nat k)") auto
    then show ?thesis using False nat_str_digits [of "nat k"] by (simp add: int_str_def)
  qed (use nat_str_digits in \<open>simp add: int_str_def\<close>)
  obtain x xs where x: "int_str i = x # xs" "\<forall>c\<in>set xs. is_digit c" using sh [of i] by blast
  obtain y ys where y: "int_str j = y # ys" "\<forall>c\<in>set ys. is_digit c" using sh [of j] by blast
  have "xs = ys \<and> u = v" using assms x y by (intro digits_split) simp_all
  then show ?thesis using assms x(1) y(1) int_str_inject by auto
qed

definition run_id_text :: "string \<Rightarrow> string \<Rightarrow> int \<Rightarrow> int \<Rightarrow> string \<Rightarrow> string" where
  "run_id_text mid mode c r label = mid @ ''-'' @ mode @ ''-c'' @ int_str c @ ''-r'' @ int_str r @ ''-'' @ label"

lemma run_id_text_inject:
  assumes "run_id_text mid m c r l = run_id_text mid m' c' r' l'" "m \<in> {''streaming'', ''non_streaming''}" "m' \<in> {''streaming'', ''non_streaming''}"
  shows "m = m' \<and> c = c' \<and> r = r' \<and> l = l'"
proof -
  have m: "m = m'" using assms by (auto simp: run_id_text_def)
  then have "int_str c @ CHR ''-'' # CHR ''r'' # int_str r @ CHR ''-'' # l = int_str c' @ CHR ''-'' # CHR ''r'' # int_str r' @ CHR ''-'' # l'"
    using assms(1) by (simp add: run_id_text_def)
  from int_str_split [OF this] show ?thesis using m int_str_split [of r l r' l'] by auto
qed

section \<open>Planned runs are distinct\<close>

definition planned_runs :: "(script_exn + planned) list \<Rightarrow> planned list" where
  "planned_runs items = concat (map (case_sum (\<lambda>_. []) (\<lambda>p. [p])) items)"

lemma planned_runs_simps [simp]:
  "planned_runs [] = []" "planned_runs (Inl e # items) = planned_runs items" "planned_runs (Inr p # items) = p # planned_runs items"
  "planned_runs (xs @ ys) = planned_runs xs @ planned_runs ys"
  by (simp_all add: planned_runs_def)

lemma planned_runs_concat: "planned_runs (concat (map f xs)) = concat (map (\<lambda>x. planned_runs (f x)) xs)"
  by (induction xs) simp_all

lemma distinct_concat_keys:
  assumes "distinct xs" and "\<And>x. x \<in> set xs \<Longrightarrow> distinct (map g (f x))"
    and "\<And>x y. x \<in> set xs \<Longrightarrow> y \<in> set (f x) \<Longrightarrow> h (g y) = x"
  shows "distinct (map g (concat (map f xs)))"
  using assms
proof (induction xs)
  case (Cons x xs)
  have "h k = x" if "k \<in> g ` set (f x)" for k using that Cons.prems(3) [of x] by auto
  moreover have "h k \<in> set xs" if "k \<in> g ` (\<Union>z\<in>set xs. set (f z))" for k using that Cons.prems(3) by fastforce
  ultimately have "g ` set (f x) \<inter> g ` (\<Union>z\<in>set xs. set (f z)) = {}" using Cons.prems(1) by fastforce
  then show ?case using Cons by simp
qed simp

text \<open>A loaded configuration whose levels, modes and labels name each run once.\<close>

definition target_label :: "json \<Rightarrow> string" where
  "target_label t = (case get_item t ''label'' of Inr (JStr l) \<Rightarrow> l | _ \<Rightarrow> [])"

definition clean_config :: "json_dict \<Rightarrow> bool" where
  "clean_config d \<longleftrightarrow> (\<exists>ts cs. dict_get d ''targets'' = JList ts \<and> distinct (map target_label ts) \<and>
     list_all (\<lambda>t. plain_name (target_label t)) ts \<and>
     map_of d ''concurrency'' = Some (JList (map JInt cs)) \<and> distinct cs \<and>
     (\<exists>ms. dict_get_or d ''modes'' (JList [JStr ''non_streaming'']) = JList (map JStr ms) \<and> distinct ms))"

lemma plan_run_fields:
  assumes "plan_run h d base mid mode (JInt c) r k t = Inr p"
  shows "run_key (p_expected p) = (mode, c, r, target_label t) \<and>
    run_id (p_expected p) = run_id_text mid mode c r (target_label t) \<and>
    p_output p = run_output base mid mode (int_str c) r (target_label t)"
proof -
  obtain lv n where lv: "get_item t ''label'' = Inr lv" and n: "requests_for d c = Inr n"
    using assms unfolding plan_run_def py_int_of_def json.case bind_res_Inr_iff by blast
  obtain label tt where e: "lv = JStr label" "t = JObj tt"
    using assms unfolding plan_run_def py_int_of_def json.case lv bind_res_simps n by (cases lv; cases t) auto
  show ?thesis
    using assms lv n unfolding e
    by (auto simp: plan_run_def py_int_of_def bind_res_Inr_iff Let_def run_key_def target_label_def run_id_text_def)
qed

lemma planned_runs_map: "p \<in> set (planned_runs (map f xs)) \<longleftrightarrow> (\<exists>x\<in>set xs. f x = Inr p)"
  by (induction xs) (auto simp: planned_runs_def split: sum.splits)

lemma repeats_distinct:
  assumes "distinct (map target_label ts)"
  shows "distinct (map (run_key \<circ> p_expected) (planned_runs (map (\<lambda>(k, t). plan_run h d base mid mode (JInt c) r (int k) t) (List.enumerate n ts))))"
  using assms
proof (induction ts arbitrary: n)
  case (Cons t ts)
  let ?rest = "planned_runs (map (\<lambda>(k, t). plan_run h d base mid mode (JInt c) r (int k) t) (List.enumerate (Suc n) ts))"
  have rest: "\<exists>u\<in>set ts. run_key (p_expected p) = (mode, c, r, target_label u)" if p: "p \<in> set ?rest" for p
  proof -
    obtain k u where "(k, u) \<in> set (List.enumerate (Suc n) ts)" "plan_run h d base mid mode (JInt c) r (int k) u = Inr p"
      using p unfolding planned_runs_map by auto
    then show ?thesis using plan_run_fields [of h d base mid mode c r "int k" u p] by (auto simp: in_set_enumerate_eq)
  qed
  show ?case
  proof (cases "plan_run h d base mid mode (JInt c) r (int n) t")
    case (Inr p)
    have "run_key (p_expected p) \<notin> (run_key \<circ> p_expected) ` set ?rest"
    proof
      assume "run_key (p_expected p) \<in> (run_key \<circ> p_expected) ` set ?rest"
      then obtain q where q: "q \<in> set ?rest" "run_key (p_expected p) = run_key (p_expected q)" by auto
      then obtain u where "u \<in> set ts" "target_label t = target_label u" using rest [OF q(1)] plan_run_fields [OF Inr] by auto
      then show False using Cons.prems by auto
    qed
    then show ?thesis using Cons.IH [of "Suc n"] Cons.prems Inr by simp
  qed (use Cons in simp)
qed simp

lemma rotated_labels: "distinct (map target_label ts) \<Longrightarrow> distinct (map target_label (rotated ts r))"
  by (metis mset_eq_imp_distinct_iff mset_map rotated_mset)

lemma set_rotated: "set (rotated ts r) = set ts"
  by (metis rotated_mset set_mset_mset)

lemma enumerate_runs:
  assumes "p \<in> set (planned_runs (map (\<lambda>(k, t). plan_run h d base mid mode (JInt c) r (int k) t) (List.enumerate n ts)))"
  shows "\<exists>t\<in>set ts. run_key (p_expected p) = (mode, c, r, target_label t) \<and>
    run_id (p_expected p) = run_id_text mid mode c r (target_label t) \<and>
    p_output p = run_output base mid mode (int_str c) r (target_label t)"
proof -
  obtain k t where k: "(k, t) \<in> set (List.enumerate n ts)" "plan_run h d base mid mode (JInt c) r (int k) t = Inr p"
    using assms unfolding planned_runs_map by auto
  then have "t \<in> set ts" by (auto simp: in_set_enumerate_eq)
  then show ?thesis using plan_run_fields [OF k(2)] by blast
qed

lemma plan_repeats_runs:
  assumes "p \<in> set (planned_runs (plan_repeats h d base mid ts mode (JInt c)))"
  shows "\<exists>r t. t \<in> set ts \<and> run_key (p_expected p) = (mode, c, r, target_label t) \<and>
    run_id (p_expected p) = run_id_text mid mode c r (target_label t) \<and>
    p_output p = run_output base mid mode (int_str c) r (target_label t)"
proof (cases "bind_res (get_item (JObj d) ''repetitions'') py_int_of")
  case (Inr n)
  then obtain r where "p \<in> set (planned_runs (map (\<lambda>(k, t). plan_run h d base mid mode (JInt c) r (int k) t) (List.enumerate 1 (rotated ts r))))"
    using assms by (auto simp: plan_repeats_def planned_runs_concat)
  from enumerate_runs [OF this] show ?thesis by (auto simp: set_rotated)
qed (use assms in \<open>simp add: plan_repeats_def\<close>)

lemma plan_repeats_distinct:
  assumes "distinct (map target_label ts)"
  shows "distinct (map (run_key \<circ> p_expected) (planned_runs (plan_repeats h d base mid ts mode (JInt c))))"
proof (cases "bind_res (get_item (JObj d) ''repetitions'') py_int_of")
  case (Inr n)
  show ?thesis
    unfolding plan_repeats_def Inr sum.case planned_runs_concat
  proof (rule distinct_concat_keys [where h = "\<lambda>(m, c, r, l). r"])
    show "distinct [1..n]" by simp
    show "distinct (map (run_key \<circ> p_expected) (planned_runs
        (map (\<lambda>(order, target). plan_run h d base mid mode (JInt c) r (int order) target) (List.enumerate 1 (rotated ts r)))))" for r
      by (rule repeats_distinct [OF rotated_labels [OF assms]])
    show "(case (run_key \<circ> p_expected) p of (m, c, r, l) \<Rightarrow> r) = r"
      if "p \<in> set (planned_runs (map (\<lambda>(order, target). plan_run h d base mid mode (JInt c) r (int order) target)
        (List.enumerate 1 (rotated ts r))))" for r p
      using enumerate_runs [OF that] by auto
  qed
qed (simp add: plan_repeats_def)

lemma plan_mode_levels:
  assumes "map_of d ''concurrency'' = Some (JList (map JInt cs))" and "planned_runs (plan_mode h d base mid ts (JStr m)) \<noteq> []"
  shows "m \<in> {''streaming'', ''non_streaming''} \<and>
    planned_runs (plan_mode h d base mid ts (JStr m)) = concat (map (\<lambda>c. planned_runs (plan_repeats h d base mid ts m (JInt c))) cs)"
  using assms
  by (auto simp: plan_mode_def in_strings_def get_item_def iterate_def planned_runs_concat o_def split: if_splits)

lemma plan_mode_runs:
  assumes "map_of d ''concurrency'' = Some (JList (map JInt cs))" and "p \<in> set (planned_runs (plan_mode h d base mid ts (JStr m)))"
  shows "m \<in> {''streaming'', ''non_streaming''} \<and> (\<exists>c r t. t \<in> set ts \<and> run_key (p_expected p) = (m, c, r, target_label t) \<and>
    run_id (p_expected p) = run_id_text mid m c r (target_label t) \<and>
    p_output p = run_output base mid m (int_str c) r (target_label t))"
proof -
  have ne: "planned_runs (plan_mode h d base mid ts (JStr m)) \<noteq> []" using assms(2) by auto
  note l = plan_mode_levels [OF assms(1) ne]
  then obtain c where "p \<in> set (planned_runs (plan_repeats h d base mid ts m (JInt c)))" using assms(2) by auto
  from plan_repeats_runs [OF this] show ?thesis using l by blast
qed

lemma plan_mode_distinct:
  assumes "map_of d ''concurrency'' = Some (JList (map JInt cs))" "distinct cs" "distinct (map target_label ts)"
  shows "distinct (map (run_key \<circ> p_expected) (planned_runs (plan_mode h d base mid ts (JStr m))))"
proof (cases "planned_runs (plan_mode h d base mid ts (JStr m)) = []")
  case False
  show ?thesis
    unfolding conjunct2 [OF plan_mode_levels [OF assms(1) False]]
  proof (rule distinct_concat_keys [OF assms(2), where h = "\<lambda>(m, c, r, l). c"])
    show "distinct (map (run_key \<circ> p_expected) (planned_runs (plan_repeats h d base mid ts m (JInt c))))" for c
      by (rule plan_repeats_distinct [OF assms(3)])
    show "(case (run_key \<circ> p_expected) p of (m, c, r, l) \<Rightarrow> c) = c"
      if "p \<in> set (planned_runs (plan_repeats h d base mid ts m (JInt c)))" for c p
      using plan_repeats_runs [OF that] by auto
  qed
qed simp

lemma resolved_plain: "resolve_matrix_id timestamp cid cli resume = Inr mid \<Longrightarrow> plain_name mid"
  by (auto simp: resolve_matrix_id_def plain_name_def list_all_iff matrix_id_char_def word_char_def is_digit_def code_point_def Let_def
    split: if_splits json.splits option.splits)

lemma select_targets_sub:
  assumes "select_targets selected ts = Inr us"
  shows "set us \<subseteq> set ts \<and> (distinct (map f ts) \<longrightarrow> distinct (map f us))"
proof -
  obtain ys where y: "list_all2 (\<lambda>t y. (if selected = [] then Inr (t, True)
         else bind_res (get_item t ''label'') (\<lambda>label. bind_res (in_strings label selected) (\<lambda>b. Inr (t, b)))) = Inr y) ts ys"
    "us = map fst (filter snd ys)"
    using assms by (auto simp: select_targets_def bind_res_Inr_iff map_res_Inr_iff)
  have "map fst ys = ts" using y(1)
    by (induction rule: list_all2_induct) (auto simp: bind_res_Inr_iff split: if_splits)
  moreover have "set (map fst (filter snd ys)) \<subseteq> set (map fst ys)" by auto
  moreover have "distinct (map f (map fst (filter snd ys)))" if "distinct (map f (map fst ys))"
    using that by (simp add: distinct_map_filter)
  ultimately show ?thesis using y(2) by metis
qed

lemma plan_matrix_runs:
  assumes cfg: "clean_config d" and plan: "plan_matrix h timestamp d base selected resume cli = Inr (settling, items)"
  shows "distinct (map (run_key \<circ> p_expected) (planned_runs items)) \<and>
    (\<exists>mid. plain_name mid \<and> (\<forall>p\<in>set (planned_runs items). \<exists>m c r l. m \<in> {''streaming'', ''non_streaming''} \<and> plain_name l \<and>
      run_key (p_expected p) = (m, c, r, l) \<and> run_id (p_expected p) = run_id_text mid m c r l \<and>
      p_output p = run_output base mid m (int_str c) r l))"
proof -
  obtain ts cs ms where c: "dict_get d ''targets'' = JList ts" "distinct (map target_label ts)"
    "list_all (\<lambda>t. plain_name (target_label t)) ts" "map_of d ''concurrency'' = Some (JList (map JInt cs))" "distinct cs"
    "dict_get_or d ''modes'' (JList [JStr ''non_streaming'']) = JList (map JStr ms)" "distinct ms"
    using cfg by (auto simp: clean_config_def)
  obtain mid us where p: "resolve_matrix_id timestamp (dict_get d ''run_id'') cli resume = Inr mid" "select_targets selected ts = Inr us"
    "items = concat (map (plan_mode h d base mid us) (map JStr ms))"
    using plan c(1,6) unfolding plan_matrix_def
    by (auto simp: bind_res_Inr_iff get_item_def iterate_def dict_get_def split: option.splits if_splits)
  have us: "set us \<subseteq> set ts" "distinct (map target_label us)" using select_targets_sub [OF p(2)] c(2) by blast+
  have mid: "plain_name mid" by (rule resolved_plain [OF p(1)])
  have items: "planned_runs items = concat (map (\<lambda>m. planned_runs (plan_mode h d base mid us (JStr m))) ms)"
    unfolding p(3) planned_runs_concat map_map o_def ..
  have "distinct (map (run_key \<circ> p_expected) (planned_runs items))"
    unfolding items
  proof (rule distinct_concat_keys [OF c(7), where h = fst])
    show "distinct (map (run_key \<circ> p_expected) (planned_runs (plan_mode h d base mid us (JStr m))))" for m
      by (rule plan_mode_distinct [OF c(4,5) us(2)])
    show "fst ((run_key \<circ> p_expected) q) = m" if "q \<in> set (planned_runs (plan_mode h d base mid us (JStr m)))" for m q
      using plan_mode_runs [OF c(4) that] by auto
  qed
  moreover have "\<exists>m c r l. m \<in> {''streaming'', ''non_streaming''} \<and> plain_name l \<and> run_key (p_expected q) = (m, c, r, l) \<and>
      run_id (p_expected q) = run_id_text mid m c r l \<and> p_output q = run_output base mid m (int_str c) r l"
    if q: "q \<in> set (planned_runs items)" for q
  proof -
    obtain m where "q \<in> set (planned_runs (plan_mode h d base mid us (JStr m)))" using q unfolding items by auto
    from plan_mode_runs [OF c(4) this] obtain k r t where t: "t \<in> set us" "m \<in> {''streaming'', ''non_streaming''}"
      "run_key (p_expected q) = (m, k, r, target_label t)" "run_id (p_expected q) = run_id_text mid m k r (target_label t)"
      "p_output q = run_output base mid m (int_str k) r (target_label t)" by blast
    moreover have "plain_name (target_label t)" using c(3) us(1) t(1) by (auto simp: list_all_iff)
    ultimately show ?thesis by blast
  qed
  ultimately show ?thesis using mid by blast
qed

text \<open>Two planned runs that differ share neither their identity nor any artifact.\<close>

definition separate_runs :: "planned \<Rightarrow> planned \<Rightarrow> bool" where
  "separate_runs p q \<longleftrightarrow> run_id (p_expected p) \<noteq> run_id (p_expected q) \<and> p_output p \<noteq> p_output q \<and>
     process_path (p_output p) \<noteq> process_path (p_output q) \<and> p_output p \<noteq> process_path (p_output q)"

lemma plan_matrix_separate:
  assumes "clean_config d" and "plan_matrix h timestamp d base selected resume cli = Inr (settling, items)"
  shows "pairwise separate_runs (set (planned_runs items)) \<and> distinct (planned_runs items)"
proof -
  obtain mid where dk: "distinct (map (run_key \<circ> p_expected) (planned_runs items))" and mid: "plain_name mid"
    and shape: "\<And>p. p \<in> set (planned_runs items) \<Longrightarrow> \<exists>m c r l. m \<in> {''streaming'', ''non_streaming''} \<and> plain_name l \<and>
      run_key (p_expected p) = (m, c, r, l) \<and> run_id (p_expected p) = run_id_text mid m c r l \<and>
      p_output p = run_output base mid m (int_str c) r l"
    using plan_matrix_runs [OF assms] by metis
  have "separate_runs p q" if pq: "p \<in> set (planned_runs items)" "q \<in> set (planned_runs items)" "p \<noteq> q" for p q
  proof -
    obtain m c r l where p: "m \<in> {''streaming'', ''non_streaming''}" "plain_name l" "run_key (p_expected p) = (m, c, r, l)"
      "run_id (p_expected p) = run_id_text mid m c r l" "p_output p = run_output base mid m (int_str c) r l" using shape [OF pq(1)] by blast
    obtain m' c' r' l' where q: "m' \<in> {''streaming'', ''non_streaming''}" "plain_name l'" "run_key (p_expected q) = (m', c', r', l')"
      "run_id (p_expected q) = run_id_text mid m' c' r' l'" "p_output q = run_output base mid m' (int_str c') r' l'" using shape [OF pq(2)] by blast
    have ne: "(m, c, r, l) \<noteq> (m', c', r', l')"
      using dk pq p(3) q(3) by (metis (no_types, lifting) comp_apply distinct_map inj_onD)
    have "plain_name m" "plain_name m'" using p(1) q(1) by (auto simp: plain_name_def)
    then have o: "p_output p = (fst base, snd base @ [mid, m, ''c'' @ int_str c, ''repeat-'' @ int_str r, l, ''client-result.json''])"
      "p_output q = (fst base, snd base @ [mid, m', ''c'' @ int_str c', ''repeat-'' @ int_str r', l', ''client-result.json''])"
      using p(2,5) q(2,5) mid by (simp_all add: run_output_plain)
    have w: "process_path (fst base, snd base @ [a1, a2, a3, a4, a5, x]) = (fst base, snd base @ [a1, a2, a3, a4, a5, ''process.json''])"
      for a1 a2 a3 a4 a5 x by (simp add: process_path_def path_parent_def py_path_plain plain_name_def path_join_def butlast_append)
    show ?thesis
      unfolding separate_runs_def o w p(4) q(4) using ne run_id_text_inject [of mid m c r l m' c' r' l'] p(1) q(1) int_str_inject by auto
  qed
  then show ?thesis using dk by (auto simp: pairwise_def distinct_map)
qed

text \<open>
  Every run of a matrix has a directory of its own. For any configuration with distinct modes, levels and labels, whatever else it
  holds, no two planned runs have the same run id, result file or process record, and no run's result is another's process record.
\<close>

theorem matrix_runs_separate:
  assumes "clean_config d" and "plan_matrix h timestamp d base selected resume cli = Inr (settling, items)"
  shows "pairwise separate_runs (set (planned_runs items)) \<and> distinct (planned_runs items)"
  by (rule plan_matrix_separate [OF assms])

end
