(* ===== verification/Gw_Resume.thy ===== *)
theory Gw_Resume
  imports Gw_Matrix_Claims
begin

text \<open>
  Interrupting and resuming a benchmark matrix: what may be skipped, and that an interrupted matrix that is resumed executes
  every planned run exactly once.
\<close>

section \<open>One run\<close>

abbreviation is_done :: "matrix_host \<Rightarrow> planned \<Rightarrow> (path \<times> (script_exn + json)) list \<Rightarrow> bool" where
  "is_done h p fs \<equiv> completed_run (h_repr h) (p_output p) (p_command p) (p_expected p) (p_configuration p) (p_plan p) fs = Inr True"

text \<open>What the benchmark client does when all goes well: it exits with status zero and leaves the result of the run it was asked for.\<close>

definition harness_ok :: "matrix_host \<Rightarrow> bench \<Rightarrow> planned \<Rightarrow> bool" where
  "harness_ok h bench p \<longleftrightarrow> (\<exists>result. result_validate (h_repr h) (JObj result) = Inr [] \<and>
     result_matches (p_expected p) (p_configuration p) result \<and>
     (\<forall>fs. bench (p_command p) fs = Inr (0, AList.update (p_output p) (Inr (JObj result)) fs)))"

definition has_credential :: "matrix_host \<Rightarrow> planned \<Rightarrow> bool" where
  "has_credential h p \<longleftrightarrow> (\<exists>token. credential_of (h_env h) (p_target p) = Inr token)"

fun launched :: "matrix_event list \<Rightarrow> string list list" where
  "launched [] = []"
| "launched (Ran command token # evs) = command # launched evs"
| "launched (ev # evs) = launched evs"

lemma launched_append [simp]: "launched (xs @ ys) = launched xs @ launched ys"
  by (induction xs rule: launched.induct) simp_all

lemma scalar_same [simp]: "scalar_eq x x"
  by (simp add: scalar_eq_def split: option.split)

lemma py_same_texts: "py_same (JList (map JStr c)) (JList (map JStr d)) \<longleftrightarrow> c = d"
proof -
  have "list_all2 py_same (map JStr c) (map JStr d) \<longleftrightarrow> c = d"
  proof (induction c arbitrary: d)
    case (Cons a c)
    then show ?case by (cases d) (auto simp: scalar_eq_def)
  qed auto
  then show ?thesis by simp
qed

lemma separate_lookup:
  assumes "separate_runs p q" "separate_runs q p"
  shows "map_of (AList.update (process_path (p_output q)) x (AList.update (p_output q) y fs)) (p_output p) = map_of fs (p_output p)"
    "map_of (AList.update (process_path (p_output q)) x (AList.update (p_output q) y fs)) (process_path (p_output p)) = map_of fs (process_path (p_output p))"
  using assms by (auto simp: separate_runs_def update_conv')

lemma is_done_cong:
  "map_of fs (p_output p) = map_of gs (p_output p) \<Longrightarrow> map_of fs (process_path (p_output p)) = map_of gs (process_path (p_output p)) \<Longrightarrow>
   is_done h p fs = is_done h p gs"
  by (simp add: completed_run_def)

lemma own_process: "process_path (run_output base mid m c r l) \<noteq> run_output base mid m c r l"
  by (simp add: process_path_def path_parent_def run_output_def path_join_def py_path_plain plain_name_def)

lemma execute_ok:
  assumes ok: "harness_ok h bench p" and cred: "has_credential h p" and own: "process_path (p_output p) \<noteq> p_output p"
  shows "\<exists>x y evs. execute (h_env h) bench utc (p_command p) (p_target p) (p_output p) False (p_plan p) st =
      (Inr (), st\<lparr>files := AList.update (process_path (p_output p)) x (AList.update (p_output p) y (files st)), events := events st @ evs\<rparr>) \<and>
      launched evs = [p_command p] \<and>
      is_done h p (AList.update (process_path (p_output p)) x (AList.update (p_output p) y (files st)))"
proof -
  obtain result where r: "result_validate (h_repr h) (JObj result) = Inr []" "result_matches (p_expected p) (p_configuration p) result"
    "bench (p_command p) fs = Inr (0, AList.update (p_output p) (Inr (JObj result)) fs)" for fs
    using ok unfolding harness_ok_def by blast
  obtain token where t: "credential_of (h_env h) (p_target p) = Inr token" using cred by (auto simp: has_credential_def)
  define metadata where "metadata = [(''started_utc'', JStr (fst utc)), (''ended_utc'', JStr (snd utc)), (''exit_code'', JInt 0),
    (''command'', JList (map JStr (p_command p))), (''resume_plan_sha256'', JStr (p_plan p)),
    (''credential_source'', JStr (if token \<noteq> None then ''environment'' else ''none''))]"
  let ?fs = "AList.update (process_path (p_output p)) (Inr (JObj metadata)) (AList.update (p_output p) (Inr (JObj result)) (files st))"
  have "execute (h_env h) bench utc (p_command p) (p_target p) (p_output p) False (p_plan p) st =
      (Inr (), st\<lparr>files := ?fs, events := events st @ [Printed_line (safe_command (p_command p)), Ran (p_command p) token]\<rparr>)"
    using r(3) t by (simp add: execute_def Let_def metadata_def)
  moreover have "process_matches (p_command p) (p_plan p) metadata"
    using py_same_texts [of "p_command p" "p_command p"] by (simp add: process_matches_def metadata_def dict_get_def)
  then have "is_done h p ?fs" using r(1,2) own by (simp add: completed_run_def update_conv')
  ultimately show ?thesis by (intro exI conjI) (assumption, simp, assumption)
qed

section \<open>Many runs\<close>

definition ready_runs :: "matrix_host \<Rightarrow> bench \<Rightarrow> planned list \<Rightarrow> bool" where
  "ready_runs h bench ps \<longleftrightarrow> distinct ps \<and> pairwise separate_runs (set ps) \<and>
     (\<forall>p\<in>set ps. harness_ok h bench p \<and> has_credential h p \<and> process_path (p_output p) \<noteq> p_output p)"

lemma ready_runsD:
  assumes "ready_runs h bench (p # ps)"
  shows "harness_ok h bench p" "has_credential h p" "process_path (p_output p) \<noteq> p_output p" "ready_runs h bench ps"
    "\<And>q. q \<in> set ps \<Longrightarrow> separate_runs p q \<and> separate_runs q p" "distinct ps" "p \<notin> set ps"
  using assms by (auto simp: ready_runs_def pairwise_insert)

lemma ready_runs_split:
  assumes "ready_runs h bench ps"
  shows "ready_runs h bench (take k ps)" and "ready_runs h bench (drop k ps)"
    and "p \<in> set (take k ps) \<Longrightarrow> q \<in> set (drop k ps) \<Longrightarrow> separate_runs p q \<and> separate_runs q p"
proof -
  have apart: "set (take k ps) \<inter> set (drop k ps) = {}" using assms by (simp add: ready_runs_def set_take_disj_set_drop_if_distinct)
  show "ready_runs h bench (take k ps)" using assms pairwise_subset [OF _ set_take_subset] unfolding ready_runs_def
    by (meson distinct_take in_set_takeD)
  show "ready_runs h bench (drop k ps)" using assms pairwise_subset [OF _ set_drop_subset] unfolding ready_runs_def
    by (meson distinct_drop in_set_dropD)
  show "separate_runs p q \<and> separate_runs q p" if "p \<in> set (take k ps)" "q \<in> set (drop k ps)"
    using assms that apart unfolding ready_runs_def pairwise_def by (metis disjoint_iff in_set_takeD in_set_dropD)
qed

lemma run_fresh:
  assumes "ready_runs h bench ps" and "\<forall>p\<in>set ps. map_of (files st) (p_output p) = None"
  shows "\<exists>st'. run_items h bench utc settling False resume is_first (map Inr ps) st = (Inr (), st') \<and>
    launched (events st') = launched (events st) @ map p_command ps \<and>
    (\<forall>p\<in>set ps. is_done h p (files st')) \<and>
    (\<forall>q. (\<forall>p\<in>set ps. separate_runs p q \<and> separate_runs q p) \<longrightarrow> map_of (files st') (p_output q) = map_of (files st) (p_output q) \<and>
       map_of (files st') (process_path (p_output q)) = map_of (files st) (process_path (p_output q)))"
  using assms
proof (induction ps arbitrary: st is_first)
  case (Cons p ps)
  note R = ready_runsD [OF Cons.prems(1)]
  have not_done: "(if resume then completed_run (h_repr h) (p_output p) (p_command p) (p_expected p) (p_configuration p) (p_plan p) (files st)
      else Inr False) = Inr False"
    using Cons.prems(2) by (simp add: completed_run_def)
  define st1 where "st1 = (if \<not> is_first \<and> settling > 0 then st\<lparr>events := events st @ [Settled settling]\<rparr> else st)"
  have st1: "files st1 = files st" "launched (events st1) = launched (events st)" by (simp_all add: st1_def)
  obtain x y evs where e: "execute (h_env h) bench utc (p_command p) (p_target p) (p_output p) False (p_plan p) st1 =
      (Inr (), st1\<lparr>files := AList.update (process_path (p_output p)) x (AList.update (p_output p) y (files st)), events := events st1 @ evs\<rparr>)"
    "launched evs = [p_command p]"
    "is_done h p (AList.update (process_path (p_output p)) x (AList.update (p_output p) y (files st)))"
    using execute_ok [OF R(1-3), of utc st1] st1(1) by metis
  define st2 where "st2 = st1\<lparr>files := AList.update (process_path (p_output p)) x (AList.update (p_output p) y (files st)),
      events := events st1 @ evs\<rparr>"
  have look: "map_of (files st2) (p_output q) = map_of (files st) (p_output q) \<and>
      map_of (files st2) (process_path (p_output q)) = map_of (files st) (process_path (p_output q))"
    if "separate_runs p q" "separate_runs q p" for q
    by (simp add: st2_def separate_lookup [OF that(2,1)])
  have "\<forall>q\<in>set ps. map_of (files st2) (p_output q) = None" using look R(5) Cons.prems(2) by simp
  from Cons.IH [OF R(4) this, of False] obtain st' where IH:
    "run_items h bench utc settling False resume False (map Inr ps) st2 = (Inr (), st')"
    "launched (events st') = launched (events st2) @ map p_command ps" "\<forall>q\<in>set ps. is_done h q (files st')"
    "\<forall>q. (\<forall>p\<in>set ps. separate_runs p q \<and> separate_runs q p) \<longrightarrow> map_of (files st') (p_output q) = map_of (files st2) (p_output q) \<and>
       map_of (files st') (process_path (p_output q)) = map_of (files st2) (process_path (p_output q))"
    by blast
  have "run_items h bench utc settling False resume is_first (map Inr (p # ps)) st = (Inr (), st')"
    using not_done e(1) IH(1) by (simp add: st1_def [symmetric] st2_def [symmetric] Let_def)
  moreover have "launched (events st') = launched (events st) @ map p_command (p # ps)"
    using IH(2) e(2) st1(2) by (simp add: st2_def)
  moreover have "is_done h p (files st')"
    using e(3) IH(4) R(5) is_done_cong [of "files st'" p "files st2" h] by (auto simp: st2_def)
  ultimately show ?case using IH(3,4) look by (intro exI [of _ st']) auto
qed simp

lemma run_done:
  assumes "\<forall>p\<in>set ps. is_done h p (files st)"
  shows "\<exists>evs. launched evs = [] \<and> run_items h bench utc settling dry True is_first (map Inr ps @ items) st =
    run_items h bench utc settling dry True is_first items (st\<lparr>events := events st @ evs\<rparr>)"
  using assms
proof (induction ps arbitrary: st)
  case Nil
  then show ?case by (intro exI [of _ "[]"]) simp
next
  case (Cons p ps)
  let ?ev = "[Printed_line (''skipping completed run: '' @ path_str (p_output p))]"
  obtain evs where "launched evs = []" "run_items h bench utc settling dry True is_first (map Inr ps @ items) (st\<lparr>events := events st @ ?ev\<rparr>) =
      run_items h bench utc settling dry True is_first items (st\<lparr>events := events st @ ?ev @ evs\<rparr>)"
    using Cons.IH [of "st\<lparr>events := events st @ ?ev\<rparr>"] Cons.prems by auto
  then show ?case using Cons.prems by (intro exI [of _ "?ev @ evs"]) simp
qed

lemma resume_items:
  assumes "ready_runs h bench ps" and "\<forall>p\<in>set ps. map_of (files st) (p_output p) = None" and "launched (events st) = []"
  shows "\<exists>st1 st2 st3. run_items h bench utc settling False first_resume True (map Inr (take k ps)) st = (Inr (), st1) \<and>
    run_items h bench utc settling False True True (map Inr ps) st1 = (Inr (), st2) \<and>
    run_items h bench utc settling False True True (map Inr ps) st2 = (Inr (), st3) \<and>
    launched (events st1) = map p_command (take k ps) \<and> launched (events st2) = map p_command ps \<and>
    launched (events st3) = map p_command ps \<and> files st3 = files st2"
proof -
  note split = ready_runs_split [where k = k, OF assms(1)]
  obtain s1 where s1: "run_items h bench utc settling False first_resume True (map Inr (take k ps)) st = (Inr (), s1)"
    "launched (events s1) = map p_command (take k ps)" "\<forall>p\<in>set (take k ps). is_done h p (files s1)"
    "\<forall>p\<in>set (drop k ps). map_of (files s1) (p_output p) = None"
    using run_fresh [OF split(1), of st utc settling first_resume True] assms(2,3) split(3)
    by (metis (no_types, lifting) append_Nil in_set_takeD in_set_dropD)
  obtain evs where evs: "launched evs = []" "run_items h bench utc settling False True True (map Inr (take k ps) @ map Inr (drop k ps)) s1 =
    run_items h bench utc settling False True True (map Inr (drop k ps)) (s1\<lparr>events := events s1 @ evs\<rparr>)"
    using run_done [OF s1(3)] by blast
  obtain s2 where s2: "run_items h bench utc settling False True True (map Inr (drop k ps)) (s1\<lparr>events := events s1 @ evs\<rparr>) = (Inr (), s2)"
    "launched (events s2) = map p_command ps" "\<forall>p\<in>set ps. is_done h p (files s2)"
  proof -
    let ?s = "s1\<lparr>events := events s1 @ evs\<rparr>"
    from run_fresh [OF split(2), of ?s utc settling True True] s1(4) obtain s where s:
      "run_items h bench utc settling False True True (map Inr (drop k ps)) ?s = (Inr (), s)"
      "launched (events s) = launched (events ?s) @ map p_command (drop k ps)" "\<forall>p\<in>set (drop k ps). is_done h p (files s)"
      "\<forall>q. (\<forall>p\<in>set (drop k ps). separate_runs p q \<and> separate_runs q p) \<longrightarrow> map_of (files s) (p_output q) = map_of (files s1) (p_output q) \<and>
         map_of (files s) (process_path (p_output q)) = map_of (files s1) (process_path (p_output q))"
      by auto
    have "is_done h p (files s)" if p: "p \<in> set (take k ps)" for p
      using s(4) split(3) p s1(3) is_done_cong [of "files s" p "files s1" h] by blast
    then have "\<forall>p\<in>set ps. is_done h p (files s)" using s(3) by (metis append_take_drop_id Un_iff set_append)
    moreover have "launched (events s) = map p_command ps" using s(2) s1(2) evs(1) by (simp flip: map_append)
    ultimately show thesis using s(1) by (intro that [of s])
  qed
  obtain evs' where evs': "launched evs' = []" "run_items h bench utc settling False True True (map Inr ps @ []) s2 =
    run_items h bench utc settling False True True [] (s2\<lparr>events := events s2 @ evs'\<rparr>)"
    using run_done [OF s2(3)] by blast
  show ?thesis using s1 evs s2 evs' by (intro exI [of _ s1] exI [of _ s2] exI [of _ "s2\<lparr>events := events s2 @ evs'\<rparr>"]) (simp flip: map_append)
qed

lemma planned_runs_Inr [simp]: "planned_runs (map Inr ps) = ps"
  by (induction ps) (simp_all add: planned_runs_def)

lemma plan_ready:
  assumes "clean_config d" and "plan_matrix h timestamp d base selected resume cli = Inr (settling, map Inr ps)"
    and "\<forall>p\<in>set ps. harness_ok h bench p \<and> has_credential h p"
  shows "ready_runs h bench ps"
proof -
  have "process_path (p_output p) \<noteq> p_output p" if p: "p \<in> set ps" for p
    using plan_matrix_runs [OF assms(1,2)] p own_process unfolding planned_runs_Inr by metis
  then show ?thesis using plan_matrix_separate [OF assms(1,2)] assms(3) by (simp add: ready_runs_def)
qed


section \<open>An example\<close>

definition example_config :: json_dict where
  "example_config = [(''schema_version'', JInt 1), (''model'', JStr ''m''), (''dataset'', JStr ''d''), (''concurrency'', JList [JInt 1]),
     (''repetitions'', JInt 1), (''requests'', JInt 1), (''settle_seconds'', JInt 0), (''targets'', JList
       [JObj [(''label'', JStr ''a''), (''base_url'', JStr ''u'')], JObj [(''label'', JStr ''b''), (''base_url'', JStr ''v'')]])]"

definition example_host :: matrix_host where
  "example_host = \<lparr>h_repr = (\<lambda>_. ''0.0''), h_float = (\<lambda>_. None), h_sha256 = (\<lambda>_. replicate 64 CHR ''0''), h_read = (\<lambda>_. Inr []),
     h_env = (\<lambda>_. None), h_base = ([], [])\<rparr>"

definition example_run :: "nat \<Rightarrow> string \<Rightarrow> string \<Rightarrow> planned" where
  "example_run order label url = (case plan_run example_host example_config ([], []) ''x'' ''non_streaming'' (JInt 1) 1 (int order)
     (JObj [(''label'', JStr label), (''base_url'', JStr url)]) of Inr p \<Rightarrow> p)"

definition example_runs :: "planned list" where
  "example_runs = [example_run 1 ''a'' ''u'', example_run 2 ''b'' ''v'']"

definition example_result :: "planned \<Rightarrow> json_dict" where
  "example_result p = (let r = p_expected p
     in [(''schema_version'', JInt 1),
         (''metadata'', JObj [(''run_id'', JStr (run_id r)), (''timestamp_utc'', JNull), (''label'', JStr (run_label r)),
            (''repeat'', JInt (run_repeat r)), (''execution_order'', JInt (execution_order r))]),
         (''configuration'', JObj (p_configuration p @ map (\<lambda>k. (k, JNull)) configuration_fields)),
         (''timing'', JObj [(''measured_start_utc'', JNull), (''measured_end_utc'', JNull), (''duration_seconds'', JNull)]),
         (''warmup'', JObj [(''attempted'', JNull), (''success'', JNull), (''failed'', JNull)]),
         (''summary'', JObj ([(''attempted'', JInt 1), (''successful'', JInt 1), (''failed'', JInt 0)] @
            map (\<lambda>k. (k, JNull)) (the (map_of required_object_fields ''summary'')))),
         (''per_request'', JList [JObj []]), (''metrics'', JObj []), (''metric_artifacts'', JObj []), (''environment'', JObj []),
         (''validity'', JObj [(''valid'', JBool True), (''reasons'', JList [])])])"

definition example_bench :: bench where
  "example_bench command fs = (case find (\<lambda>p. p_command p = command) example_runs of
      Some p \<Rightarrow> Inr (0, AList.update (p_output p) (Inr (JObj (example_result p))) fs)
    | None \<Rightarrow> Inr (1, fs))"

lemma example_checks:
  "list_all (\<lambda>(order, label, url). case plan_run example_host example_config ([], []) ''x'' ''non_streaming'' (JInt 1) 1 (int order)
     (JObj [(''label'', JStr label), (''base_url'', JStr url)]) of Inr p \<Rightarrow> True | Inl _ \<Rightarrow> False) [(1, ''a'', ''u''), (2, ''b'', ''v'')]"
  "list_all (\<lambda>p. result_validate (h_repr example_host) (JObj (example_result p)) = Inr []) example_runs"
  "list_all (\<lambda>p. result_matches (p_expected p) (p_configuration p) (example_result p)) example_runs"
  "list_all (\<lambda>p. py_truthy (dict_get (p_target p) ''auth_token_env'') = False) example_runs"
  "list_all (\<lambda>p. find (\<lambda>q. p_command q = p_command p) example_runs \<noteq> None) example_runs"
  "distinct (map p_command example_runs)"
  by code_simp+

lemma example_runs_ok: "\<forall>p\<in>set example_runs. harness_ok example_host example_bench p \<and> has_credential example_host p"
proof
  fix p assume p: "p \<in> set example_runs"
  obtain q where q: "find (\<lambda>q. p_command q = p_command p) example_runs = Some q"
    using example_checks(5) p by (auto simp: list_all_iff)
  then have "q \<in> set example_runs" "p_command q = p_command p" by (auto simp: find_Some_iff)
  then have "q = p" using p example_checks(6) by (simp add: distinct_map inj_on_def)
  then have "example_bench (p_command p) fs = Inr (0, AList.update (p_output p) (Inr (JObj (example_result p))) fs)" for fs
    using q by (simp add: example_bench_def)
  then show "harness_ok example_host example_bench p \<and> has_credential example_host p"
    using example_checks(2-4) p by (auto simp: harness_ok_def has_credential_def credential_of_def Let_def list_all_iff)
qed

lemma example_fields:
  "dict_get example_config ''run_id'' = JNull" "get_item (JObj example_config) ''targets'' = Inr (JList
     [JObj [(''label'', JStr ''a''), (''base_url'', JStr ''u'')], JObj [(''label'', JStr ''b''), (''base_url'', JStr ''v'')]])"
  "dict_get_or example_config ''settle_seconds'' v = JInt 0"
  "dict_get_or example_config ''modes'' w = w"
  "get_item (JObj example_config) ''concurrency'' = Inr (JList [JInt 1])"
  "get_item (JObj example_config) ''repetitions'' = Inr (JInt 1)"
  by (simp_all add: example_config_def dict_get_def dict_get_or_def get_item_def)

lemma example_plan: "plan_matrix example_host ''t'' example_config ([], []) [] resume (Some ''x'') = Inr (0, map Inr example_runs)"
proof -
  let ?p = "\<lambda>order label url. plan_run example_host example_config ([], []) ''x'' ''non_streaming'' (JInt 1) 1 order
     (JObj [(''label'', JStr label), (''base_url'', JStr url)])"
  have "?p 1 ''a'' ''u'' = Inr (example_run 1 ''a'' ''u'')" "?p 2 ''b'' ''v'' = Inr (example_run 2 ''b'' ''v'')"
    using example_checks(1) by (simp_all add: example_run_def split: sum.splits)
  moreover have "resolve_matrix_id ''t'' JNull (Some ''x'') resume = Inr ''x''"
    by (simp add: resolve_matrix_id_def matrix_id_char_def word_char_def is_digit_def code_point_def)
  ultimately show ?thesis
    by (simp add: plan_matrix_def example_fields select_targets_def iterate_def py_float_of_def plan_mode_def in_strings_def
        plan_repeats_def py_int_of_def rotated_def example_runs_def)
qed

lemma example_clean: "clean_config example_config"
proof -
  let ?ts = "[JObj [(''label'', JStr ''a''), (''base_url'', JStr ''u'')], JObj [(''label'', JStr ''b''), (''base_url'', JStr ''v'')]]"
  have "dict_get example_config ''targets'' = JList ?ts" "map_of example_config ''concurrency'' = Some (JList (map JInt [1]))"
    by (simp_all add: example_config_def dict_get_def)
  moreover have "target_label (?ts ! 0) = ''a''" "target_label (?ts ! 1) = ''b''" by (simp_all add: target_label_def get_item_def)
  moreover have "JList [JStr ''non_streaming''] = JList (map JStr [''non_streaming''])" by simp
  ultimately show ?thesis unfolding clean_config_def example_fields
    by (intro exI [of _ ?ts] exI [of _ "[1]"] exI [of _ "[''non_streaming'']"] conjI) (simp_all add: plain_name_def)
qed

theorem matrix_runs_separate_witness:
  "pairwise separate_runs (set (planned_runs (map Inr example_runs))) \<and> distinct (planned_runs (map Inr example_runs))"
  by (rule matrix_runs_separate [OF example_clean example_plan])


end
