(* ===== verification/Gw_Fingerprint.thy ===== *)
theory Gw_Fingerprint
  imports Gw_Resume Gw_Batch_Key
begin

text \<open>
  The fingerprint by which a resumed matrix recognises a finished run: it determines the command, the coordinate of the run, the hashes of
  its input files and the name of its credential.
\<close>

section \<open>The fingerprint of a plan\<close>

lemma sorted_object_inject: "sort_json (JObj xs) = sort_json (JObj ys) \<Longrightarrow>
    (\<lambda>kv. (fst kv, sort_json (snd kv))) ` set xs = (\<lambda>kv. (fst kv, sort_json (snd kv))) ` set ys"
  unfolding sort_json.simps(2) json.inject by (drule arg_cong [where f = set]) (simp add: set_sort_items)

lemma sorted_lookup:
  assumes "sort_json (JObj xs) = sort_json (JObj ys)" "(k, v) \<in> set xs" "(k, w) \<in> set ys" "distinct (map fst ys)"
  shows "sort_json v = sort_json w"
proof -
  obtain w' where "(k, w') \<in> set ys" "sort_json v = sort_json w'"
    using sorted_object_inject [OF assms(1)] assms(2) by force
  then show ?thesis using assms(3,4) by (metis eq_key_imp_eq_value)
qed

lemma sort_texts [simp]: "sort_json (JList (map JStr c)) = JList (map JStr c)"
  by (simp add: o_def)

lemma texts_inject: "map JStr c = map JStr d \<longleftrightarrow> c = d"
  by (simp add: inj_map_eq_map inj_on_def)

definition credential_json :: "string option \<Rightarrow> json" where
  "credential_json c = (case c of Some s \<Rightarrow> JStr s | None \<Rightarrow> JNull)"

lemma plan_json_inject:
  assumes "plan_json c r hs (credential_json n) = plan_json c' r' hs' (credential_json n')"
  shows "c = c' \<and> r = r' \<and> set hs = set hs' \<and> n = n'"
proof -
  note look = sorted_lookup [OF assms [unfolded plan_json_def]]
  have c: "sort_json (JList (map JStr c)) = sort_json (JList (map JStr c'))" by (rule look [where k = "''command''"]) auto
  have r: "sort_json (coordinate_json r) = sort_json (coordinate_json r')" by (rule look [where k = "''coordinate''"]) auto
  have n: "sort_json (credential_json n) = sort_json (credential_json n')" by (rule look [where k = "''credential_env_name''"]) auto
  have h: "sort_json (JObj (map (\<lambda>(name, h). (name, JStr h)) hs)) = sort_json (JObj (map (\<lambda>(name, h). (name, JStr h)) hs'))"
    by (rule look [where k = "''input_sha256''"]) auto
  have "(\<lambda>(name, h). (name, JStr h)) ` set hs = (\<lambda>(name, h). (name, JStr h)) ` set hs'"
    using sorted_object_inject [OF h] by (simp add: image_image case_prod_beta)
  moreover have "inj (\<lambda>(name :: string, h). (name, JStr h))" by (auto simp: inj_on_def)
  ultimately have "set hs = set hs'" by (simp add: inj_image_eq_iff)
  moreover have "r = r'"
    using sorted_lookup [OF r [unfolded coordinate_json_def], of "''run_id''"]
      sorted_lookup [OF r [unfolded coordinate_json_def], of "''label''"] sorted_lookup [OF r [unfolded coordinate_json_def], of "''mode''"]
      sorted_lookup [OF r [unfolded coordinate_json_def], of "''concurrency''"] sorted_lookup [OF r [unfolded coordinate_json_def], of "''repeat''"]
      sorted_lookup [OF r [unfolded coordinate_json_def], of "''execution_order''"] sorted_lookup [OF r [unfolded coordinate_json_def], of "''requests''"]
    by (auto intro!: run_coordinate.equality)
  moreover have "n = n'" using n by (cases n; cases n') (simp_all add: credential_json_def)
  ultimately show ?thesis using c unfolding sort_texts by (simp add: texts_inject)
qed

lemma plan_json_floats: "json_floats (plan_json c r hs (credential_json n)) = {}"
  by (auto simp: plan_json_def coordinate_json_def credential_json_def set_sort_items split: option.splits)

lemma plan_text_inject:
  "plan_text fr c r hs (credential_json n) = plan_text fr c' r' hs' (credential_json n') \<Longrightarrow>
   c = c' \<and> r = r' \<and> set hs = set hs' \<and> n = n'"
  unfolding plan_text_def by (rule plan_json_inject) (simp add: ascii_text.text_inject plan_json_floats float_repr_ok_empty)

lemma same_zero: "py_same x (JInt 0) \<Longrightarrow> x \<in> {JInt 0, JBool False, JFloat 0}"
  by (cases x) (auto simp: scalar_eq_def)

text \<open>
  C34. A resumed matrix skips a run only for that run's own result. When a run is skipped, its result is sound and records exactly what the
  run was to do, the process record says that the benchmark exited with zero, and the plan that record was written for is the current one:
  same command, same coordinate, same contents of every input file, same credential variable. The digest is assumed not to collide on the two
  plans.
\<close>

theorem skipped_run_is_own:
  assumes "completed_run fr out_path command expected expected_configuration
      (resume_plan_sha256 fr sha256 command expected hashes (credential_json credential)) fs = Inr True"
    and "map_of fs (process_path out_path) = Some (Inr (JObj metadata))"
    and "dict_get metadata ''resume_plan_sha256'' = JStr (resume_plan_sha256 fr sha256 command' expected' hashes' (credential_json credential'))"
    and "inj_on sha256 {plan_text fr command expected hashes (credential_json credential),
      plan_text fr command' expected' hashes' (credential_json credential')}"
  shows "command' = command \<and> expected' = expected \<and> set hashes' = set hashes \<and> credential' = credential \<and>
    dict_get metadata ''exit_code'' \<in> {JInt 0, JBool False, JFloat 0} \<and>
    (\<exists>result. map_of fs out_path = Some (Inr (JObj result)) \<and> sound_result fr result \<and> result_matches expected expected_configuration result)"
proof -
  let ?plan = "resume_plan_sha256 fr sha256 command expected hashes (credential_json credential)"
  obtain result where r: "map_of fs out_path = Some (Inr (JObj result))" "result_validate fr (JObj result) = Inr []"
    "process_matches command ?plan metadata" "result_matches expected expected_configuration result"
    using assms(1,2) by (auto simp: completed_run_def bind_res_Inr_iff split: option.splits sum.splits json.splits)
  have "?plan = resume_plan_sha256 fr sha256 command' expected' hashes' (credential_json credential')"
    using r(3) assms(3) by (simp add: process_matches_def scalar_eq_def)
  then have "plan_text fr command expected hashes (credential_json credential) =
      plan_text fr command' expected' hashes' (credential_json credential')"
    using assms(4) unfolding resume_plan_sha256_def inj_on_def by blast
  from plan_text_inject [OF this] show ?thesis using r same_zero by (auto simp: process_matches_def result_validate_accepts)
qed

definition example_plan_sha256 :: string where
  "example_plan_sha256 = resume_plan_sha256 (h_repr example_host) rev (p_command (example_run 1 ''a'' ''u''))
     (p_expected (example_run 1 ''a'' ''u'')) [] (credential_json None)"

definition example_files :: "(path \<times> (script_exn + json)) list" where
  "example_files = (let p = example_run 1 ''a'' ''u''
     in [(p_output p, Inr (JObj (example_result p))),
         (process_path (p_output p), Inr (JObj [(''exit_code'', JInt 0), (''command'', JList (map JStr (p_command p))),
            (''resume_plan_sha256'', JStr example_plan_sha256)]))])"

theorem skipped_run_is_own_witness:
  "completed_run (h_repr example_host) (p_output (example_run 1 ''a'' ''u'')) (p_command (example_run 1 ''a'' ''u''))
     (p_expected (example_run 1 ''a'' ''u'')) (p_configuration (example_run 1 ''a'' ''u'')) example_plan_sha256 example_files = Inr True \<and>
   (\<exists>result. map_of example_files (p_output (example_run 1 ''a'' ''u'')) = Some (Inr (JObj result)) \<and>
     sound_result (h_repr example_host) result)"
proof -
  let ?p = "example_run 1 ''a'' ''u''"
  have p: "?p \<in> set example_runs" by (simp add: example_runs_def)
  have out: "process_path (p_output ?p) \<noteq> p_output ?p"
    using plan_ready [OF example_clean example_plan example_runs_ok] p by (simp add: ready_runs_def)
  have skipped: "completed_run (h_repr example_host) (p_output ?p) (p_command ?p) (p_expected ?p) (p_configuration ?p)
      example_plan_sha256 example_files = Inr True"
    using example_checks(2,3) p out py_same_texts [of "p_command ?p" "p_command ?p"]
    by (simp add: completed_run_def example_files_def Let_def process_matches_def dict_get_def list_all_iff)
  note own = skipped_run_is_own [OF skipped [unfolded example_plan_sha256_def], of _ "p_command ?p" "p_expected ?p" "[]" None]
  show ?thesis using skipped own out by (auto simp: example_files_def Let_def dict_get_def example_plan_sha256_def)
qed

end
