(* ===== verification/Gw_Counters.thy ===== *)
theory Gw_Counters
  imports Gw_Matrix
begin

text \<open>
  The counters of \<open>benchmark/scripts/summarize.py\<close>: reading an exposition of metrics as text, and what a counter did between two
  of them. The decoding of escapes in labels (the codec \<open>unicode_escape\<close>) and \<open>float\<close> are parameters; numbers are exact.
\<close>

section \<open>The text format\<close>

text \<open>\<open>str.splitlines()\<close>\<close>

definition text_break :: "char \<Rightarrow> bool" where
  "text_break c \<longleftrightarrow> code_point c \<in> {10, 11, 12, 13, 28, 29, 30, 133}"

function py_lines :: "string \<Rightarrow> string list" where
  "py_lines s =
     (if s = [] then []
      else takeWhile (\<lambda>c. \<not> text_break c) s #
        (case dropWhile (\<lambda>c. \<not> text_break c) s of
           [] \<Rightarrow> []
         | c # cs \<Rightarrow> py_lines (if c = CHR 0x0D \<and> take 1 cs = [CHR 0x0A] then tl cs else cs)))"
  by pat_completeness auto
termination
proof (relation "measure length")
  show "(if c = CHR 0x0D \<and> take 1 cs = [CHR 0x0A] then tl cs else cs, s) \<in> measure length"
    if "dropWhile (\<lambda>c. \<not> text_break c) s = c # cs" for s c cs
    using length_dropWhile_le [of "\<lambda>c. \<not> text_break c" s] that by auto
qed simp

declare py_lines.simps [simp del]

definition newline :: string where
  "newline = [CHR 0x0A]"

lemma py_lines_line: "\<forall>c\<in>set l. \<not> text_break c \<Longrightarrow> py_lines (l @ CHR 0x0A # rest) = l # py_lines rest"
  by (subst py_lines.simps) (simp add: text_break_def code_point_def takeWhile_tail dropWhile_append)

lemma py_lines_concat: "\<forall>l\<in>set ls. \<forall>c\<in>set l. \<not> text_break c \<Longrightarrow> py_lines (concat (map (\<lambda>l. l @ newline) ls)) = ls"
  by (induction ls) (simp_all add: newline_def py_lines_line py_lines.simps [of "[]"])

text \<open>The regular expression of a sample: a name, labels up to the last brace that a number follows, and the number.\<close>

definition name_start :: "char \<Rightarrow> bool" where
  "name_start c \<longleftrightarrow> 65 \<le> code_point c \<and> code_point c \<le> 90 \<or> 97 \<le> code_point c \<and> code_point c \<le> 122 \<or> c = CHR ''_'' \<or> c = CHR '':''"

definition sign_split :: "string \<Rightarrow> string \<times> string" where
  "sign_split s = (case s of [] \<Rightarrow> ([], []) | c # cs \<Rightarrow> if c = CHR ''+'' \<or> c = CHR ''-'' then ([c], cs) else ([], s))"

definition mantissa :: "string \<Rightarrow> (string \<times> string) option" where
  "mantissa s =
     (let whole = takeWhile is_digit s; rest = dropWhile is_digit s;
          fraction = takeWhile is_digit (tl rest); after = dropWhile is_digit (tl rest)
      in if whole \<noteq> [] then Some (if take 1 rest = ''.'' then (whole @ ''.'' @ fraction, after) else (whole, rest))
         else if take 1 rest = ''.'' \<and> fraction \<noteq> [] then Some (''.'' @ fraction, after) else None)"

definition exponent :: "string \<Rightarrow> string" where
  "exponent s = (case s of
      [] \<Rightarrow> []
    | c # cs \<Rightarrow>
       (let (sgn, rest) = sign_split cs; digits = takeWhile is_digit rest
        in if (c = CHR ''e'' \<or> c = CHR ''E'') \<and> digits \<noteq> [] then c # sgn @ digits else []))"

definition number_prefix :: "string \<Rightarrow> string option" where
  "number_prefix s = (let (sgn, rest) = sign_split s
     in case mantissa rest of None \<Rightarrow> None | Some (m, after) \<Rightarrow> Some (sgn @ m @ exponent after))"

definition value_after :: "string \<Rightarrow> string option" where
  "value_after s = (if s \<noteq> [] \<and> py_isspace (hd s) then number_prefix (dropWhile py_isspace s) else None)"

fun label_end :: "string \<Rightarrow> (string \<times> string) option" where
  "label_end [] = None"
| "label_end (c # cs) = (case label_end cs of
      Some (body, number) \<Rightarrow> Some (c # body, number)
    | None \<Rightarrow> if c = CHR ''}'' then map_option (Pair []) (value_after cs) else None)"

definition sample_match :: "string \<Rightarrow> (string \<times> string \<times> string) option" where
  "sample_match line =
     (let name = takeWhile (\<lambda>c. name_start c \<or> is_digit c) line; rest = dropWhile (\<lambda>c. name_start c \<or> is_digit c) line
      in if name = [] \<or> \<not> name_start (hd name) then None
         else if take 1 rest = ''{'' then map_option (Pair name) (label_end (tl rest))
         else map_option (\<lambda>number. (name, [], number)) (value_after rest))"

text \<open>The labels inside the braces, wherever they match.\<close>

definition re_word :: "char \<Rightarrow> bool" where
  "re_word c = (let n = code_point c in word_char c \<or> n \<in> {170, 178, 179, 181, 185, 186, 188, 189, 190} \<or> 192 \<le> n \<and> n \<noteq> 215 \<and> n \<noteq> 247)"

fun label_value :: "string \<Rightarrow> (string \<times> string) option" where
  "label_value [] = None"
| "label_value (c # cs) =
     (if c = CHR 0x22 then Some ([], cs)
      else if c = CHR 0x5C then (case cs of [] \<Rightarrow> None | d # ds \<Rightarrow> map_option (\<lambda>(v, r). (c # d # v, r)) (label_value ds))
      else map_option (\<lambda>(v, r). (c # v, r)) (label_value cs))"

definition label_at :: "string \<Rightarrow> ((string \<times> string) \<times> string) option" where
  "label_at s =
     (let name = takeWhile re_word s; rest = dropWhile re_word s
      in if name \<noteq> [] \<and> take 2 rest = [CHR ''='', CHR 0x22]
         then map_option (\<lambda>(v, r). ((name, v), r)) (label_value (drop 2 rest)) else None)"

lemma label_value_shorter: "label_value s = Some (v, r) \<Longrightarrow> length r < length s"
  by (induction s arbitrary: v r rule: label_value.induct) (fastforce split: if_splits list.splits)+

lemma label_at_shorter:
  assumes "label_at s = Some (l, r)"
  shows "length r < length s"
proof -
  obtain v where "label_value (drop 2 (dropWhile re_word s)) = Some (v, r)"
    using assms by (auto simp: label_at_def Let_def split: if_splits)
  then have "length r < length (dropWhile re_word s)" using label_value_shorter by fastforce
  also have "\<dots> \<le> length s" by (rule length_dropWhile_le)
  finally show ?thesis .
qed

function find_labels :: "string \<Rightarrow> (string \<times> string) list" where
  "find_labels s = (case label_at s of
      Some (l, rest) \<Rightarrow> l # find_labels rest
    | None \<Rightarrow> if s = [] then [] else find_labels (tl s))"
  by pat_completeness auto
termination
  by (relation "measure length") (auto dest: label_at_shorter)

declare find_labels.simps [simp del]

text \<open>\<open>sorted\<close> on pairs of strings\<close>

definition pair_le :: "string \<times> string \<Rightarrow> string \<times> string \<Rightarrow> bool" where
  "pair_le p q = (if fst p = fst q then string_le (snd p) (snd q) else string_le (fst p) (fst q))"

fun insert_pair :: "string \<times> string \<Rightarrow> (string \<times> string) list \<Rightarrow> (string \<times> string) list" where
  "insert_pair p [] = [p]"
| "insert_pair p (q # qs) = (if pair_le p q then p # q # qs else q # insert_pair p qs)"

definition sort_pairs :: "(string \<times> string) list \<Rightarrow> (string \<times> string) list" where
  "sort_pairs ps = foldr insert_pair ps []"

type_synonym labels = "(string \<times> string) list"
type_synonym series = "((string \<times> labels) \<times> real) list"

definition sample_of :: "(string \<Rightarrow> script_exn + string) \<Rightarrow> (string \<Rightarrow> real option) \<Rightarrow> string \<times> string \<times> string \<Rightarrow>
    script_exn + ((string \<times> labels) \<times> real)" where
  "sample_of unescape parse_float m = (case m of (name, text, number) \<Rightarrow>
     bind_res (map_res (\<lambda>(n, v). bind_res (unescape v) (\<lambda>u. Inr (n, u))) (find_labels text)) (\<lambda>pairs.
     bind_res (py_float_of parse_float (JStr number)) (\<lambda>x. Inr ((name, sort_pairs pairs), x))))"

fun parse_lines :: "(string \<Rightarrow> script_exn + string) \<Rightarrow> (string \<Rightarrow> real option) \<Rightarrow> string list \<Rightarrow> series \<Rightarrow> script_exn + series" where
  "parse_lines unescape parse_float [] acc = Inr acc"
| "parse_lines unescape parse_float (line # ls) acc = (case sample_match (py_strip line) of
      None \<Rightarrow> parse_lines unescape parse_float ls acc
    | Some m \<Rightarrow> bind_res (sample_of unescape parse_float m) (\<lambda>(k, x). parse_lines unescape parse_float ls (AList.update k x acc)))"

definition parse_prometheus_text :: "(string \<Rightarrow> script_exn + string) \<Rightarrow> (string \<Rightarrow> real option) \<Rightarrow> string \<Rightarrow> script_exn + series" where
  "parse_prometheus_text unescape parse_float raw = parse_lines unescape parse_float (py_lines raw) []"

section \<open>What a counter did\<close>

record counter_change =
  cc_missing :: bool
  cc_reset :: bool
  cc_value :: "real option"

definition values_of :: "series \<Rightarrow> string \<Rightarrow> (labels \<times> real) list" where
  "values_of s name = map (\<lambda>((metric, ls), v). (ls, v)) (filter (\<lambda>((metric, ls), v). metric = name) s)"

definition at_or_zero :: "(labels \<times> real) list \<Rightarrow> labels \<Rightarrow> real" where
  "at_or_zero vs l = (case map_of vs l of Some v \<Rightarrow> v | None \<Rightarrow> 0)"

definition counter_delta :: "series \<Rightarrow> series \<Rightarrow> string \<Rightarrow> counter_change" where
  "counter_delta before after name =
     (let before_values = values_of before name; after_values = values_of after name
      in if after_values = [] then \<lparr>cc_missing = True, cc_reset = False, cc_value = None\<rparr>
         else
          (let reset = list_ex (\<lambda>(l, v). v < at_or_zero before_values l) after_values;
               missing = list_ex (\<lambda>(l, v). map_of after_values l = None) before_values
           in \<lparr>cc_missing = missing, cc_reset = reset,
               cc_value = (if reset \<or> missing then None
                  else Some (sum_list (map (\<lambda>(l, v). v - at_or_zero before_values l) after_values)))\<rparr>))"

text \<open>The expositions lie beside the result; \<open>read_text\<close> may raise, and a file that is missing is passed over.\<close>

definition delta_of :: "(string \<Rightarrow> script_exn + string) \<Rightarrow> (string \<Rightarrow> real option) \<Rightarrow> (path \<times> (script_exn + string)) list \<Rightarrow>
    path \<Rightarrow> path \<Rightarrow> string \<Rightarrow> script_exn + (string \<times> counter_change) list" where
  "delta_of unescape parse_float fs before_path after_path name = (case (map_of fs before_path, map_of fs after_path) of
      (Some b, Some a) \<Rightarrow>
        bind_res (bind_res b (parse_prometheus_text unescape parse_float)) (\<lambda>before.
        bind_res (bind_res a (parse_prometheus_text unescape parse_float)) (\<lambda>after.
          Inr [(name, counter_delta before after name)]))
    | _ \<Rightarrow> Inr [])"

definition divide_path :: "path \<Rightarrow> json \<Rightarrow> script_exn + path" where
  "divide_path p j = (case j of JStr s \<Rightarrow> Inr (path_join p (py_path s)) | _ \<Rightarrow> Inl STypeError)"

definition artifact_counter_deltas :: "(string \<Rightarrow> script_exn + string) \<Rightarrow> (string \<Rightarrow> real option) \<Rightarrow>
    (path \<times> (script_exn + string)) list \<Rightarrow> json \<Rightarrow> path \<Rightarrow> script_exn + (string \<times> counter_change) list" where
  "artifact_counter_deltas unescape parse_float fs result result_path =
     bind_res (get_method result ''metric_artifacts'' (JObj [])) (\<lambda>artifacts.
     bind_res (map_res (\<lambda>(source, name).
         bind_res (get_method artifacts (source @ ''_before'') JNull) (\<lambda>before_name.
         bind_res (get_method artifacts (source @ ''_after'') JNull) (\<lambda>after_name.
         if \<not> py_truthy before_name \<or> \<not> py_truthy after_name then Inr []
         else
          bind_res (divide_path (path_parent result_path) before_name) (\<lambda>before_path.
          bind_res (divide_path (path_parent result_path) after_name) (\<lambda>after_path.
            delta_of unescape parse_float fs before_path after_path name)))))
       [(''gateway'', ''gateway_observed_output_tokens_total''), (''vllm'', ''vllm:generation_tokens'')])
       (\<lambda>deltas. Inr (concat deltas)))"

section \<open>Differences of counters\<close>

lemma map_of_values: "map_of (values_of s name) l = map_of s (name, l)"
  by (induction s) (auto simp: values_of_def)

lemma values_distinct: "distinct (map fst s) \<Longrightarrow> distinct (map fst (values_of s name))"
  by (induction s) (force simp: values_of_def)+

lemma parse_lines_distinct: "parse_lines u f ls acc = Inr s \<Longrightarrow> distinct (map fst acc) \<Longrightarrow> distinct (map fst s)"
  by (induction ls arbitrary: acc) (auto simp: bind_res_Inr_iff distinct_update split: option.splits)

lemma parse_distinct: "parse_prometheus_text u f raw = Inr s \<Longrightarrow> distinct (map fst s)"
  unfolding parse_prometheus_text_def by (erule parse_lines_distinct) simp

definition reading :: "series \<Rightarrow> string \<Rightarrow> labels \<Rightarrow> real" where
  "reading s name l = (case map_of s (name, l) of Some v \<Rightarrow> v | None \<Rightarrow> 0)"

definition labels_of :: "series \<Rightarrow> string \<Rightarrow> labels set" where
  "labels_of s name = {l. map_of s (name, l) \<noteq> None}"

lemma labels_of_values: "labels_of s name = fst ` set (values_of s name)"
  unfolding labels_of_def map_of_values [symmetric] map_of_eq_None_iff by auto

lemma finite_labels [simp]: "finite (labels_of s name)"
  by (simp add: labels_of_values)

lemma counter_value_sum:
  assumes "distinct (map fst after)"
  shows "cc_value (counter_delta before after name) =
    (if labels_of after name \<noteq> {} \<and> labels_of before name \<subseteq> labels_of after name \<and>
        (\<forall>l\<in>labels_of after name. reading before name l \<le> reading after name l)
     then Some (\<Sum>l\<in>labels_of after name. reading after name l - reading before name l) else None)"
proof -
  let ?after = "values_of after name"
  have d: "distinct (map fst ?after)" by (rule values_distinct [OF assms])
  have r: "v = reading after name l" if "(l, v) \<in> set ?after" for l v
    using map_of_is_SomeI [OF d that] by (simp add: reading_def map_of_values)
  have zero: "at_or_zero (values_of before name) l = reading before name l" for l
    by (simp add: at_or_zero_def reading_def map_of_values)
  have "sum_list (map (\<lambda>(l, v). v - reading before name l) ?after) =
      sum_list (map (\<lambda>l. reading after name l - reading before name l) (map fst ?after))"
    using r by (auto intro!: arg_cong [where f = sum_list])
  also have "\<dots> = (\<Sum>l\<in>labels_of after name. reading after name l - reading before name l)"
    unfolding labels_of_values set_map [symmetric] by (rule sum.distinct_set_conv_list [OF d, symmetric])
  finally have total: "sum_list (map (\<lambda>(l, v). v - reading before name l) ?after) = \<dots>" .
  have reset: "list_ex (\<lambda>(l, v). v < reading before name l) ?after \<longleftrightarrow>
      \<not> (\<forall>l\<in>labels_of after name. reading before name l \<le> reading after name l)"
    unfolding labels_of_values list_ex_iff using r by force
  have missing: "list_ex (\<lambda>(l, v). map_of ?after l = None) (values_of before name) \<longleftrightarrow>
      \<not> labels_of before name \<subseteq> labels_of after name"
    unfolding list_ex_iff labels_of_values [of before] by (force simp: labels_of_def map_of_values)
  have "?after = [] \<longleftrightarrow> labels_of after name = {}" unfolding labels_of_values by simp
  then show ?thesis using total reset missing by (simp add: counter_delta_def Let_def zero)
qed

text \<open>
  What a counter did adds up. Let three expositions be read one after the other. If a counter neither went back nor lost a series
  from the first to the second and from the second to the third, the same holds from the first to the third, both increases are
  not negative, and their sum is the increase that is computed from the first to the third directly.
\<close>

theorem counter_delta_chains:
  assumes "parse_prometheus_text unescape parse_float text_a = Inr a" and "parse_prometheus_text unescape parse_float text_b = Inr b"
    and "parse_prometheus_text unescape parse_float text_c = Inr c"
    and "cc_value (counter_delta a b name) = Some u" and "cc_value (counter_delta b c name) = Some v"
  shows "cc_value (counter_delta a c name) = Some (u + v) \<and> 0 \<le> u \<and> 0 \<le> v"
proof -
  note sums = counter_value_sum [OF parse_distinct [OF assms(2)]] counter_value_sum [OF parse_distinct [OF assms(3)]]
  let ?D = "\<lambda>x y l. reading y name l - reading x name l"
  have ab: "labels_of b name \<noteq> {}" "labels_of a name \<subseteq> labels_of b name" "\<And>l. l \<in> labels_of b name \<Longrightarrow> reading a name l \<le> reading b name l"
    "u = (\<Sum>l\<in>labels_of b name. ?D a b l)" using assms(4) by (auto simp: sums split: if_splits)
  have bc: "labels_of b name \<subseteq> labels_of c name" "\<And>l. l \<in> labels_of c name \<Longrightarrow> reading b name l \<le> reading c name l"
    "v = (\<Sum>l\<in>labels_of c name. ?D b c l)" using assms(5) by (auto simp: sums split: if_splits)
  have outside: "reading x name l = 0" if "l \<notin> labels_of x name" for x l
    using that by (simp add: labels_of_def reading_def)
  have "u = (\<Sum>l\<in>labels_of c name. ?D a b l)"
    unfolding ab(4) using bc(1) ab(2) outside by (intro sum.mono_neutral_left) auto
  then have "u + v = (\<Sum>l\<in>labels_of c name. ?D a c l)" unfolding bc(3) by (simp flip: sum.distrib)
  moreover have "reading a name l \<le> reading c name l" if l: "l \<in> labels_of c name" for l
    using ab(2,3) bc(2) [OF l] outside by (metis order_trans subsetD order_refl)
  moreover have "0 \<le> u" "0 \<le> v" unfolding ab(4) bc(3) using ab(3) bc(2) by (simp_all add: sum_nonneg)
  ultimately show ?thesis using ab(1,2) bc(1) by (auto simp: sums(2))
qed

definition small_float :: "string \<Rightarrow> real option" where
  "small_float s = (if s = ''1'' then Some 1 else if s = ''3'' then Some 3 else if s = ''7'' then Some 7 else None)"

lemma small_texts:
  "parse_prometheus_text Inr small_float (''x{k='' @ [CHR 0x22, CHR ''v'', CHR 0x22] @ ''} 1'') = Inr [((''x'', [(''k'', ''v'')]), 1)]"
  "parse_prometheus_text Inr small_float (''x{k='' @ [CHR 0x22, CHR ''v'', CHR 0x22] @ ''} 3'') = Inr [((''x'', [(''k'', ''v'')]), 3)]"
  "parse_prometheus_text Inr small_float (''x{k='' @ [CHR 0x22, CHR ''v'', CHR 0x22] @ ''} 7'') = Inr [((''x'', [(''k'', ''v'')]), 7)]"
  by code_simp+

lemma small_delta:
  "u \<le> v \<Longrightarrow> cc_value (counter_delta [((''x'', [(''k'', ''v'')]), u)] [((''x'', [(''k'', ''v'')]), v)] ''x'') = Some (v - u)"
  by (simp add: counter_delta_def values_of_def at_or_zero_def)

theorem counter_delta_chains_witness:
  "cc_value (counter_delta [((''x'', [(''k'', ''v'')]), 1)] [((''x'', [(''k'', ''v'')]), 7)] ''x'') = Some ((3 - 1) + (7 - 3)) \<and>
   0 \<le> (3 - 1 :: real) \<and> 0 \<le> (7 - 3 :: real)"
  by (rule counter_delta_chains [OF small_texts]) (rule small_delta, simp)+

end
