(* ===== verification/Gw_Compare.thy ===== *)
theory Gw_Compare
  imports Gw_Counters
begin

text \<open>
  \<open>benchmark/scripts/summarize.py\<close>: the rows of the summary, the comparison of the three arms of a benchmark, run by run and over the
  repetitions, and the report. Numbers are exact; how \<open>:.3f\<close> prints one is a parameter, as are the files.
\<close>

section \<open>Rows\<close>

fun optional_at :: "json \<Rightarrow> string list \<Rightarrow> json" where
  "optional_at v [] = v"
| "optional_at v (name # names) = (case v of JObj d \<Rightarrow> optional_at (dict_get d name) names | _ \<Rightarrow> JNull)"

text \<open>\<open>s.join(xs)\<close> raises on what is not a string.\<close>

definition join_json :: "string \<Rightarrow> json list \<Rightarrow> script_exn + string" where
  "join_json sep xs = bind_res (map_res (\<lambda>x. case x of JStr s \<Rightarrow> Inr s | _ \<Rightarrow> Inl STypeError) xs) (\<lambda>ss. Inr (join sep ss))"

definition flatten :: "json \<Rightarrow> script_exn + json_dict" where
  "flatten result =
     bind_res (get_item result ''summary'') (\<lambda>summary.
     bind_res (get_item result ''configuration'') (\<lambda>config.
     bind_res (get_item result ''metadata'') (\<lambda>metadata.
     let found = optional_at result [''metrics'', ''batch'']; batch = (if py_truthy found then found else JObj [])
     in
     bind_res (get_method result ''validity'' (JObj [])) (\<lambda>validity.
     map_res (\<lambda>(k, r). bind_res r (\<lambda>v. Inr (k, v)))
       [(''run_id'', get_item metadata ''run_id''), (''repeat'', get_item metadata ''repeat''),
        (''target'', get_item metadata ''label''), (''mode'', get_item config ''mode''),
        (''concurrency'', get_item config ''concurrency''), (''requests'', get_item summary ''attempted''),
        (''success'', get_item summary ''successful''), (''error_rate'', get_item summary ''error_rate''),
        (''e2e_p50_ms'', Inr (optional_at summary [''e2e'', ''p50_ms''])),
        (''e2e_p95_ms'', Inr (optional_at summary [''e2e'', ''p95_ms''])),
        (''e2e_p99_ms'', Inr (optional_at summary [''e2e'', ''p99_ms''])),
        (''ttft_p50_ms'', Inr (optional_at summary [''ttft'', ''p50_ms''])),
        (''ttft_p95_ms'', Inr (optional_at summary [''ttft'', ''p95_ms''])),
        (''ttft_p99_ms'', Inr (optional_at summary [''ttft'', ''p99_ms''])),
        (''request_throughput_rps'', get_item summary ''request_throughput_rps''),
        (''output_throughput_tps'', get_method summary ''output_throughput_tps'' JNull),
        (''mean_batch_size'', get_method batch ''mean_size'' JNull),
        (''batch_wait_p95_ms'', get_method batch ''wait_p95_ms'' JNull),
        (''queue_wait_p95_ms'', get_method batch ''queue_wait_p95_ms'' JNull),
        (''valid'', get_method validity ''valid'' (JBool False)),
        (''invalid_reasons'', bind_res (get_method validity ''reasons'' JNull) (\<lambda>reasons.
            bind_res (if py_truthy reasons then iterate reasons else Inr []) (\<lambda>xs.
            bind_res (join_json '';'' xs) (\<lambda>s. Inr (JStr s)))))]))))"

section \<open>What may be compared\<close>

definition ARMS :: "string list" where
  "ARMS = [''direct'', ''gateway_no_batch'', ''gateway_batch'']"

text \<open>\<open>x.get(s, {}).get(k, v)\<close>\<close>

definition get_in :: "json \<Rightarrow> string \<Rightarrow> string \<Rightarrow> json \<Rightarrow> script_exn + json" where
  "get_in result s k v = bind_res (get_method result s (JObj [])) (\<lambda>x. get_method x k v)"

definition arm_errors :: "string \<times> json \<Rightarrow> script_exn + string list" where
  "arm_errors lr = (case lr of (label, result) \<Rightarrow>
     bind_res (get_in result ''validity'' ''valid'' JNull) (\<lambda>valid.
     bind_res (get_in result ''summary'' ''attempted'' (JInt 0)) (\<lambda>attempted.
     bind_res (get_in result ''metadata'' ''label'' JNull) (\<lambda>name. Inr
       ((if py_truthy valid then [] else [label @ '' run is invalid'']) @
        (if py_same attempted (JInt 0) then [label @ '' has zero measured requests''] else []) @
        (if py_truthy name then [] else [label @ '' is missing target metadata'']))))))"

definition arm :: "(string \<times> json) list \<Rightarrow> string \<Rightarrow> script_exn + json" where
  "arm arms label = (case map_of arms label of Some r \<Rightarrow> Inr r | None \<Rightarrow> Inl SKeyError)"

definition drift_fields :: "string list" where
  "drift_fields = [''dataset_sha256'', ''model'', ''workload_fingerprint'', ''vllm_config_fingerprint'']"

definition drift_errors :: "json list \<Rightarrow> string \<Rightarrow> script_exn + string list" where
  "drift_errors configs field =
     bind_res (map_res (\<lambda>c. bind_res (get_method c field JNull) (\<lambda>v. if hashable v then Inr v else Inl STypeError)) configs) (\<lambda>vs.
       Inr (if length (py_set vs) \<noteq> 1 then [''different '' @ field @ '' across compared arms''] else []))"

text \<open>The two gateway arms: one build, batching off and on.\<close>

definition gateway_errors :: "json \<Rightarrow> json \<Rightarrow> script_exn + string list" where
  "gateway_errors off on =
     bind_res (get_in off ''environment'' ''gateway_git_sha'' JNull) (\<lambda>off_sha.
     bind_res (get_in on ''environment'' ''gateway_git_sha'' JNull) (\<lambda>on_sha.
     bind_res (bind_res (get_item off ''configuration'') (\<lambda>c. get_method c ''batching_enabled'' JNull)) (\<lambda>off_flag.
     bind_res (bind_res (get_item on ''configuration'') (\<lambda>c. get_method c ''batching_enabled'' JNull)) (\<lambda>on_flag. Inr
       ((if \<not> py_truthy off_sha \<or> py_same off_sha (JStr ''unknown'') \<or> \<not> py_same off_sha on_sha
         then [''gateway OFF/ON Git SHA is missing or different''] else []) @
        (if py_same off_flag (JStr ''false'') then [] else [''gateway_no_batch does not record batching_enabled=false'']) @
        (if py_same on_flag (JStr ''true'') then [] else [''gateway_batch does not record batching_enabled=true'']))))))"

definition comparison_errors :: "(string \<times> json) list \<Rightarrow> script_exn + string list" where
  "comparison_errors arms =
     (if set (map fst arms) \<noteq> set ARMS then Inr [''comparison requires '' @ join '', '' ARMS]
      else
       bind_res (map_res arm_errors arms) (\<lambda>own.
       bind_res (map_res (\<lambda>label. bind_res (arm arms label) (\<lambda>r. get_item r ''configuration'')) ARMS) (\<lambda>configs.
       bind_res (map_res (drift_errors configs) drift_fields) (\<lambda>drift.
       bind_res (arm arms ''gateway_no_batch'') (\<lambda>off.
       bind_res (arm arms ''gateway_batch'') (\<lambda>on.
       bind_res (gateway_errors off on) (\<lambda>gateway. Inr (concat own @ concat drift @ gateway))))))))"

section \<open>Comparing three arms\<close>

definition metric_value :: "json \<Rightarrow> string \<Rightarrow> script_exn + json" where
  "metric_value result metric = bind_res (get_item result ''summary'') (\<lambda>summary.
     if metric = ''e2e_p95_ms'' then Inr (optional_at summary [''e2e'', ''p95_ms'']) else get_method summary metric JNull)"

text \<open>Arithmetic on what JSON yields: integers stay integers, truth values are integers.\<close>

definition py_sub :: "json \<Rightarrow> json \<Rightarrow> script_exn + json" where
  "py_sub x y = (case (py_number x, py_number y) of
      (Some a, Some b) \<Rightarrow> Inr (if is_int x \<and> is_int y then JInt \<lfloor>a - b\<rfloor> else JFloat (a - b))
    | _ \<Rightarrow> Inl STypeError)"

definition difference :: "json \<Rightarrow> json \<Rightarrow> script_exn + json" where
  "difference before after = (if before = JNull \<or> after = JNull then Inr JNull else py_sub after before)"

definition relative_percent :: "json \<Rightarrow> json \<Rightarrow> script_exn + json" where
  "relative_percent off on =
     (if \<not> hashable off then Inl STypeError
      else if off = JNull \<or> py_number off = Some 0 \<or> on = JNull then Inr JNull
      else case (py_number on, py_number off) of
          (Some x, Some y) \<Rightarrow> Inr (JFloat ((x / y - 1) * 100))
        | _ \<Rightarrow> Inl STypeError)"

record comparison =
  cmp_mode :: json
  cmp_concurrency :: json
  cmp_repeat :: json
  cmp_targets :: "(string \<times> json_dict) list"
  cmp_overhead :: json_dict
  cmp_effect :: json_dict

definition compared_metrics :: "string list" where
  "compared_metrics = [''e2e_p95_ms'', ''request_throughput_rps'', ''output_throughput_tps'', ''error_rate'']"

text \<open>The entries of one metric: in the targets, in the overhead of the gateway, in the effect of batching.\<close>

definition compare_metric :: "(string \<times> json) list \<Rightarrow> string \<Rightarrow> script_exn + (string \<times> json_dict) \<times> (string \<times> json) \<times> json_dict" where
  "compare_metric arms metric =
     bind_res (bind_res (arm arms ''direct'') (\<lambda>r. metric_value r metric)) (\<lambda>direct.
     bind_res (bind_res (arm arms ''gateway_no_batch'') (\<lambda>r. metric_value r metric)) (\<lambda>off.
     bind_res (bind_res (arm arms ''gateway_batch'') (\<lambda>r. metric_value r metric)) (\<lambda>on.
     bind_res (difference direct off) (\<lambda>overhead.
     bind_res (difference off on) (\<lambda>effect.
     bind_res (if metric \<in> {''request_throughput_rps'', ''output_throughput_tps''}
               then bind_res (relative_percent off on) (\<lambda>p. Inr [(metric @ ''_relative_percent'', p)]) else Inr []) (\<lambda>relative.
       Inr ((metric, [(''direct'', direct), (''gateway_no_batch'', off), (''gateway_batch'', on)]), (metric, overhead),
            (metric, effect) # relative)))))))"

type_synonym group_key = "json list"
type_synonym groups = "(group_key \<times> (string \<times> json) list) list"

definition compare_arms :: "group_key \<Rightarrow> (string \<times> json) list \<Rightarrow> script_exn + comparison" where
  "compare_arms key arms = bind_res (map_res (compare_metric arms) compared_metrics) (\<lambda>entries.
     Inr \<lparr>cmp_mode = key ! 0, cmp_concurrency = key ! 1, cmp_repeat = key ! 2, cmp_targets = map fst entries,
          cmp_overhead = map (fst \<circ> snd) entries, cmp_effect = concat (map (snd \<circ> snd) entries)\<rparr>)"

section \<open>Grouping\<close>

text \<open>A dictionary whose keys are tuples: equal keys are one key, and it keeps its first spelling.\<close>

fun group_at :: "(group_key \<times> 'a list) list \<Rightarrow> group_key \<Rightarrow> 'a list" where
  "group_at [] k = []"
| "group_at ((k', a) # gs) k = (if list_all2 py_eq k k' then a else group_at gs k)"

fun put_group :: "group_key \<Rightarrow> 'a list \<Rightarrow> (group_key \<times> 'a list) list \<Rightarrow> (group_key \<times> 'a list) list" where
  "put_group k a [] = [(k, a)]"
| "put_group k a ((k', a') # gs) = (if list_all2 py_eq k k' then (k', a) # gs else (k', a') # put_group k a gs)"

text \<open>\<open>sorted\<close> on distinct tuples. However it proceeds, it compares two tuples that cannot be compared if there are such.\<close>

definition scalar_less :: "json \<Rightarrow> json \<Rightarrow> bool option" where
  "scalar_less x y = (case (py_number x, py_number y) of
      (Some a, Some b) \<Rightarrow> Some (a < b)
    | _ \<Rightarrow> (case (x, y) of (JStr s, JStr t) \<Rightarrow> Some (string_le s t \<and> s \<noteq> t) | _ \<Rightarrow> None))"

fun key_less :: "group_key \<Rightarrow> group_key \<Rightarrow> bool option" where
  "key_less (x # xs) (y # ys) = (if py_eq x y then key_less xs ys else scalar_less x y)"
| "key_less xs ys = Some (xs = [] \<and> ys \<noteq> [])"

fun insert_group :: "group_key \<times> 'a \<Rightarrow> (group_key \<times> 'a) list \<Rightarrow> (group_key \<times> 'a) list" where
  "insert_group g [] = [g]"
| "insert_group g (h # hs) = (if key_less (fst h) (fst g) = Some True then h # insert_group g hs else g # h # hs)"

definition sort_groups :: "(group_key \<times> 'a) list \<Rightarrow> script_exn + (group_key \<times> 'a) list" where
  "sort_groups gs = (if list_all (\<lambda>g. list_all (\<lambda>h. key_less (fst g) (fst h) \<noteq> None) gs) gs
     then Inr (foldr insert_group gs []) else Inl STypeError)"

definition key_text :: "(real \<Rightarrow> string) \<Rightarrow> group_key \<Rightarrow> string" where
  "key_text fr key = ''('' @ join '', '' (map (py_repr fr) key) @ '')''"

definition key_of :: "json \<Rightarrow> script_exn + group_key" where
  "key_of result =
     bind_res (bind_res (get_item result ''configuration'') (\<lambda>c. get_item c ''mode'')) (\<lambda>mode.
     bind_res (bind_res (get_item result ''configuration'') (\<lambda>c. get_item c ''concurrency'')) (\<lambda>concurrency.
     bind_res (bind_res (get_item result ''metadata'') (\<lambda>m. get_item m ''repeat'')) (\<lambda>repeat.
       if list_all hashable [mode, concurrency, repeat] then Inr [mode, concurrency, repeat] else Inl STypeError)))"

text \<open>The counters of a result, with whatever files there are.\<close>

type_synonym deltas = "json \<Rightarrow> path \<Rightarrow> script_exn + (string \<times> counter_change) list"

definition add_result :: "(real \<Rightarrow> string) \<Rightarrow> deltas \<Rightarrow> json \<times> path \<Rightarrow> groups \<Rightarrow> script_exn + groups \<times> string list" where
  "add_result fr deltas rp groups = (case rp of (result, path) \<Rightarrow>
     bind_res (deltas result path) (\<lambda>ds.
     let resets = map (\<lambda>(metric, d). path_str path @ '': invalid_counter_reset:'' @ metric) (filter (\<lambda>(metric, d). cc_reset d) ds)
     in
     bind_res (bind_res (get_item result ''metadata'') (\<lambda>m. get_item m ''label'')) (\<lambda>label.
     case label of
       JStr l \<Rightarrow>
        (if l \<in> set ARMS
         then bind_res (key_of result) (\<lambda>key.
           let old = group_at groups key
           in Inr (put_group key (AList.update l result old) groups,
                   resets @ (if map_of old l \<noteq> None then [''duplicate arm '' @ l @ '' for '' @ key_text fr key] else [])))
         else Inr (groups, resets))
     | _ \<Rightarrow> Inr (groups, resets))))"

fun add_results :: "(real \<Rightarrow> string) \<Rightarrow> deltas \<Rightarrow> (json \<times> path) list \<Rightarrow> groups \<Rightarrow> script_exn + groups \<times> string list" where
  "add_results fr deltas [] groups = Inr (groups, [])"
| "add_results fr deltas (rp # rps) groups =
     bind_res (add_result fr deltas rp groups) (\<lambda>(groups1, errors).
     bind_res (add_results fr deltas rps groups1) (\<lambda>(groups2, more). Inr (groups2, errors @ more)))"

definition compare_group :: "(real \<Rightarrow> string) \<Rightarrow> group_key \<times> (string \<times> json) list \<Rightarrow> script_exn + comparison list \<times> string list" where
  "compare_group fr g = (case g of (key, arms) \<Rightarrow>
     bind_res (comparison_errors arms) (\<lambda>invalid.
       if invalid \<noteq> [] then Inr ([], map (\<lambda>m. key_text fr key @ '': '' @ m) invalid)
       else bind_res (compare_arms key arms) (\<lambda>item. Inr ([item], []))))"

definition build_comparisons :: "(real \<Rightarrow> string) \<Rightarrow> deltas \<Rightarrow> (json \<times> path) list \<Rightarrow> script_exn + comparison list \<times> string list" where
  "build_comparisons fr deltas results =
     bind_res (add_results fr deltas results []) (\<lambda>(groups, errors).
     bind_res (sort_groups groups) (\<lambda>sorted_groups.
     bind_res (map_res (compare_group fr) sorted_groups) (\<lambda>compared.
       Inr (concat (map fst compared), errors @ concat (map snd compared)))))"

end
