(* ===== verification/Gw_Compare_Claims.thy ===== *)
theory Gw_Compare_Claims
  imports Gw_Compare
begin

text \<open>
  What the comparison of benchmark arms guarantees: only results that belong together are compared, and the numbers of a comparison are
  those of the results.
\<close>

section \<open>Groups\<close>

definition label_is :: "json \<Rightarrow> string \<Rightarrow> bool" where
  "label_is result l \<longleftrightarrow> bind_res (get_item result ''metadata'') (\<lambda>m. get_item m ''label'') = Inr (JStr l)"

definition belongs :: "json \<Rightarrow> group_key \<Rightarrow> bool" where
  "belongs result key \<longleftrightarrow> (\<exists>k. key_of result = Inr k \<and> list_all2 py_eq k key)"

definition good_group :: "json set \<Rightarrow> group_key \<Rightarrow> (string \<times> json) list \<Rightarrow> bool" where
  "good_group R k arms \<longleftrightarrow> length k = 3 \<and> distinct (map fst arms) \<and>
     (\<forall>(l, r)\<in>set arms. r \<in> R \<and> label_is r l \<and> belongs r k)"

definition good_groups :: "json set \<Rightarrow> groups \<Rightarrow> bool" where
  "good_groups R groups \<longleftrightarrow> (\<forall>g\<in>set groups. good_group R (fst g) (snd g))"

lemma put_group_members:
  "(k', a') \<in> set (put_group k a gs) \<Longrightarrow> (k', a') \<in> set gs \<or>
     a' = a \<and> (k' = k \<and> group_at gs k = [] \<or> list_all2 py_eq k k' \<and> (k', group_at gs k) \<in> set gs)"
  by (induction gs) (auto split: if_splits)

lemma put_group_keys: "fst ` set gs \<subseteq> fst ` set (put_group k a gs)"
  by (induction k a gs rule: put_group.induct) auto

lemma put_group_has: "list_all2 py_eq k k \<Longrightarrow> \<exists>k'\<in>fst ` set (put_group k a gs). list_all2 py_eq k k'"
  by (induction k a gs rule: put_group.induct) auto

lemma hashable_eq: "hashable x \<Longrightarrow> py_eq x x"
  by (cases x) (simp_all add: scalar_eq_def)

lemma key_of_shape:
  assumes "key_of result = Inr k"
  shows "length k = 3 \<and> list_all2 py_eq k k"
  using assms by (auto simp: key_of_def bind_res_Inr_iff hashable_eq split: if_splits)

lemma add_result_groups:
  assumes "add_result fr deltas (result, path) groups = Inr (groups', errors)"
  shows "(\<exists>l k. label_is result l \<and> l \<in> set ARMS \<and> key_of result = Inr k \<and>
      groups' = put_group k (AList.update l result (group_at groups k)) groups) \<or>
    groups' = groups \<and> (\<forall>l\<in>set ARMS. \<not> label_is result l)"
proof -
  obtain ds label where a: "deltas result path = Inr ds"
    "bind_res (get_item result ''metadata'') (\<lambda>m. get_item m ''label'') = Inr label"
    using assms unfolding add_result_def Let_def prod.case bind_res_Inr_iff by blast
  show ?thesis
  proof (cases "\<exists>l\<in>set ARMS. label = JStr l")
    case True
    then obtain l where l: "l \<in> set ARMS" "label = JStr l" by blast
    then have "label_is result l" using a(2) by (simp add: label_is_def)
    moreover obtain k where "key_of result = Inr k" "groups' = put_group k (AList.update l result (group_at groups k)) groups"
      using assms a l by (auto simp: add_result_def Let_def bind_res_Inr_iff simp del: put_group.simps)
    ultimately show ?thesis using l(1) by blast
  next
    case False
    then have "\<forall>l\<in>set ARMS. \<not> label_is result l" using a(2) by (auto simp: label_is_def)
    moreover have "groups' = groups" using assms a False by (cases label) (auto simp: add_result_def Let_def split: if_splits)
    ultimately show ?thesis by blast
  qed
qed

lemma update_good:
  assumes "good_group R k' old" "key_of result = Inr k" "list_all2 py_eq k k'" "label_is result l" "result \<in> R"
  shows "good_group R k' (AList.update l result old)"
proof -
  have "belongs result k'" using assms(2,3) by (auto simp: belongs_def)
  moreover have "set (AList.update l result old) \<subseteq> insert (l, result) (set old)" by (induction old) auto
  ultimately show ?thesis using assms(1,4,5) by (auto simp: good_group_def distinct_update)
qed

lemma add_result_good:
  assumes good: "good_groups R groups" and add: "add_result fr deltas (result, path) groups = Inr (groups', errors)" and "result \<in> R"
  shows "good_groups R groups'"
  using add_result_groups [OF add]
proof (elim disjE exE conjE)
  fix l k
  assume l: "label_is result l" and k: "key_of result = Inr k"
    and groups': "groups' = put_group k (AList.update l result (group_at groups k)) groups"
  note upd = update_good [OF _ k _ l assms(3)]
  have "good_group R k' a'" if "(k', a') \<in> set groups'" for k' a'
    using put_group_members [OF that [unfolded groups']]
  proof (elim disjE conjE)
    assume "(k', a') \<in> set groups"
    then show ?thesis using good by (auto simp: good_groups_def)
  next
    assume n: "a' = AList.update l result (group_at groups k)" "k' = k" "group_at groups k = []"
    have "good_group R k []" using key_of_shape [OF k] by (simp add: good_group_def)
    then show ?thesis using upd [of k "[]"] key_of_shape [OF k] n by simp
  next
    assume n: "a' = AList.update l result (group_at groups k)" "list_all2 py_eq k k'" "(k', group_at groups k) \<in> set groups"
    then have "good_group R k' (group_at groups k)" using good by (auto simp: good_groups_def)
    then show ?thesis using upd n(1,2) by simp
  qed
  then show ?thesis by (auto simp: good_groups_def)
qed (use good in simp)

lemma add_results_good:
  "add_results fr deltas rps groups = Inr (groups', errors) \<Longrightarrow> good_groups R groups \<Longrightarrow> fst ` set rps \<subseteq> R \<Longrightarrow> good_groups R groups'"
proof (induction rps arbitrary: groups errors)
  case (Cons rp rps)
  obtain g1 e1 e2 where s: "add_result fr deltas (fst rp, snd rp) groups = Inr (g1, e1)" "add_results fr deltas rps g1 = Inr (groups', e2)"
    using Cons.prems(1) by (auto simp: bind_res_Inr_iff)
  show ?case using Cons.IH [OF s(2) add_result_good [OF Cons.prems(2) s(1)]] Cons.prems(3) by auto
qed simp

lemma sort_groups_set: "sort_groups gs = Inr hs \<Longrightarrow> set hs = set gs"
proof -
  have i: "set (insert_group g hs) = insert g (set hs)" for g :: "group_key \<times> 'a" and hs by (induction hs) auto
  have "set (foldr insert_group gs []) = set gs" for gs :: "(group_key \<times> 'a) list" by (induction gs) (auto simp: i)
  then show "sort_groups gs = Inr hs \<Longrightarrow> set hs = set gs" by (auto simp: sort_groups_def split: if_splits)
qed

lemma map_res_member:
  assumes "map_res f xs = Inr ys"
  shows "y \<in> set ys \<Longrightarrow> \<exists>x\<in>set xs. f x = Inr y" "x \<in> set xs \<Longrightarrow> \<exists>y\<in>set ys. f x = Inr y"
  using assms unfolding map_res_Inr_iff by (induction xs ys rule: list_all2_induct) auto

lemma comparison_from_group:
  assumes "build_comparisons fr deltas loaded = Inr (items, errors)" and "c \<in> set items"
  shows "\<exists>k arms. good_group (fst ` set loaded) k arms \<and> comparison_errors arms = Inr [] \<and> compare_arms k arms = Inr c"
proof -
  obtain groups e sorted compared where b: "add_results fr deltas loaded [] = Inr (groups, e)" "sort_groups groups = Inr sorted"
    "map_res (compare_group fr) sorted = Inr compared" "items = concat (map fst compared)"
    using assms(1) by (auto simp: build_comparisons_def bind_res_Inr_iff)
  obtain cs es where m: "(cs, es) \<in> set compared" "c \<in> set cs" using b(4) assms(2) by auto
  obtain k arms where g: "(k, arms) \<in> set groups" "compare_group fr (k, arms) = Inr (cs, es)"
    using map_res_member(1) [OF b(3) m(1)] sort_groups_set [OF b(2)] by auto
  have "good_groups (fst ` set loaded) groups" using add_results_good [OF b(1)] by (auto simp: good_groups_def)
  then have "good_group (fst ` set loaded) k arms" using g(1) by (auto simp: good_groups_def)
  moreover have "comparison_errors arms = Inr [] \<and> compare_arms k arms = Inr c"
    using g(2) m(2) by (auto simp: compare_group_def bind_res_Inr_iff split: if_splits)
  ultimately show ?thesis by blast
qed

section \<open>What is compared\<close>

definition usable :: "json \<Rightarrow> bool" where
  "usable r \<longleftrightarrow> (\<exists>v a. get_in r ''validity'' ''valid'' JNull = Inr v \<and> py_truthy v \<and>
     get_in r ''summary'' ''attempted'' (JInt 0) = Inr a \<and> \<not> py_same a (JInt 0))"

definition setting_of :: "json \<Rightarrow> string \<Rightarrow> script_exn + json" where
  "setting_of r field = bind_res (get_item r ''configuration'') (\<lambda>c. get_method c field JNull)"

definition same_setting :: "json \<Rightarrow> json \<Rightarrow> json \<Rightarrow> string \<Rightarrow> bool" where
  "same_setting direct off on field \<longleftrightarrow> (\<exists>x y z. setting_of direct field = Inr x \<and> setting_of off field = Inr y \<and>
     setting_of on field = Inr z \<and> py_eq x y \<and> py_eq x z)"

text \<open>The three arms of one experiment: usable, over the same workload, one gateway build with batching off and on.\<close>

definition comparable :: "json \<Rightarrow> json \<Rightarrow> json \<Rightarrow> bool" where
  "comparable direct off on \<longleftrightarrow> usable direct \<and> usable off \<and> usable on \<and>
     list_all (same_setting direct off on) drift_fields \<and>
     (\<exists>x y. get_in off ''environment'' ''gateway_git_sha'' JNull = Inr x \<and> get_in on ''environment'' ''gateway_git_sha'' JNull = Inr y \<and>
       py_truthy x \<and> x \<noteq> JStr ''unknown'' \<and> py_same x y) \<and>
     setting_of off ''batching_enabled'' = Inr (JStr ''false'') \<and> setting_of on ''batching_enabled'' = Inr (JStr ''true'')"

lemma bind_res_InrE:
  assumes "bind_res r k = Inr y"
  obtains x where "r = Inr x" "k x = Inr y"
  using assms by (auto simp: bind_res_Inr_iff)

lemma hashable_scalar: "hashable x \<Longrightarrow> py_eq x y = scalar_eq x y"
  by (cases x) simp_all

lemma hashable_trans: "hashable x \<Longrightarrow> hashable y \<Longrightarrow> py_eq x y \<Longrightarrow> py_eq y z \<Longrightarrow> py_eq x z"
  unfolding hashable_scalar by (auto simp: scalar_eq_def split: option.splits if_splits)

lemma one_value:
  assumes "length (py_set [x, y, z]) = 1" "hashable x" "hashable y"
  shows "py_eq x y \<and> py_eq x z"
proof -
  have "filter (\<lambda>w. \<not> py_eq x w) (py_set [y, z]) = []" using assms(1) by simp
  then have "py_eq x y" "\<not> py_eq y z \<longrightarrow> py_eq x z" by (auto split: if_splits)
  then show ?thesis using hashable_trans [OF assms(2,3)] by blast
qed

lemma same_text: "py_same x (JStr s) \<longleftrightarrow> x = JStr s"
  by (cases x) (auto simp: scalar_eq_def)

lemma arm_known:
  assumes "set (map fst arms) = set ARMS" "l \<in> set ARMS"
  shows "\<exists>r. arm arms l = Inr r \<and> (l, r) \<in> set arms"
proof -
  have "map_of arms l \<noteq> None" using assms by (simp add: map_of_eq_None_iff)
  then show ?thesis by (auto simp: arm_def map_of_SomeD)
qed

lemma arm_errors_Nil: "arm_errors (l, r) = Inr [] \<Longrightarrow> usable r"
  by (auto simp: arm_errors_def usable_def bind_res_Inr_iff split: if_splits)

lemma drift_errors_Nil:
  assumes "drift_errors [x, y, z] field = Inr []" "get_item direct ''configuration'' = Inr x" "get_item off ''configuration'' = Inr y"
    "get_item on ''configuration'' = Inr z"
  shows "same_setting direct off on field"
proof -
  obtain a b c where v: "get_method x field JNull = Inr a" "get_method y field JNull = Inr b" "get_method z field JNull = Inr c"
    "hashable a" "hashable b" "length (py_set [a, b, c]) = 1"
    using assms(1) by (auto simp: drift_errors_def bind_res_Inr_iff simp del: py_set.simps split: if_splits)
  then show ?thesis using one_value [OF v(6,4,5)] assms(2-4) by (auto simp: same_setting_def setting_of_def)
qed

lemma gateway_errors_Nil:
  assumes "gateway_errors off on = Inr []"
  shows "(\<exists>x y. get_in off ''environment'' ''gateway_git_sha'' JNull = Inr x \<and> get_in on ''environment'' ''gateway_git_sha'' JNull = Inr y \<and>
       py_truthy x \<and> x \<noteq> JStr ''unknown'' \<and> py_same x y) \<and>
     setting_of off ''batching_enabled'' = Inr (JStr ''false'') \<and> setting_of on ''batching_enabled'' = Inr (JStr ''true'')"
proof -
  obtain x y fx fy where b: "get_in off ''environment'' ''gateway_git_sha'' JNull = Inr x"
    "get_in on ''environment'' ''gateway_git_sha'' JNull = Inr y"
    "setting_of off ''batching_enabled'' = Inr fx" "setting_of on ''batching_enabled'' = Inr fy"
    using assms unfolding gateway_errors_def setting_of_def [symmetric] bind_res_Inr_iff by blast
  then show ?thesis using assms unfolding gateway_errors_def setting_of_def [symmetric] b bind_res_simps same_text
    by (simp split: if_splits)
qed

lemma comparison_errors_Nil:
  assumes "comparison_errors arms = Inr []"
  shows "\<exists>direct off on. comparable direct off on \<and> arm arms ''direct'' = Inr direct \<and> arm arms ''gateway_no_batch'' = Inr off \<and>
    arm arms ''gateway_batch'' = Inr on \<and>
    {(''direct'', direct), (''gateway_no_batch'', off), (''gateway_batch'', on)} \<subseteq> set arms"
proof -
  have keys: "set (map fst arms) = set ARMS" using assms by (auto simp: comparison_errors_def split: if_splits)
  obtain direct off on where a: "arm arms ''direct'' = Inr direct" "arm arms ''gateway_no_batch'' = Inr off" "arm arms ''gateway_batch'' = Inr on"
    "(''direct'', direct) \<in> set arms" "(''gateway_no_batch'', off) \<in> set arms" "(''gateway_batch'', on) \<in> set arms"
    using arm_known [OF keys, of "''direct''"] arm_known [OF keys, of "''gateway_no_batch''"] arm_known [OF keys, of "''gateway_batch''"]
    by (auto simp: ARMS_def)
  note chain = assms [unfolded comparison_errors_def keys, unfolded simp_thms if_False]
  obtain own where own: "map_res arm_errors arms = Inr own" using chain by (rule bind_res_InrE)
  note chain = chain [unfolded own bind_res_simps]
  obtain configs where configs: "map_res (\<lambda>label. bind_res (arm arms label) (\<lambda>r. get_item r ''configuration'')) ARMS = Inr configs"
    using chain by (rule bind_res_InrE)
  note chain = chain [unfolded configs bind_res_simps]
  obtain drift where drift: "map_res (drift_errors configs) drift_fields = Inr drift" using chain by (rule bind_res_InrE)
  note chain = chain [unfolded drift a(2,3) bind_res_simps]
  obtain gateway where gateway: "gateway_errors off on = Inr gateway" using chain by (rule bind_res_InrE)
  note chain = chain [unfolded gateway bind_res_simps sum.inject append_is_Nil_conv]
  note e = own conjunct1 [OF chain] configs drift conjunct1 [OF conjunct2 [OF chain]]
    gateway [unfolded conjunct2 [OF conjunct2 [OF chain]]]
  have use: "usable r" if r: "(l, r) \<in> set arms" for l r
    using map_res_member(2) [OF e(1) r] e(2) arm_errors_Nil by fastforce
  obtain cx cy cz where c: "configs = [cx, cy, cz]" "get_item direct ''configuration'' = Inr cx" "get_item off ''configuration'' = Inr cy"
    "get_item on ''configuration'' = Inr cz" using e(3) a(1-3) by (auto simp: ARMS_def bind_res_Inr_iff)
  have "same_setting direct off on f" if f: "f \<in> set drift_fields" for f
  proof -
    obtain d where "d \<in> set drift" "drift_errors configs f = Inr d" using map_res_member(2) [OF e(4) f] by blast
    then show ?thesis using drift_errors_Nil e(5) c by fastforce
  qed
  then show ?thesis using use a gateway_errors_Nil [OF e(6)] by (auto simp: comparable_def list_all_iff)
qed

text \<open>A comparison records the values of a metric in the three arms, and their differences.\<close>

definition compared :: "comparison \<Rightarrow> json \<Rightarrow> json \<Rightarrow> json \<Rightarrow> string \<Rightarrow> bool" where
  "compared c direct off on m \<longleftrightarrow> (\<exists>x y z d e. metric_value direct m = Inr x \<and> metric_value off m = Inr y \<and> metric_value on m = Inr z \<and>
     (m, [(''direct'', x), (''gateway_no_batch'', y), (''gateway_batch'', z)]) \<in> set (cmp_targets c) \<and>
     difference x y = Inr d \<and> (m, d) \<in> set (cmp_overhead c) \<and> difference y z = Inr e \<and> (m, e) \<in> set (cmp_effect c))"

lemma compare_metric_spec:
  assumes "compare_metric arms m = Inr en" and "arm arms ''direct'' = Inr direct" "arm arms ''gateway_no_batch'' = Inr off"
    "arm arms ''gateway_batch'' = Inr on"
  shows "\<exists>x y z d e rel. metric_value direct m = Inr x \<and> metric_value off m = Inr y \<and> metric_value on m = Inr z \<and>
    difference x y = Inr d \<and> difference y z = Inr e \<and>
    en = ((m, [(''direct'', x), (''gateway_no_batch'', y), (''gateway_batch'', z)]), (m, d), (m, e) # rel)"
  using assms(1) unfolding compare_metric_def assms(2-4) bind_res_simps bind_res_Inr_iff by blast

lemma compare_arms_spec:
  assumes "compare_arms key arms = Inr c" and "length key = 3" and "arm arms ''direct'' = Inr direct"
    "arm arms ''gateway_no_batch'' = Inr off" "arm arms ''gateway_batch'' = Inr on"
  shows "key = [cmp_mode c, cmp_concurrency c, cmp_repeat c] \<and> list_all (compared c direct off on) compared_metrics"
proof -
  obtain entries where e: "map_res (compare_metric arms) compared_metrics = Inr entries"
    and c: "c = \<lparr>cmp_mode = key ! 0, cmp_concurrency = key ! 1, cmp_repeat = key ! 2, cmp_targets = map fst entries,
          cmp_overhead = map (fst \<circ> snd) entries, cmp_effect = concat (map (snd \<circ> snd) entries)\<rparr>"
    using assms(1) by (auto simp: compare_arms_def bind_res_Inr_iff)
  have "compared c direct off on m" if m: "m \<in> set compared_metrics" for m
  proof -
    obtain en where en: "en \<in> set entries" "compare_metric arms m = Inr en" using map_res_member(2) [OF e m] by blast
    obtain x y z d f rel where v: "metric_value direct m = Inr x" "metric_value off m = Inr y" "metric_value on m = Inr z"
      "difference x y = Inr d" "difference y z = Inr f"
      "en = ((m, [(''direct'', x), (''gateway_no_batch'', y), (''gateway_batch'', z)]), (m, d), (m, f) # rel)"
      using compare_metric_spec [OF en(2) assms(3-5)] by blast
    moreover have "fst en \<in> set (cmp_targets c)" "fst (snd en) \<in> set (cmp_overhead c)" "set (snd (snd en)) \<subseteq> set (cmp_effect c)"
      using en(1) by (auto simp: c)
    ultimately show ?thesis unfolding compared_def by auto
  qed
  moreover have "key = [key ! 0, key ! 1, key ! 2]" using assms(2) by (auto simp: numeral_3_eq_3 length_Suc_conv)
  ultimately show ?thesis by (simp add: c list_all_iff)
qed

text \<open>
  C37. Only like is compared with like. Every comparison of the summary comes from three of the given results, one for each arm, that agree
  with it in mode, concurrency and repetition; all three are valid and measured at least one request, they agree in the corpus, the model, the
  workload and the configuration of the server, the two gateways are of one known build, and batching is off in one and on in the other. The
  comparison holds the values these results report for each metric, and the differences between the arms.
\<close>

theorem compared_like_with_like:
  assumes "build_comparisons fr deltas loaded = Inr (items, errors)" and "c \<in> set items"
  shows "\<exists>direct off on. {direct, off, on} \<subseteq> fst ` set loaded \<and>
    label_is direct ''direct'' \<and> label_is off ''gateway_no_batch'' \<and> label_is on ''gateway_batch'' \<and>
    list_all (\<lambda>r. belongs r [cmp_mode c, cmp_concurrency c, cmp_repeat c]) [direct, off, on] \<and>
    comparable direct off on \<and> list_all (compared c direct off on) compared_metrics"
proof -
  obtain k arms where g: "good_group (fst ` set loaded) k arms" "comparison_errors arms = Inr []" "compare_arms k arms = Inr c"
    using comparison_from_group [OF assms] by blast
  obtain direct off on where a: "comparable direct off on" "arm arms ''direct'' = Inr direct" "arm arms ''gateway_no_batch'' = Inr off"
    "arm arms ''gateway_batch'' = Inr on"
    "{(''direct'', direct), (''gateway_no_batch'', off), (''gateway_batch'', on)} \<subseteq> set arms"
    using comparison_errors_Nil [OF g(2)] by blast
  have "length k = 3" using g(1) by (simp add: good_group_def)
  from compare_arms_spec [OF g(3) this a(2-4)] have c: "k = [cmp_mode c, cmp_concurrency c, cmp_repeat c]"
    "list_all (compared c direct off on) compared_metrics" by blast+
  have "r \<in> fst ` set loaded \<and> label_is r l \<and> belongs r k" if "(l, r) \<in> set arms" for l r
    using g(1) that by (auto simp: good_group_def)
  then show ?thesis using a(1,5) c by (intro exI [of _ direct] exI [of _ off] exI [of _ on]) auto
qed

end
