(* ===== verification/Gw_Summary.thy ===== *)
theory Gw_Summary
  imports Gw_Compare
begin

text \<open>
  The rest of \<open>benchmark/scripts/summarize.py\<close>: medians and ranges over repetitions, the report as text, the result files, and
  \<open>main\<close>. A value that is not a number is taken to raise where it is first aggregated.
\<close>

section \<open>Medians\<close>

record range =
  rg_median :: real
  rg_min :: real
  rg_max :: real

text \<open>\<open>statistics.median\<close>\<close>

definition median :: "real list \<Rightarrow> real" where
  "median xs = (let ys = sort xs; n = length ys; i = n div 2
     in if n mod 2 = 1 then ys ! i else (ys ! (i - 1) + ys ! i) / 2)"

definition median_range :: "real list \<Rightarrow> range option" where
  "median_range xs = (if xs = [] then None
     else Some \<lparr>rg_median = median xs, rg_min = fold min (tl xs) (hd xs), rg_max = fold max (tl xs) (hd xs)\<rparr>)"

definition number_of :: "json \<Rightarrow> script_exn + real" where
  "number_of j = (case py_number j of Some x \<Rightarrow> Inr x | None \<Rightarrow> Inl STypeError)"

definition range_of :: "json list \<Rightarrow> script_exn + range option" where
  "range_of vs = bind_res (map_res number_of (filter (\<lambda>v. v \<noteq> JNull) vs)) (\<lambda>xs. Inr (median_range xs))"

section \<open>Aggregation\<close>

record aggregate =
  agg_mode :: json
  agg_concurrency :: json
  agg_repeats :: "json list"
  agg_targets :: "(string \<times> (string \<times> range option) list) list"
  agg_overhead :: "(string \<times> range option) list"
  agg_effect :: "(string \<times> range option) list"

definition entry :: "(string \<times> 'a) list \<Rightarrow> string \<Rightarrow> script_exn + 'a" where
  "entry d k = (case map_of d k of Some v \<Rightarrow> Inr v | None \<Rightarrow> Inl SKeyError)"

definition sorted_keys :: "(string \<times> 'a) list list \<Rightarrow> string list" where
  "sorted_keys ds = map fst (sort_items (map (\<lambda>k. (k, ())) (remdups (concat (map (map fst) ds)))))"

definition aggregate_targets :: "(string \<times> json_dict) list list \<Rightarrow> script_exn + (string \<times> (string \<times> range option) list) list" where
  "aggregate_targets ds = map_res (\<lambda>k.
     bind_res (map_res (\<lambda>label. bind_res (map_res (\<lambda>d. bind_res (entry d k) (\<lambda>t. entry t label)) ds) (\<lambda>vs.
       bind_res (range_of vs) (\<lambda>r. Inr (label, r)))) ARMS) (\<lambda>per_arm. Inr (k, per_arm))) (sorted_keys ds)"

definition aggregate_section :: "json_dict list \<Rightarrow> script_exn + (string \<times> range option) list" where
  "aggregate_section ds = map_res (\<lambda>k.
     bind_res (map_res (\<lambda>d. entry d k) ds) (\<lambda>vs. bind_res (range_of vs) (\<lambda>r. Inr (k, r)))) (sorted_keys ds)"

definition aggregate_group :: "group_key \<times> comparison list \<Rightarrow> script_exn + aggregate" where
  "aggregate_group g = (case g of (key, items) \<Rightarrow>
     bind_res (aggregate_targets (map cmp_targets items)) (\<lambda>targets.
     bind_res (aggregate_section (map cmp_overhead items)) (\<lambda>overhead.
     bind_res (aggregate_section (map cmp_effect items)) (\<lambda>effect.
       Inr \<lparr>agg_mode = key ! 0, agg_concurrency = key ! 1, agg_repeats = map cmp_repeat items, agg_targets = targets,
            agg_overhead = overhead, agg_effect = effect\<rparr>))))"

definition group_comparisons :: "comparison list \<Rightarrow> (group_key \<times> comparison list) list" where
  "group_comparisons items = fold (\<lambda>c gs. let key = [cmp_mode c, cmp_concurrency c] in put_group key (group_at gs key @ [c]) gs) items []"

definition aggregate_comparisons :: "comparison list \<Rightarrow> script_exn + aggregate list" where
  "aggregate_comparisons items = bind_res (sort_groups (group_comparisons items)) (map_res aggregate_group)"

section \<open>The report\<close>

text \<open>
  The dash that stands for a missing value is not a Latin-1 character and an argument, like \<open>fixed\<close>, which prints a number with three
  decimals.
\<close>

definition format_value :: "string \<Rightarrow> (real \<Rightarrow> string) \<Rightarrow> range option \<Rightarrow> string" where
  "format_value dash fixed r = (case r of
      None \<Rightarrow> dash
    | Some x \<Rightarrow> fixed (rg_median x) @ '' ['' @ fixed (rg_min x) @ '', '' @ fixed (rg_max x) @ '']'')"

definition markdown_row :: "(real \<Rightarrow> string) \<Rightarrow> string \<Rightarrow> (real \<Rightarrow> string) \<Rightarrow> string \<Rightarrow> aggregate \<Rightarrow> script_exn + string" where
  "markdown_row fr dash fixed metric item =
     bind_res (entry (agg_targets item) metric) (\<lambda>targets.
     bind_res (entry targets ''direct'') (\<lambda>direct.
     bind_res (entry targets ''gateway_no_batch'') (\<lambda>off.
     bind_res (entry targets ''gateway_batch'') (\<lambda>on.
     bind_res (entry (agg_overhead item) metric) (\<lambda>overhead.
     bind_res (entry (agg_effect item) metric) (\<lambda>effect.
       Inr (''| '' @ join '' | '' [py_str fr (agg_mode item), py_str fr (agg_concurrency item), format_value dash fixed direct,
          format_value dash fixed off, format_value dash fixed on, format_value dash fixed overhead, format_value dash fixed effect] @ '' |'')))))))"

definition markdown_lines :: "(real \<Rightarrow> string) \<Rightarrow> string \<Rightarrow> (real \<Rightarrow> string) \<Rightarrow> aggregate list \<Rightarrow> script_exn + string list" where
  "markdown_lines fr dash fixed aggregated =
     bind_res (map_res (\<lambda>metric. bind_res (map_res (markdown_row fr dash fixed metric) aggregated) (\<lambda>rows. Inr
       ([''## '' @ metric, [],
         ''| Mode | C | Direct | GW-off | GW-on | Gateway overhead (off-direct) | Batching effect (on-off) |'',
         ''| --- | ---: | ---: | ---: | ---: | ---: | ---: |''] @ rows @ [[]]))) compared_metrics) (\<lambda>sections. Inr
       ([''# A/B/C comparison'', [],
         ''Values are median [min, max] across run-level repetitions. Differences are descriptive deltas, not automatic improvement claims.'', []]
        @ concat sections))"

section \<open>Result files\<close>

text \<open>Paths are ordered by the pieces between their slashes.\<close>

fun texts_le :: "string list \<Rightarrow> string list \<Rightarrow> bool" where
  "texts_le [] ts = True"
| "texts_le (s # ss) [] = False"
| "texts_le (s # ss) (t # ts) = (if s = t then texts_le ss ts else string_le s t)"

definition path_le :: "path \<Rightarrow> path \<Rightarrow> bool" where
  "path_le p q = texts_le (py_split CHR ''/'' (path_str p)) (py_split CHR ''/'' (path_str q))"

fun insert_path :: "path \<Rightarrow> path list \<Rightarrow> path list" where
  "insert_path p [] = [p]"
| "insert_path p (q # qs) = (if path_le p q then p # q # qs else q # insert_path p qs)"

definition path_name :: "path \<Rightarrow> string" where
  "path_name p = (if snd p = [] then [] else last (snd p))"

definition json_suffix :: "string \<Rightarrow> bool" where
  "json_suffix name \<longleftrightarrow> length name > 5 \<and> drop (length name - 5) name = ''.json''"

text \<open>\<open>listing\<close>: for a directory, what \<open>rglob\<close> finds in it.\<close>

definition discover :: "(path \<Rightarrow> path list option) \<Rightarrow> path list \<Rightarrow> path list" where
  "discover listing inputs = foldr insert_path (remdups (concat (map (\<lambda>item. case listing item of
       Some found \<Rightarrow> found
     | None \<Rightarrow> if path_name item = ''client-result.json'' \<or> json_suffix (path_name item) then [item] else []) inputs))) []"

fun load_results :: "(real \<Rightarrow> string) \<Rightarrow> (path \<Rightarrow> script_exn + json) \<Rightarrow> path list \<Rightarrow> script_exn + (json \<times> path) list \<times> string list" where
  "load_results fr read_json [] = Inr ([], [])"
| "load_results fr read_json (path # paths) = (case read_json path of
      Inl (SOSError m) \<Rightarrow> bind_res (load_results fr read_json paths) (\<lambda>(loaded, errors). Inr (loaded, (path_str path @ '': '' @ m) # errors))
    | Inl SJSONDecodeError \<Rightarrow>
        bind_res (load_results fr read_json paths) (\<lambda>(loaded, errors). Inr (loaded, (path_str path @ '': invalid JSON'') # errors))
    | Inl e \<Rightarrow> Inl e
    | Inr result \<Rightarrow>
        bind_res (result_validate fr result) (\<lambda>found.
        bind_res (load_results fr read_json paths) (\<lambda>(loaded, errors).
          Inr ((result, path) # loaded, map (\<lambda>m. path_str path @ '': '' @ m) found @ errors))))"

record report =
  rep_rows :: "json_dict list"
  rep_comparisons :: "comparison list"
  rep_aggregated :: "aggregate list"
  rep_deltas :: "(string \<times> (string \<times> counter_change) list) list"
  rep_errors :: "string list"
  rep_markdown :: "string list"

datatype summary_end = No_results | Report int report

definition summarize_main :: "(real \<Rightarrow> string) \<Rightarrow> string \<Rightarrow> (real \<Rightarrow> string) \<Rightarrow> (path \<Rightarrow> script_exn + json) \<Rightarrow> deltas \<Rightarrow>
    (path \<Rightarrow> path list option) \<Rightarrow> path list \<Rightarrow> script_exn + summary_end" where
  "summarize_main fr dash fixed read_json deltas listing inputs =
     (let paths = discover listing inputs
      in if paths = [] then Inr No_results
         else
          bind_res (load_results fr read_json paths) (\<lambda>(loaded, validation).
          bind_res (map_res (\<lambda>(result, path). flatten result) loaded) (\<lambda>rows.
          bind_res (build_comparisons fr deltas loaded) (\<lambda>(comparisons, compared).
          bind_res (aggregate_comparisons comparisons) (\<lambda>aggregated.
          bind_res (map_res (\<lambda>(result, path). bind_res (deltas result path) (\<lambda>d. Inr (path_str path, d))) loaded) (\<lambda>derived.
          bind_res (markdown_lines fr dash fixed aggregated) (\<lambda>text.
            Inr (Report (if validation @ compared \<noteq> [] then 2 else 0)
              \<lparr>rep_rows = rows, rep_comparisons = comparisons, rep_aggregated = aggregated, rep_deltas = derived,
               rep_errors = validation @ compared, rep_markdown = text\<rparr>))))))))"

end
