(* ===== verification/Gw_Summary_Claims.thy ===== *)
theory Gw_Summary_Claims
  imports Gw_Compare_Claims Gw_Summary "HOL-Library.Multiset"
begin

text \<open>
  What a report of the benchmark guarantees: one without errors leaves nothing out, and medians have half of the values on either side.
\<close>

section \<open>A report without errors\<close>

abbreviation comparison_key :: "comparison \<Rightarrow> group_key" where
  "comparison_key c \<equiv> [cmp_mode c, cmp_concurrency c, cmp_repeat c]"

definition no_reset :: "deltas \<Rightarrow> json \<Rightarrow> path \<Rightarrow> bool" where
  "no_reset deltas r path \<longleftrightarrow> (\<exists>ds. deltas r path = Inr ds \<and> list_all (\<lambda>(m, d). \<not> cc_reset d) ds)"

definition has_key_in :: "json \<Rightarrow> group_key set \<Rightarrow> bool" where
  "has_key_in r K \<longleftrightarrow> (\<forall>l\<in>set ARMS. label_is r l \<longrightarrow> (\<exists>k\<in>K. belongs r k))"

lemma has_key_in_mono: "has_key_in r K \<Longrightarrow> K \<subseteq> L \<Longrightarrow> has_key_in r L"
  unfolding has_key_in_def by blast

lemma add_result_keys:
  assumes "add_result fr deltas (r, path) groups = Inr (groups', errors)"
  shows "fst ` set groups \<subseteq> fst ` set groups' \<and> has_key_in r (fst ` set groups')"
  using add_result_groups [OF assms]
proof (elim disjE exE conjE)
  fix l k assume k: "key_of r = Inr k" and g: "groups' = put_group k (AList.update l r (group_at groups k)) groups"
  have "\<exists>k'\<in>fst ` set groups'. belongs r k'"
    unfolding g belongs_def using put_group_has [OF conjunct2 [OF key_of_shape [OF k]]] k by blast
  moreover have "fst ` set groups \<subseteq> fst ` set groups'" unfolding g by (rule put_group_keys)
  ultimately show ?thesis unfolding has_key_in_def by blast
qed (auto simp: has_key_in_def)

lemma add_result_no_reset:
  assumes "add_result fr deltas (r, path) groups = Inr (groups', [])"
  shows "no_reset deltas r path"
proof -
  obtain ds label where ds: "deltas r path = Inr ds"
    and label: "bind_res (get_item r ''metadata'') (\<lambda>m. get_item m ''label'') = Inr label"
    using assms unfolding add_result_def Let_def prod.case bind_res_Inr_iff by blast
  have "map (\<lambda>(metric, d). path_str path @ '': invalid_counter_reset:'' @ metric) (filter (\<lambda>(metric, d). cc_reset d) ds) = []"
    using assms unfolding add_result_def prod.case ds label bind_res_simps Let_def
    by (cases label) (auto simp: bind_res_Inr_iff simp del: map_is_Nil_conv split: if_splits)
  then show ?thesis using ds by (auto simp: no_reset_def list_all_iff filter_empty_conv)
qed

lemma add_results_clean:
  "add_results fr deltas rps groups = Inr (groups', []) \<Longrightarrow> fst ` set groups \<subseteq> fst ` set groups' \<and>
   (\<forall>(r, path)\<in>set rps. no_reset deltas r path \<and> has_key_in r (fst ` set groups'))"
proof (induction rps arbitrary: groups)
  case (Cons rp rps)
  obtain r path where rp: "rp = (r, path)" by (cases rp)
  obtain g1 where s: "add_result fr deltas (r, path) groups = Inr (g1, [])" "add_results fr deltas rps g1 = Inr (groups', [])"
    using Cons.prems by (auto simp: rp bind_res_Inr_iff)
  have "has_key_in r (fst ` set groups')"
    by (rule has_key_in_mono [OF conjunct2 [OF add_result_keys [OF s(1)]] conjunct1 [OF Cons.IH [OF s(2)]]])
  moreover have "fst ` set groups \<subseteq> fst ` set groups'" using add_result_keys [OF s(1)] Cons.IH [OF s(2)] by blast
  moreover have "no_reset deltas r path" by (rule add_result_no_reset [OF s(1)])
  ultimately show ?case using Cons.IH [OF s(2)] unfolding rp by simp
qed simp

lemma clean_group:
  assumes "compare_group fr (k, arms) = Inr (cs, [])" and "good_group R k arms"
  shows "\<exists>c. cs = [c] \<and> comparison_key c = k"
proof -
  obtain c where c: "comparison_errors arms = Inr []" "compare_arms k arms = Inr c" "cs = [c]"
    using assms(1) by (auto simp: compare_group_def bind_res_Inr_iff split: if_splits)
  obtain direct off on where a: "arm arms ''direct'' = Inr direct" "arm arms ''gateway_no_batch'' = Inr off" "arm arms ''gateway_batch'' = Inr on"
    using comparison_errors_Nil [OF c(1)] by blast
  have "length k = 3" using assms(2) by (simp add: good_group_def)
  then show ?thesis using compare_arms_spec [OF c(2) _ a] c(3) by auto
qed

lemma clean_comparisons:
  assumes "build_comparisons fr deltas loaded = Inr (items, [])" and "(r, path) \<in> set loaded"
  shows "no_reset deltas r path \<and> has_key_in r (comparison_key ` set items)"
proof -
  obtain groups sorted compared where b: "add_results fr deltas loaded [] = Inr (groups, [])" "sort_groups groups = Inr sorted"
    "map_res (compare_group fr) sorted = Inr compared" "items = concat (map fst compared)" "concat (map snd compared) = []"
    using assms(1) by (auto simp: build_comparisons_def bind_res_Inr_iff)
  have good: "good_groups (fst ` set loaded) groups" using add_results_good [OF b(1)] by (auto simp: good_groups_def)
  have "k \<in> comparison_key ` set items" if k: "k \<in> fst ` set groups" for k
  proof -
    obtain arms where g: "(k, arms) \<in> set groups" using k by auto
    then obtain cs es where e: "(cs, es) \<in> set compared" "compare_group fr (k, arms) = Inr (cs, es)"
      using map_res_member(2) [OF b(3)] sort_groups_set [OF b(2)] by fastforce
    have "es = []" using e(1) b(5) by force
    moreover have "good_group (fst ` set loaded) k arms" using good g by (auto simp: good_groups_def)
    ultimately obtain c where "cs = [c]" "comparison_key c = k" using clean_group e(2) by blast
    then show ?thesis using e(1) b(4) by force
  qed
  then have "fst ` set groups \<subseteq> comparison_key ` set items" by blast
  moreover have "no_reset deltas r path" "has_key_in r (fst ` set groups)"
    using conjunct2 [OF add_results_clean [OF b(1)]] assms(2) by auto
  ultimately show ?thesis using has_key_in_mono by blast
qed

lemma load_results_clean:
  "load_results fr read_json paths = Inr (loaded, []) \<Longrightarrow> path \<in> set paths \<Longrightarrow>
   \<exists>r. read_json path = Inr r \<and> result_validate fr r = Inr [] \<and> (r, path) \<in> set loaded"
proof (induction paths arbitrary: loaded)
  case (Cons p paths)
  show ?case
  proof (cases "read_json p")
    case (Inl e)
    then show ?thesis using Cons.prems(1) by (cases e) (simp_all add: bind_res_Inr_iff)
  next
    case (Inr r)
    obtain rest where "result_validate fr r = Inr []" "load_results fr read_json paths = Inr (rest, [])" "loaded = (r, p) # rest"
      using Cons.prems(1) by (auto simp: Inr bind_res_Inr_iff)
    then show ?thesis using Cons.IH [of rest] Cons.prems(2) Inr by auto
  qed
qed simp


section \<open>Medians\<close>

lemma filter_first: "k \<le> length ys \<Longrightarrow> (\<And>j. j < k \<Longrightarrow> P (ys ! j)) \<Longrightarrow> k \<le> length (filter P ys)"
proof -
  assume k: "k \<le> length ys" and P: "\<And>j. j < k \<Longrightarrow> P (ys ! j)"
  have "filter P (take k ys) = take k ys" using P k by (auto simp: filter_id_conv in_set_conv_nth)
  then have "length (filter P (take k ys @ drop k ys)) \<ge> k" using k by (simp only: filter_append length_append) simp
  then show ?thesis by simp
qed

lemma filter_last: "k \<le> length ys \<Longrightarrow> (\<And>j. k \<le> j \<Longrightarrow> j < length ys \<Longrightarrow> P (ys ! j)) \<Longrightarrow> length ys - k \<le> length (filter P ys)"
proof -
  assume k: "k \<le> length ys" and P: "\<And>j. k \<le> j \<Longrightarrow> j < length ys \<Longrightarrow> P (ys ! j)"
  have "filter P (drop k ys) = drop k ys" using P k by (auto simp: filter_id_conv in_set_conv_nth)
  then have "length (filter P (take k ys @ drop k ys)) \<ge> length ys - k" using k by (simp only: filter_append length_append) simp
  then show ?thesis by simp
qed

lemma length_filter_sort: "length (filter P (sort xs)) = length (filter P xs)"
  by (metis mset_filter mset_sort size_mset)

lemma median_halves:
  assumes "xs \<noteq> []"
  shows "length xs \<le> 2 * length (filter (\<lambda>x. x \<le> median xs) xs) \<and> length xs \<le> 2 * length (filter (\<lambda>x. median xs \<le> x) xs)"
proof -
  define ys where "ys = sort xs"
  define i where "i = length ys div 2"
  have le: "ys ! j \<le> ys ! k" if "j \<le> k" "k < length ys" for j k
    using that by (simp add: ys_def sorted_nth_mono)
  have n: "0 < length ys" using assms by (simp add: ys_def)
  have m: "median xs = (if length ys mod 2 = 1 then ys ! i else (ys ! (i - 1) + ys ! i) / 2)"
    by (simp add: median_def Let_def ys_def i_def)
  have "length ys - i \<le> length (filter (\<lambda>x. x \<le> median xs) ys) \<and> length ys - i \<le> length (filter (\<lambda>x. median xs \<le> x) ys)"
  proof (cases "length ys mod 2 = 1")
    case True
    then have odd: "length ys = 2 * i + 1" unfolding i_def by arith
    have "Suc i \<le> length (filter (\<lambda>x. x \<le> median xs) ys)" by (rule filter_first) (use True odd le m in auto)
    moreover have "length ys - i \<le> length (filter (\<lambda>x. median xs \<le> x) ys)" by (rule filter_last) (use True odd le m in auto)
    ultimately show ?thesis using odd by simp
  next
    case False
    then have even: "length ys = 2 * i" "0 < i" using n unfolding i_def by arith+
    have mid: "ys ! (i - 1) \<le> ys ! i" using le even by simp
    have "i \<le> length (filter (\<lambda>x. x \<le> median xs) ys)"
    proof (rule filter_first)
      show "ys ! j \<le> median xs" if "j < i" for j
      proof -
        have "ys ! j \<le> ys ! (i - 1)" by (rule le) (use that even in auto)
        then show ?thesis using mid False by (simp add: m)
      qed
    qed (use even in simp)
    moreover have "length ys - i \<le> length (filter (\<lambda>x. median xs \<le> x) ys)"
    proof (rule filter_last)
      show "median xs \<le> ys ! j" if "i \<le> j" "j < length ys" for j using le [of i j] that mid False by (simp add: m)
    qed (use even in simp)
    ultimately show ?thesis using even by simp
  qed
  moreover have "length ys \<le> 2 * (length ys - i)" unfolding i_def by simp
  ultimately show ?thesis unfolding ys_def length_filter_sort length_sort by linarith
qed

text \<open>
  What is reported over the repetitions: the smallest and the greatest value, and a median, with at least half of the values on
  either side.
\<close>

lemma median_range_sound:
  assumes "median_range xs = Some r"
  shows "rg_min r = Min (set xs) \<and> rg_max r = Max (set xs) \<and>
    length xs \<le> 2 * length (filter (\<lambda>x. x \<le> rg_median r) xs) \<and> length xs \<le> 2 * length (filter (\<lambda>x. rg_median r \<le> x) xs)"
proof -
  have ne: "xs \<noteq> []" using assms by (auto simp: median_range_def)
  have "fold min (tl xs) (hd xs) = Min (set xs)" "fold max (tl xs) (hd xs) = Max (set xs)"
    using Min.set_eq_fold [of "hd xs" "tl xs"] Max.set_eq_fold [of "hd xs" "tl xs"] ne by simp_all
  then show ?thesis using assms ne median_halves [OF ne] by (auto simp: median_range_def)
qed

section \<open>An example\<close>

definition arm_example :: "string \<Rightarrow> string \<Rightarrow> int \<Rightarrow> json" where
  "arm_example label flag ms = (let nulls = map (\<lambda>k. (k, JNull)) in JObj
     [(''schema_version'', JInt 1),
      (''metadata'', JObj ([(''label'', JStr label), (''repeat'', JInt 1)] @ nulls [''run_id'', ''timestamp_utc'', ''execution_order''])),
      (''configuration'', JObj ([(''mode'', JStr ''non_streaming''), (''concurrency'', JInt 1), (''batching_enabled'', JStr flag),
         (''dataset_sha256'', JStr (replicate 64 CHR ''0''))] @ nulls configuration_fields)),
      (''timing'', JObj (nulls [''measured_start_utc'', ''measured_end_utc'', ''duration_seconds''])),
      (''warmup'', JObj (nulls [''attempted'', ''success'', ''failed''])),
      (''summary'', JObj ([(''attempted'', JInt 1), (''e2e'', JObj [(''p95_ms'', JInt ms)]), (''request_throughput_rps'', JInt 2)] @
         nulls [''successful'', ''failed'', ''error_rate'', ''errors_by_category'', ''ttft'', ''output_throughput_tps'',
           ''authoritative_token_coverage''])),
      (''per_request'', JList [JObj []]), (''metrics'', JObj []), (''metric_artifacts'', JObj []),
      (''environment'', JObj [(''gateway_git_sha'', JStr ''abc'')]),
      (''validity'', JObj [(''valid'', JBool True), (''reasons'', JList [])])])"

definition example_loaded :: "(json \<times> path) list" where
  "example_loaded = [(arm_example ''direct'' ''not_applicable'' 5, ([], [''a.json''])),
     (arm_example ''gateway_no_batch'' ''false'' 7, ([], [''b.json''])), (arm_example ''gateway_batch'' ''true'' 6, ([], [''c.json'']))]"

definition example_read :: "path \<Rightarrow> script_exn + json" where
  "example_read path = (case map_of (map prod.swap example_loaded) path of Some r \<Rightarrow> Inr r | None \<Rightarrow> Inl (SOSError ''missing''))"

abbreviation no_artifacts :: deltas where
  "no_artifacts \<equiv> artifact_counter_deltas Inr (\<lambda>_. None) []"

lemma example_built: "case build_comparisons (\<lambda>_. []) no_artifacts example_loaded of Inr (items, errors) \<Rightarrow> length items = 1 | Inl _ \<Rightarrow> False"
  by code_simp

lemma example_report: "case summarize_main (\<lambda>_. []) ''-'' (\<lambda>_. []) example_read no_artifacts (\<lambda>_. None) (map snd example_loaded) of
    Inr (Report status rep) \<Rightarrow> status = 0 | _ \<Rightarrow> False"
  by code_simp

theorem compared_like_with_like_witness:
  "\<exists>items errors c direct off on. build_comparisons (\<lambda>_. []) no_artifacts example_loaded = Inr (items, errors) \<and> c \<in> set items \<and>
    {direct, off, on} \<subseteq> fst ` set example_loaded \<and> comparable direct off on \<and> list_all (compared c direct off on) compared_metrics"
proof -
  obtain c errors where b: "build_comparisons (\<lambda>_. []) no_artifacts example_loaded = Inr ([c], errors)"
    using example_built by (auto simp: length_Suc_conv split: sum.splits)
  then show ?thesis using compared_like_with_like [OF b, of c] by (intro exI [of _ "[c]"] exI [of _ errors] exI [of _ c]) auto
qed


text \<open>
  A counter that went back is reported, but the comparison is calculated all the same; a result that is not valid ends the script with a
  traceback before anything is compared.
\<close>

lemma compared_despite_reset:
  "case build_comparisons (\<lambda>_. []) (\<lambda>_ _. Inr [(''m'', \<lparr>cc_missing = False, cc_reset = True, cc_value = None\<rparr>)]) example_loaded of
     Inr (items, errors) \<Rightarrow> length items = 1 \<and> length errors = 3 | Inl _ \<Rightarrow> False"
  by code_simp

lemma invalid_result_raises:
  "summarize_main (\<lambda>_. []) ''-'' (\<lambda>_. []) (\<lambda>_. Inr (JObj [])) no_artifacts (\<lambda>_. None) [([], [''a.json''])] = Inl SKeyError"
  by code_simp

end
