(* ===== verification/Gw_Fake_Server.thy ===== *)
theory Gw_Fake_Server
  imports Gw_Counters
begin

text \<open>
  \<open>benchmark/scripts/fake_server.py\<close>: the server of the smoke tests. Its counters are read and changed under one lock, so any
  interleaving of its threads is a sequence of requests; what it exposes is what the summary reads back.
\<close>

section \<open>The server\<close>

record fake_counters =
  generated_tokens :: nat
  served_requests :: nat

datatype fake_reply =
    Fake_json int json
  | Fake_exposition string
  | Fake_events "string list"
  | Fake_not_found

text \<open>\<open>{{finished_reason="stop"}}\<close>\<close>

definition stop_label :: string where
  "stop_label = ''{finished_reason='' @ [CHR 0x22] @ ''stop'' @ [CHR 0x22] @ ''}''"

definition exposition_lines :: "fake_counters \<Rightarrow> string list" where
  "exposition_lines c =
     [''# TYPE vllm:generation_tokens counter'', ''vllm:generation_tokens '' @ nat_str (generated_tokens c),
      ''# TYPE vllm:request_success counter'', ''vllm:request_success'' @ stop_label @ '' '' @ nat_str (served_requests c),
      ''# TYPE vllm:num_requests_running gauge'', ''vllm:num_requests_running 0'',
      ''# TYPE vllm:num_requests_waiting gauge'', ''vllm:num_requests_waiting 0'',
      ''# TYPE vllm:kv_cache_usage_perc gauge'', ''vllm:kv_cache_usage_perc 0'']"

definition exposition :: "fake_counters \<Rightarrow> string" where
  "exposition c = concat (map (\<lambda>line. line @ newline) (exposition_lines c))"

definition do_get :: "string \<Rightarrow> fake_counters \<Rightarrow> fake_reply" where
  "do_get path c =
     (if path = ''/health'' then Fake_json 200 (JObj [(''status'', JStr ''ok'')])
      else if path \<noteq> ''/metrics'' then Fake_not_found
      else Fake_exposition (exposition c))"

definition quote :: string where
  "quote = [CHR 0x22]"

definition sse_event :: "string list \<Rightarrow> string" where
  "sse_event pieces = join quote pieces @ newline @ newline"

definition smoke_stream :: "string list" where
  "smoke_stream =
     ['': keepalive'' @ newline @ newline @
        sse_event [''data: {'', ''choices'', '':[{'', ''delta'', '':{'', ''role'', '':'', ''assistant'', ''}}]}''],
      sse_event [''data: {'', ''choices'', '':[{'', ''delta'', '':{'', ''content'', '':'', ''deterministic'', ''}}]}''],
      sse_event [''data: {'', ''choices'', '':[],'', ''usage'', '':{'', ''completion_tokens'', '':4}}''],
      sse_event [''data: [DONE]'']]"

definition fake_completion :: json where
  "fake_completion = JObj
     [(''id'', JStr ''fake''), (''object'', JStr ''chat.completion''),
      (''choices'', JList [JObj [(''index'', JInt 0),
         (''message'', JObj [(''role'', JStr ''assistant''), (''content'', JStr ''deterministic'')])]]),
      (''usage'', JObj [(''prompt_tokens'', JInt 8), (''completion_tokens'', JInt 4), (''total_tokens'', JInt 12)])]"

text \<open>
  \<open>read_body\<close>: what \<open>json.loads\<close> makes of that many bytes of the request. An exception ends the connection; the counters have
  been changed by then.
\<close>

definition do_post :: "string \<Rightarrow> string option \<Rightarrow> (int \<Rightarrow> script_exn + json) \<Rightarrow> fake_counters \<Rightarrow>
    (script_exn + fake_reply) \<times> fake_counters" where
  "do_post path content_length read_body c =
     (if path \<noteq> ''/v1/chat/completions'' then (Inr Fake_not_found, c)
      else case bind_res (py_int_of (JStr (case content_length of Some s \<Rightarrow> s | None \<Rightarrow> ''0''))) read_body of
        Inl e \<Rightarrow>
          ((case e of SValueError m \<Rightarrow> Inr (Fake_json 400 (JObj [(''error'', JObj [(''code'', JStr ''invalid_json'')])]))
             | SJSONDecodeError \<Rightarrow> Inr (Fake_json 400 (JObj [(''error'', JObj [(''code'', JStr ''invalid_json'')])]))
             | _ \<Rightarrow> Inl e), c)
      | Inr payload \<Rightarrow>
          (bind_res (get_method payload ''stream'' JNull) (\<lambda>stream.
             Inr (if py_truthy stream then Fake_events smoke_stream else Fake_json 200 fake_completion)),
           c\<lparr>generated_tokens := generated_tokens c + 4, served_requests := served_requests c + 1\<rparr>))"

section \<open>Runs\<close>

datatype fake_request = Get string | Post string "string option" "int \<Rightarrow> script_exn + json"

fun fake_handle :: "fake_request \<Rightarrow> fake_counters \<Rightarrow> (script_exn + fake_reply) \<times> fake_counters" where
  "fake_handle (Get path) c = (Inr (do_get path c), c)"
| "fake_handle (Post path content_length read_body) c = do_post path content_length read_body c"

fun fake_run :: "fake_request list \<Rightarrow> fake_counters \<Rightarrow> (script_exn + fake_reply) list \<times> fake_counters" where
  "fake_run [] c = ([], c)"
| "fake_run (r # rs) c = (let (reply, c1) = fake_handle r c; (replies, c2) = fake_run rs c1 in (reply # replies, c2))"

text \<open>The completions a client has seen: each of them reports four tokens.\<close>

fun is_completion :: "script_exn + fake_reply \<Rightarrow> bool" where
  "is_completion (Inr (Fake_events es)) = True"
| "is_completion (Inr (Fake_json status body)) = (body = fake_completion)"
| "is_completion _ = False"

section \<open>What is exposed is read back\<close>

lemma digit_plain: "is_digit c \<Longrightarrow> \<not> text_break c \<and> \<not> py_isspace c \<and> c \<noteq> CHR ''}'' \<and> c \<noteq> CHR ''+'' \<and> c \<noteq> CHR ''-''"
  by (auto simp: is_digit_def text_break_def py_isspace_def code_point_def)

lemma nat_str_plain: "c \<in> set (nat_str n) \<Longrightarrow> is_digit c \<and> \<not> text_break c \<and> \<not> py_isspace c \<and> c \<noteq> CHR ''}''"
  using nat_str_digits digit_plain by blast

lemma py_strip_tail:
  assumes "s \<noteq> []" "\<not> py_isspace (hd s)" "t \<noteq> []" "\<forall>c\<in>set t. \<not> py_isspace c"
  shows "py_strip (s @ t) = s @ t"
proof -
  have "dropWhile py_isspace (s @ t) = s @ t" using assms(1,2) by (cases s) simp_all
  moreover have "dropWhile py_isspace (rev t @ rev s) = rev t @ rev s" using assms(3,4) by (cases t rule: rev_cases) simp_all
  ultimately show ?thesis by (simp add: py_strip_def)
qed

lemma value_digits: "value_after (CHR '' '' # nat_str n) = Some (nat_str n)"
proof -
  obtain c cs where n: "nat_str n = c # cs" using nat_str_not_Nil by (cases "nat_str n") auto
  have c: "is_digit c" using nat_str_digits [of n] by (simp add: n)
  have all: "takeWhile is_digit (nat_str n) = nat_str n" "dropWhile is_digit (nat_str n) = []" using nat_str_digits by simp_all
  have m: "mantissa (nat_str n) = Some (nat_str n, [])" unfolding mantissa_def all by (simp add: n)
  have "sign_split (nat_str n) = ([], nat_str n)" using digit_plain [OF c] by (simp add: sign_split_def n)
  moreover have "dropWhile py_isspace (CHR '' '' # nat_str n) = nat_str n"
    using digit_plain [OF c] by (simp add: n) (simp add: py_isspace_def code_point_def)
  ultimately show ?thesis using m by (simp add: value_after_def number_prefix_def) (simp add: exponent_def py_isspace_def code_point_def)
qed

lemma label_end_None: "CHR ''}'' \<notin> set s \<Longrightarrow> label_end s = None"
  by (induction s) auto

lemma match_tokens: "sample_match (''vllm:generation_tokens '' @ nat_str n) = Some (''vllm:generation_tokens'', [], nat_str n)"
  using value_digits [of n] by (simp add: sample_match_def name_start_def is_digit_def code_point_def Let_def)

lemma match_requests: "sample_match (''vllm:request_success'' @ stop_label @ '' '' @ nat_str n) =
    Some (''vllm:request_success'', ''finished_reason='' @ [CHR 0x22] @ ''stop'' @ [CHR 0x22], nat_str n)"
proof -
  have "label_end (CHR '' '' # nat_str n) = None" using nat_str_plain by (intro label_end_None) auto
  then show ?thesis
    using value_digits [of n] by (simp add: sample_match_def name_start_def is_digit_def code_point_def Let_def stop_label_def)
qed

lemma comment_skipped: "sample_match (CHR ''#'' # s) = None"
  by (simp add: sample_match_def name_start_def is_digit_def code_point_def)

lemma gauge_match:
  "sample_match ''vllm:num_requests_running 0'' = Some (''vllm:num_requests_running'', [], ''0'')"
  "sample_match ''vllm:num_requests_waiting 0'' = Some (''vllm:num_requests_waiting'', [], ''0'')"
  "sample_match ''vllm:kv_cache_usage_perc 0'' = Some (''vllm:kv_cache_usage_perc'', [], ''0'')"
  by code_simp+

lemma lines_plain: "\<forall>l\<in>set (exposition_lines c). \<forall>d\<in>set l. \<not> text_break d"
proof -
  have "\<forall>d\<in>set (nat_str n). \<not> text_break d" for n using nat_str_plain by blast
  then show ?thesis unfolding exposition_lines_def stop_label_def
    by (simp add: ball_Un) (simp add: text_break_def code_point_def)
qed

lemma stripped_lines: "map py_strip (exposition_lines c) = exposition_lines c"
proof -
  have tail: "py_strip (s @ nat_str n) = s @ nat_str n" if "s \<noteq> []" "\<not> py_isspace (hd s)" for s n
    using that nat_str_plain nat_str_not_Nil by (intro py_strip_tail) auto
  have space: "\<not> py_isspace CHR ''v''" by code_simp
  have tokens: "py_strip (''vllm:generation_tokens '' @ nat_str n) = ''vllm:generation_tokens '' @ nat_str n" for n
    by (rule tail) (simp_all add: space)
  have requests: "py_strip (''vllm:request_success'' @ stop_label @ '' '' @ nat_str n) = ''vllm:request_success'' @ stop_label @ '' '' @ nat_str n" for n
    using tail [of "''vllm:request_success'' @ stop_label @ '' ''" n] by (simp add: space)
  have rest: "map py_strip [''# TYPE vllm:generation_tokens counter'', ''# TYPE vllm:request_success counter'',
      ''# TYPE vllm:num_requests_running gauge'', ''vllm:num_requests_running 0'', ''# TYPE vllm:num_requests_waiting gauge'',
      ''vllm:num_requests_waiting 0'', ''# TYPE vllm:kv_cache_usage_perc gauge'', ''vllm:kv_cache_usage_perc 0''] =
     [''# TYPE vllm:generation_tokens counter'', ''# TYPE vllm:request_success counter'',
      ''# TYPE vllm:num_requests_running gauge'', ''vllm:num_requests_running 0'', ''# TYPE vllm:num_requests_waiting gauge'',
      ''vllm:num_requests_waiting 0'', ''# TYPE vllm:kv_cache_usage_perc gauge'', ''vllm:kv_cache_usage_perc 0'']"
    by code_simp
  show ?thesis unfolding exposition_lines_def list.map tokens requests using rest unfolding list.map list.inject by simp
qed

lemma exposition_read:
  assumes f: "\<And>n. parse_float (nat_str n) = Some (real n)" and u: "unescape ''stop'' = Inr ''stop''"
  shows "parse_prometheus_text unescape parse_float (exposition c) = Inr
    [((''vllm:generation_tokens'', []), real (generated_tokens c)),
     ((''vllm:request_success'', [(''finished_reason'', ''stop'')]), real (served_requests c)),
     ((''vllm:num_requests_running'', []), 0), ((''vllm:num_requests_waiting'', []), 0), ((''vllm:kv_cache_usage_perc'', []), 0)]"
proof -
  have lines: "py_lines (exposition c) = exposition_lines c"
    unfolding exposition_def by (rule py_lines_concat [OF lines_plain])
  have strip: "parse_lines unescape parse_float ls acc = parse_lines unescape parse_float (map py_strip ls) acc"
    if "map py_strip ls = ls" for ls acc using that by simp
  have labels: "find_labels (''finished_reason='' @ [CHR 0x22] @ ''stop'' @ [CHR 0x22]) = [(''finished_reason'', ''stop'')]"
    "find_labels [] = []" by code_simp+
  have "nat_str 0 = ''0''" by code_simp
  then have zero: "parse_float ''0'' = Some 0" using f [of 0] by simp
  have "\<forall>l\<in>set (exposition_lines c). py_strip l = l" using stripped_lines [of c] by (metis list.map_ident map_eq_conv)
  note strips = this [unfolded exposition_lines_def list.set ball_simps]
  show ?thesis
    unfolding parse_prometheus_text_def lines exposition_lines_def parse_lines.simps
    by (simp only: strips comment_skipped match_tokens match_requests gauge_match option.case sample_of_def prod.case labels map_res.simps
        bind_res_simps u f zero py_float_of_def json.case)
      (simp add: sort_pairs_def)
qed

lemma fake_handle_counts:
  assumes "fake_handle r c = (Inr reply, c')"
  shows "generated_tokens c' = generated_tokens c + (if is_completion (Inr reply) then 4 else 0) \<and>
    served_requests c' = served_requests c + (if is_completion (Inr reply) then 1 else 0)"
proof (cases r)
  case (Get path)
  then show ?thesis using assms by (auto simp: do_get_def fake_completion_def split: if_splits)
next
  case (Post path content_length read_body)
  let ?r = "bind_res (py_int_of (JStr (case content_length of Some s \<Rightarrow> s | None \<Rightarrow> ''0''))) read_body"
  show ?thesis
  proof (cases ?r)
    case (Inl e)
    then show ?thesis using assms by (cases e) (auto simp: Post do_post_def fake_completion_def split: if_splits)
  next
    case (Inr payload)
    then show ?thesis using assms by (auto simp: Post do_post_def bind_res_Inr_iff split: if_splits)
  qed
qed

lemma fake_run_counts:
  "fake_run rs c = (replies, c') \<Longrightarrow> list_all (\<lambda>r. \<not> isl r) replies \<Longrightarrow>
   generated_tokens c' = generated_tokens c + 4 * length (filter is_completion replies) \<and>
   served_requests c' = served_requests c + length (filter is_completion replies)"
proof (induction rs arbitrary: c replies)
  case (Cons r rs)
  obtain reply c1 replies' where s: "fake_handle r c = (reply, c1)" "fake_run rs c1 = (replies', c')" "replies = reply # replies'"
    using Cons.prems(1) by (auto simp: Let_def split: prod.splits)
  obtain x where x: "reply = Inr x" using Cons.prems(2) s(3) by (cases reply) auto
  show ?case using Cons.IH [OF s(2)] fake_handle_counts s Cons.prems(2) x by fastforce
qed simp


text \<open>A smoke test: one JSON completion, one stream, one malformed request.\<close>

definition example_requests :: "fake_request list" where
  "example_requests = [Post ''/v1/chat/completions'' (Some ''2'') (\<lambda>_. Inr (JObj [])), Get ''/health'',
     Post ''/v1/chat/completions'' (Some ''17'') (\<lambda>_. Inr (JObj [(''stream'', JBool True)])),
     Post ''/v1/chat/completions'' (Some ''x'') (\<lambda>_. Inr (JObj []))]"

definition counted_float :: "string \<Rightarrow> real option" where
  "counted_float s = map_option of_int (py_int s)"

lemma counted_float_nat: "counted_float (nat_str n) = Some (real n)"
  using py_int_int_str [of "int n"] by (simp add: counted_float_def int_str_def)


end
