(* ===== verification/Gw_Plot.thy ===== *)
theory Gw_Plot
  imports Gw_Summary
begin

text \<open>
  \<open>benchmark/scripts/plot.py\<close>: the plots of the summary. Rows are what \<open>csv.DictReader\<close> yields; a missing value is \<open>None\<close>. How a
  float is printed is a parameter.
\<close>

section \<open>Geometry\<close>

text \<open>\<open>x_values\<close>: the sorted distinct concurrencies; \<open>index\<close> finds a value.\<close>

definition x_values :: "(int \<times> real) list \<Rightarrow> int list" where
  "x_values points = sort (remdups (map fst points))"

definition y_max :: "(int \<times> real) list \<Rightarrow> real" where
  "y_max points = (let m = fold max (map snd (tl points)) (snd (hd points)) in if m = 0 then 1 else m)"

definition position :: "int list \<Rightarrow> int \<Rightarrow> nat" where
  "position xs v = length (takeWhile (\<lambda>x. x \<noteq> v) xs)"

definition x_pos :: "int list \<Rightarrow> int \<Rightarrow> real" where
  "x_pos xs v = (if length xs = 1 then 80 else 80 + real (position xs v) * (800 - 80 - 30) / (real (length xs) - 1))"

definition y_pos :: "real \<Rightarrow> real \<Rightarrow> real" where
  "y_pos ymax v = 480 - 70 - v * (480 - 55 - 70) / ymax"

section \<open>Drawing\<close>

definition dq :: string where
  "dq = [CHR 0x22]"

text \<open>An attribute, an element without contents, an element with text.\<close>

definition attribute :: "string \<times> string \<Rightarrow> string" where
  "attribute kv = '' '' @ fst kv @ ''='' @ dq @ snd kv @ dq"

definition empty_element :: "string \<Rightarrow> (string \<times> string) list \<Rightarrow> string" where
  "empty_element name attrs = ''<'' @ name @ concat (map attribute attrs) @ ''/>''"

definition text_element :: "(string \<times> string) list \<Rightarrow> string \<Rightarrow> string" where
  "text_element attrs body = ''<text'' @ concat (map attribute attrs) @ ''>'' @ body @ ''</text>''"

definition html_escape :: "string \<Rightarrow> string" where
  "html_escape s = concat (map (\<lambda>c.
     if c = CHR ''&'' then ''&amp;'' else if c = CHR ''<'' then ''&lt;'' else if c = CHR ''>'' then ''&gt;''
     else if c = CHR 0x22 then ''&quot;'' else if c = CHR 0x27 then ''&#x27;'' else [c]) s)"

definition COLORS :: "(string \<times> string) list" where
  "COLORS = [(''direct'', ''#2563eb''), (''gateway_no_batch'', ''#d97706''), (''gateway_batch'', ''#059669'')]"

definition x_text :: "(real \<Rightarrow> string) \<Rightarrow> int list \<Rightarrow> int \<Rightarrow> string" where
  "x_text fr xs v = (if length xs = 1 then ''80'' else fr (x_pos xs v))"

definition axis_lines :: "(real \<Rightarrow> string) \<Rightarrow> (real \<Rightarrow> string) \<Rightarrow> string \<Rightarrow> int list \<Rightarrow> real \<Rightarrow> string list" where
  "axis_lines fr fixed title xs ymax =
     [''<svg'' @ concat (map attribute [(''xmlns'', ''http://www.w3.org/2000/svg''), (''width'', ''800''), (''height'', ''480''),
         (''viewBox'', ''0 0 800 480'')]) @ ''>'',
      empty_element ''rect'' [(''width'', ''100%''), (''height'', ''100%''), (''fill'', ''white'')],
      text_element [(''x'', fr 400), (''y'', ''28''), (''text-anchor'', ''middle''), (''font-family'', ''sans-serif''), (''font-size'', ''18'')]
        (html_escape title),
      empty_element ''path'' [(''d'', ''M 80 55 V 410 H 770''), (''fill'', ''none''), (''stroke'', ''#111827'')]] @
     map (\<lambda>v. text_element [(''x'', x_text fr xs v), (''y'', ''434''), (''text-anchor'', ''middle''), (''font-family'', ''sans-serif''),
         (''font-size'', ''12'')] (int_str v)) xs @
     concat (map (\<lambda>step. let v = ymax * real step / 5; p = y_pos ymax v
       in [empty_element ''path'' [(''d'', ''M 80 '' @ fr p @ '' H 770''), (''stroke'', ''#e5e7eb'')],
           text_element [(''x'', ''72''), (''y'', fr (p + 4)), (''text-anchor'', ''end''), (''font-family'', ''sans-serif''), (''font-size'', ''11'')]
             (fixed v)]) [0..<6])"

definition series_lines :: "(real \<Rightarrow> string) \<Rightarrow> int list \<Rightarrow> real \<Rightarrow> nat \<times> string \<times> (int \<times> real) list \<Rightarrow> string list" where
  "series_lines fr xs ymax s = (case s of (index, label, points) \<Rightarrow>
     let color = (case map_of COLORS label of Some c \<Rightarrow> c | None \<Rightarrow> ''#7c3aed'');
         place = (\<lambda>(x, y). (x_text fr xs x, fr (y_pos ymax y)))
     in [empty_element ''polyline'' [(''points'', join '' '' (map (\<lambda>p. fst (place p) @ '','' @ snd (place p)) points)), (''fill'', ''none''),
           (''stroke'', color), (''stroke-width'', ''2'')]] @
        map (\<lambda>p. empty_element ''circle'' [(''cx'', fst (place p)), (''cy'', snd (place p)), (''r'', ''3''), (''fill'', color)]) points @
        [text_element [(''x'', nat_str (80 + index * 180)), (''y'', ''462''), (''font-family'', ''sans-serif''), (''font-size'', ''12''), (''fill'', color)]
           (html_escape label)])"

text \<open>The contents of the file, or no file when there is nothing to draw. The series come sorted by their labels.\<close>

definition render :: "(real \<Rightarrow> string) \<Rightarrow> (real \<Rightarrow> string) \<Rightarrow> string \<Rightarrow> (string \<times> (int \<times> real) list) list \<Rightarrow> string option" where
  "render fr fixed title series =
     (let points = concat (map snd series); xs = x_values points; ymax = y_max points; sorted_series = sort_items series
      in if points = [] then None
         else Some (join [CHR 0x0A]
           (axis_lines fr fixed title xs ymax @
            concat (map (\<lambda>(index, label, ps). series_lines fr xs ymax (index, label, ps)) (List.enumerate 0 sorted_series)) @
            [text_element [(''x'', fr 400), (''y'', ''440''), (''text-anchor'', ''middle''), (''font-family'', ''sans-serif''), (''font-size'', ''12'')]
               ''Concurrency'', ''</svg>'' @ [CHR 0x0A]])))"

section \<open>Series\<close>

definition PLOTS :: "(string \<times> string) list" where
  "PLOTS = [(''e2e_p95_ms'', ''E2E p95 vs concurrency''), (''ttft_p95_ms'', ''TTFT p95 vs concurrency''),
     (''request_throughput_rps'', ''Request throughput vs concurrency''),
     (''output_throughput_tps'', ''Output token throughput vs concurrency''), (''mean_batch_size'', ''Mean batch size vs concurrency''),
     (''batch_wait_p95_ms'', ''Batch wait p95 vs concurrency''), (''error_rate'', ''Error rate vs concurrency'')]"

text \<open>The rows of a well-formed table: every column of the header has a text in every row.\<close>

type_synonym row = "(string \<times> string) list"

definition cell :: "row \<Rightarrow> string \<Rightarrow> script_exn + string" where
  "cell r k = (case map_of r k of Some v \<Rightarrow> Inr v | None \<Rightarrow> Inl SKeyError)"

fun append_at :: "'k \<Rightarrow> 'v \<Rightarrow> ('k \<times> 'v list) list \<Rightarrow> ('k \<times> 'v list) list" where
  "append_at k v [] = [(k, [v])]"
| "append_at k v ((k', vs) # rest) = (if k = k' then (k', vs @ [v]) # rest else (k', vs) # append_at k v rest)"

definition row_value :: "(string \<Rightarrow> real option) \<Rightarrow> string \<Rightarrow> string \<Rightarrow> row \<Rightarrow> script_exn + ((string \<times> int) \<times> real) option" where
  "row_value parse_float mode metric r =
     bind_res (cell r ''mode'') (\<lambda>m.
     case map_of r metric of
       None \<Rightarrow> Inr None
     | Some text \<Rightarrow>
        if m \<noteq> mode \<or> text = [] then Inr None
        else
         bind_res (cell r ''target'') (\<lambda>target.
         bind_res (bind_res (cell r ''concurrency'') (\<lambda>c. py_int_of (JStr c))) (\<lambda>concurrency.
         bind_res (py_float_of parse_float (JStr text)) (\<lambda>x. Inr (Some ((target, concurrency), x))))))"

definition group_rows :: "(string \<Rightarrow> real option) \<Rightarrow> string \<Rightarrow> string \<Rightarrow> row list \<Rightarrow> script_exn + ((string \<times> int) \<times> real list) list" where
  "group_rows parse_float mode metric rows = bind_res (map_res (row_value parse_float mode metric) rows) (\<lambda>values.
     Inr (fold (\<lambda>v grouped. case v of Some (k, x) \<Rightarrow> append_at k x grouped | None \<Rightarrow> grouped) values []))"

definition series_of :: "((string \<times> int) \<times> real list) list \<Rightarrow> (string \<times> (int \<times> real) list) list" where
  "series_of grouped = map (\<lambda>(target, points). (target, sort_key fst points))
     (fold (\<lambda>((target, concurrency), values) s. append_at target (concurrency, median values) s) grouped [])"

definition sorted_modes :: "row list \<Rightarrow> script_exn + string list" where
  "sorted_modes rows = bind_res (map_res (\<lambda>r. cell r ''mode'') rows) (\<lambda>ms. Inr (map fst (sort_items (map (\<lambda>m. (m, ())) (remdups ms)))))"

definition plot_main :: "(real \<Rightarrow> string) \<Rightarrow> (real \<Rightarrow> string) \<Rightarrow> (string \<Rightarrow> real option) \<Rightarrow> row list \<Rightarrow> script_exn + (string \<times> string) list" where
  "plot_main fr fixed parse_float rows =
     bind_res (sorted_modes rows) (\<lambda>modes.
     bind_res (map_res (\<lambda>(mode, metric, title).
         bind_res (group_rows parse_float mode metric rows) (\<lambda>grouped.
           Inr (case render fr fixed title (series_of grouped) of
               None \<Rightarrow> [] | Some svg \<Rightarrow> [(mode @ ''-'' @ metric @ ''.svg'', svg)])))
       (concat (map (\<lambda>mode. map (\<lambda>(metric, title). (mode, metric, title)) PLOTS) modes))) (\<lambda>files. Inr (concat files)))"

section \<open>Every point is inside the frame\<close>

lemma position_less: "v \<in> set xs \<Longrightarrow> position xs v < length xs"
  by (induction xs) (auto simp: position_def)

lemma position_nth: "v \<in> set xs \<Longrightarrow> xs ! position xs v = v"
  using nth_length_takeWhile [of "\<lambda>x. x \<noteq> v" xs] position_less [of v xs] by (simp add: position_def)

lemma position_mono:
  assumes "sorted xs" "u \<in> set xs" "v \<in> set xs" "u < v"
  shows "position xs u < position xs v"
proof (rule ccontr)
  assume "\<not> position xs u < position xs v"
  then have "xs ! position xs v \<le> xs ! position xs u" using assms position_less by (intro sorted_nth_mono) auto
  then show False using assms position_nth by (metis not_le)
qed

lemma y_max_bound:
  assumes "p \<in> set points" "\<forall>q\<in>set points. 0 \<le> snd q"
  shows "snd p \<le> y_max points \<and> 0 < y_max points"
proof -
  have ne: "points \<noteq> []" using assms(1) by auto
  have "fold max (map snd (tl points)) (snd (hd points)) = Max (snd ` set points)"
    using Max.set_eq_fold [of "snd (hd points)" "map snd (tl points)"] ne by (cases points) simp_all
  moreover have "snd p \<le> Max (snd ` set points)" using assms(1) by simp
  moreover have "0 \<le> snd p" using assms by simp
  ultimately show ?thesis by (auto simp: y_max_def Let_def)
qed

lemma x_pos_inside:
  assumes "v \<in> set xs"
  shows "80 \<le> x_pos xs v \<and> x_pos xs v \<le> 770"
proof -
  have p: "real (position xs v) \<le> real (length xs) - 1" using position_less [OF assms] by linarith
  show ?thesis
  proof (cases "length xs = 1")
    case False
    then have "0 < real (length xs) - 1" using position_less [OF assms] by linarith
    then have "real (position xs v) / (real (length xs) - 1) \<le> 1" "0 \<le> real (position xs v) / (real (length xs) - 1)" using p by simp_all
    moreover have "x_pos xs v = 80 + 690 * (real (position xs v) / (real (length xs) - 1))" using False by (simp add: x_pos_def)
    ultimately show ?thesis by linarith
  qed (simp add: x_pos_def)
qed

lemma x_pos_mono:
  assumes "sorted xs" "u \<in> set xs" "v \<in> set xs" "u < v"
  shows "x_pos xs u < x_pos xs v"
proof -
  have p: "position xs u < position xs v" by (rule position_mono [OF assms])
  then have n: "1 < length xs" using position_less [OF assms(3)] by linarith
  then have "real (position xs u) * 690 / (real (length xs) - 1) < real (position xs v) * 690 / (real (length xs) - 1)"
    using p by (intro divide_strict_right_mono) simp_all
  then show ?thesis using n by (simp add: x_pos_def)
qed

text \<open>
  A plot shows its data. As long as no value is negative, every point lies inside the frame of the plot; a higher concurrency is
  further to the right, and a greater value is higher up, on the same scale in all series.
\<close>

theorem plot_points_inside:
  assumes "points = concat (map snd series)" and "\<forall>q\<in>set points. 0 \<le> snd q" and "p \<in> set points" and "q \<in> set points"
  shows "80 \<le> x_pos (x_values points) (fst p) \<and> x_pos (x_values points) (fst p) \<le> 770 \<and>
    55 \<le> y_pos (y_max points) (snd p) \<and> y_pos (y_max points) (snd p) \<le> 410 \<and>
    (fst p < fst q \<longrightarrow> x_pos (x_values points) (fst p) < x_pos (x_values points) (fst q)) \<and>
    (snd p < snd q \<longrightarrow> y_pos (y_max points) (snd q) < y_pos (y_max points) (snd p))"
proof -
  have srt: "sorted (x_values points)" and xs: "fst p \<in> set (x_values points)" "fst q \<in> set (x_values points)"
    using assms(3,4) by (simp_all add: x_values_def)
  note y = y_max_bound [OF assms(3,2)]
  have h: "y_pos (y_max points) v = 410 - 355 * (v / y_max points)" for v by (simp add: y_pos_def)
  have "0 \<le> snd p / y_max points" "snd p / y_max points \<le> 1" using y assms(2,3) by simp_all
  then have "55 \<le> y_pos (y_max points) (snd p) \<and> y_pos (y_max points) (snd p) \<le> 410" unfolding h by linarith
  moreover have "y_pos (y_max points) (snd q) < y_pos (y_max points) (snd p)" if less: "snd p < snd q"
  proof -
    have "snd p / y_max points < snd q / y_max points" using less y by (intro divide_strict_right_mono) simp_all
    then show ?thesis unfolding h by linarith
  qed
  ultimately show ?thesis using x_pos_inside [OF xs(1)] x_pos_mono [OF srt xs] by blast
qed

theorem plot_points_inside_witness:
  "80 \<le> x_pos (x_values [(1, 2), (4, 3)]) 1 \<and> y_pos (y_max [(1, 2), (4, 3)]) 3 < y_pos (y_max [(1, 2), (4, 3)]) 2"
  using plot_points_inside [of "[(1, 2), (4, 3)]" "[(''direct'', [(1, 2), (4, 3)])]" "(1, 2)" "(4, 3)"] by simp

end
