(* ===== verification/Gw_Tenant_Run.thy ===== *)
theory Gw_Tenant_Run
  imports Gw_Counters
begin

text \<open>
  \<open>benchmark/scripts/run_tenant_isolation.py\<close>: two benchmark clients at a time, one per tenant. Processes are addressed by index; what
  opening a file, starting a process and writing its record do, and how a process ends, are parameters.
\<close>

section \<open>Processes\<close>

record client_process =
  cp_command :: "string list"
  cp_token :: string
  cp_finished :: bool
  cp_terminated :: bool
  cp_logs_closed :: bool

record scenario_state =
  clients :: "client_process list"
  slept :: "real list"

text \<open>\<open>w_running\<close>: whether a process that nobody has waited for still runs when it is polled.\<close>

record client_world =
  w_mkdir :: "path \<Rightarrow> script_exn + unit"
  w_open :: "path \<Rightarrow> script_exn + unit"
  w_spawn :: "string list \<Rightarrow> script_exn + unit"
  w_record :: "path \<Rightarrow> script_exn + unit"
  w_exit :: "string list \<Rightarrow> int"
  w_running :: "nat \<Rightarrow> bool"

definition sibling :: "path \<Rightarrow> string \<Rightarrow> path" where
  "sibling out_path name = path_join (path_parent out_path) (py_path name)"

definition dict_or :: "script_exn \<Rightarrow> json \<Rightarrow> script_exn + json_dict" where
  "dict_or e j = (case j of JObj d \<Rightarrow> Inr d | _ \<Rightarrow> Inl e)"

definition token_of :: "(string \<Rightarrow> string option) \<Rightarrow> json \<Rightarrow> script_exn + string" where
  "token_of env credential = (case credential of
      JStr name \<Rightarrow> (case env name of
          Some token \<Rightarrow> Inr token
        | None \<Rightarrow> Inl (SValueError ''required credential environment variable is unset''))
    | _ \<Rightarrow> Inl STypeError)"

section \<open>Starting a client\<close>

text \<open>The result file of a client, the configuration and the target for its command, and the rest that the command is made of.\<close>

record client_plan =
  cl_output :: path
  cl_config :: json_dict
  cl_target :: json_dict
  cl_label :: json
  cl_credential :: json
  cl_concurrency :: int

definition client_inputs :: "client_world \<Rightarrow> json_dict \<Rightarrow> json \<Rightarrow> path \<Rightarrow> json \<Rightarrow> script_exn + client_plan" where
  "client_inputs w config client output_root scenario =
     bind_res (bind_res (get_item client ''requests'') py_int_of) (\<lambda>requests.
     bind_res (bind_res (get_method client ''warmup'' (dict_get_or config ''warmup'' (JInt 20))) py_int_of) (\<lambda>warmup.
     bind_res (bind_res (get_item (JObj config) ''target'') (dict_or STypeError)) (\<lambda>t.
     bind_res (get_item client ''label'') (\<lambda>label.
     bind_res (get_item client ''auth_token_env'') (\<lambda>credential.
     bind_res (divide_path output_root scenario) (\<lambda>scenario_root.
     bind_res (divide_path scenario_root label) (\<lambda>client_root.
     let out_path = path_join client_root (py_path ''client-result.json'')
     in
     bind_res (w_mkdir w (path_parent out_path)) (\<lambda>_.
     bind_res (bind_res (get_item client ''concurrency'') py_int_of) (\<lambda>concurrency.
       Inr \<lparr>cl_output = out_path,
            cl_config = AList.update ''warmup'' (JInt warmup) (AList.update ''requests'' (JInt requests) config),
            cl_target = AList.update ''auth_token_env'' credential (AList.update ''label'' label t),
            cl_label = label, cl_credential = credential, cl_concurrency = concurrency\<rparr>)))))))))"

text \<open>Up to the environment of the process: its result file, its command and its credential.\<close>

definition plan_client :: "client_world \<Rightarrow> matrix_host \<Rightarrow> json_dict \<Rightarrow> json \<Rightarrow> path \<Rightarrow> json \<Rightarrow> script_exn + path \<times> string list \<times> string" where
  "plan_client w h config client output_root scenario = (case client_inputs w config client output_root scenario of
      Inl e \<Rightarrow> Inl e
    | Inr p \<Rightarrow>
       (case build_command (h_repr h) (h_base h) (cl_config p) (cl_target p) ''non_streaming'' (cl_concurrency p) 1 1 (cl_output p)
            (py_str (h_repr h) scenario @ ''-'' @ py_str (h_repr h) (cl_label p)) of
          Inl e \<Rightarrow> Inl e
        | Inr command \<Rightarrow> bind_res (token_of (h_env h) (cl_credential p)) (\<lambda>token. Inr (cl_output p, command, token))))"

definition start_client :: "client_world \<Rightarrow> matrix_host \<Rightarrow> json_dict \<Rightarrow> json \<Rightarrow> path \<Rightarrow> json \<Rightarrow> scenario_state \<Rightarrow>
    (script_exn + nat) \<times> scenario_state" where
  "start_client w h config client output_root scenario st =
     (case bind_res (plan_client w h config client output_root scenario) (\<lambda>(out_path, command, token).
         bind_res (w_open w (sibling out_path ''stdout.log'')) (\<lambda>_.
         bind_res (w_open w (sibling out_path ''stderr.log'')) (\<lambda>_.
         bind_res (w_spawn w command) (\<lambda>_. Inr (out_path, command, token))))) of
        Inl e \<Rightarrow> (Inl e, st)
      | Inr (out_path, command, token) \<Rightarrow>
         (let st1 = st\<lparr>clients := clients st @ [\<lparr>cp_command = command, cp_token = token, cp_finished = False, cp_terminated = False,
                cp_logs_closed = False\<rparr>]\<rparr>
          in case w_record w (process_path out_path) of
               Inl e \<Rightarrow> (Inl e, st1)
             | Inr _ \<Rightarrow> (Inr (length (clients st)), st1)))"

section \<open>Running both\<close>

type_synonym registry = "(json \<times> nat) list"

definition pause :: "matrix_host \<Rightarrow> json_dict \<Rightarrow> scenario_state \<Rightarrow> (script_exn + unit) \<times> scenario_state" where
  "pause h config st = (case py_float_of (h_float h) (dict_get_or config ''probe_start_delay_seconds'' (JInt 1)) of
      Inl e \<Rightarrow> (Inl e, st)
    | Inr d \<Rightarrow> if d < 0 then (Inl (SValueError ''sleep length must be non-negative''), st) else (Inr (), st\<lparr>slept := slept st @ [d]\<rparr>))"

fun start_all :: "client_world \<Rightarrow> matrix_host \<Rightarrow> json_dict \<Rightarrow> path \<Rightarrow> json \<Rightarrow> bool \<Rightarrow> json list \<Rightarrow> registry \<Rightarrow> scenario_state \<Rightarrow>
    (script_exn + unit) \<times> registry \<times> scenario_state" where
  "start_all w h config output_root scenario is_first [] registered st = (Inr (), registered, st)"
| "start_all w h config output_root scenario is_first (client # rest) registered st =
     (case (if is_first then (Inr (), st) else pause h config st) of
        (Inl e, st1) \<Rightarrow> (Inl e, registered, st1)
      | (Inr _, st1) \<Rightarrow>
         (case start_client w h config client output_root scenario st1 of
            (Inl e, st2) \<Rightarrow> (Inl e, registered, st2)
          | (Inr pid, st2) \<Rightarrow>
             (case get_item client ''label'' of
                Inl e \<Rightarrow> (Inl e, registered, st2)
              | Inr label \<Rightarrow> start_all w h config output_root scenario False rest (registered @ [(label, pid)]) st2)))"

definition update_client :: "nat \<Rightarrow> (client_process \<Rightarrow> client_process) \<Rightarrow> scenario_state \<Rightarrow> scenario_state" where
  "update_client pid f st = st\<lparr>clients := (clients st)[pid := f (clients st ! pid)]\<rparr>"

text \<open>\<open>wait\<close> on every process, in order; the processes that failed.\<close>

fun wait_all :: "client_world \<Rightarrow> registry \<Rightarrow> scenario_state \<Rightarrow> (json \<times> int) list \<times> scenario_state" where
  "wait_all w [] st = ([], st)"
| "wait_all w ((label, pid) # rest) st =
     (let status = w_exit w (cp_command (clients st ! pid));
          (failed, st1) = wait_all w rest (update_client pid (\<lambda>c. c\<lparr>cp_finished := True, cp_logs_closed := True\<rparr>) st)
      in (if status \<noteq> 0 then (label, status) # failed else failed, st1))"

text \<open>The handler: what still runs is terminated and waited for; logs are closed.\<close>

fun clean_up :: "client_world \<Rightarrow> registry \<Rightarrow> scenario_state \<Rightarrow> scenario_state" where
  "clean_up w [] st = st"
| "clean_up w ((label, pid) # rest) st =
     clean_up w rest (update_client pid (\<lambda>c. c\<lparr>cp_finished := True,
       cp_terminated := cp_terminated c \<or> \<not> cp_finished c \<and> w_running w pid, cp_logs_closed := True\<rparr>) st)"

text \<open>The body of \<open>try\<close>, with what has been registered when it ends.\<close>

definition py_len :: "json \<Rightarrow> script_exn + nat" where
  "py_len j = (case j of JList xs \<Rightarrow> Inr (length xs) | JObj kvs \<Rightarrow> Inr (length kvs) | JStr s \<Rightarrow> Inr (length s) | _ \<Rightarrow> Inl STypeError)"

definition scenario_config :: "client_world \<Rightarrow> matrix_host \<Rightarrow> string \<Rightarrow> script_exn + json \<Rightarrow> script_exn + json_dict \<times> json \<times> json list" where
  "scenario_config w h timestamp contents =
     bind_res contents (\<lambda>raw.
     bind_res (bind_res (expand (h_env h) raw) (dict_or SAttributeError)) (\<lambda>config.
     bind_res (if py_same (dict_get config ''schema_version'') (JInt 1)
               then bind_res (py_len (dict_get_or config ''clients'' (JList []))) (\<lambda>n. Inr (n = 2)) else Inr False) (\<lambda>ok.
     if \<not> ok then Inl (SValueError ''tenant scenario requires schema_version 1 and exactly two clients'')
     else
      bind_res (get_item (JObj config) ''target'') (\<lambda>target.
      bind_res (validate_admission (h_repr h) target) (\<lambda>_.
      bind_res (iterate (dict_get config ''clients'')) (\<lambda>cs.
        let given = dict_get config ''run_id''
        in Inr (config, if py_truthy given then given else JStr timestamp, cs)))))))"

definition tenant_body :: "client_world \<Rightarrow> matrix_host \<Rightarrow> string \<Rightarrow> script_exn + json \<Rightarrow> path \<Rightarrow> scenario_state \<Rightarrow>
    (script_exn + unit) \<times> registry \<times> scenario_state" where
  "tenant_body w h timestamp contents output_root st =
     (case scenario_config w h timestamp contents of
        Inl e \<Rightarrow> (Inl e, [], st)
      | Inr (config, scenario, cs) \<Rightarrow>
         (case start_all w h config output_root scenario True cs [] st of
            (Inl e, registered, st1) \<Rightarrow> (Inl e, registered, st1)
          | (Inr _, registered, st1) \<Rightarrow>
             (let (failed, st2) = wait_all w registered st1
              in (if failed \<noteq> [] then Inl (SRuntimeError ''exit'') else Inr (), registered, st2))))"

definition caught :: "script_exn \<Rightarrow> bool" where
  "caught e \<longleftrightarrow> (case e of SOSError m \<Rightarrow> True | SValueError m \<Rightarrow> True | SJSONDecodeError \<Rightarrow> True | SRuntimeError m \<Rightarrow> True | _ \<Rightarrow> False)"

definition tenant_main :: "client_world \<Rightarrow> matrix_host \<Rightarrow> string \<Rightarrow> script_exn + json \<Rightarrow> path \<Rightarrow> scenario_state \<Rightarrow>
    (script_exn + int) \<times> scenario_state" where
  "tenant_main w h timestamp contents output_root st = (case tenant_body w h timestamp contents output_root st of
      (Inr _, registered, st1) \<Rightarrow> (Inr 0, st1)
    | (Inl e, registered, st1) \<Rightarrow> if caught e then (Inr 1, clean_up w registered st1) else (Inl e, st1))"

section \<open>No client is left behind\<close>

lemma length_update_client [simp]: "length (clients (update_client pid f st)) = length (clients st)"
  by (simp add: update_client_def)

lemma nth_update_client: "i < length (clients st) \<Longrightarrow> clients (update_client pid f st) ! i = (if i = pid then f (clients st ! i) else clients st ! i)"
  by (simp add: update_client_def)

definition waited :: "client_process \<Rightarrow> client_process" where
  "waited c = c\<lparr>cp_finished := True, cp_logs_closed := True\<rparr>"

lemma wait_all_exact:
  "wait_all w registered st = (failed, st') \<Longrightarrow> length (clients st') = length (clients st) \<and>
   (\<forall>i<length (clients st). clients st' ! i = (if i \<in> snd ` set registered then waited (clients st ! i) else clients st ! i)) \<and>
   (failed = [] \<longrightarrow> (\<forall>i\<in>snd ` set registered. i < length (clients st) \<longrightarrow> w_exit w (cp_command (clients st ! i)) = 0))"
proof (induction w registered st arbitrary: failed st' rule: wait_all.induct)
  case (2 w label pid rest st)
  let ?st = "update_client pid (\<lambda>c. c\<lparr>cp_finished := True, cp_logs_closed := True\<rparr>) st"
  obtain more where m: "wait_all w rest ?st = (more, st')"
    "failed = (if w_exit w (cp_command (clients st ! pid)) \<noteq> 0 then (label, w_exit w (cp_command (clients st ! pid))) # more else more)"
    using 2(2) by (auto simp: Let_def split: prod.splits)
  have same: "clients ?st ! i = (if i = pid then waited (clients st ! i) else clients st ! i)" if "i < length (clients st)" for i
    using that by (simp add: nth_update_client waited_def)
  note IH = "2.IH" [OF refl m(1)]
  have twice: "waited (waited c) = waited c" "cp_command (waited c) = cp_command c" for c by (simp_all add: waited_def)
  show ?case
  proof (intro conjI allI impI ballI)
    show "clients st' ! i = (if i \<in> snd ` set ((label, pid) # rest) then waited (clients st ! i) else clients st ! i)"
      if "i < length (clients st)" for i using IH same [OF that] that twice by auto
    show "w_exit w (cp_command (clients st ! i)) = 0"
      if "failed = []" "i \<in> snd ` set ((label, pid) # rest)" "i < length (clients st)" for i
    proof -
      have "w_exit w (cp_command (clients st ! pid)) = 0" "more = []" using m(2) that(1) by (auto split: if_splits)
      then show ?thesis using that(2,3) IH same [OF that(3)] twice by (auto split: if_splits)
    qed
  qed (use IH in simp)
qed simp

definition ended :: "client_process \<Rightarrow> bool" where
  "ended c \<longleftrightarrow> cp_finished c \<and> cp_logs_closed c"

lemma clean_up_exact:
  "length (clients (clean_up w registered st)) = length (clients st) \<and>
   (\<forall>i<length (clients st). i \<in> snd ` set registered \<or> ended (clients st ! i) \<longrightarrow> ended (clients (clean_up w registered st) ! i))"
proof (induction w registered st rule: clean_up.induct)
  case (2 w label pid rest st)
  let ?st = "update_client pid (\<lambda>c. c\<lparr>cp_finished := True,
       cp_terminated := cp_terminated c \<or> \<not> cp_finished c \<and> w_running w pid, cp_logs_closed := True\<rparr>) st"
  have "ended (clients ?st ! i)" if "i < length (clients st)" "i = pid \<or> ended (clients st ! i)" for i
    using that by (auto simp: nth_update_client ended_def)
  then show ?case using 2 by auto
qed simp

definition registered_all :: "registry \<Rightarrow> scenario_state \<Rightarrow> bool" where
  "registered_all registered st \<longleftrightarrow> snd ` set registered = {..<length (clients st)} \<and>
     list_all (\<lambda>c. \<not> cp_finished c \<and> \<not> cp_terminated c) (clients st)"

lemma plan_client_label: "plan_client w h config client base scenario = Inr y \<Longrightarrow> \<exists>label. get_item client ''label'' = Inr label"
  by (cases "get_item client ''label''") (auto simp: plan_client_def client_inputs_def bind_res_Inr_iff split: sum.splits)

lemma start_client_outcome:
  assumes "start_client w h config client base scenario st = (r, st')" and "\<And>p. \<not> isl (w_record w p)"
  shows "(\<exists>e. r = Inl e \<and> st' = st) \<or> (\<exists>label c. r = Inr (length (clients st)) \<and> get_item client ''label'' = Inr label \<and>
    st' = st\<lparr>clients := clients st @ [c]\<rparr> \<and> \<not> cp_finished c \<and> \<not> cp_terminated c)"
proof (cases "bind_res (plan_client w h config client base scenario) (\<lambda>(out_path, command, token).
         bind_res (w_open w (sibling out_path ''stdout.log'')) (\<lambda>_.
         bind_res (w_open w (sibling out_path ''stderr.log'')) (\<lambda>_.
         bind_res (w_spawn w command) (\<lambda>_. Inr (out_path, command, token)))))")
  case (Inl e)
  then show ?thesis using assms(1) by (auto simp: start_client_def)
next
  case (Inr x)
  obtain out_path command token where x: "x = (out_path, command, token)" by (cases x) auto
  obtain y where "plan_client w h config client base scenario = Inr y" using Inr by (auto simp: bind_res_Inr_iff)
  then obtain label where "get_item client ''label'' = Inr label" using plan_client_label by blast
  moreover obtain u where "w_record w (process_path out_path) = Inr u" using assms(2) by (metis sum.collapse(2))
  ultimately show ?thesis using assms(1) Inr x by (auto simp: start_client_def Let_def)
qed

lemma pause_clients: "pause h config st = (r, st') \<Longrightarrow> clients st' = clients st"
  by (auto simp: pause_def split: sum.splits if_splits)

lemma start_all_registers:
  "start_all w h config base scenario is_first cs registered st = (r, registered', st') \<Longrightarrow> (\<And>p. \<not> isl (w_record w p)) \<Longrightarrow>
   registered_all registered st \<Longrightarrow>
   registered_all registered' st' \<and> (r = Inr () \<longrightarrow> length (clients st') = length (clients st) + length cs)"
proof (induction cs arbitrary: is_first registered st)
  case (Cons client rest)
  obtain p st1 where p: "(if is_first then (Inr (), st) else pause h config st) = (p, st1)" by fastforce
  then have st1: "clients st1 = clients st" using pause_clients by (auto split: if_splits)
  then have reg1: "registered_all registered st1" using Cons.prems(3) by (simp add: registered_all_def)
  show ?case
  proof (cases p)
    case (Inl e)
    then show ?thesis using Cons.prems(1) p reg1 by auto
  next
    case (Inr u)
    obtain q st2 where q: "start_client w h config client base scenario st1 = (q, st2)" by fastforce
    from start_client_outcome [OF this Cons.prems(2)] show ?thesis
    proof (elim disjE exE conjE)
      fix e assume "q = Inl e" "st2 = st1"
      then show ?thesis using Cons.prems(1) p q Inr reg1 by auto
    next
      fix label c assume n: "q = Inr (length (clients st1))" "get_item client ''label'' = Inr label"
        "st2 = st1\<lparr>clients := clients st1 @ [c]\<rparr>" "\<not> cp_finished c" "\<not> cp_terminated c"
      have "registered_all (registered @ [(label, length (clients st1))]) st2"
        using reg1 n(3-5) by (auto simp: registered_all_def lessThan_Suc)
      moreover have "start_all w h config base scenario False rest (registered @ [(label, length (clients st1))]) st2 = (r, registered', st')"
        using Cons.prems(1) p q Inr n(1,2) by simp
      ultimately show ?thesis using Cons.IH Cons.prems(2) n(3) st1 by fastforce
    qed
  qed
qed simp

lemma scenario_config_two:
  assumes "scenario_config w h timestamp contents = Inr (config, scenario, cs)"
  shows "length cs = 2"
proof -
  obtain d where "py_len (dict_get_or d ''clients'' (JList [])) = Inr 2" "iterate (dict_get d ''clients'') = Inr cs"
    using assms by (auto simp: scenario_config_def bind_res_Inr_iff Let_def split: if_splits)
  then show ?thesis
    by (cases "map_of d ''clients''"; cases "the (map_of d ''clients'')")
      (auto simp: py_len_def dict_get_or_def dict_get_def iterate_def)
qed


section \<open>Examples\<close>

definition example_client :: "string \<Rightarrow> json" where
  "example_client label = JObj [(''label'', JStr label), (''auth_token_env'', JStr ''T''), (''requests'', JInt 1), (''concurrency'', JInt 1)]"

definition example_scenario :: "json list \<Rightarrow> json" where
  "example_scenario cs = JObj [(''schema_version'', JInt 1), (''model'', JStr ''m''), (''dataset'', JStr ''d''),
     (''target'', JObj [(''base_url'', JStr ''u'')]), (''clients'', JList cs)]"

definition example_world :: client_world where
  "example_world = \<lparr>w_mkdir = (\<lambda>_. Inr ()), w_open = (\<lambda>_. Inr ()), w_spawn = (\<lambda>_. Inr ()), w_record = (\<lambda>_. Inr ()),
     w_exit = (\<lambda>_. 0), w_running = (\<lambda>_. True)\<rparr>"

definition tenant_example_host :: matrix_host where
  "tenant_example_host = \<lparr>h_repr = (\<lambda>_. ''0.0''), h_float = (\<lambda>_. None), h_sha256 = id, h_read = (\<lambda>_. Inr []), h_env = (\<lambda>_. Some ''s''),
     h_base = ([], [])\<rparr>"

lemma example_status:
  "fst (tenant_main example_world tenant_example_host ''t'' (Inr (example_scenario [example_client ''a'', example_client ''b'']))
     ([], []) \<lparr>clients = [], slept = []\<rparr>) = Inr 0"
  by code_simp


text \<open>
  The handler does not reach everything: a malformed second client ends the script with a traceback while the first one runs, and a
  client whose record cannot be written is in no registry, so it runs on although the script reports the failure.
\<close>

lemma client_left_running:
  "case tenant_main example_world tenant_example_host ''t'' (Inr (example_scenario [example_client ''a'', JObj []])) ([], [])
     \<lparr>clients = [], slept = []\<rparr> of (r, st) \<Rightarrow> r = Inl SKeyError \<and> map cp_finished (clients st) = [False]"
  "case tenant_main (example_world\<lparr>w_record := \<lambda>_. Inl (SOSError ''full'')\<rparr>) tenant_example_host ''t''
     (Inr (example_scenario [example_client ''a'', example_client ''b''])) ([], []) \<lparr>clients = [], slept = []\<rparr>
     of (r, st) \<Rightarrow> r = Inr 1 \<and> map cp_finished (clients st) = [False]"
  by code_simp+

end
