(* ===== verification/Gw_Sample_System.thy ===== *)
theory Gw_Sample_System
  imports Gw_Counters
begin

text \<open>
  \<open>benchmark/scripts/sample_system.py\<close>: the record of the host and its GPUs. What a command prints and what the platform module and the
  clock say are parameters.
\<close>

text \<open>A command that cannot be run, fails or takes too long has no output; \<open>SCalledProcessError\<close> stands for \<open>SubprocessError\<close>.\<close>

definition command_output :: "(string list \<Rightarrow> script_exn + string) \<Rightarrow> string list \<Rightarrow> script_exn + string option" where
  "command_output run arguments = (case run arguments of
      Inr out \<Rightarrow> Inr (Some (py_strip out))
    | Inl (SOSError m) \<Rightarrow> Inr None
    | Inl SCalledProcessError \<Rightarrow> Inr None
    | Inl e \<Rightarrow> Inl e)"

definition device_of :: "string \<Rightarrow> json option" where
  "device_of line = (let fields = map py_strip (py_split CHR '','' line)
     in if length fields = 4
        then Some (JObj [(''index'', JStr (fields ! 0)), (''name'', JStr (fields ! 1)), (''memory_total_mib'', JStr (fields ! 2)),
               (''driver_version'', JStr (fields ! 3))])
        else None)"

definition gpu_devices :: "string \<Rightarrow> json list" where
  "gpu_devices raw = List.map_filter device_of (py_lines raw)"

definition gpu_record :: "(string list \<Rightarrow> script_exn + string) \<Rightarrow> string option \<Rightarrow> script_exn + json" where
  "gpu_record run nvidia_smi = (let absent = JObj [(''available'', JBool False)]
     in case nvidia_smi of
          None \<Rightarrow> Inr absent
        | Some tool \<Rightarrow>
           if tool = [] then Inr absent
           else bind_res (command_output run [tool, ''--query-gpu=index,name,memory.total,driver_version'', ''--format=csv,noheader,nounits''])
             (\<lambda>out. Inr (case out of
                 None \<Rightarrow> absent
               | Some raw \<Rightarrow> if raw = [] then absent
                   else JObj [(''available'', JBool (gpu_devices raw \<noteq> [])), (''devices'', JList (gpu_devices raw))])))"

record platform_info =
  pi_utc :: string
  pi_hostname :: string
  pi_platform :: string
  pi_kernel :: string
  pi_machine :: string
  pi_python :: string

definition text_or_null :: "string option \<Rightarrow> json" where
  "text_or_null s = (case s of None \<Rightarrow> JNull | Some x \<Rightarrow> JStr x)"

definition collect :: "(string list \<Rightarrow> script_exn + string) \<Rightarrow> string option \<Rightarrow> platform_info \<Rightarrow> script_exn + json_dict" where
  "collect run nvidia_smi p =
     bind_res (gpu_record run nvidia_smi) (\<lambda>gpu.
     bind_res (command_output run [''go'', ''version'']) (\<lambda>go.
     bind_res (command_output run [''nvcc'', ''--version'']) (\<lambda>cuda. Inr
       [(''captured_utc'', JStr (pi_utc p)), (''hostname'', JStr (pi_hostname p)), (''platform'', JStr (pi_platform p)),
        (''kernel'', JStr (pi_kernel p)), (''machine'', JStr (pi_machine p)), (''python_version'', JStr (pi_python p)),
        (''go_version'', text_or_null go), (''cuda_version'', text_or_null cuda), (''gpu'', gpu)])))"

section \<open>What the tool prints is read back\<close>

text \<open>A field of the table: no comma, no line break, no blanks around it.\<close>

definition plain_field :: "string \<Rightarrow> bool" where
  "plain_field f \<longleftrightarrow> CHR '','' \<notin> set f \<and> (\<forall>c\<in>set f. \<not> text_break c) \<and> py_strip f = f"

definition device_line :: "string \<times> string \<times> string \<times> string \<Rightarrow> string" where
  "device_line d = (case d of (i, n, m, v) \<Rightarrow> i @ '', '' @ n @ '', '' @ m @ '', '' @ v)"

definition device_json :: "string \<times> string \<times> string \<times> string \<Rightarrow> json" where
  "device_json d = (case d of (i, n, m, v) \<Rightarrow>
     JObj [(''index'', JStr i), (''name'', JStr n), (''memory_total_mib'', JStr m), (''driver_version'', JStr v)])"

lemma strip_blank: "py_strip (CHR '' '' # f) = py_strip f"
proof -
  have "py_isspace CHR '' ''" by code_simp
  then show ?thesis by (simp add: py_strip_def)
qed

lemma device_line_read:
  assumes "plain_field i" "plain_field n" "plain_field m" "plain_field v"
  shows "device_of (device_line (i, n, m, v)) = Some (device_json (i, n, m, v))"
proof -
  have i: "CHR '','' \<notin> set i" and b: "CHR '','' \<notin> set (CHR '' '' # n)" "CHR '','' \<notin> set (CHR '' '' # m)" "CHR '','' \<notin> set (CHR '' '' # v)"
    using assms by (simp_all add: plain_field_def)
  have "py_split CHR '','' (i @ CHR '','' # (CHR '' '' # n) @ CHR '','' # (CHR '' '' # m) @ CHR '','' # CHR '' '' # v) =
      [i, CHR '' '' # n, CHR '' '' # m, CHR '' '' # v]"
    unfolding py_split_append_sep [OF i] py_split_append_sep [OF b(1)] py_split_append_sep [OF b(2)] py_split_no_sep [OF b(3)] ..
  then show ?thesis using assms by (simp add: device_of_def device_line_def device_json_def strip_blank plain_field_def Let_def)
qed

theorem gpu_devices_read:
  assumes "list_all (\<lambda>(i, n, m, v). plain_field i \<and> plain_field n \<and> plain_field m \<and> plain_field v) ds"
  shows "gpu_devices (concat (map (\<lambda>d. device_line d @ newline) ds)) = map device_json ds"
proof -
  have plain: "plain_field i" "plain_field n" "plain_field m" "plain_field v" if "(i, n, m, v) \<in> set ds" for i n m v
    using assms that by (auto simp: list_all_iff)
  have breaks: "\<forall>l\<in>set (map device_line ds). \<forall>c\<in>set l. \<not> text_break c"
    using plain by (fastforce simp: device_line_def plain_field_def text_break_def code_point_def)
  have "py_lines (concat (map (\<lambda>l. l @ newline) (map device_line ds))) = map device_line ds"
    by (rule py_lines_concat [OF breaks])
  moreover have "device_of (device_line d) = Some (device_json d)" if "d \<in> set ds" for d
    using device_line_read plain that by (cases d) blast
  ultimately show ?thesis by (auto simp: gpu_devices_def map_filter_map_filter o_def map_filter_def intro!: map_idI)
qed

end
