(* ===== verification/Spec2Isabelle.thy ===== *)
theory Spec2Isabelle
  imports Gw_Tenants Gw_Admission_Claims Gw_Pool_Claims Gw_Batcher_Claims Gw_Vllm_Claims Gw_Sse_Claims
    Gw_Routed Gw_Http Gw_Lifespan Gw_Backends Gw_Upstream Gw_Logging Gw_Replica Gw_Vast
    Gw_Prompt Gw_Fingerprint Gw_Summary_Claims Gw_Fake_Server Gw_Plot Gw_Tenant_Run Gw_Sample_System
begin

text \<open>
  A verification of the dynamic-batching LLM inference gateway, the Python package \<open>src/gateway\<close>.

  \<^bold>\<open>The program.\<close> A request for a chat completion is authenticated by its bearer token
  (\<open>auth/tenants.py\<close>), checked against the request model (\<open>schemas/chat.py\<close>) and the configured limits
  (\<open>api/chat.py\<close>), and admitted under limits per tenant and for the whole gateway, with bounded queues and
  round-robin fairness (\<open>admission/controller.py\<close>). A JSON request that is eligible
  (\<open>batching/eligibility.py\<close>) is collected with compatible ones of the same tenant into one upstream batch
  (\<open>batching/dynamic.py\<close>); others go to the backend directly. The pool (\<open>routing/pool.py\<close>) picks the least
  loaded healthy replica and tracks health; the client of a replica (\<open>backends/vllm.py\<close>) talks HTTP,
  translates failures and takes batch responses apart. A stream is passed on by a relay
  (\<open>streaming/relay.py\<close>), which owns the admission lease until it is closed, and watched by a passive
  observer (\<open>observability/sse.py\<close>). Metrics (\<open>observability/metrics.py\<close>), the lifecycle middleware
  (\<open>observability/middleware.py\<close>), request ids (\<open>core/request_id.py\<close>) and error handlers
  (\<open>core/errors.py\<close>) surround it; \<open>app.py\<close> builds everything from the settings (\<open>config.py\<close>) and takes it down
  again. Beside the gateway, scripts validate an experiment's topology, run replicas as processes (\<open>deploy/\<close>), and rent and
  release a machine (\<open>infra/vast/\<close>), and plan, run and check benchmarks (\<open>benchmark/scripts/\<close>).

  \<^bold>\<open>The model.\<close> All code runs on one event loop, so a stretch of code without a suspension point is atomic.
  Each critical section or handler up to its next \<open>await\<close> is one total function on a record of the
  object's state; what an awaited call of other code yields is an argument of the function that goes on from
  there; exceptions are values that do not roll the state back. Tasks, futures, timers, leases and
  streams are heap objects addressed by index. The interleavings are an inductive step relation per
  component, and a property of all runs is an invariant of it, through the locale \<open>inv_system\<close>.
  No definition needs fuel: loops are structural or have a termination proof.

  \<^item> \<open>Gw_Prelude\<close>: Python strings, dictionaries, heaps; the locales \<open>inv_system\<close> and \<open>lease_ledger\<close>.
  \<^item> \<open>Gw_Json\<close>, \<open>Gw_Canonical\<close>: JSON values, the classification of usage reports, \<open>json.dumps\<close> with sorted
    keys or with escaped non-ASCII characters; both are unambiguous, by the locales \<open>escape_code\<close> and \<open>json_text\<close>.
  \<^item> \<open>Gw_Errors\<close>: error classes with inherited attributes, error responses (\<open>core/errors.py\<close>).
  \<^item> \<open>Gw_Tenants\<close>: registry and bearer authentication; it accepts exactly the configured tokens.
  \<^item> \<open>Gw_Schema\<close>, \<open>Gw_Batch_Key\<close>: the request model, eligibility, \<open>compatibility_key\<close>; two requests share a
    key iff they agree on the tenant and on every shared parameter.
  \<^item> \<open>Gw_Admission\<close> models the controller; \<open>Gw_Admission_Inv\<close>, \<open>_Dispatch\<close>, \<open>_Sections\<close>, \<open>_Sys\<close>, \<open>_Props\<close> hold the
    invariants of its state, of the dispatch loop, of each section, the step relation \<open>adm_step\<close> and what
    every step keeps; \<open>Gw_Admission_Claims\<close>: limits, no lost slot or waiter, work conservation, fairness,
    order, shutdown, errors. The parameter \<open>late\<close> of \<open>adm_step\<close> is the contract of \<open>asyncio.wait_for\<close>: true
    since Python 3.12, where a timeout may win against a future that is already done.
  \<^item> \<open>Gw_Pool\<close>, \<open>_Inv\<close>, \<open>_Sys\<close>, \<open>_Claims\<close>: selection, leases, routed streams, probes and closing of the
    pool; accounting, transparency of operations, quiescence, balance.
  \<^item> \<open>Gw_Batcher\<close>, \<open>_Inv\<close>, \<open>_Sys\<close>, \<open>_Claims\<close>: submission, timers, flushes, cancellation and shutdown of the
    batcher; delivery to the right member, isolation of tenants, exact counters, nothing lost.
  \<^item> \<open>Gw_Vllm\<close>, \<open>Gw_Vllm_Claims\<close>: the HTTP client; exact demultiplexing, that every batch the batcher
    flushes passes the client's own checks, closing of streams.
  \<^item> \<open>Gw_Backends\<close>: the backend contract of \<open>backends/base.py\<close> as the locale \<open>batch_backend\<close>, kept by the vLLM client and
    by the fake backend; a batch from the batcher to the server and back to each member.
  \<^item> \<open>Gw_Upstream\<close>: client, pool and handlers together: what every upstream outcome shows the client, and when it
    takes a replica out of rotation.
  \<^item> \<open>Gw_Metrics\<close>: collectors and update methods; exact token accounting.
  \<^item> \<open>Gw_Sse\<close>, \<open>Gw_Sse_Claims\<close>: the observer of a stream, against a reference that takes one byte at a
    time: the cut into chunks makes no difference, the buffer is bounded, each stream is accounted once.
  \<^item> \<open>Gw_Config\<close>, \<open>Gw_App\<close>, \<open>Gw_Lifespan\<close>: settings and their validation, and that validated settings always start;
    built and injected components, and a shutdown that reaches every component whatever fails on the way.
  \<^item> \<open>Gw_Relay\<close>, \<open>Gw_Chat\<close>, \<open>Gw_Gateway\<close>, \<open>Gw_Gateway_Claims\<close>: the relay, the endpoint, and all requests
    together over one admission controller (\<open>gw_step\<close>); the limits bound what is being served, every slot
    comes back, and closing a relay on every branch.
  \<^item> \<open>Gw_Routed\<close>: the endpoint over the pool (\<open>rt_step\<close>), each request linked to the operation or routed stream it
    waits for; the admission limit bounds the load of the backends.
  \<^item> \<open>Gw_Http\<close>, \<open>Gw_Logging\<close>: exception handlers, request ids, lifecycle metrics; log lines that cannot be forged.
  \<^item> \<open>Gw_Topology\<close>, \<open>Gw_Replica\<close>, \<open>Gw_Vast\<close>: the deployment scripts, over models of JSON files, of the process table and of
    the provider's state: the validator is exact, only verified process groups are signalled, the instance that is
    destroyed is the one that was created, and the replacement check decides the order of replacement.
  \<^item> \<open>Gw_Prompt\<close>: the search for a prompt of an exact number of tokens; what it returns and when it ends.
  \<^item> \<open>Gw_Pyjson\<close>, \<open>Gw_Results\<close>: Python's operations on JSON values, and the validator of benchmark results, which accepts exactly
    the sound ones.
  \<^item> \<open>Gw_Matrix\<close>, \<open>Gw_Matrix_Claims\<close>, \<open>Gw_Resume\<close>, \<open>Gw_Fingerprint\<close>: the benchmark matrix of \<open>run_matrix.py\<close>: its configuration, the
    commands, coordinates and fingerprints of its runs, their execution, and what a resumption skips; a balanced order, runs that
    never share an artifact, a resumption that completes the matrix and skips a run only for its own result.
  \<^item> \<open>Gw_Counters\<close>, \<open>Gw_Compare\<close>, \<open>Gw_Summary\<close>, \<open>Gw_Compare_Claims\<close>, \<open>Gw_Summary_Claims\<close>: \<open>summarize.py\<close>: the exposition parser and
    counter increases, which add up; the comparison of the arms, which takes only results that belong together; medians; a report
    whose exit status zero means that nothing was left out.
  \<^item> \<open>Gw_Fake_Server\<close>, \<open>Gw_Tenant_Run\<close>, \<open>Gw_Plot\<close>, \<open>Gw_Sample_System\<close>: the other benchmark scripts: tokens of a smoke test measured exactly, clients
    that are waited for, points inside the frame of a plot, the table of GPUs read back.

  \<^bold>\<open>Parameters.\<close> The text of a float (\<open>float.__repr__\<close>), the parser \<open>json.loads\<close>, the URL type of pydantic, the
  clock, generated ids and what the HTTP library, the backends and the server yield are arguments, with
  the documented behaviour that is relied on as named hypotheses (\<open>float_repr_ok\<close>). Strings are
  lists of Latin-1 characters. Durations, clock readings and the metrics of benchmark results are real numbers, so their arithmetic is exact;
  floats that come from a request are compared and printed, never computed with.

  \<^bold>\<open>Not modelled.\<close> The Prometheus text format (\<open>api/metrics.py\<close>); the configuration of the standard logging module; the log
  records that components emit beside the access log, on which nothing depends; the parsing and coercion of pydantic and of
  argparse; the web framework's dispatch and what it does between the return of the endpoint and the call of the response; the
  installation of middleware and routers; the texts of CSV and JSON files, which the standard library writes. The batcher and the endpoint have their own step relations:
  the compositions cover the endpoint with the admission controller, the relays and the pool, batches from the batcher to the
  client and back, and the client with the pool and the handlers.
\<close>

end
